(* ===== verification/ADTP_Prelude.thy ===== *)
theory ADTP_Prelude
  imports Complex_Main "HOL-Library.Word" "HOL-Library.Multiset"
begin

text \<open>
  Shared ground of the development: the names of the model's base types, the
  error-result combinators that stand for Go's \<open>if err != nil { return err }\<close>,
  and the lemma collections the component theories add to.

  A Go \<open>string\<close> or \<open>[]byte\<close> is a list of 8-bit characters, \<^typ>\<open>string\<close>.  A Go
  \<open>int64\<close> (and \<open>int\<close>, which is 64 bits wide on the supported platforms) is a
  \<open>64 word\<close>: addition and subtraction wrap, comparison reads it with
  \<^const>\<open>sint\<close>.  A function returning \<open>(T, error)\<close> returns \<open>'e + 't\<close>, with
  \<^const>\<open>Inl\<close> for the error; \<open>errors.Is\<close> distinguishes wrapped sentinels, so an
  error value is the sentinel and the detail text is dropped.
\<close>

type_synonym bytes = string
type_synonym i64 = "64 word"

abbreviation slt :: "i64 \<Rightarrow> i64 \<Rightarrow> bool" where
  "slt a b \<equiv> sint a < sint b"

abbreviation sle :: "i64 \<Rightarrow> i64 \<Rightarrow> bool" where
  "sle a b \<equiv> sint a \<le> sint b"

named_theorems err_simps \<open>unfolding of error results\<close>
named_theorems uri_simps \<open>facts about canonical URIs\<close>
named_theorems step_simps \<open>verification steps\<close>

subsection \<open>Error results\<close>

definition is_ok :: "'e + 'a \<Rightarrow> bool" where
  "is_ok r = (case r of Inl _ \<Rightarrow> False | Inr _ \<Rightarrow> True)"

definition bindE :: "'e + 'a \<Rightarrow> ('a \<Rightarrow> 'e + 'b) \<Rightarrow> 'e + 'b" where
  "bindE m f = (case m of Inl e \<Rightarrow> Inl e | Inr x \<Rightarrow> f x)"

definition mapErr :: "('e \<Rightarrow> 'f) \<Rightarrow> 'e + 'a \<Rightarrow> 'f + 'a" where
  "mapErr g m = (case m of Inl e \<Rightarrow> Inl (g e) | Inr x \<Rightarrow> Inr x)"

lemma is_ok_simps [simp]: "is_ok (Inr x)" "\<not> is_ok (Inl e)"
  by (simp_all add: is_ok_def)

lemma is_ok_iff: "is_ok r \<longleftrightarrow> (\<exists>x. r = Inr x)"
  by (cases r) (auto simp: is_ok_def)

lemma bindE_simps [simp]: "bindE (Inl e) f = Inl e" "bindE (Inr x) f = f x"
  by (simp_all add: bindE_def)

lemma mapErr_simps [simp]: "mapErr g (Inl e) = Inl (g e)" "mapErr g (Inr x) = Inr x"
  by (simp_all add: mapErr_def)

lemma bindE_Inr_iff [err_simps]: "bindE m f = Inr y \<longleftrightarrow> (\<exists>x. m = Inr x \<and> f x = Inr y)"
  by (cases m) auto

lemma bindE_Inl_iff [err_simps]:
  "bindE m f = Inl e \<longleftrightarrow> m = Inl e \<or> (\<exists>x. m = Inr x \<and> f x = Inl e)"
  by (cases m) auto

lemma mapErr_Inr_iff [err_simps]: "mapErr g m = Inr y \<longleftrightarrow> m = Inr y"
  by (cases m) auto

lemma mapErr_Inl_iff [err_simps]: "mapErr g m = Inl f \<longleftrightarrow> (\<exists>e. m = Inl e \<and> f = g e)"
  by (cases m) auto

lemma if_Inl_Inr_iff [err_simps]:
  "(if b then Inl e else r) = Inr y \<longleftrightarrow> \<not> b \<and> r = Inr y"
  by simp

subsection \<open>Loops with an early error return\<close>

text \<open>\<open>for _, x := range xs { if err := f(x); err != nil { return err } }\<close>\<close>

fun iterE :: "('a \<Rightarrow> 'e + unit) \<Rightarrow> 'a list \<Rightarrow> 'e + unit" where
  "iterE f [] = Inr ()"
| "iterE f (x # xs) = (case f x of Inl e \<Rightarrow> Inl e | Inr _ \<Rightarrow> iterE f xs)"

lemma iterE_ok_iff [err_simps]: "iterE f xs = Inr u \<longleftrightarrow> (\<forall>x \<in> set xs. f x = Inr ())"
  by (induction xs) (auto split: sum.splits)

lemma is_ok_iterE: "is_ok (iterE f xs) \<longleftrightarrow> (\<forall>x \<in> set xs. is_ok (f x))"
  by (induction xs) (auto split: sum.splits)

lemma iterE_InlD: "iterE f xs = Inl e \<Longrightarrow> \<exists>x \<in> set xs. f x = Inl e"
  by (induction xs) (auto split: sum.splits)

lemma iterE_append: "iterE f (xs @ ys) = bindE (iterE f xs) (\<lambda>_. iterE f ys)"
  by (induction xs) (auto split: sum.splits)

text \<open>Adjacent pairs, for the loops over the hops of a chain.\<close>

fun hops :: "'a list \<Rightarrow> ('a \<times> 'a) list" where
  "hops (x # y # zs) = (x, y) # hops (y # zs)"
| "hops _ = []"

lemma hops_nth: "set (hops xs) = {(xs ! i, xs ! Suc i) | i. Suc i < length xs}"
proof (induction xs rule: hops.induct)
  case (1 x y zs)
  have "{((x # y # zs) ! i, (x # y # zs) ! Suc i) | i. Suc i < length (x # y # zs)}
      = insert (x, y) {((y # zs) ! i, (y # zs) ! Suc i) | i. Suc i < length (y # zs)}"
    (is "?l = ?r")
  proof
    show "?l \<subseteq> ?r"
    proof
      fix p assume "p \<in> ?l"
      then obtain i where i: "p = ((x # y # zs) ! i, (x # y # zs) ! Suc i)"
        "Suc i < length (x # y # zs)" by blast
      then show "p \<in> ?r" by (cases i) auto
    qed
    show "?r \<subseteq> ?l"
    proof
      fix p assume "p \<in> ?r"
      then consider "p = (x, y)"
        | i where "p = ((y # zs) ! i, (y # zs) ! Suc i)" "Suc i < length (y # zs)" by blast
      then show "p \<in> ?l"
      proof cases
        case 1
        then have "p = ((x # y # zs) ! 0, (x # y # zs) ! Suc 0)" by simp
        then show ?thesis by fastforce
      next
        case (2 i)
        then have "p = ((x # y # zs) ! Suc i, (x # y # zs) ! Suc (Suc i))" by simp
        with 2(2) show ?thesis by fastforce
      qed
    qed
  qed
  with 1 show ?case by simp
qed auto

lemma hops_memD: "(a, b) \<in> set (hops xs) \<Longrightarrow> a \<in> set xs \<and> b \<in> set xs"
  by (induction xs rule: hops.induct) auto

text \<open>First match in a list, for the search loops that stop at a hit.\<close>

fun first_some :: "('a \<Rightarrow> 'b option) \<Rightarrow> 'a list \<Rightarrow> 'b option" where
  "first_some f [] = None"
| "first_some f (x # xs) = (case f x of Some y \<Rightarrow> Some y | None \<Rightarrow> first_some f xs)"

lemma first_some_SomeD: "first_some f xs = Some y \<Longrightarrow> \<exists>x \<in> set xs. f x = Some y"
  by (induction xs) (auto split: option.splits)

lemma first_some_None_iff: "first_some f xs = None \<longleftrightarrow> (\<forall>x \<in> set xs. f x = None)"
  by (induction xs) (auto split: option.splits)

subsection \<open>Sorting with a comparison function\<close>

text \<open>\<open>sort.Slice(xs, less)\<close>.  The library does not promise stability, so the sorts of
  the source are deterministic only because the keys they compare are distinct; the
  uniqueness lemma below is what makes the model of the sort exact.\<close>

fun insort_by :: "('a \<Rightarrow> 'a \<Rightarrow> bool) \<Rightarrow> 'a \<Rightarrow> 'a list \<Rightarrow> 'a list" where
  "insort_by lt x [] = [x]"
| "insort_by lt x (y # ys) = (if lt x y then x # y # ys else y # insort_by lt x ys)"

definition sort_by :: "('a \<Rightarrow> 'a \<Rightarrow> bool) \<Rightarrow> 'a list \<Rightarrow> 'a list" where
  "sort_by lt xs = fold (insort_by lt) xs []"

lemma mset_insort_by [simp]: "mset (insort_by lt x xs) = add_mset x (mset xs)"
  by (induction xs) auto

lemma set_insort_by [simp]: "set (insort_by lt x xs) = insert x (set xs)"
  by (induction xs) auto

lemma mset_sort_by [simp]: "mset (sort_by lt xs) = mset xs"
proof -
  have "mset (fold (insort_by lt) xs ys) = mset xs + mset ys" for ys
    by (induction xs arbitrary: ys) auto
  then show ?thesis by (simp add: sort_by_def)
qed

lemma set_sort_by [simp]: "set (sort_by lt xs) = set xs"
  using mset_sort_by [of lt xs] by (rule mset_eq_setD)

lemma length_sort_by [simp]: "length (sort_by lt xs) = length xs"
  using mset_sort_by [of lt xs] by (rule mset_eq_length)

lemma distinct_map_sort_by [simp]: "distinct (map f (sort_by lt xs)) = distinct (map f xs)"
  by (rule mset_eq_imp_distinct_iff) (simp only: mset_map mset_sort_by)

lemma sort_by_map:
  assumes "\<And>x y. lt' (f x) (f y) = lt x y"
  shows "sort_by lt' (map f xs) = map f (sort_by lt xs)"
proof -
  have ins: "insort_by lt' (f x) (map f ys) = map f (insort_by lt x ys)" for x ys
    by (induction ys) (auto simp: assms)
  have "fold (insort_by lt') (map f xs) (map f ys) = map f (fold (insort_by lt) xs ys)" for ys
    by (induction xs arbitrary: ys) (auto simp: ins)
  from this [of "[]"] show ?thesis by (simp add: sort_by_def)
qed

locale strict_linear =
  fixes lt :: "'k \<Rightarrow> 'k \<Rightarrow> bool"
  assumes lt_irrefl: "\<not> lt a a"
    and lt_trans: "lt a b \<Longrightarrow> lt b c \<Longrightarrow> lt a c"
    and lt_total: "a \<noteq> b \<Longrightarrow> lt a b \<or> lt b a"
begin

lemma lt_asym: "lt a b \<Longrightarrow> \<not> lt b a"
  using lt_irrefl lt_trans by blast

lemma insort_by_sorted:
  assumes "sorted_wrt (\<lambda>a b. lt (key a) (key b)) xs" and "key x \<notin> key ` set xs"
  shows "sorted_wrt (\<lambda>a b. lt (key a) (key b)) (insort_by (\<lambda>a b. lt (key a) (key b)) x xs)"
  using assms
proof (induction xs)
  case (Cons y ys)
  show ?case
  proof (cases "lt (key x) (key y)")
    case True
    with Cons.prems show ?thesis by (auto intro: lt_trans)
  next
    case False
    with Cons.prems lt_total [of "key x" "key y"] have "lt (key y) (key x)" by auto
    with False Cons show ?thesis by auto
  qed
qed simp

lemma sort_by_sorted:
  assumes "distinct (map key xs)"
  shows "sorted_wrt (\<lambda>a b. lt (key a) (key b)) (sort_by (\<lambda>a b. lt (key a) (key b)) xs)"
proof -
  have "sorted_wrt (\<lambda>a b. lt (key a) (key b)) (fold (insort_by (\<lambda>a b. lt (key a) (key b))) xs ys)"
    if "sorted_wrt (\<lambda>a b. lt (key a) (key b)) ys" "distinct (map key xs)"
       "key ` set xs \<inter> key ` set ys = {}" for ys
    using that
  proof (induction xs arbitrary: ys)
    case (Cons x xs)
    have k: "key x \<notin> key ` set ys" "key x \<notin> key ` set xs" using Cons.prems by auto
    have "key ` set xs \<inter> key ` set (insort_by (\<lambda>a b. lt (key a) (key b)) x ys) = {}"
      using Cons.prems k by auto
    then show ?case
      using Cons.prems insort_by_sorted [of key ys x] k by (simp add: Cons.IH)
  qed simp
  with assms show ?thesis by (simp add: sort_by_def)
qed

lemma sorted_unique:
  assumes "mset xs = mset ys"
    and "sorted_wrt (\<lambda>a b. lt (key a) (key b)) xs"
    and "sorted_wrt (\<lambda>a b. lt (key a) (key b)) ys"
  shows "xs = ys"
  using assms
proof (induction xs arbitrary: ys)
  case (Cons x xs)
  from Cons.prems(1) obtain y ys' where ys: "ys = y # ys'" by (cases ys) auto
  have "x = y"
  proof (rule ccontr)
    assume "x \<noteq> y"
    with Cons.prems(1) ys have "x \<in># mset ys'" "y \<in># mset xs"
      by (auto simp: add_eq_conv_ex simp flip: set_mset_mset)
    with Cons.prems(2,3) ys have "lt (key y) (key x)" "lt (key x) (key y)" by auto
    then show False using lt_asym by blast
  qed
  with Cons ys show ?case by auto
qed simp

theorem sort_by_unique:
  assumes "mset xs = mset ys" and "distinct (map key xs)"
  shows "sort_by (\<lambda>a b. lt (key a) (key b)) xs = sort_by (\<lambda>a b. lt (key a) (key b)) ys"
proof (rule sorted_unique [where key = key])
  have "mset (map key xs) = mset (map key ys)" using assms(1) by simp
  then have "distinct (map key ys)" using assms(2) by (rule mset_eq_imp_distinct_iff [THEN iffD1])
  then show "sorted_wrt (\<lambda>a b. lt (key a) (key b)) (sort_by (\<lambda>a b. lt (key a) (key b)) ys)"
    by (rule sort_by_sorted)
qed (use assms in \<open>auto intro: sort_by_sorted\<close>)

lemma sort_by_fixed:
  assumes "sorted_wrt (\<lambda>a b. lt (key a) (key b)) xs"
  shows "sort_by (\<lambda>a b. lt (key a) (key b)) xs = xs"
proof (rule sorted_unique [where key = key])
  have "distinct (map key xs)"
    using assms by (induction xs) (auto, metis lt_irrefl)
  then show "sorted_wrt (\<lambda>a b. lt (key a) (key b)) (sort_by (\<lambda>a b. lt (key a) (key b)) xs)"
    by (rule sort_by_sorted)
qed (use assms in auto)

end

text \<open>Lexicographic comparison of integer sequences.\<close>

fun lex_less :: "int list \<Rightarrow> int list \<Rightarrow> bool" where
  "lex_less [] ys = (ys \<noteq> [])"
| "lex_less (x # xs) [] = False"
| "lex_less (x # xs) (y # ys) = (x < y \<or> x = y \<and> lex_less xs ys)"

lemma lex_less_irrefl: "\<not> lex_less xs xs"
  by (induction xs) auto

lemma lex_less_trans: "lex_less xs ys \<Longrightarrow> lex_less ys zs \<Longrightarrow> lex_less xs zs"
proof (induction xs ys arbitrary: zs rule: lex_less.induct)
  case (3 x xs y ys)
  then show ?case by (cases zs) auto
qed (auto elim: lex_less.elims)

lemma lex_less_total: "xs \<noteq> ys \<Longrightarrow> lex_less xs ys \<or> lex_less ys xs"
  by (induction xs ys rule: lex_less.induct) auto

interpretation lex: strict_linear lex_less
  by unfold_locales (auto simp: lex_less_irrefl intro: lex_less_trans dest: lex_less_total)

end
