(* ===== verification/Go_Text.thy ===== *)
theory Go_Text
  imports ADTP_Prelude
begin

text \<open>
  The parts of Go's \<open>strings\<close>, \<open>bytes\<close> and \<open>strconv\<close> packages that the source
  calls, on byte strings: searching, splitting, lower-casing, and the decimal
  conversions.  \<^term>\<open>to_lower\<close> is exact on ASCII and on the two non-ASCII code
  points whose lower case is an ASCII letter (U+0130 and U+212A); every other
  non-ASCII byte is left as it is, which no caller can observe: each of them
  either rejects non-ASCII bytes or searches the result for an ASCII pattern.
\<close>

definition byte :: "char \<Rightarrow> int" where
  "byte c = of_char c"

definition is_digit :: "char \<Rightarrow> bool" where
  "is_digit c \<longleftrightarrow> 48 \<le> byte c \<and> byte c \<le> 57"

definition is_lower :: "char \<Rightarrow> bool" where
  "is_lower c \<longleftrightarrow> 97 \<le> byte c \<and> byte c \<le> 122"

definition is_upper :: "char \<Rightarrow> bool" where
  "is_upper c \<longleftrightarrow> 65 \<le> byte c \<and> byte c \<le> 90"

definition is_ascii :: "char \<Rightarrow> bool" where
  "is_ascii c \<longleftrightarrow> byte c < 128"

definition ascii_lower :: "char \<Rightarrow> char" where
  "ascii_lower c = (if is_upper c then char_of (byte c + 32) else c)"

fun to_lower :: "string \<Rightarrow> string" where
  "to_lower [] = []"
| "to_lower (c # cs) =
     (case cs of
        d # ds \<Rightarrow>
          if byte c = 0xC4 \<and> byte d = 0xB0 then CHR ''i'' # to_lower ds
          else if byte c = 0xE2 \<and> byte d = 0x84 \<and> ds \<noteq> [] \<and> byte (hd ds) = 0xAA
            then CHR ''k'' # to_lower (tl ds)
          else ascii_lower c # to_lower cs
      | [] \<Rightarrow> [ascii_lower c])"

fun has_prefix :: "string \<Rightarrow> string \<Rightarrow> bool" where
  "has_prefix s [] = True"
| "has_prefix [] (_ # _) = False"
| "has_prefix (c # cs) (p # ps) = (c = p \<and> has_prefix cs ps)"

fun str_index :: "string \<Rightarrow> string \<Rightarrow> nat option" where
  "str_index [] p = (if p = [] then Some 0 else None)"
| "str_index (c # cs) p =
     (if has_prefix (c # cs) p then Some 0 else map_option Suc (str_index cs p))"

fun index_byte :: "string \<Rightarrow> char \<Rightarrow> nat option" where
  "index_byte [] b = None"
| "index_byte (c # cs) b = (if c = b then Some 0 else map_option Suc (index_byte cs b))"

fun last_index_byte :: "string \<Rightarrow> char \<Rightarrow> nat option" where
  "last_index_byte [] b = None"
| "last_index_byte (c # cs) b =
     (case last_index_byte cs b of
        Some i \<Rightarrow> Some (Suc i)
      | None \<Rightarrow> if c = b then Some 0 else None)"

definition contains_str :: "string \<Rightarrow> string \<Rightarrow> bool" where
  "contains_str s p \<longleftrightarrow> str_index s p \<noteq> None"

definition contains_any :: "string \<Rightarrow> string \<Rightarrow> bool" where
  "contains_any s cs \<longleftrightarrow> list_ex (\<lambda>c. List.member cs c) s"

text \<open>\<open>strings.Split\<close> with a one-byte separator.\<close>

fun split_on :: "char \<Rightarrow> string \<Rightarrow> string list" where
  "split_on b [] = [[]]"
| "split_on b (c # cs) =
     (if c = b then [] # split_on b cs
      else (case split_on b cs of
              [] \<Rightarrow> [[c]]
            | seg # segs \<Rightarrow> (c # seg) # segs))"

text \<open>\<open>strconv.Atoi\<close> and \<open>strconv.ParseInt(_, 10, 64)\<close>: an optional sign and at
  least one digit, in the range of \<open>int64\<close>.\<close>

definition digit_val :: "char \<Rightarrow> int" where
  "digit_val c = byte c - 48"

definition digits_val :: "string \<Rightarrow> int" where
  "digits_val ds = foldl (\<lambda>n d. 10 * n + digit_val d) 0 ds"

definition atoi :: "string \<Rightarrow> int option" where
  "atoi s =
     (let (neg, ds) = (case s of
            c # cs \<Rightarrow> if c = CHR ''-'' then (True, cs) else if c = CHR ''+'' then (False, cs)
                      else (False, s)
          | [] \<Rightarrow> (False, s))
      in if ds = [] \<or> \<not> list_all is_digit ds then None
         else let n = (if neg then - digits_val ds else digits_val ds)
              in if - (2 ^ 63) \<le> n \<and> n < 2 ^ 63 then Some n else None)"

function nat_digits :: "int \<Rightarrow> string" where
  "nat_digits n =
     (if n < 10 then [char_of (48 + n)] else nat_digits (n div 10) @ [char_of (48 + n mod 10)])"
  by pat_completeness auto
termination
  by (relation "measure nat") auto

declare nat_digits.simps [simp del]

definition itoa :: "int \<Rightarrow> string" where
  "itoa n = (if n < 0 then CHR ''-'' # nat_digits (- n) else nat_digits n)"

subsection \<open>Bytes\<close>

lemma byte_range_all: "\<forall>c. 0 \<le> byte c \<and> byte c < 256"
  by code_simp

lemma byte_bounds [simp]: "0 \<le> byte c" "byte c < 256"
  using byte_range_all by blast+

lemma char_of_byte [simp]: "char_of (byte c) = c"
  by (simp add: byte_def)

lemma byte_char_of: "0 \<le> n \<Longrightarrow> n < 256 \<Longrightarrow> byte (char_of n) = n"
  by (simp add: byte_def)

lemma byte_inj [simp]: "byte c = byte d \<longleftrightarrow> c = d"
  by (metis char_of_byte)

text \<open>Facts about single bytes are decided by running through all 256 of them.\<close>

lemma ascii_lower_classes_all:
  "\<forall>c. (ascii_lower (ascii_lower c) = ascii_lower c)
     \<and> (is_ascii c \<longrightarrow> is_ascii (ascii_lower c)) \<and> \<not> is_upper (ascii_lower c)
     \<and> (is_lower c \<longrightarrow> ascii_lower c = c) \<and> (is_digit c \<longrightarrow> ascii_lower c = c)
     \<and> (is_lower c \<longrightarrow> is_ascii c) \<and> (is_upper c \<longrightarrow> is_ascii c) \<and> (is_digit c \<longrightarrow> is_ascii c)
     \<and> (is_upper c \<longrightarrow> is_lower (ascii_lower c))"
  by code_simp

lemma ascii_lower_idem [simp]: "ascii_lower (ascii_lower c) = ascii_lower c"
  and ascii_lower_ascii [simp]: "is_ascii c \<Longrightarrow> is_ascii (ascii_lower c)"
  and ascii_lower_not_upper [simp]: "\<not> is_upper (ascii_lower c)"
  and ascii_lower_lower [simp]: "is_lower c \<Longrightarrow> ascii_lower c = c"
  and ascii_lower_digit [simp]: "is_digit c \<Longrightarrow> ascii_lower c = c"
  and is_lower_ascii: "is_lower c \<Longrightarrow> is_ascii c"
  and is_upper_ascii: "is_upper c \<Longrightarrow> is_ascii c"
  and is_digit_ascii: "is_digit c \<Longrightarrow> is_ascii c"
  using ascii_lower_classes_all by blast+

lemma to_lower_ascii: "list_all is_ascii s \<Longrightarrow> to_lower s = map ascii_lower s"
proof (induction s)
  case (Cons c cs)
  then have "byte c \<noteq> 0xC4" "byte c \<noteq> 0xE2" by (auto simp: is_ascii_def)
  then have "to_lower (c # cs) = ascii_lower c # to_lower cs"
    by (subst to_lower.simps(2), cases cs) simp_all
  with Cons show ?case by simp
qed simp

declare to_lower.simps [simp del]

lemma to_lower_ascii_idem:
  "list_all is_ascii s \<Longrightarrow> to_lower (map ascii_lower s) = map ascii_lower s"
  by (subst to_lower_ascii) (auto simp: list_all_iff)

subsection \<open>Searching and splitting\<close>

lemma has_prefix_iff: "has_prefix s p \<longleftrightarrow> (\<exists>t. s = p @ t)"
  by (induction s p rule: has_prefix.induct) auto

lemma has_prefix_append [simp]: "has_prefix (p @ t) p"
  by (auto simp: has_prefix_iff)

lemma index_byte_SomeD:
  "index_byte s b = Some i \<Longrightarrow> i < length s \<and> s ! i = b \<and> b \<notin> set (take i s)"
  by (induction s arbitrary: i) (auto split: if_splits)

lemma index_byte_None_iff [simp]: "index_byte s b = None \<longleftrightarrow> b \<notin> set s"
  by (induction s) auto

lemma index_byte_append: "b \<notin> set s \<Longrightarrow> index_byte (s @ b # t) b = Some (length s)"
  by (induction s) auto

lemma last_index_byte_None_iff [simp]: "last_index_byte s b = None \<longleftrightarrow> b \<notin> set s"
  by (induction s) (auto split: option.splits)

lemma last_index_byte_append: "b \<notin> set t \<Longrightarrow> last_index_byte (s @ b # t) b = Some (length s)"
proof (induction s)
  case Nil
  then show ?case by (auto simp flip: last_index_byte_None_iff split: option.splits)
qed auto

lemma last_index_byte_SomeD:
  "last_index_byte s b = Some i \<Longrightarrow> i < length s \<and> s ! i = b \<and> b \<notin> set (drop (Suc i) s)"
  by (induction s arbitrary: i) (auto split: option.splits if_splits)

lemma str_index_sep:
  assumes "x \<notin> set s"
  shows "str_index (s @ x # t) (x # p) =
    (if has_prefix t p then Some (length s)
     else map_option (\<lambda>i. Suc (length s) + i) (str_index t (x # p)))"
proof -
  have Suc_shift: "map_option Suc = map_option ((+) (Suc 0))"
    by (rule arg_cong [where f = map_option]) auto
  have shift: "map_option (\<lambda>i. Suc (Suc (n + i))) r = map_option ((+) (Suc (Suc n))) r" for n r
    by (rule option.map_cong) auto
  show ?thesis
    using assms by (induction s) (auto simp: option.map_comp comp_def Suc_shift shift)
qed

lemma str_index_SomeD:
  "str_index s p = Some i \<Longrightarrow> i \<le> length s \<and> has_prefix (drop i s) p"
  by (induction s arbitrary: i) (auto split: if_splits)

lemma split_on_nonempty [simp]: "split_on b s \<noteq> []"
  by (cases s) (auto split: list.splits)

lemma split_on_append:
  "b \<notin> set s \<Longrightarrow> split_on b (s @ b # t) = s # split_on b t"
  by (induction s) auto

lemma split_on_no_sep: "b \<notin> set s \<Longrightarrow> split_on b s = [s]"
  by (induction s) auto

lemma split_on_segments: "seg \<in> set (split_on b s) \<Longrightarrow> b \<notin> set seg \<and> set seg \<subseteq> set s"
  by (induction s arbitrary: seg) (fastforce split: list.splits if_splits)+

fun join_with :: "char \<Rightarrow> string list \<Rightarrow> string" where
  "join_with b [] = []"
| "join_with b [x] = x"
| "join_with b (x # xs) = x @ b # join_with b xs"

lemma join_split [simp]: "join_with b (split_on b s) = s"
proof (induction s)
  case (Cons c s)
  obtain seg segs where "split_on b s = seg # segs" by (cases "split_on b s") auto
  with Cons show ?case by (cases segs) auto
qed simp

lemma split_on_inj: "split_on b s = split_on b t \<longleftrightarrow> s = t"
  by (metis join_split)

subsection \<open>Decimal numbers\<close>

lemma digit_char: "0 \<le> n \<Longrightarrow> n < 10 \<Longrightarrow> is_digit (char_of (48 + n)) \<and> digit_val (char_of (48 + n)) = n"
  by (simp add: is_digit_def digit_val_def byte_char_of)

lemma digits_val_snoc [simp]: "digits_val (ds @ [d]) = 10 * digits_val ds + digit_val d"
  by (simp add: digits_val_def)

lemma nat_digits_digits: "0 \<le> n \<Longrightarrow> list_all is_digit (nat_digits n) \<and> nat_digits n \<noteq> []"
proof (induction n rule: nat_digits.induct)
  case (1 n)
  then show ?case
    by (cases "n < 10") (auto simp: nat_digits.simps [of n] digit_char pos_imp_zdiv_nonneg_iff)
qed

lemma digits_val_nat_digits: "0 \<le> n \<Longrightarrow> digits_val (nat_digits n) = n"
proof (induction n rule: nat_digits.induct)
  case (1 n)
  show ?case
  proof (cases "n < 10")
    case True
    with "1.prems" show ?thesis
      by (simp add: nat_digits.simps [of n] digits_val_def digit_char)
  next
    case False
    have "digit_val (char_of (48 + n mod 10)) = n mod 10" by (simp add: digit_char)
    with False 1 show ?thesis
      by (simp add: nat_digits.simps [of n] pos_imp_zdiv_nonneg_iff)
  qed
qed

lemma atoi_itoa:
  assumes "0 \<le> n" and "n < 2 ^ 63"
  shows "atoi (itoa n) = Some n"
proof -
  obtain c cs where cs: "nat_digits n = c # cs"
    using nat_digits_digits [OF assms(1)] by (cases "nat_digits n") auto
  have d: "list_all is_digit (c # cs)" using nat_digits_digits [OF assms(1)] cs by simp
  then have "c \<noteq> CHR ''-''" "c \<noteq> CHR ''+''" by (auto simp: is_digit_def byte_def)
  with cs d digits_val_nat_digits [OF assms(1)] assms show ?thesis
    by (simp add: atoi_def itoa_def)
qed

end
