(* ===== verification/Go_Unicode.thy ===== *)
theory Go_Unicode
  imports Go_Text
begin

text \<open>
  What the source uses of Go's \<open>unicode/utf8\<close> and \<open>unicode/utf16\<close>: decoding and encoding
  of code points, validity of a byte string, and the UTF-16 code units of a string; with
  the facts that encoding inverts decoding on valid input and an induction over a valid
  string code point by code point.
\<close>

subsection \<open>Code points\<close>

type_synonym rune = int

definition rune_error :: rune where "rune_error = 0xFFFD"

definition in_range :: "int \<Rightarrow> int \<Rightarrow> int \<Rightarrow> bool" where
  "in_range lo hi n \<longleftrightarrow> lo \<le> n \<and> n \<le> hi"

text \<open>\<open>utf8.DecodeRune\<close> on a non-empty input: the code point, whether the bytes were
  valid, and the number of bytes read.\<close>

definition decode_rune :: "bytes \<Rightarrow> rune \<times> bool \<times> nat" where
  "decode_rune s =
     (let b = (\<lambda>i. if i < length s then byte (s ! i) else 0);
          b0 = b 0; b1 = b 1; b2 = b 2; b3 = b 3; bad = (rune_error, False, 1)
      in if b0 < 0x80 then (b0, True, 1)
         else if in_range 0xC2 0xDF b0 then
           (if in_range 0x80 0xBF b1 then ((b0 - 0xC0) * 64 + (b1 - 0x80), True, 2) else bad)
         else if in_range 0xE0 0xEF b0 then
           (if in_range (if b0 = 0xE0 then 0xA0 else 0x80) (if b0 = 0xED then 0x9F else 0xBF) b1
               \<and> in_range 0x80 0xBF b2
            then ((b0 - 0xE0) * 4096 + (b1 - 0x80) * 64 + (b2 - 0x80), True, 3) else bad)
         else if in_range 0xF0 0xF4 b0 then
           (if in_range (if b0 = 0xF0 then 0x90 else 0x80) (if b0 = 0xF4 then 0x8F else 0xBF) b1
               \<and> in_range 0x80 0xBF b2 \<and> in_range 0x80 0xBF b3
            then ((b0 - 0xF0) * 262144 + (b1 - 0x80) * 4096 + (b2 - 0x80) * 64 + (b3 - 0x80), True, 4)
            else bad)
         else bad)"

lemma decode_rune_width: "1 \<le> snd (snd (decode_rune s))"
  by (simp add: decode_rune_def Let_def)

definition is_surrogate :: "rune \<Rightarrow> bool" where
  "is_surrogate r \<longleftrightarrow> in_range 0xD800 0xDFFF r"

text \<open>\<open>utf8.AppendRune\<close>.\<close>

definition encode_rune :: "rune \<Rightarrow> bytes" where
  "encode_rune r0 =
     (let r = (if r0 < 0 \<or> 0x10FFFF < r0 \<or> is_surrogate r0 then rune_error else r0)
      in if r < 0x80 then [char_of r]
         else if r < 0x800 then [char_of (0xC0 + r div 64), char_of (0x80 + r mod 64)]
         else if r < 0x10000 then
           [char_of (0xE0 + r div 4096), char_of (0x80 + r div 64 mod 64), char_of (0x80 + r mod 64)]
         else [char_of (0xF0 + r div 262144), char_of (0x80 + r div 4096 mod 64),
               char_of (0x80 + r div 64 mod 64), char_of (0x80 + r mod 64)])"

text \<open>\<open>[]rune(s)\<close> and \<open>utf8.Valid\<close>.\<close>

function runes :: "bytes \<Rightarrow> rune list" where
  "runes s = (if s = [] then [] else
     (case decode_rune s of (r, _, w) \<Rightarrow> r # runes (drop w s)))"
  by pat_completeness auto
termination
proof (relation "measure length")
  fix s r xb w x b
  assume "s \<noteq> []" and d: "(r, xb) = decode_rune s" "(x, b) = xb"
  then have "decode_rune s = (r, x, b)" by simp
  then have "1 \<le> b" using decode_rune_width [of s] by simp
  with \<open>s \<noteq> []\<close> show "(drop b s, s) \<in> measure length" by simp
qed simp

function utf8_valid :: "bytes \<Rightarrow> bool" where
  "utf8_valid s = (if s = [] then True else
     (case decode_rune s of (_, ok, w) \<Rightarrow> if ok then utf8_valid (drop w s) else False))"
  by pat_completeness auto
termination
proof (relation "measure length")
  fix s r xb w x b
  assume "s \<noteq> []" and d: "(r, xb) = decode_rune s" "(x, b) = xb"
  then have "decode_rune s = (r, x, b)" by simp
  then have "1 \<le> b" using decode_rune_width [of s] by simp
  with \<open>s \<noteq> []\<close> show "(drop b s, s) \<in> measure length" by simp
qed simp

declare runes.simps [simp del] utf8_valid.simps [simp del]

text \<open>\<open>utf16.Encode\<close> and \<open>utf16.DecodeRune\<close>.\<close>

definition utf16_encode :: "rune list \<Rightarrow> int list" where
  "utf16_encode rs = concat (map (\<lambda>r.
     if in_range 0x10000 0x10FFFF r then
       [0xD800 + (r - 0x10000) div 1024, 0xDC00 + (r - 0x10000) mod 1024]
     else if in_range 0 0xFFFF r \<and> \<not> is_surrogate r then [r] else [rune_error]) rs)"

definition utf16_decode_rune :: "rune \<Rightarrow> rune \<Rightarrow> rune" where
  "utf16_decode_rune hi lo =
     (if in_range 0xD800 0xDBFF hi \<and> in_range 0xDC00 0xDFFF lo
      then (hi - 0xD800) * 1024 + (lo - 0xDC00) + 0x10000 else rune_error)"

subsection \<open>UTF-8\<close>

lemma pair64: "0 \<le> q \<Longrightarrow> q < 64 \<Longrightarrow> (p * 64 + q) div 64 = p \<and> (p * 64 + q) mod 64 = (q::int)"
  by simp

lemma triple64:
  assumes "0 \<le> q" "q < 64" "0 \<le> t" "t < (64::int)"
  shows "(p * 4096 + q * 64 + t) div 4096 = p" "(p * 4096 + q * 64 + t) div 64 mod 64 = q"
    "(p * 4096 + q * 64 + t) mod 64 = t"
proof -
  have e: "p * 4096 + q * 64 + t = (p * 64 + q) * 64 + t" by simp
  have d: "(p * 4096 + q * 64 + t) div 64 = p * 64 + q" unfolding e using assms pair64 by blast
  show "(p * 4096 + q * 64 + t) mod 64 = t" unfolding e using assms pair64 by blast
  show "(p * 4096 + q * 64 + t) div 64 mod 64 = q" unfolding d using assms pair64 by blast
  have "(p * 4096 + q * 64 + t) div 4096 = (p * 4096 + q * 64 + t) div 64 div 64"
    by (simp add: zdiv_zmult2_eq [symmetric])
  then show "(p * 4096 + q * 64 + t) div 4096 = p" unfolding d using assms by simp
qed

lemma quad64:
  assumes "0 \<le> q" "q < 64" "0 \<le> t" "t < 64" "0 \<le> u" "u < (64::int)"
  shows "(p * 262144 + q * 4096 + t * 64 + u) div 262144 = p"
    "(p * 262144 + q * 4096 + t * 64 + u) div 4096 mod 64 = q"
    "(p * 262144 + q * 4096 + t * 64 + u) div 64 mod 64 = t"
    "(p * 262144 + q * 4096 + t * 64 + u) mod 64 = u"
proof -
  have e: "p * 262144 + q * 4096 + t * 64 + u = (p * 4096 + q * 64 + t) * 64 + u" by simp
  have d: "(p * 262144 + q * 4096 + t * 64 + u) div 64 = p * 4096 + q * 64 + t"
    unfolding e using assms pair64 by blast
  show "(p * 262144 + q * 4096 + t * 64 + u) mod 64 = u" unfolding e using assms pair64 by blast
  show "(p * 262144 + q * 4096 + t * 64 + u) div 64 mod 64 = t" unfolding d using assms triple64 by blast
  have "(p * 262144 + q * 4096 + t * 64 + u) div 4096 = (p * 262144 + q * 4096 + t * 64 + u) div 64 div 64"
    by (simp add: zdiv_zmult2_eq [symmetric])
  then have d2: "(p * 262144 + q * 4096 + t * 64 + u) div 4096 = p * 64 + q"
    unfolding d using assms by (simp add: triple64 zdiv_zmult2_eq [symmetric]) 
  then show "(p * 262144 + q * 4096 + t * 64 + u) div 4096 mod 64 = q" using assms by simp
  have "(p * 262144 + q * 4096 + t * 64 + u) div 262144 = (p * 262144 + q * 4096 + t * 64 + u) div 4096 div 64"
    by (simp add: zdiv_zmult2_eq [symmetric])
  then show "(p * 262144 + q * 4096 + t * 64 + u) div 262144 = p" unfolding d2 using assms by simp
qed

lemma digits3: "(q::int) = q div 4096 * 4096 + q div 64 mod 64 * 64 + q mod 64"
proof -
  have "q div 64 div 64 = q div 4096" by (simp add: zdiv_zmult2_eq [symmetric])
  then show ?thesis using div_mult_mod_eq [of q 64] div_mult_mod_eq [of "q div 64" 64] by linarith
qed

lemma digits4: "(q::int) = q div 262144 * 262144 + q div 4096 mod 64 * 4096 + q mod 4096"
proof -
  have "q div 4096 div 64 = q div 262144" by (simp add: zdiv_zmult2_eq [symmetric])
  then show ?thesis using div_mult_mod_eq [of q 4096] div_mult_mod_eq [of "q div 4096" 64] by linarith
qed

text \<open>The four shapes of a valid sequence.\<close>

lemma decode_rune_cases:
  assumes "decode_rune s = (r, True, w)" and "s \<noteq> []"
  obtains (one) a t where "s = a # t" "byte a < 0x80" "r = byte a" "w = 1"
  | (two) a b t where "s = a # b # t" "in_range 0xC2 0xDF (byte a)" "in_range 0x80 0xBF (byte b)"
      "r = (byte a - 0xC0) * 64 + (byte b - 0x80)" "w = 2"
  | (three) a b c t where "s = a # b # c # t" "in_range 0xE0 0xEF (byte a)"
      "in_range (if byte a = 0xE0 then 0xA0 else 0x80) (if byte a = 0xED then 0x9F else 0xBF) (byte b)"
      "in_range 0x80 0xBF (byte c)"
      "r = (byte a - 0xE0) * 4096 + (byte b - 0x80) * 64 + (byte c - 0x80)" "w = 3"
  | (four) a b c d t where "s = a # b # c # d # t" "in_range 0xF0 0xF4 (byte a)"
      "in_range (if byte a = 0xF0 then 0x90 else 0x80) (if byte a = 0xF4 then 0x8F else 0xBF) (byte b)"
      "in_range 0x80 0xBF (byte c)" "in_range 0x80 0xBF (byte d)"
      "r = (byte a - 0xF0) * 262144 + (byte b - 0x80) * 4096 + (byte c - 0x80) * 64 + (byte d - 0x80)"
      "w = 4"
proof -
  define b where "b = (\<lambda>i. if i < length s then byte (s ! i) else 0)"
  have z: "\<not> in_range lo hi 0" if "0 < lo" for lo hi :: int using that by (simp add: in_range_def)
  from assms(1) have E: "(if b 0 < 0x80 then (b 0, True, 1)
         else if in_range 0xC2 0xDF (b 0) then
           (if in_range 0x80 0xBF (b 1) then ((b 0 - 0xC0) * 64 + (b 1 - 0x80), True, 2) else (rune_error, False, 1))
         else if in_range 0xE0 0xEF (b 0) then
           (if in_range (if b 0 = 0xE0 then 0xA0 else 0x80) (if b 0 = 0xED then 0x9F else 0xBF) (b 1)
               \<and> in_range 0x80 0xBF (b 2)
            then ((b 0 - 0xE0) * 4096 + (b 1 - 0x80) * 64 + (b 2 - 0x80), True, 3) else (rune_error, False, 1))
         else if in_range 0xF0 0xF4 (b 0) then
           (if in_range (if b 0 = 0xF0 then 0x90 else 0x80) (if b 0 = 0xF4 then 0x8F else 0xBF) (b 1)
               \<and> in_range 0x80 0xBF (b 2) \<and> in_range 0x80 0xBF (b 3)
            then ((b 0 - 0xF0) * 262144 + (b 1 - 0x80) * 4096 + (b 2 - 0x80) * 64 + (b 3 - 0x80), True, 4)
            else (rune_error, False, 1))
         else (rune_error, False, 1)) = (r, True, w)"
    unfolding decode_rune_def b_def Let_def by simp
  obtain a s1 where s: "s = a # s1" using assms(2) by (cases s) auto
  have b0: "b 0 = byte a" by (simp add: b_def s)
  have n1: "\<exists>x s2. s1 = x # s2 \<and> b 1 = byte x" if "in_range lo hi (b 1)" "0 < lo" for lo hi
    using that z by (cases s1) (auto simp: b_def s)
  have n2: "\<exists>x y s3. s1 = x # y # s3 \<and> b 1 = byte x \<and> b 2 = byte y"
    if "in_range lo hi (b 1)" "0 < lo" "in_range lo' hi' (b 2)" "0 < lo'" for lo hi lo' hi'
    using n1 [OF that(1,2)] that(3,4) z by (cases "tl s1") (auto simp: b_def s)
  have n3: "\<exists>x y u s4. s1 = x # y # u # s4 \<and> b 1 = byte x \<and> b 2 = byte y \<and> b 3 = byte u"
    if "in_range lo hi (b 1)" "0 < lo" "in_range lo' hi' (b 2)" "0 < lo'" "in_range lo'' hi'' (b 3)" "0 < lo''"
    for lo hi lo' hi' lo'' hi''
    using n2 [OF that(1-4)] that(5,6) z by (cases "tl (tl s1)") (auto simp: b_def s)
  consider "byte a < 0x80" | "\<not> byte a < 0x80" "in_range 0xC2 0xDF (byte a)"
    | "in_range 0xE0 0xEF (byte a)" | "in_range 0xF0 0xF4 (byte a)"
    using E unfolding b0 by (auto split: if_splits)
  then show ?thesis
  proof cases
    case 1
    with E b0 s show ?thesis by (intro one) auto
  next
    case 2
    with E b0 have "in_range 0x80 0xBF (b 1)" "r = (byte a - 0xC0) * 64 + (b 1 - 0x80)" "w = 2"
      by (auto split: if_splits)
    with n1 [of "0x80" "0xBF"] s 2 show ?thesis by (auto intro: two)
  next
    case 3
    then have "\<not> byte a < 0x80" "\<not> in_range 0xC2 0xDF (byte a)" by (auto simp: in_range_def)
    with 3 E b0 have *: "in_range (if byte a = 0xE0 then 0xA0 else 0x80) (if byte a = 0xED then 0x9F else 0xBF) (b 1)"
      "in_range 0x80 0xBF (b 2)" "r = (byte a - 0xE0) * 4096 + (b 1 - 0x80) * 64 + (b 2 - 0x80)" "w = 3"
      by (auto split: if_splits)
    have p: "0 < (if byte a = 0xE0 then 0xA0 else 0x80 :: int)" by simp
    from n2 [OF *(1) p *(2)] obtain x y s3 where "s1 = x # y # s3" "b 1 = byte x" "b 2 = byte y" by auto
    with * s 3 show ?thesis by (intro three [of a x y s3]) auto
  next
    case 4
    then have "\<not> byte a < 0x80" "\<not> in_range 0xC2 0xDF (byte a)" "\<not> in_range 0xE0 0xEF (byte a)"
      by (auto simp: in_range_def)
    with 4 E b0 have *: "in_range (if byte a = 0xF0 then 0x90 else 0x80) (if byte a = 0xF4 then 0x8F else 0xBF) (b 1)"
      "in_range 0x80 0xBF (b 2)" "in_range 0x80 0xBF (b 3)"
      "r = (byte a - 0xF0) * 262144 + (b 1 - 0x80) * 4096 + (b 2 - 0x80) * 64 + (b 3 - 0x80)" "w = 4"
      by (auto split: if_splits)
    have p: "0 < (if byte a = 0xF0 then 0x90 else 0x80 :: int)" by simp
    from n3 [OF *(1) p *(2) _ *(3)] obtain x y u s4 where "s1 = x # y # u # s4" "b 1 = byte x"
      "b 2 = byte y" "b 3 = byte u" by auto
    with * s 4 show ?thesis by (intro four [of a x y u s4]) auto
  qed
qed

lemma encode_rune_3:
  "0x800 \<le> r \<Longrightarrow> r < 0x10000 \<Longrightarrow> r < 0xD800 \<or> 0xDFFF < r \<Longrightarrow>
     encode_rune r = [char_of (0xE0 + r div 4096), char_of (0x80 + r div 64 mod 64), char_of (0x80 + r mod 64)]"
  by (auto simp: encode_rune_def Let_def is_surrogate_def in_range_def)

lemma encode_rune_4:
  "0x10000 \<le> r \<Longrightarrow> r \<le> 0x10FFFF \<Longrightarrow>
     encode_rune r = [char_of (0xF0 + r div 262144), char_of (0x80 + r div 4096 mod 64),
               char_of (0x80 + r div 64 mod 64), char_of (0x80 + r mod 64)]"
  by (simp add: encode_rune_def Let_def is_surrogate_def in_range_def)

lemma encode_decode_rune:
  assumes "decode_rune s = (r, True, w)" and "s \<noteq> []"
  shows "w \<le> length s \<and> encode_rune r = take w s \<and> decode_rune (take w s @ t) = (r, True, w)"
  using assms
proof (cases rule: decode_rune_cases)
  case (one a t)
  then show ?thesis using byte_bounds(1) [of a]
    by (simp add: encode_rune_def Let_def is_surrogate_def in_range_def decode_rune_def not_less [symmetric])
next
  case (two a b t')
  note pr = pair64 [of "byte b - 0x80" "byte a - 0xC0"]
  have r: "r div 64 = byte a - 0xC0" "r mod 64 = byte b - 0x80" "0x80 \<le> r" "r < 0x800"
    using two pr by (auto simp: in_range_def)
  then show ?thesis using two
    by (simp add: encode_rune_def Let_def is_surrogate_def in_range_def decode_rune_def)
next
  case (three a b c t')
  have B: "0 \<le> byte b - 0x80" "byte b - 0x80 < 64" "0 \<le> byte c - 0x80" "byte c - 0x80 < 64"
    using three(3,4) by (simp_all add: in_range_def split: if_splits)
  have R: "r div 4096 = byte a - 0xE0" "r div 64 mod 64 = byte b - 0x80" "r mod 64 = byte c - 0x80"
    unfolding three(5) by (rule triple64 [OF B])+
  have "0x800 \<le> r" "r < 0x10000" "r < 0xD800 \<or> 0xDFFF < r"
    using three by (auto simp: in_range_def split: if_splits)
  from encode_rune_3 [OF this] have "encode_rune r = [a, b, c]" unfolding R by simp
  moreover have "decode_rune (a # b # c # x) = (r, True, 3)" for x
    using three(2-5) by (simp add: in_range_def decode_rune_def)
  ultimately show ?thesis using three(1,6) by simp
next
  case (four a b c d t')
  have B: "0 \<le> byte b - 0x80" "byte b - 0x80 < 64" "0 \<le> byte c - 0x80" "byte c - 0x80 < 64"
    "0 \<le> byte d - 0x80" "byte d - 0x80 < 64"
    using four(3-5) by (simp_all add: in_range_def split: if_splits)
  have R: "r div 262144 = byte a - 0xF0" "r div 4096 mod 64 = byte b - 0x80"
    "r div 64 mod 64 = byte c - 0x80" "r mod 64 = byte d - 0x80"
    unfolding four(6) by (rule quad64 [OF B])+
  have "0x10000 \<le> r" "r \<le> 0x10FFFF"
    using four by (auto simp: in_range_def split: if_splits)
  from encode_rune_4 [OF this] have "encode_rune r = [a, b, c, d]" unfolding R by simp
  moreover have "decode_rune (a # b # c # d # x) = (r, True, 4)" for x
    using four(2-6) by (simp add: in_range_def decode_rune_def)
  ultimately show ?thesis using four(1,7) by simp
qed

lemma decode_rune_wide:
  assumes "decode_rune s = (r, True, w)" and "s \<noteq> []" and "w \<noteq> 1"
  shows "\<forall>b \<in> set (take w s). \<not> byte b < 0x80"
  using assms(1,2)
proof (cases rule: decode_rune_cases)
  case (one a t)
  with assms(3) show ?thesis by simp
qed (auto simp: in_range_def split: if_splits)

lemma decode_rune_ascii: "byte a < 0x80 \<Longrightarrow> decode_rune (a # t) = (byte a, True, 1)"
  by (simp add: decode_rune_def)

lemma decode_rune_one:
  assumes "decode_rune s = (r, True, 1)" and "s \<noteq> []"
  obtains a t where "s = a # t" "byte a < 0x80"
  using assms by (cases rule: decode_rune_cases) auto

text \<open>Induction over a valid string, code point by code point.\<close>

lemma utf8_valid_Cons_ascii [simp]: "byte a < 0x80 \<Longrightarrow> utf8_valid (a # t) = utf8_valid t"
  by (subst utf8_valid.simps) (simp add: decode_rune_ascii)

lemma utf8_valid_Nil [simp]: "utf8_valid []"
  by (subst utf8_valid.simps) simp

lemma utf8_valid_rune:
  assumes "decode_rune s = (r, True, w)" and "s \<noteq> []"
  shows "utf8_valid (take w s @ t) = utf8_valid t"
proof -
  have d: "w \<le> length s" "decode_rune (take w s @ t) = (r, True, w)"
    using encode_decode_rune [OF assms] by auto
  have "1 \<le> w" using decode_rune_width [of s] assms(1) by simp
  with d(1) have "take w s @ t \<noteq> []" using assms(2) by auto
  then show ?thesis by (subst utf8_valid.simps) (simp add: d)
qed

lemma utf8_induct [consumes 1, case_names Nil ascii wide]:
  assumes "utf8_valid s" and "P []"
    and ascii: "\<And>a t. byte a < 0x80 \<Longrightarrow> utf8_valid t \<Longrightarrow> P t \<Longrightarrow> P (a # t)"
    and wide: "\<And>r w u t. decode_rune u = (r, True, w) \<Longrightarrow> length u = w \<Longrightarrow> 1 < w
       \<Longrightarrow> \<forall>b \<in> set u. \<not> byte b < 0x80 \<Longrightarrow> encode_rune r = u
       \<Longrightarrow> (\<And>t. decode_rune (u @ t) = (r, True, w)) \<Longrightarrow> utf8_valid t \<Longrightarrow> P t \<Longrightarrow> P (u @ t)"
  shows "P s"
  using assms(1)
proof (induction s rule: utf8_valid.induct)
  case (1 s)
  show ?case
  proof (cases "s = []")
    case True
    with assms(2) show ?thesis by simp
  next
    case False
    obtain r ok w where d: "decode_rune s = (r, ok, w)" by (cases "decode_rune s") auto
    with False "1.prems" have ok: "ok" "utf8_valid (drop w s)"
      by (subst (asm) utf8_valid.simps, simp split: if_splits)+
    from "1.IH" [OF False d [symmetric] refl ok(1) ok(2)] have P: "P (drop w s)" .
    from d ok have d: "decode_rune s = (r, True, w)" by simp
    note e = encode_decode_rune [OF d False]
    show ?thesis
    proof (cases "w = 1")
      case True
      with d have "decode_rune s = (r, True, 1)" by simp
      from decode_rune_one [OF this False] obtain a t where s: "s = a # t" "byte a < 0x80" .
      then show ?thesis using ascii [of a t] ok(2) P True by simp
    next
      case w: False
      have "1 < w" using decode_rune_width [of s] d w by simp
      have "P (take w s @ drop w s)"
      proof (rule wide)
        show "decode_rune (take w s) = (r, True, w)" using e [of "[]"] by simp
        show "\<forall>b \<in> set (take w s). \<not> byte b < 0x80" by (rule decode_rune_wide [OF d False w])
        show "decode_rune (take w s @ t) = (r, True, w)" for t using e by blast
      qed (use e \<open>1 < w\<close> ok(2) P in auto)
      then show ?thesis by simp
    qed
  qed
qed

lemma utf8_valid_append [simp]: "utf8_valid s \<Longrightarrow> utf8_valid (s @ t) = utf8_valid t"
proof (induction s rule: utf8_induct)
  case (wide r w u t')
  have "u \<noteq> []" using wide by auto
  from utf8_valid_rune [OF wide(1) this, of "t' @ t"] wide show ?case by simp
qed auto

lemma utf8_valid_2:
  assumes "in_range 0xC2 0xDF (byte a)" "in_range 0x80 0xBF (byte b)"
  shows "utf8_valid [a, b]"
proof -
  have "\<exists>r. decode_rune [a, b] = (r, True, 2)"
    using assms by (simp add: decode_rune_def in_range_def)
  then show ?thesis by (subst utf8_valid.simps) auto
qed

lemma utf8_valid_3:
  assumes "in_range 0xE0 0xEF (byte a)" "in_range 0x80 0xBF (byte c)"
    and "in_range (if byte a = 0xE0 then 0xA0 else 0x80) (if byte a = 0xED then 0x9F else 0xBF) (byte b)"
  shows "utf8_valid [a, b, c]"
proof -
  have "\<not> byte a < 0x80" "\<not> in_range 0xC2 0xDF (byte a)" using assms(1) by (simp_all add: in_range_def)
  then have "\<exists>r. decode_rune [a, b, c] = (r, True, 3)"
    using assms by (simp add: decode_rune_def)
  then show ?thesis by (subst utf8_valid.simps) auto
qed

lemma utf8_valid_4:
  assumes "in_range 0xF0 0xF4 (byte a)" "in_range 0x80 0xBF (byte c)" "in_range 0x80 0xBF (byte d)"
    and "in_range (if byte a = 0xF0 then 0x90 else 0x80) (if byte a = 0xF4 then 0x8F else 0xBF) (byte b)"
  shows "utf8_valid [a, b, c, d]"
proof -
  have "\<not> byte a < 0x80" "\<not> in_range 0xC2 0xDF (byte a)" "\<not> in_range 0xE0 0xEF (byte a)"
    using assms(1) by (simp_all add: in_range_def)
  then have "\<exists>r. decode_rune [a, b, c, d] = (r, True, 4)"
    using assms by (simp add: decode_rune_def)
  then show ?thesis by (subst utf8_valid.simps) auto
qed

lemma continuation_byte:
  "byte (char_of (0x80 + n mod 64)) = 0x80 + n mod (64::int)"
  "in_range 0x80 0xBF (0x80 + n mod (64::int))"
proof -
  have "0 \<le> n mod 64" "n mod 64 < 64" by simp_all
  then show "byte (char_of (0x80 + n mod 64)) = 0x80 + n mod 64" "in_range 0x80 0xBF (0x80 + n mod 64)"
    by (simp_all add: byte_char_of in_range_def)
qed

lemma encode_rune_valid [simp]: "utf8_valid (encode_rune r)"
proof -
  define q where "q = (if r < 0 \<or> 0x10FFFF < r \<or> is_surrogate r then rune_error else r)"
  have q: "0 \<le> q" "q \<le> 0x10FFFF" "q < 0xD800 \<or> 0xDFFF < q" and e: "encode_rune r = encode_rune q"
    by (auto simp: q_def is_surrogate_def in_range_def rune_error_def encode_rune_def)
  have b: "0 \<le> q mod 64" "q mod 64 < 64" "0 \<le> q div 64 mod 64" "q div 64 mod 64 < 64"
    "0 \<le> q mod 4096" "q mod 4096 < 4096" by simp_all
  note c = continuation_byte [of q] continuation_byte [of "q div 64"] continuation_byte [of "q div 4096"]
  consider "q < 0x80" | "0x80 \<le> q" "q < 0x800" | "0x800 \<le> q" "q < 0x10000" | "0x10000 \<le> q" by linarith
  then show ?thesis
  proof cases
    case 1
    with q have "encode_rune q = [char_of q]" by (simp add: encode_rune_def is_surrogate_def in_range_def)
    then show ?thesis using 1 q unfolding e by (simp add: byte_char_of)
  next
    case 2
    then have "encode_rune q = [char_of (0xC0 + q div 64), char_of (0x80 + q mod 64)]"
      by (simp add: encode_rune_def is_surrogate_def in_range_def)
    moreover from 2 have "2 \<le> q div 64" "q div 64 \<le> 31" by auto
    then have "byte (char_of (0xC0 + q div 64)) = 0xC0 + q div 64" "in_range 0xC2 0xDF (0xC0 + q div 64)"
      by (simp_all add: byte_char_of in_range_def)
    ultimately show ?thesis using c(1,2) unfolding e by (simp add: utf8_valid_2)
  next
    case 3
    define p where "p = q div 4096"
    have p: "0 \<le> p" "p \<le> 15" using 3 by (auto simp: p_def)
    then have h: "byte (char_of (0xE0 + p)) = 0xE0 + p" "in_range 0xE0 0xEF (0xE0 + p)"
      by (simp_all add: byte_char_of in_range_def)
    have l: "p = 0 \<Longrightarrow> 32 \<le> q div 64 mod 64" using 3(1) digits3 [of q] b unfolding p_def by linarith
    have u: "p = 13 \<Longrightarrow> q div 64 mod 64 \<le> 31" using q(3) digits3 [of q] b unfolding p_def by linarith
    have "in_range (if 0xE0 + p = 0xE0 then 0xA0 else 0x80) (if 0xE0 + p = 0xED then 0x9F else 0xBF)
        (0x80 + q div 64 mod 64)"
      using l u b(3,4) by (cases "p = 0"; cases "p = 13") (simp_all add: in_range_def)
    then have "utf8_valid [char_of (0xE0 + p), char_of (0x80 + q div 64 mod 64), char_of (0x80 + q mod 64)]"
      by (intro utf8_valid_3) (simp_all only: h c)
    then show ?thesis using encode_rune_3 [OF 3 q(3)] unfolding e p_def by simp
  next
    case 4
    define p where "p = q div 262144"
    have p: "0 \<le> p" "p \<le> 4" using 4 q(2) by (auto simp: p_def)
    then have h: "byte (char_of (0xF0 + p)) = 0xF0 + p" "in_range 0xF0 0xF4 (0xF0 + p)"
      by (simp_all add: byte_char_of in_range_def)
    have b4: "0 \<le> q div 4096 mod 64" "q div 4096 mod 64 < 64" by simp_all
    have l: "p = 0 \<Longrightarrow> 16 \<le> q div 4096 mod 64" using 4 digits4 [of q] b unfolding p_def by linarith
    have u: "p = 4 \<Longrightarrow> q div 4096 mod 64 \<le> 15" using q(2) digits4 [of q] b unfolding p_def by linarith
    have "in_range (if 0xF0 + p = 0xF0 then 0x90 else 0x80) (if 0xF0 + p = 0xF4 then 0x8F else 0xBF)
        (0x80 + q div 4096 mod 64)"
      using l u b4 by (cases "p = 0"; cases "p = 4") (simp_all add: in_range_def)
    then have "utf8_valid [char_of (0xF0 + p), char_of (0x80 + q div 4096 mod 64),
       char_of (0x80 + q div 64 mod 64), char_of (0x80 + q mod 64)]"
      by (intro utf8_valid_4) (simp_all only: h c)
    then show ?thesis using encode_rune_4 [OF 4 q(2)] unfolding e p_def by simp
  qed
qed

end
