(* ===== verification/Go_Json.thy ===== *)
theory Go_Json
  imports Go_Unicode
begin

text \<open>
  What the source uses of Go's \<open>encoding/json\<close>: the token stream of \<open>json.Decoder\<close> with
  \<open>UseNumber\<close> (its state machine, state by state), decoding of a document into a tree,
  and the compact encoding of a tree by \<open>json.Marshal\<close>.  The relation \<open>reads\<close> is the
  specification of the recursive readers, and the fuel they are given is proved to be
  enough.  The nesting limit of 10000 that \<open>json.Unmarshal\<close> has is not modelled.
\<close>

subsection \<open>Scalars\<close>

definition hex_val :: "char \<Rightarrow> int option" where
  "hex_val c =
     (if is_digit c then Some (byte c - 48)
      else if in_range 97 102 (byte c) then Some (byte c - 87)
      else if in_range 65 70 (byte c) then Some (byte c - 55)
      else None)"

fun hex_quad :: "bytes \<Rightarrow> rune option" where
  "hex_quad (a # b # c # d # _) =
     (case (hex_val a, hex_val b, hex_val c, hex_val d) of
        (Some w, Some x, Some y, Some z) \<Rightarrow> Some (((w * 16 + x) * 16 + y) * 16 + z)
      | _ \<Rightarrow> None)"
| "hex_quad _ = None"

text \<open>A string literal after its opening quote: the decoded bytes and the input after the
  closing quote.  Invalid UTF-8 and unpaired surrogate escapes decode to U+FFFD, control
  bytes are refused.\<close>

definition simple_escape :: "char \<Rightarrow> char option" where
  "simple_escape c =
     (if c = CHR 0x22 \<or> c = CHR 0x5C \<or> c = CHR 0x2F then Some c
      else if c = CHR ''b'' then Some (CHR 0x08) else if c = CHR ''f'' then Some (CHR 0x0C)
      else if c = CHR ''n'' then Some (CHR 0x0A) else if c = CHR ''r'' then Some (CHR 0x0D)
      else if c = CHR ''t'' then Some (CHR 0x09) else None)"

definition unicode_escape :: "bytes \<Rightarrow> (bytes \<times> nat) option" where
  "unicode_escape s =
     (case hex_quad s of
        None \<Rightarrow> None
      | Some r \<Rightarrow>
          if \<not> is_surrogate r then Some (encode_rune r, 4)
          else let tail = drop 4 s in
            (case (if has_prefix tail [CHR 0x5C, CHR ''u''] then hex_quad (drop 2 tail) else None) of
               Some lo \<Rightarrow>
                 (let d = utf16_decode_rune r lo in
                  if d \<noteq> rune_error then Some (encode_rune d, 10) else Some (encode_rune rune_error, 4))
             | None \<Rightarrow> Some (encode_rune rune_error, 4)))"

text \<open>One decoded unit of a string literal and its width; \<open>None\<close> is a syntax error.\<close>

definition string_unit :: "bytes \<Rightarrow> (bytes \<times> nat) option" where
  "string_unit s =
     (case s of
        [] \<Rightarrow> None
      | c # cs \<Rightarrow>
          if c = CHR 0x5C then
            (case cs of
               [] \<Rightarrow> None
             | e # rest \<Rightarrow>
                 if e = CHR ''u''
                 then map_option (\<lambda>(out, w). (out, 2 + w)) (unicode_escape rest)
                 else map_option (\<lambda>x. ([x], 2)) (simple_escape e))
          else if byte c < 0x20 then None
          else if byte c < 0x80 then Some ([c], 1)
          else (case decode_rune s of (r, _, w) \<Rightarrow> Some (encode_rune r, w)))"

lemma string_unit_width: "string_unit s = Some (out, w) \<Longrightarrow> 1 \<le> w"
  using decode_rune_width [of s]
  by (auto simp: string_unit_def split: list.splits if_splits prod.splits)

function scan_string :: "bytes \<Rightarrow> (string \<times> bytes) option" where
  "scan_string s =
     (case s of
        [] \<Rightarrow> None
      | c # cs \<Rightarrow>
          if c = CHR 0x22 then Some ([], cs)
          else (case string_unit s of
                  None \<Rightarrow> None
                | Some (out, w) \<Rightarrow>
                    map_option (\<lambda>(t, rest). (out @ t, rest)) (scan_string (drop w s))))"
  by pat_completeness auto
termination
proof (relation "measure length")
  fix s x21 x22 y x w
  assume s: "s = x21 # x22" and u: "string_unit s = Some y" "(x, w) = y"
  then have "1 \<le> w" by (auto dest: string_unit_width)
  with s show "(drop w s, s) \<in> measure length" by simp
qed simp

declare scan_string.simps [simp del]

fun span_digits :: "bytes \<Rightarrow> bytes \<times> bytes" where
  "span_digits [] = ([], [])"
| "span_digits (c # cs) =
     (if is_digit c then (case span_digits cs of (ds, r) \<Rightarrow> (c # ds, r)) else ([], c # cs))"

text \<open>The JSON number grammar; the literal is kept as text (\<open>json.Number\<close>).\<close>

definition scan_integer :: "bytes \<Rightarrow> (bytes \<times> bytes) option" where
  "scan_integer s =
     (case s of
        [] \<Rightarrow> None
      | c # cs \<Rightarrow> if c = CHR ''0'' then Some ([c], cs)
                  else if is_digit c then Some (span_digits s) else None)"

definition scan_fraction :: "bytes \<Rightarrow> (bytes \<times> bytes) option" where
  "scan_fraction s =
     (case s of
        [] \<Rightarrow> Some ([], [])
      | c # cs \<Rightarrow>
          if c = CHR ''.'' then
            (case span_digits cs of (ds, r) \<Rightarrow> if ds = [] then None else Some (c # ds, r))
          else Some ([], s))"

definition scan_exponent :: "bytes \<Rightarrow> (bytes \<times> bytes) option" where
  "scan_exponent s =
     (case s of
        [] \<Rightarrow> Some ([], [])
      | c # cs \<Rightarrow>
          if c = CHR ''e'' \<or> c = CHR ''E'' then
            (let (sign, rest) = (case cs of
                   d # ds \<Rightarrow> if d = CHR ''+'' \<or> d = CHR ''-'' then ([d], ds) else ([], cs)
                 | [] \<Rightarrow> ([], []))
             in case span_digits rest of (ds, r) \<Rightarrow>
                  if ds = [] then None else Some (c # sign @ ds, r))
          else Some ([], s))"

definition scan_number :: "bytes \<Rightarrow> (string \<times> bytes) option" where
  "scan_number s =
     (let (sign, s1) = (if has_prefix s ''-'' then (''-'', tl s) else ([], s)) in
      case scan_integer s1 of
        None \<Rightarrow> None
      | Some (i, s2) \<Rightarrow>
          (case scan_fraction s2 of
             None \<Rightarrow> None
           | Some (f, s3) \<Rightarrow>
               (case scan_exponent s3 of
                  None \<Rightarrow> None
                | Some (e, s4) \<Rightarrow> Some (sign @ i @ f @ e, s4))))"

subsection \<open>The token stream of \<open>json.Decoder\<close>\<close>

datatype tok = TDelim char | TStr string | TNum string | TBool bool | TNull

datatype tok_state =
    TopValue | ArrayStart | ArrayValue | ArrayComma
  | ObjectStart | ObjectKey | ObjectColon | ObjectValue | ObjectComma

datatype tok_error = EndOfInput | SyntaxError

record decoder =
  tokenState :: tok_state
  tokenStack :: "tok_state list"
  input :: bytes

definition new_decoder :: "bytes \<Rightarrow> decoder" where
  "new_decoder s = \<lparr>tokenState = TopValue, tokenStack = [], input = s\<rparr>"

definition is_space :: "char \<Rightarrow> bool" where
  "is_space c \<longleftrightarrow> c = CHR 0x20 \<or> c = CHR 0x09 \<or> c = CHR 0x0D \<or> c = CHR 0x0A"

definition value_allowed :: "tok_state \<Rightarrow> bool" where
  "value_allowed st \<longleftrightarrow> st = TopValue \<or> st = ArrayStart \<or> st = ArrayValue \<or> st = ObjectValue"

fun value_end :: "tok_state \<Rightarrow> tok_state" where
  "value_end ArrayStart = ArrayComma"
| "value_end ArrayValue = ArrayComma"
| "value_end ObjectValue = ObjectComma"
| "value_end st = st"

definition scan_scalar :: "bytes \<Rightarrow> (tok \<times> bytes) option" where
  "scan_scalar s =
     (if has_prefix s [CHR 0x22] then map_option (\<lambda>(x, r). (TStr x, r)) (scan_string (tl s))
      else if has_prefix s ''true'' then Some (TBool True, drop 4 s)
      else if has_prefix s ''false'' then Some (TBool False, drop 5 s)
      else if has_prefix s ''null'' then Some (TNull, drop 4 s)
      else map_option (\<lambda>(x, r). (TNum x, r)) (scan_number s))"

fun next_token :: "tok_state \<Rightarrow> tok_state list \<Rightarrow> bytes \<Rightarrow> tok_error + (tok \<times> decoder)" where
  "next_token st stack [] = Inl EndOfInput"
| "next_token st stack (c # cs) =
     (if is_space c then next_token st stack cs
      else if c = CHR ''['' then
        (if value_allowed st
         then Inr (TDelim c, \<lparr>tokenState = ArrayStart, tokenStack = st # stack, input = cs\<rparr>)
         else Inl SyntaxError)
      else if c = CHR ''{'' then
        (if value_allowed st
         then Inr (TDelim c, \<lparr>tokenState = ObjectStart, tokenStack = st # stack, input = cs\<rparr>)
         else Inl SyntaxError)
      else if c = CHR '']'' then
        (if (st = ArrayStart \<or> st = ArrayComma) \<and> stack \<noteq> []
         then Inr (TDelim c, \<lparr>tokenState = value_end (hd stack), tokenStack = tl stack, input = cs\<rparr>)
         else Inl SyntaxError)
      else if c = CHR ''}'' then
        (if (st = ObjectStart \<or> st = ObjectComma) \<and> stack \<noteq> []
         then Inr (TDelim c, \<lparr>tokenState = value_end (hd stack), tokenStack = tl stack, input = cs\<rparr>)
         else Inl SyntaxError)
      else if c = CHR '':'' then
        (if st = ObjectColon then next_token ObjectValue stack cs else Inl SyntaxError)
      else if c = CHR '','' then
        (if st = ArrayComma then next_token ArrayValue stack cs
         else if st = ObjectComma then next_token ObjectKey stack cs
         else Inl SyntaxError)
      else if c = CHR 0x22 \<and> (st = ObjectStart \<or> st = ObjectKey) then
        (case scan_string cs of
           None \<Rightarrow> Inl SyntaxError
         | Some (x, r) \<Rightarrow> Inr (TStr x, \<lparr>tokenState = ObjectColon, tokenStack = stack, input = r\<rparr>))
      else if \<not> value_allowed st then Inl SyntaxError
      else (case scan_scalar (c # cs) of
              None \<Rightarrow> Inl SyntaxError
            | Some (t, r) \<Rightarrow>
                Inr (t, \<lparr>tokenState = value_end st, tokenStack = stack, input = r\<rparr>)))"

definition dec_token :: "decoder \<Rightarrow> tok_error + (tok \<times> decoder)" where
  "dec_token d = next_token (tokenState d) (tokenStack d) (input d)"

text \<open>\<open>dec.More()\<close>: there is a next byte and it closes nothing.\<close>

definition dec_more :: "decoder \<Rightarrow> bool" where
  "dec_more d =
     (case dropWhile is_space (input d) of
        [] \<Rightarrow> False
      | c # _ \<Rightarrow> c \<noteq> CHR '']'' \<and> c \<noteq> CHR ''}'')"

subsection \<open>Trees\<close>

datatype json = JNull | JBool bool | JNum string | JStr string
  | JArr "json list" | JObj "(string \<times> json) list"

lemma json_tree_induct [case_names JNull JBool JNum JStr JArr JObj]:
  assumes "P JNull" "\<And>b. P (JBool b)" "\<And>n. P (JNum n)" "\<And>s. P (JStr s)"
    and "\<And>vs. (\<And>v. v \<in> set vs \<Longrightarrow> P v) \<Longrightarrow> P (JArr vs)"
    and "\<And>ms. (\<And>k v. (k, v) \<in> set ms \<Longrightarrow> P v) \<Longrightarrow> P (JObj ms)"
  shows "P v"
  by (induction v) (auto intro!: assms)

text \<open>A value read off the token stream; the fuel is spent one unit per call and
  \<open>None\<close> is running out of it.\<close>

fun tree_value :: "nat \<Rightarrow> decoder \<Rightarrow> (tok_error + (json \<times> decoder)) option"
  and tree_array :: "nat \<Rightarrow> decoder \<Rightarrow> json list \<Rightarrow> (tok_error + (json \<times> decoder)) option"
  and tree_object :: "nat \<Rightarrow> decoder \<Rightarrow> (string \<times> json) list
        \<Rightarrow> (tok_error + (json \<times> decoder)) option" where
  "tree_value 0 d = None"
| "tree_value (Suc n) d =
     (case dec_token d of
        Inl e \<Rightarrow> Some (Inl e)
      | Inr (TDelim c, d1) \<Rightarrow>
          if c = CHR ''{'' then tree_object n d1 []
          else if c = CHR ''['' then tree_array n d1 []
          else Some (Inl SyntaxError)
      | Inr (TStr s, d1) \<Rightarrow> Some (Inr (JStr s, d1))
      | Inr (TNum s, d1) \<Rightarrow> Some (Inr (JNum s, d1))
      | Inr (TBool b, d1) \<Rightarrow> Some (Inr (JBool b, d1))
      | Inr (TNull, d1) \<Rightarrow> Some (Inr (JNull, d1)))"
| "tree_array 0 d acc = None"
| "tree_array (Suc n) d acc =
     (if dec_more d then
        (case tree_value n d of
           None \<Rightarrow> None
         | Some (Inl e) \<Rightarrow> Some (Inl e)
         | Some (Inr (v, d1)) \<Rightarrow> tree_array n d1 (acc @ [v]))
      else (case dec_token d of
              Inl e \<Rightarrow> Some (Inl e)
            | Inr (_, d1) \<Rightarrow> Some (Inr (JArr acc, d1))))"
| "tree_object 0 d acc = None"
| "tree_object (Suc n) d acc =
     (if dec_more d then
        (case dec_token d of
           Inr (TStr k, d1) \<Rightarrow>
             (case tree_value n d1 of
                None \<Rightarrow> None
              | Some (Inl e) \<Rightarrow> Some (Inl e)
              | Some (Inr (v, d2)) \<Rightarrow> tree_object n d2 (acc @ [(k, v)]))
         | Inl e \<Rightarrow> Some (Inl e)
         | _ \<Rightarrow> Some (Inl SyntaxError))
      else (case dec_token d of
              Inl e \<Rightarrow> Some (Inl e)
            | Inr (_, d1) \<Rightarrow> Some (Inr (JObj acc, d1))))"

subsection \<open>Every token consumes input\<close>

lemma scan_string_shorter: "scan_string s = Some (x, r) \<Longrightarrow> length r < length s"
proof (induction s arbitrary: x r rule: scan_string.induct)
  case (1 s)
  from "1.prems" obtain c cs where s: "s = c # cs"
    by (subst (asm) scan_string.simps) (auto split: list.splits)
  show ?case
  proof (cases "c = CHR 0x22")
    case True
    with "1.prems" s show ?thesis by (subst (asm) scan_string.simps) simp
  next
    case False
    with "1.prems" s obtain out w t where u: "string_unit s = Some (out, w)"
      and t: "scan_string (drop w s) = Some (t, r)"
      by (subst (asm) scan_string.simps) (auto split: option.splits)
    from "1.IH" [OF s False u refl t] have "length r < length (drop w s)" .
    then show ?thesis by simp
  qed
qed

lemma span_digits_append: "span_digits s = (ds, r) \<Longrightarrow> s = ds @ r"
  by (induction s arbitrary: ds r) (auto split: if_splits prod.splits)

lemma scan_integer_append: "scan_integer s = Some (x, r) \<Longrightarrow> s = x @ r \<and> x \<noteq> []"
  by (cases s) (auto simp: scan_integer_def split: if_splits prod.splits dest!: span_digits_append)

lemma scan_fraction_append: "scan_fraction s = Some (x, r) \<Longrightarrow> s = x @ r"
  by (cases s) (auto simp: scan_fraction_def split: if_splits prod.splits dest!: span_digits_append)

lemma scan_exponent_append: "scan_exponent s = Some (x, r) \<Longrightarrow> s = x @ r"
  by (cases s)
    (auto simp: scan_exponent_def Let_def split: if_splits prod.splits list.splits
      dest!: span_digits_append)

lemma has_prefix_single: "has_prefix s [c] \<longleftrightarrow> s \<noteq> [] \<and> hd s = c"
  by (cases s) auto

lemma scan_number_append:
  assumes "scan_number s = Some (x, r)"
  shows "s = x @ r \<and> x \<noteq> []"
proof -
  define sign s1 where "sign = (if has_prefix s ''-'' then ''-'' else [])"
    and "s1 = (if has_prefix s ''-'' then tl s else s)"
  have s: "s = sign @ s1"
    by (cases s) (auto simp: sign_def s1_def)
  from assms obtain i s2 f s3 e where "scan_integer s1 = Some (i, s2)"
    "scan_fraction s2 = Some (f, s3)" "scan_exponent s3 = Some (e, r)" "x = sign @ i @ f @ e"
    unfolding scan_number_def sign_def s1_def
    by (cases "has_prefix s ''-''") (auto split: option.splits)
  with s show ?thesis
    by (auto dest!: scan_integer_append scan_fraction_append scan_exponent_append)
qed

lemma has_prefix_Cons_nonempty: "has_prefix s (c # p) \<Longrightarrow> s \<noteq> []"
  by (cases s) auto

lemma scan_scalar_shorter:
  assumes "scan_scalar s = Some (t, r)"
  shows "length r < length s"
proof -
  have drop_shorter: "length (drop (Suc n) s) < length s" if "s \<noteq> []" for n
    using that by simp
  consider "has_prefix s [CHR 0x22]" "\<exists>x. scan_string (tl s) = Some (x, r)"
    | n where "s \<noteq> []" "r = drop (Suc n) s" | "\<exists>x. scan_number s = Some (x, r)"
    using assms has_prefix_Cons_nonempty [of s]
    by (fastforce simp: scan_scalar_def eval_nat_numeral split: if_splits)
  then show ?thesis
  proof cases
    case 1
    then show ?thesis by (cases s) (auto dest!: scan_string_shorter)
  next
    case 2
    then show ?thesis using drop_shorter by simp
  next
    case 3
    then show ?thesis by (auto dest!: scan_number_append)
  qed
qed

lemma next_token_step:
  assumes "next_token st stack (c # cs) = Inr (t, d)"
  obtains (skip) st' where "next_token st' stack cs = Inr (t, d)"
  | (delim) "input d = cs" "t = TDelim c"
  | (str) x where "scan_string cs = Some (x, input d)" "t = TStr x"
  | (scalar) "scan_scalar (c # cs) = Some (t, input d)"
proof (cases "is_space c \<or> c = CHR '':'' \<or> c = CHR '',''")
  case True
  have "\<exists>st'. next_token st' stack cs = Inr (t, d)"
    using assms True by (auto simp: is_space_def split: if_splits)
  then show ?thesis using skip by blast
next
  case False
  then have n: "\<not> is_space c" "c \<noteq> CHR '':''" "c \<noteq> CHR '',''" by auto
  show ?thesis
  proof (cases "c \<in> {CHR ''['', CHR '']'', CHR ''{'', CHR ''}''}")
    case True
    with assms n show ?thesis by (intro delim) (auto split: if_splits)
  next
    case F: False
    then have d: "c \<noteq> CHR ''[''" "c \<noteq> CHR '']''" "c \<noteq> CHR ''{''" "c \<noteq> CHR ''}''" by auto
    show ?thesis
    proof (cases "c = CHR 0x22 \<and> (st = ObjectStart \<or> st = ObjectKey)")
      case True
      then have q: "(c = CHR 0x22 \<and> (st = ObjectStart \<or> st = ObjectKey)) = True" by (rule eqTrueI)
      from assms have "(case scan_string cs of None \<Rightarrow> Inl SyntaxError
         | Some (x, r) \<Rightarrow> Inr (TStr x, \<lparr>tokenState = ObjectColon, tokenStack = stack, input = r\<rparr>))
           = Inr (t, d)"
        by (simp only: next_token.simps n d q if_False if_True simp_thms)
      then show ?thesis using str by (auto split: option.splits)
    next
      case False
      from assms have "(if \<not> value_allowed st then Inl SyntaxError
          else case scan_scalar (c # cs) of None \<Rightarrow> Inl SyntaxError
            | Some (t, r) \<Rightarrow> Inr (t, \<lparr>tokenState = value_end st, tokenStack = stack, input = r\<rparr>))
           = Inr (t, d)"
        by (simp only: next_token.simps n d False if_False if_True simp_thms)
      then show ?thesis using scalar by (auto split: option.splits if_splits)
    qed
  qed
qed

lemma next_token_shorter:
  "next_token st stack s = Inr (t, d) \<Longrightarrow> length (input d) < length s"
proof (induction s arbitrary: st)
  case (Cons c cs)
  from Cons.prems show ?case
  proof (cases rule: next_token_step)
    case (skip st')
    then show ?thesis using Cons.IH by fastforce
  next
    case scalar
    then show ?thesis by (rule scan_scalar_shorter)
  qed (auto dest: scan_string_shorter)
qed simp

lemma dec_token_shorter: "dec_token d = Inr (t, d') \<Longrightarrow> length (input d') < length (input d)"
  unfolding dec_token_def by (rule next_token_shorter)

subsection \<open>Documents as a relation on decoder states\<close>

text \<open>\<open>reads d v d'\<close>: the tokens from state \<open>d\<close> on spell the value \<open>v\<close> and leave the
  decoder in \<open>d'\<close>.  This is the specification of the recursive readers.\<close>

fun scalar_of :: "tok \<Rightarrow> json option" where
  "scalar_of (TDelim c) = None"
| "scalar_of (TStr s) = Some (JStr s)"
| "scalar_of (TNum s) = Some (JNum s)"
| "scalar_of (TBool b) = Some (JBool b)"
| "scalar_of TNull = Some JNull"

inductive reads :: "decoder \<Rightarrow> json \<Rightarrow> decoder \<Rightarrow> bool"
  and reads_elems :: "decoder \<Rightarrow> json list \<Rightarrow> decoder \<Rightarrow> bool"
  and reads_members :: "decoder \<Rightarrow> (string \<times> json) list \<Rightarrow> decoder \<Rightarrow> bool" where
  scalar: "dec_token d = Inr (t, d') \<Longrightarrow> scalar_of t = Some v \<Longrightarrow> reads d v d'"
| object: "dec_token d = Inr (TDelim (CHR ''{''), d1) \<Longrightarrow> reads_members d1 ms d'
     \<Longrightarrow> reads d (JObj ms) d'"
| array: "dec_token d = Inr (TDelim (CHR ''[''), d1) \<Longrightarrow> reads_elems d1 vs d'
     \<Longrightarrow> reads d (JArr vs) d'"
| elems_end: "\<not> dec_more d \<Longrightarrow> dec_token d = Inr (t, d') \<Longrightarrow> reads_elems d [] d'"
| elems_cons: "dec_more d \<Longrightarrow> reads d v d1 \<Longrightarrow> reads_elems d1 vs d' \<Longrightarrow> reads_elems d (v # vs) d'"
| members_end: "\<not> dec_more d \<Longrightarrow> dec_token d = Inr (t, d') \<Longrightarrow> reads_members d [] d'"
| members_cons: "dec_more d \<Longrightarrow> dec_token d = Inr (TStr k, d1) \<Longrightarrow> reads d1 v d2
     \<Longrightarrow> reads_members d2 ms d' \<Longrightarrow> reads_members d ((k, v) # ms) d'"

lemma reads_shorter:
  "reads d v d' \<Longrightarrow> length (input d') < length (input d)"
  "reads_elems d vs d' \<Longrightarrow> length (input d') < length (input d)"
  "reads_members d ms d' \<Longrightarrow> length (input d') < length (input d)"
  by (induction rule: reads_reads_elems_reads_members.inducts)
    (auto dest!: dec_token_shorter)

lemma tree_sound:
  "tree_value n d = Some (Inr (v, d')) \<Longrightarrow> reads d v d'"
  "tree_array n d acc = Some (Inr (v, d')) \<Longrightarrow> \<exists>vs. v = JArr (acc @ vs) \<and> reads_elems d vs d'"
  "tree_object n d mem = Some (Inr (v, d')) \<Longrightarrow> \<exists>ms. v = JObj (mem @ ms) \<and> reads_members d ms d'"
proof (induction n arbitrary: d acc mem v d')
  case (Suc n)
  {
    case 1
    from 1 obtain t d1 where t: "dec_token d = Inr (t, d1)" by (auto split: sum.splits)
    show ?case
    proof (cases "\<exists>c. t = TDelim c")
      case True
      with 1 t show ?thesis
        by (auto split: if_splits dest!: Suc.IH) (rule object array; assumption)+
    next
      case False
      with 1 t show ?thesis by (intro scalar [of d t d']) (auto split: tok.splits)
    qed
  next
    case 2
    then show ?case
      by (fastforce split: sum.splits option.splits prod.splits if_splits dest!: Suc.IH
          intro: reads_reads_elems_reads_members.intros)
  next
    case 3
    then show ?case
      by (fastforce split: sum.splits option.splits prod.splits tok.splits if_splits dest!: Suc.IH
          intro: reads_reads_elems_reads_members.intros)
  }
qed simp_all

lemma tree_complete:
  "reads d v d' \<Longrightarrow> 3 * length (input d) + 1 \<le> n \<Longrightarrow> tree_value n d = Some (Inr (v, d'))"
  "reads_elems d vs d' \<Longrightarrow> 3 * length (input d) + 2 \<le> n
     \<Longrightarrow> tree_array n d acc = Some (Inr (JArr (acc @ vs), d'))"
  "reads_members d ms d' \<Longrightarrow> 3 * length (input d) + 2 \<le> n
     \<Longrightarrow> tree_object n d mem = Some (Inr (JObj (mem @ ms), d'))"
proof (induction arbitrary: n and n acc and n mem rule: reads_reads_elems_reads_members.inducts)
  case (scalar d t d' v)
  then show ?case by (cases n; cases t) auto
next
  case (object d d1 ms d')
  then show ?case by (cases n) (auto dest!: dec_token_shorter)
next
  case (array d d1 vs d')
  then show ?case by (cases n) (auto dest!: dec_token_shorter)
next
  case (elems_end d t d')
  then show ?case by (cases n) auto
next
  case (elems_cons d v d1 vs d')
  then show ?case by (cases n) (auto dest!: reads_shorter(1))
next
  case (members_end d t d')
  then show ?case by (cases n) auto
next
  case (members_cons d k d1 v d2 ms d')
  then show ?case by (cases n) (auto dest!: reads_shorter(1) dec_token_shorter)
qed

lemma tree_value_iff_reads:
  "3 * length (input d) + 1 \<le> n \<Longrightarrow> tree_value n d = Some (Inr (v, d')) \<longleftrightarrow> reads d v d'"
  using tree_sound(1) tree_complete(1) by blast

lemma tree_value_total:
  "3 * length (input d) + 1 \<le> n \<Longrightarrow> tree_value n d \<noteq> None"
  "3 * length (input d) + 2 \<le> n \<Longrightarrow> tree_array n d acc \<noteq> None"
  "3 * length (input d) + 2 \<le> n \<Longrightarrow> tree_object n d mem \<noteq> None"
proof (induction n arbitrary: d acc mem)
  case (Suc n)
  {
    case 1
    then show ?case
      using Suc.IH(2,3) by (auto split: sum.splits tok.splits dest!: dec_token_shorter)
  next
    case 2
    have "tree_array n d1 a \<noteq> None" if "tree_value n d = Some (Inr (v, d1))" for v d1 a
      using tree_sound(1) [OF that] reads_shorter(1) 2 by (intro Suc.IH) fastforce
    then show ?case using Suc.IH(1) [of d] 2 by (auto split: sum.splits option.splits)
  next
    case 3
    have v: "tree_value n d1 \<noteq> None" if "dec_token d = Inr (t, d1)" for t d1
      using dec_token_shorter [OF that] 3 by (intro Suc.IH) simp
    have o: "tree_object n d2 a \<noteq> None"
      if "dec_token d = Inr (t, d1)" "tree_value n d1 = Some (Inr (v, d2))" for t d1 d2 v a
      using tree_sound(1) [OF that(2)] reads_shorter(1) dec_token_shorter [OF that(1)] 3
      by (intro Suc.IH) fastforce
    show ?case using v o by (auto split: sum.splits option.splits tok.splits)
  }
qed simp_all

definition json_decode :: "bytes \<Rightarrow> json option" where
  "json_decode s =
     (case tree_value (3 * length s + 1) (new_decoder s) of
        Some (Inr (v, d)) \<Rightarrow> if list_all is_space (input d) then Some v else None
      | _ \<Rightarrow> None)"

lemma json_decode_iff_reads:
  "json_decode s = Some v \<longleftrightarrow>
     (\<exists>d. reads (new_decoder s) v d \<and> list_all is_space (input d))"
proof -
  define r where "r = tree_value (3 * length s + 1) (new_decoder s)"
  have "r = Some (Inr (v', d)) \<longleftrightarrow> reads (new_decoder s) v' d" for v' d
    unfolding r_def by (rule tree_value_iff_reads) (simp add: new_decoder_def)
  moreover have "json_decode s = Some v \<longleftrightarrow> (\<exists>d. r = Some (Inr (v, d)) \<and> list_all is_space (input d))"
    unfolding json_decode_def r_def [symmetric]
    by (cases r) (auto split: sum.splits)
  ultimately show ?thesis by simp
qed

subsection \<open>Decoder states around a value\<close>

text \<open>The states in which a value is read, and the state the separator leads to.\<close>

definition value_state :: "tok_state \<Rightarrow> bool" where
  "value_state st \<longleftrightarrow> value_allowed st \<or> st = ArrayComma \<or> st = ObjectColon"

fun past_separator :: "tok_state \<Rightarrow> tok_state" where
  "past_separator ArrayComma = ArrayValue"
| "past_separator ObjectColon = ObjectValue"
| "past_separator st = st"

lemma value_allowed_simps [simp]:
  "value_allowed TopValue" "value_allowed ArrayStart" "value_allowed ArrayValue"
  "value_allowed ObjectValue" "\<not> value_allowed ArrayComma" "\<not> value_allowed ObjectStart"
  "\<not> value_allowed ObjectKey" "\<not> value_allowed ObjectColon" "\<not> value_allowed ObjectComma"
  by (simp_all add: value_allowed_def)

lemma is_space_simps [simp]:
  "\<not> is_space (CHR ''['')" "\<not> is_space (CHR '']'')" "\<not> is_space (CHR ''{'')" "\<not> is_space (CHR ''}'')"
  "\<not> is_space (CHR '':'')" "\<not> is_space (CHR '','')" "\<not> is_space (CHR 0x22)"
  by (simp_all add: is_space_def)

lemma scan_scalar_scalar: "scan_scalar s = Some (t, r) \<Longrightarrow> scalar_of t \<noteq> None"
  by (auto simp: scan_scalar_def split: if_splits)

lemma next_token_dropWhile: "next_token st stack s = next_token st stack (dropWhile is_space s)"
  by (induction s) auto

lemma next_token_value:
  "next_token st stack s = Inr (t, d) \<Longrightarrow> value_state st \<Longrightarrow>
     (scalar_of t \<noteq> None \<longrightarrow> tokenState d = value_end (past_separator st) \<and> tokenStack d = stack)
   \<and> (t = TDelim (CHR ''['') \<longrightarrow> tokenState d = ArrayStart \<and> tokenStack d = past_separator st # stack)
   \<and> (t = TDelim (CHR ''{'') \<longrightarrow> tokenState d = ObjectStart \<and> tokenStack d = past_separator st # stack)"
proof (induction s arbitrary: st)
  case (Cons c cs)
  show ?case
  proof (cases "c \<in> {CHR ''['', CHR '']'', CHR ''{'', CHR ''}'', CHR '':'', CHR '',''} \<or> is_space c")
    case True
    then consider "is_space c" | "\<not> is_space c" "c \<in> {CHR ''['', CHR '']'', CHR ''{'', CHR ''}'', CHR '':'', CHR '',''}"
      by blast
    then show ?thesis
    proof cases
      case 1
      with Cons.prems(1) have "next_token st stack cs = Inr (t, d)" by simp
      with Cons.IH Cons.prems(2) show ?thesis by blast
    next
      case 2
      with Cons.prems show ?thesis
        using Cons.IH [of ArrayValue] Cons.IH [of ObjectValue]
        by (cases st) (auto simp: value_state_def split: if_splits)
    qed
  next
    case False
    with Cons.prems show ?thesis
      by (cases st) (auto simp: value_state_def split: option.splits dest: scan_scalar_scalar)
  qed
qed simp

lemma next_token_key:
  "next_token st stack s = Inr (TStr k, d) \<Longrightarrow> st = ObjectStart \<or> st = ObjectKey \<or> st = ObjectComma
     \<Longrightarrow> tokenState d = ObjectColon \<and> tokenStack d = stack"
proof (induction s arbitrary: st)
  case (Cons c cs)
  show ?case
  proof (cases "c \<in> {CHR ''['', CHR '']'', CHR ''{'', CHR ''}'', CHR '':'', CHR '',''} \<or> is_space c")
    case True
    with Cons.prems show ?thesis using Cons.IH [of st] Cons.IH [of ObjectKey]
      by (cases "is_space c") (auto split: if_splits)
  next
    case False
    with Cons.prems show ?thesis by (auto split: option.splits if_splits)
  qed
qed simp

lemma dec_more_dropWhile:
  "\<not> dec_more d \<Longrightarrow> dec_token d = Inr (t, d')
     \<Longrightarrow> \<exists>c cs. dropWhile is_space (input d) = c # cs \<and> (c = CHR '']'' \<or> c = CHR ''}'')"
  unfolding dec_token_def next_token_dropWhile [of _ _ "input d"] dec_more_def
  by (auto split: list.splits)

lemma close_token:
  assumes "\<not> dec_more d" and "dec_token d = Inr (t, d')" and "tokenStack d = s # rest"
  shows "tokenState d' = value_end s \<and> tokenStack d' = rest"
proof -
  from dec_more_dropWhile [OF assms(1,2)] obtain c cs
    where c: "dropWhile is_space (input d) = c # cs" "c = CHR '']'' \<or> c = CHR ''}''" by blast
  from assms(2) have "next_token (tokenState d) (tokenStack d) (c # cs) = Inr (t, d')"
    unfolding dec_token_def next_token_dropWhile [of _ _ "input d"] c(1) .
  with c(2) assms(3) show ?thesis by (auto split: if_splits)
qed

lemma reads_state:
  "reads d v d' \<Longrightarrow> value_state (tokenState d)
     \<Longrightarrow> tokenState d' = value_end (past_separator (tokenState d)) \<and> tokenStack d' = tokenStack d"
  "reads_elems d vs d' \<Longrightarrow> (\<And>s rest. tokenState d = ArrayStart \<or> tokenState d = ArrayComma
     \<Longrightarrow> tokenStack d = s # rest \<Longrightarrow> tokenState d' = value_end s \<and> tokenStack d' = rest)"
  "reads_members d ms d' \<Longrightarrow> (\<And>s rest. tokenState d = ObjectStart \<or> tokenState d = ObjectComma
     \<Longrightarrow> tokenStack d = s # rest \<Longrightarrow> tokenState d' = value_end s \<and> tokenStack d' = rest)"
proof (induction rule: reads_reads_elems_reads_members.inducts)
  case (scalar d t d' v)
  then show ?case by (auto simp: dec_token_def dest!: next_token_value)
next
  case (object d d1 ms d')
  from next_token_value [OF object(1) [unfolded dec_token_def] object.prems] object.IH
  show ?case by simp
next
  case (array d d1 vs d')
  from next_token_value [OF array(1) [unfolded dec_token_def] array.prems] array.IH
  show ?case by simp
next
  case (elems_end d t d')
  then show ?case using close_token by blast
next
  case (elems_cons d v d1 vs d')
  then have "tokenState d1 = ArrayComma \<and> tokenStack d1 = tokenStack d"
    by (auto simp: value_state_def)
  with elems_cons show ?case by simp
next
  case (members_end d t d')
  then show ?case using close_token by blast
next
  case (members_cons d k d1 v d2 ms d')
  then have "tokenState d1 = ObjectColon \<and> tokenStack d1 = tokenStack d"
    by (auto simp: dec_token_def dest!: next_token_key)
  with members_cons show ?case by (simp add: value_state_def)
qed

lemma dec_token_end_iff:
  "tokenState d = TopValue \<Longrightarrow> dec_token d = Inl EndOfInput \<longleftrightarrow> list_all is_space (input d)"
proof -
  have "next_token TopValue stack s = Inl EndOfInput \<longleftrightarrow> list_all is_space s" for stack s
    by (induction s) (auto split: option.splits if_splits)
  then show "tokenState d = TopValue \<Longrightarrow> ?thesis" by (simp add: dec_token_def)
qed

lemma json_decode_iff_end:
  "json_decode s = Some v \<longleftrightarrow>
     (\<exists>d. reads (new_decoder s) v d \<and> dec_token d = Inl EndOfInput)"
proof -
  have "tokenState d = TopValue" if "reads (new_decoder s) v d" for d
    using reads_state(1) [OF that] by (simp add: new_decoder_def value_state_def)
  then show ?thesis using json_decode_iff_reads dec_token_end_iff by blast
qed

subsection \<open>\<open>json.Marshal\<close>\<close>

definition lower_hex :: "int \<Rightarrow> char" where
  "lower_hex n = ''0123456789abcdef'' ! nat n"

definition unicode_u4 :: "rune \<Rightarrow> bytes" where
  "unicode_u4 n = [CHR 0x5C, CHR ''u'', lower_hex (n div 4096), lower_hex (n div 256 mod 16),
     lower_hex (n div 16 mod 16), lower_hex (n mod 16)]"

text \<open>One code point of a string (with HTML escaping, as \<open>json.Marshal\<close> does); \<open>raw\<close> are its bytes.\<close>

definition marshal_rune :: "rune \<Rightarrow> bool \<Rightarrow> bytes \<Rightarrow> bytes" where
  "marshal_rune r ok raw =
     (if \<not> ok then unicode_u4 rune_error
      else if r = 0x22 \<or> r = 0x5C then [CHR 0x5C, char_of r]
      else if r = 8 then [CHR 0x5C, CHR ''b''] else if r = 12 then [CHR 0x5C, CHR ''f'']
      else if r = 10 then [CHR 0x5C, CHR ''n''] else if r = 13 then [CHR 0x5C, CHR ''r'']
      else if r = 9 then [CHR 0x5C, CHR ''t'']
      else if r < 0x20 \<or> r = 0x3C \<or> r = 0x3E \<or> r = 0x26 \<or> r = 0x2028 \<or> r = 0x2029
      then unicode_u4 r
      else raw)"

function marshal_chars :: "bytes \<Rightarrow> bytes" where
  "marshal_chars s = (if s = [] then [] else
     (case decode_rune s of (r, ok, w) \<Rightarrow>
        marshal_rune r ok (take w s) @ marshal_chars (drop w s)))"
  by pat_completeness auto
termination
proof (relation "measure length")
  fix s r xb w x b
  assume "s \<noteq> []" and d: "(r, xb) = decode_rune s" "(x, b) = xb"
  then have "decode_rune s = (r, x, b)" by simp
  then have "1 \<le> b" using decode_rune_width [of s] by simp
  with \<open>s \<noteq> []\<close> show "(drop b s, s) \<in> measure length" by simp
qed simp

declare marshal_chars.simps [simp del]

definition marshal_string :: "string \<Rightarrow> bytes" where
  "marshal_string s = CHR 0x22 # marshal_chars s @ [CHR 0x22]"

text \<open>The compact encoding, for a given encoding of strings.\<close>

fun write_json :: "(string \<Rightarrow> bytes) \<Rightarrow> json \<Rightarrow> bytes" where
  "write_json str JNull = ''null''"
| "write_json str (JBool b) = (if b then ''true'' else ''false'')"
| "write_json str (JNum n) = n"
| "write_json str (JStr s) = str s"
| "write_json str (JArr vs) = ''['' @ join_with (CHR '','') (map (write_json str) vs) @ '']''"
| "write_json str (JObj ms) =
     ''{'' @ join_with (CHR '','') (map (\<lambda>(k, v). str k @ '':'' @ write_json str v) ms) @ ''}''"

definition json_marshal :: "json \<Rightarrow> bytes" where
  "json_marshal v = write_json marshal_string v"

end
