(* ===== verification/ADTP_Errors.thy ===== *)
theory ADTP_Errors
  imports ADTP_Prelude
begin

text \<open>
  The error sentinels of the packages, one datatype per package.  A sentinel that
  the source wraps with \<open>%w\<close> is kept, one that it prints with \<open>%v\<close> is replaced by
  the wrapping sentinel, so that \<open>errors.Is\<close> on the source's error is equality on
  the model's.
\<close>

text \<open>Package \<open>internal/signing\<close>: canonicalization and signing.\<close>

datatype sign_error =
    ErrDuplicateKey | ErrNonInteger | ErrTrailingData | ErrInvalidJSON | ErrInvalidUTF8
  | ErrLoneSurrogate | ErrNotObject | ErrInvalidPrivateKey | ErrInvalidPublicKey
  | ErrInvalidSignature | ErrVerification

text \<open>Package \<open>internal/identity\<close>: did:key identifiers and the key store.\<close>

datatype id_error =
    ErrInvalidBase58 | ErrUnsupportedDIDMethod | ErrMalformedDID
  | ErrKeyNotFound | ErrEmptyDID | ErrInvalidKeySize | ErrKeyBackend

text \<open>Package \<open>internal/credential\<close>: capabilities, RESTRICT blocks and UCANs.\<close>

datatype cred_error =
    ErrUnknownCapabilityType | ErrCapabilityNotCanonical | ErrInvalidConstraint
  | ErrInvalidURI | ErrInvalidScheme | ErrNonASCIIHost | ErrUserinfoNotAllowed
  | ErrQueryOrFragment | ErrEncodedSeparator | ErrDotSegment | ErrInvalidPercentEncoding
  | ErrInvalidPort
  | ErrNotRestrictBlock | ErrNoCaveats | ErrTooManyCaveats | ErrDepthNotReduced
  | ErrNegativeDepth | ErrNonCanonical | ErrExpiryEscalation | ErrNotBeforeRegression
  | ErrIssuerMismatch
  | ErrMalformedToken | ErrUnsupportedHeader | ErrMissingExpiry | ErrTooManyCapabilities
  | ErrMissingField | ErrInvalidExpiry | ErrInvalidKey | ErrSignatureVerification
  | ErrSigning sign_error

text \<open>Package \<open>internal/delegation\<close>: chain construction and issuance.\<close>

datatype deleg_error =
    ErrProofNotFound | ErrCIDMismatch | ErrCircularChain | ErrChainTooDeep | ErrChainTooWide
  | ErrChainBroken | ErrBranchingUnsupported | ErrNonRootToken
  | ErrCannotDelegate | ErrDepthExhausted | ErrCredential cred_error

end
