(* ===== verification/JCS.thy ===== *)
theory JCS
  imports Go_Json ADTP_Errors
begin

text \<open>
  \<open>internal/signing/jcs.go\<close>: the text scan that runs before decoding, the streaming
  canonicalizer over the token stream of \<open>json.Decoder\<close>, the member order and the
  string and number writers.  The output buffer is threaded through the calls, and the
  recursion through nested values is driven by fuel (\<open>None\<close> is running out of it); the
  amount \<open>Canonicalize\<close> supplies is proved to be enough for every input.

  The specification is \<open>canon_tree\<close>, a plain recursion over the decoded document.
\<close>

subsection \<open>Text-level checks\<close>

definition hex4 :: "bytes \<Rightarrow> nat \<Rightarrow> int option" where
  "hex4 data i =
     (if length data < i + 4 then None
      else foldl (\<lambda>v b. case (v, hex_val b) of (Some n, Some d) \<Rightarrow> Some (n * 16 + d) | _ \<Rightarrow> None)
             (Some 0) (take 4 (drop i data)))"

text \<open>The loop of \<open>validateTextEncoding\<close>, on the input from position \<open>i\<close> on.\<close>

function scanText :: "bool \<Rightarrow> bytes \<Rightarrow> sign_error + unit" where
  "scanText inString data =
     (case data of
        [] \<Rightarrow> Inr ()
      | c # cs \<Rightarrow>
          if \<not> inString then scanText (c = CHR 0x22) cs
          else if c = CHR 0x22 then scanText False cs
          else if c = CHR 0x5C then
            (if cs = [] then Inl ErrInvalidJSON
             else if hd cs \<noteq> CHR ''u'' then scanText True (tl cs)
             else (case hex4 data 2 of
                     None \<Rightarrow> Inl ErrInvalidJSON
                   | Some hi \<Rightarrow>
                       if \<not> is_surrogate hi then scanText True (drop 6 data)
                       else (case hex4 data 8 of
                               None \<Rightarrow> Inl ErrLoneSurrogate
                             | Some lo \<Rightarrow>
                                 if 0xDBFF < hi \<or> data ! 6 \<noteq> CHR 0x5C \<or> data ! 7 \<noteq> CHR ''u''
                                    \<or> utf16_decode_rune hi lo = rune_error
                                 then Inl ErrLoneSurrogate
                                 else scanText True (drop 12 data))))
          else scanText True cs)"
  by pat_completeness auto
termination by (relation "measure (\<lambda>(_, s). length s)") auto

declare scanText.simps [simp del]

definition validateTextEncoding :: "bytes \<Rightarrow> sign_error + unit" where
  "validateTextEncoding data =
     (if \<not> utf8_valid data then Inl ErrInvalidUTF8 else scanText False data)"

subsection \<open>Writers\<close>

definition hexDigits :: string where "hexDigits = ''0123456789abcdef''"

definition writeByte :: "char \<Rightarrow> bytes" where
  "writeByte b =
     (if b = CHR 0x22 then [CHR 0x5C, CHR 0x22]
      else if b = CHR 0x5C then [CHR 0x5C, CHR 0x5C]
      else if b = CHR 0x08 then [CHR 0x5C, CHR ''b'']
      else if b = CHR 0x09 then [CHR 0x5C, CHR ''t'']
      else if b = CHR 0x0A then [CHR 0x5C, CHR ''n'']
      else if b = CHR 0x0C then [CHR 0x5C, CHR ''f'']
      else if b = CHR 0x0D then [CHR 0x5C, CHR ''r'']
      else if byte b < 0x20 then
        [CHR 0x5C, CHR ''u'', CHR ''0'', CHR ''0'',
         hexDigits ! nat (byte b div 16), hexDigits ! nat (byte b mod 16)]
      else [b])"

definition writeString :: "string \<Rightarrow> bytes" where
  "writeString s = CHR 0x22 # concat (map writeByte s) @ [CHR 0x22]"

definition writeNumber :: "string \<Rightarrow> sign_error + bytes" where
  "writeNumber s =
     (if list_ex (\<lambda>c. c = CHR ''.'' \<or> c = CHR ''e'' \<or> c = CHR ''E'') s then Inl ErrNonInteger
      else Inr (if s = ''-0'' then ''0'' else s))"

subsection \<open>Member order\<close>

fun compareUTF16 :: "int list \<Rightarrow> int list \<Rightarrow> int" where
  "compareUTF16 (a # as) (b # bs) =
     (if a \<noteq> b then (if a < b then -1 else 1) else compareUTF16 as bs)"
| "compareUTF16 as bs =
     (if length as < length bs then -1 else if length as > length bs then 1 else 0)"

definition key16 :: "string \<Rightarrow> int list" where
  "key16 key = utf16_encode (runes key)"

type_synonym member = "string \<times> bytes"

definition member_less :: "(string \<times> 'v) \<Rightarrow> (string \<times> 'v) \<Rightarrow> bool" where
  "member_less x y \<longleftrightarrow> compareUTF16 (key16 (fst x)) (key16 (fst y)) < 0"

definition writeMembers :: "member list \<Rightarrow> bytes" where
  "writeMembers ms =
     ''{'' @ join_with (CHR '','') (map (\<lambda>(k, v). writeString k @ '':'' @ v) ms) @ ''}''"

subsection \<open>The streaming canonicalizer\<close>

type_synonym canon_result = "(sign_error + (decoder \<times> bytes)) option"

definition tok_err :: "tok_error \<Rightarrow> sign_error" where "tok_err _ = ErrInvalidJSON"

function (sequential) canonicalizeValue :: "nat \<Rightarrow> decoder \<Rightarrow> bytes \<Rightarrow> canon_result"
  and canonicalizeToken :: "nat \<Rightarrow> decoder \<Rightarrow> tok \<Rightarrow> bytes \<Rightarrow> canon_result"
  and canonicalizeObject :: "nat \<Rightarrow> decoder \<Rightarrow> member list \<Rightarrow> string set \<Rightarrow> bytes \<Rightarrow> canon_result"
  and canonicalizeArray :: "nat \<Rightarrow> decoder \<Rightarrow> bool \<Rightarrow> bytes \<Rightarrow> canon_result" where
  "canonicalizeValue 0 dec out = None"
| "canonicalizeValue (Suc n) dec out =
     (case dec_token dec of
        Inl e \<Rightarrow> Some (Inl (tok_err e))
      | Inr (t, dec1) \<Rightarrow> canonicalizeToken n dec1 t out)"
| "canonicalizeToken 0 dec t out = None"
| "canonicalizeToken (Suc n) dec t out =
     (case t of
        TDelim c \<Rightarrow>
          if c = CHR ''{'' then canonicalizeObject n dec [] {} out
          else if c = CHR ''['' then canonicalizeArray n dec True (out @ ''['')
          else Some (Inl ErrInvalidJSON)
      | TStr s \<Rightarrow> Some (Inr (dec, out @ writeString s))
      | TNum s \<Rightarrow> Some (bindE (writeNumber s) (\<lambda>w. Inr (dec, out @ w)))
      | TBool b \<Rightarrow> Some (Inr (dec, out @ (if b then ''true'' else ''false'')))
      | TNull \<Rightarrow> Some (Inr (dec, out @ ''null'')))"
| "canonicalizeObject 0 dec members seen out = None"
| "canonicalizeObject (Suc n) dec members seen out =
     (if dec_more dec then
        (case dec_token dec of
           Inl e \<Rightarrow> Some (Inl (tok_err e))
         | Inr (TStr key, dec1) \<Rightarrow>
             if key \<in> seen then Some (Inl ErrDuplicateKey)
             else (case canonicalizeValue n dec1 [] of
                     None \<Rightarrow> None
                   | Some (Inl e) \<Rightarrow> Some (Inl e)
                   | Some (Inr (dec2, valBuf)) \<Rightarrow>
                       canonicalizeObject n dec2 (members @ [(key, valBuf)]) (insert key seen) out)
         | Inr _ \<Rightarrow> Some (Inl ErrInvalidJSON))
      else (case dec_token dec of
              Inl e \<Rightarrow> Some (Inl (tok_err e))
            | Inr (_, dec1) \<Rightarrow>
                Some (Inr (dec1, out @ writeMembers (sort_by member_less members)))))"
| "canonicalizeArray 0 dec first out = None"
| "canonicalizeArray (Suc n) dec first out =
     (if dec_more dec then
        (case canonicalizeValue n dec (if first then out else out @ '','') of
           None \<Rightarrow> None
         | Some (Inl e) \<Rightarrow> Some (Inl e)
         | Some (Inr (dec1, out1)) \<Rightarrow> canonicalizeArray n dec1 False out1)
      else (case dec_token dec of
              Inl e \<Rightarrow> Some (Inl (tok_err e))
            | Inr (_, dec1) \<Rightarrow> Some (Inr (dec1, out @ '']''))))"

  by pat_completeness auto
termination by (relation "measure (\<lambda>x. case x of Inl (Inl (n,_)) \<Rightarrow> n | Inl (Inr (n,_)) \<Rightarrow> n | Inr (Inl (n,_)) \<Rightarrow> n | Inr (Inr (n,_)) \<Rightarrow> n)") auto

definition value_fuel :: "bytes \<Rightarrow> nat" where
  "value_fuel s = 3 * length s + 1"

definition Canonicalize :: "bytes \<Rightarrow> sign_error + bytes" where
  "Canonicalize data =
     bindE (validateTextEncoding data) (\<lambda>_.
       case canonicalizeValue (value_fuel data) (new_decoder data) [] of
         None \<Rightarrow> Inl ErrInvalidJSON
       | Some (Inl e) \<Rightarrow> Inl e
       | Some (Inr (dec, out)) \<Rightarrow>
           (case dec_token dec of
              Inl EndOfInput \<Rightarrow> Inr out
            | _ \<Rightarrow> Inl ErrTrailingData))"

definition CanonicalizeValue :: "json \<Rightarrow> sign_error + bytes" where
  "CanonicalizeValue v = Canonicalize (json_marshal v)"

definition ValidateIJSON :: "bytes \<Rightarrow> sign_error + unit" where
  "ValidateIJSON data = bindE (Canonicalize data) (\<lambda>_. Inr ())"

subsection \<open>The specification: a recursion over the decoded document\<close>

fun canon_tree :: "json \<Rightarrow> bytes option"
  and canon_elems :: "json list \<Rightarrow> bytes list option"
  and canon_members :: "(string \<times> json) list \<Rightarrow> member list option" where
  "canon_tree JNull = Some ''null''"
| "canon_tree (JBool b) = Some (if b then ''true'' else ''false'')"
| "canon_tree (JNum n) = (case writeNumber n of Inl _ \<Rightarrow> None | Inr w \<Rightarrow> Some w)"
| "canon_tree (JStr s) = Some (writeString s)"
| "canon_tree (JArr vs) =
     map_option (\<lambda>cs. ''['' @ join_with (CHR '','') cs @ '']'') (canon_elems vs)"
| "canon_tree (JObj ms) =
     (if distinct (map fst ms)
      then map_option (\<lambda>cs. writeMembers (sort_by member_less cs)) (canon_members ms) else None)"
| "canon_elems [] = Some []"
| "canon_elems (v # vs) =
     (case canon_tree v of None \<Rightarrow> None | Some c \<Rightarrow> map_option ((#) c) (canon_elems vs))"
| "canon_members [] = Some []"
| "canon_members ((k, v) # ms) =
     (case canon_tree v of None \<Rightarrow> None | Some c \<Rightarrow> map_option ((#) (k, c)) (canon_members ms))"

definition elems_text :: "bool \<Rightarrow> bytes list \<Rightarrow> bytes" where
  "elems_text first cs =
     (if first then join_with (CHR '','') cs else concat (map (\<lambda>c. CHR '','' # c) cs))"

lemma join_with_Cons: "join_with b (c # cs) = c @ concat (map (\<lambda>c. b # c) cs)"
  by (induction cs arbitrary: c) auto

lemma elems_text_simps [simp]:
  "elems_text first [] = []"
  "elems_text True (c # cs) = c @ elems_text False cs"
  "elems_text False (c # cs) = CHR '','' # c @ elems_text False cs"
  by (auto simp: elems_text_def join_with_Cons)

lemma canon_members_keys: "canon_members ms = Some cs \<Longrightarrow> map fst cs = map fst ms"
  by (induction ms arbitrary: cs) (auto split: option.splits)

lemma stream_sound:
  "canonicalizeValue n d out = Some (Inr (d', out')) \<Longrightarrow>
     \<exists>v c. reads d v d' \<and> canon_tree v = Some c \<and> out' = out @ c"
  "canonicalizeToken n d1 t out = Some (Inr (d', out')) \<Longrightarrow> dec_token d = Inr (t, d1) \<Longrightarrow>
     \<exists>v c. reads d v d' \<and> canon_tree v = Some c \<and> out' = out @ c"
  "canonicalizeObject n d mem seen out = Some (Inr (d', out')) \<Longrightarrow>
     \<exists>ms cs. reads_members d ms d' \<and> canon_members ms = Some cs
        \<and> distinct (map fst ms) \<and> set (map fst ms) \<inter> seen = {}
        \<and> out' = out @ writeMembers (sort_by member_less (mem @ cs))"
  "canonicalizeArray n d first out = Some (Inr (d', out')) \<Longrightarrow>
     \<exists>vs cs. reads_elems d vs d' \<and> canon_elems vs = Some cs
        \<and> out' = out @ elems_text first cs @ '']''"
proof (induction n arbitrary: d d1 t mem seen first out d' out')
  case (Suc n)
  {
    case 1
    then obtain t d1 where t: "dec_token d = Inr (t, d1)"
      "canonicalizeToken n d1 t out = Some (Inr (d', out'))" by (auto split: sum.splits)
    show ?case by (rule Suc.IH(2) [OF t(2,1)])
  next
    case 2
    show ?case
    proof (cases "\<exists>c. t = TDelim c")
      case True
      then obtain c where t: "t = TDelim c" by blast
      consider (obj) "c = CHR ''{''" "canonicalizeObject n d1 [] {} out = Some (Inr (d', out'))"
        | (arr) "c = CHR ''[''" "canonicalizeArray n d1 True (out @ ''['') = Some (Inr (d', out'))"
        using 2(1) t by (auto split: if_splits)
      then show ?thesis
      proof cases
        case obj
        from Suc.IH(3) [OF obj(2)] obtain ms cs where m: "reads_members d1 ms d'"
          "canon_members ms = Some cs" "distinct (map fst ms)"
          "out' = out @ writeMembers (sort_by member_less cs)" by auto
        have "reads d (JObj ms) d'" using 2(2) t obj(1) m(1) by (intro object) auto
        moreover have "canon_tree (JObj ms) = Some (writeMembers (sort_by member_less cs))"
          using m by simp
        ultimately show ?thesis using m(4) by blast
      next
        case arr
        from Suc.IH(4) [OF arr(2)] obtain vs cs where m: "reads_elems d1 vs d'"
          "canon_elems vs = Some cs" "out' = (out @ ''['') @ elems_text True cs @ '']''" by blast
        have "reads d (JArr vs) d'" using 2(2) t arr(1) m(1) by (intro array) auto
        then show ?thesis using m(2,3) by (intro exI [of _ "JArr vs"]) (simp add: elems_text_def)
      qed
    next
      case False
      with 2 have "\<exists>v c. scalar_of t = Some v \<and> d' = d1 \<and> canon_tree v = Some c \<and> out' = out @ c"
        by (auto split: tok.splits simp: err_simps)
      with 2(2) show ?thesis by (blast intro: scalar)
    qed
  next
    case 3
    show ?case
    proof (cases "dec_more d")
      case True
      with 3 obtain key d1 d2 val where s: "dec_token d = Inr (TStr key, d1)" "key \<notin> seen"
        "canonicalizeValue n d1 [] = Some (Inr (d2, val))"
        "canonicalizeObject n d2 (mem @ [(key, val)]) (insert key seen) out = Some (Inr (d', out'))"
        by (auto split: sum.splits tok.splits if_splits option.splits)
      from Suc.IH(1) [OF s(3)] obtain v where v: "reads d1 v d2" "canon_tree v = Some val" by auto
      from Suc.IH(3) [OF s(4)] obtain ms cs where m: "reads_members d2 ms d'"
        "canon_members ms = Some cs" "distinct (map fst ms)"
        "set (map fst ms) \<inter> insert key seen = {}"
        "out' = out @ writeMembers (sort_by member_less ((mem @ [(key, val)]) @ cs))" by blast
      have "reads_members d ((key, v) # ms) d'" using True s(1) v(1) m(1) by (rule members_cons)
      then show ?thesis using v(2) m(2-5) s(2)
        by (intro exI [of _ "(key, v) # ms"] exI [of _ "(key, val) # cs"]) auto
    next
      case False
      with 3 obtain t where "dec_token d = Inr (t, d')"
        "out' = out @ writeMembers (sort_by member_less mem)"
        by (auto split: sum.splits)
      with False show ?thesis by (intro exI [of _ "[]"]) (auto intro: members_end)
    qed
  next
    case 4
    show ?case
    proof (cases "dec_more d")
      case True
      with 4 obtain d1 out1 where s:
        "canonicalizeValue n d (if first then out else out @ '','') = Some (Inr (d1, out1))"
        "canonicalizeArray n d1 False out1 = Some (Inr (d', out'))"
        by (auto split: sum.splits option.splits)
      from Suc.IH(1) [OF s(1)] obtain v c where v: "reads d v d1" "canon_tree v = Some c"
        "out1 = (if first then out else out @ '','') @ c" by blast
      from Suc.IH(4) [OF s(2)] obtain vs cs where m: "reads_elems d1 vs d'"
        "canon_elems vs = Some cs" "out' = out1 @ elems_text False cs @ '']''" by blast
      have "reads_elems d (v # vs) d'" using True v(1) m(1) by (rule elems_cons)
      then show ?thesis using v(2,3) m(2,3)
        by (intro exI [of _ "v # vs"] exI [of _ "c # cs"]) (cases first; simp)
    next
      case False
      with 4 obtain t where "dec_token d = Inr (t, d')" "out' = out @ '']''"
        by (auto split: sum.splits)
      with False show ?thesis by (intro exI [of _ "[]"]) (auto intro: elems_end)
    qed
  }
qed simp_all

lemma stream_complete:
  "reads d v d' \<Longrightarrow> (\<And>n out c. 3 * length (input d) + 1 \<le> n \<Longrightarrow> canon_tree v = Some c
     \<Longrightarrow> canonicalizeValue n d out = Some (Inr (d', out @ c)))"
  "reads_elems d vs d' \<Longrightarrow> (\<And>n first out cs. 3 * length (input d) + 2 \<le> n \<Longrightarrow> canon_elems vs = Some cs
     \<Longrightarrow> canonicalizeArray n d first out = Some (Inr (d', out @ elems_text first cs @ '']'')))"
  "reads_members d ms d' \<Longrightarrow> (\<And>n mem seen out cs. 3 * length (input d) + 2 \<le> n
     \<Longrightarrow> canon_members ms = Some cs \<Longrightarrow> distinct (map fst ms) \<Longrightarrow> set (map fst ms) \<inter> seen = {}
     \<Longrightarrow> canonicalizeObject n d mem seen out
         = Some (Inr (d', out @ writeMembers (sort_by member_less (mem @ cs)))))"
proof (induction rule: reads_reads_elems_reads_members.inducts)
  case (scalar d t d' v)
  from dec_token_shorter [OF scalar(1)] scalar.prems(1) obtain m where "n = Suc (Suc m)"
    by (metis Suc_le_D add_Suc_right le_Suc_eq less_imp_Suc_add mult_Suc_right numeral_3_eq_3 plus_1_eq_Suc add.commute add_Suc)
  with scalar show ?case by (cases t) (auto split: sum.splits)
next
  case (object d d1 ms d')
  from dec_token_shorter [OF object(1)] object.prems(1)
  obtain m where n: "n = Suc (Suc m)" "3 * length (input d1) + 2 \<le> m"
    by (cases n; cases "n - 1") auto
  from object.prems(2) obtain cs where "canon_members ms = Some cs" "distinct (map fst ms)"
    "c = writeMembers (sort_by member_less cs)" by (auto split: if_splits)
  with object.IH [OF n(2), of cs "{}" "[]" out] n(1) object(1) show ?case by simp
next
  case (array d d1 vs d')
  from dec_token_shorter [OF array(1)] array.prems(1)
  obtain m where n: "n = Suc (Suc m)" "3 * length (input d1) + 2 \<le> m"
    by (cases n; cases "n - 1") auto
  from array.prems(2) obtain cs where "canon_elems vs = Some cs"
    "c = ''['' @ join_with (CHR '','') cs @ '']''" by auto
  with array.IH [OF n(2), of cs True "out @ ''[''"] n(1) array(1) show ?case
    by (simp add: elems_text_def)
next
  case (elems_end d t d')
  then show ?case by (cases n) auto
next
  case (elems_cons d v d1 vs d')
  from reads_shorter(1) [OF elems_cons(2)] elems_cons.prems(1)
  obtain m where n: "n = Suc m" "3 * length (input d) + 1 \<le> m" "3 * length (input d1) + 2 \<le> m"
    by (cases n) auto
  from elems_cons.prems(2) obtain c cs' where c: "canon_tree v = Some c" "canon_elems vs = Some cs'"
    "cs = c # cs'" by (auto split: option.splits)
  show ?case
    using elems_cons.IH(1) [OF n(2) c(1)] elems_cons.IH(2) [OF n(3) c(2)] n(1) c(3) elems_cons(1)
    by (cases first) simp_all
next
  case (members_end d t d')
  then show ?case by (cases n) auto
next
  case (members_cons d k d1 v d2 ms d')
  from reads_shorter(1) [OF members_cons(3)] dec_token_shorter [OF members_cons(2)]
    members_cons.prems(1)
  obtain m where n: "n = Suc m" "3 * length (input d1) + 1 \<le> m" "3 * length (input d2) + 2 \<le> m"
    by (cases n) auto
  from members_cons.prems(2) obtain c cs' where c: "canon_tree v = Some c"
    "canon_members ms = Some cs'" "cs = (k, c) # cs'" by (auto split: option.splits)
  have s: "distinct (map fst ms)" "set (map fst ms) \<inter> insert k seen = {}" "k \<notin> seen"
    using members_cons.prems(3,4) by auto
  show ?case
    using members_cons.IH(1) [OF n(2) c(1), of "[]"]
      members_cons.IH(2) [OF n(3) c(2) s(1,2), of "mem @ [(k, c)]" out] n(1) c(3) members_cons(1,2) s(3)
    by simp
qed

lemma stream_total:
  "3 * length (input d) + 1 \<le> n \<Longrightarrow> canonicalizeValue n d out \<noteq> None"
  "3 * length (input d) + 3 \<le> n \<Longrightarrow> canonicalizeToken n d t out \<noteq> None"
  "3 * length (input d) + 2 \<le> n \<Longrightarrow> canonicalizeObject n d mem seen out \<noteq> None"
  "3 * length (input d) + 2 \<le> n \<Longrightarrow> canonicalizeArray n d first out \<noteq> None"
proof (induction n arbitrary: d t mem seen first out)
  case (Suc n)
  {
    case 1
    then show ?case using Suc.IH(2) by (auto split: sum.splits dest!: dec_token_shorter)
  next
    case 2
    then show ?case using Suc.IH(3,4) by (auto split: tok.splits)
  next
    case 3
    have v: "canonicalizeValue n d1 [] \<noteq> None" if "dec_token d = Inr (t, d1)" for t d1
      using dec_token_shorter [OF that] 3 by (intro Suc.IH) simp
    have o: "canonicalizeObject n d2 a b out \<noteq> None"
      if "dec_token d = Inr (t, d1)" "canonicalizeValue n d1 [] = Some (Inr (d2, v))" for t d1 d2 v a b
      using stream_sound(1) [OF that(2)] reads_shorter(1) dec_token_shorter [OF that(1)] 3
      by (intro Suc.IH) fastforce
    show ?case using v o by (auto split: sum.splits option.splits tok.splits)
  next
    case 4
    have a: "canonicalizeArray n d1 f a \<noteq> None"
      if "canonicalizeValue n d x = Some (Inr (d1, y))" for d1 f a x y
      using stream_sound(1) [OF that] reads_shorter(1) 4 by (intro Suc.IH) fastforce
    have v: "canonicalizeValue n d x \<noteq> None" for x using 4 by (intro Suc.IH) simp
    show ?case
    proof (cases "dec_more d")
      case True
      show ?thesis
      proof (cases "canonicalizeValue n d (if first then out else out @ '','')")
        case None
        then show ?thesis using v by blast
      next
        case (Some r)
        with True a show ?thesis by (cases r) auto
      qed
    qed (auto split: sum.splits)
  }
qed simp_all

lemma canonicalizeValue_iff:
  assumes "3 * length (input d) + 1 \<le> n"
  shows "canonicalizeValue n d out = Some (Inr (d', out'))
     \<longleftrightarrow> (\<exists>v c. reads d v d' \<and> canon_tree v = Some c \<and> out' = out @ c)"
  using stream_sound(1) stream_complete(1) assms by blast

lemma Canonicalize_ok_iff:
  "Canonicalize data = Inr c \<longleftrightarrow>
     validateTextEncoding data = Inr () \<and> (\<exists>v. json_decode data = Some v \<and> canon_tree v = Some c)"
proof -
  define r where "r = canonicalizeValue (value_fuel data) (new_decoder data) []"
  have r: "r = Some (Inr (d, out)) \<longleftrightarrow> (\<exists>v. reads (new_decoder data) v d \<and> canon_tree v = Some out)"
    for d out
    using canonicalizeValue_iff [of "new_decoder data" "value_fuel data" "[]" d out]
    by (simp add: r_def value_fuel_def new_decoder_def)
  have "Canonicalize data = Inr c \<longleftrightarrow> validateTextEncoding data = Inr ()
     \<and> (\<exists>d. r = Some (Inr (d, c)) \<and> dec_token d = Inl EndOfInput)"
    unfolding Canonicalize_def r_def [symmetric]
    by (cases "validateTextEncoding data"; cases r)
      (auto split: sum.splits tok_error.splits prod.splits)
  then show ?thesis using r json_decode_iff_end by auto
qed

end
