(* ===== verification/Json_Roundtrip.thy ===== *)
theory Json_Roundtrip
  imports JCS
begin

text \<open>
  Reading back what a JSON writer wrote.  The two writers of the source, \<open>json.Marshal\<close> and
  the canonicalizer, differ only in how they write a string; the locale \<open>string_writer\<close>
  states what such a writer must guarantee, and proves once that the decoder reads the
  written document back and that its text passes the encoding checks.  Both writers emit a
  string as a sequence of units (\<open>units\<close>), each read back on its own.
\<close>

subsection \<open>Documents the decoder can produce\<close>

definition number_ok :: "string \<Rightarrow> bool" where
  "number_ok n \<longleftrightarrow> scan_number n = Some (n, [])"

fun wf_json :: "json \<Rightarrow> bool" where
  "wf_json (JStr s) = utf8_valid s"
| "wf_json (JNum n) = number_ok n"
| "wf_json (JArr vs) = (\<forall>v \<in> set vs. wf_json v)"
| "wf_json (JObj ms) = (\<forall>m \<in> set ms. utf8_valid (fst m) \<and> wf_json (snd m))"
| "wf_json _ = True"

text \<open>A byte that may follow a number.\<close>

definition number_stop :: "bytes \<Rightarrow> bool" where
  "number_stop r \<longleftrightarrow> r = [] \<or> hd r \<in> {CHR '','', CHR '']'', CHR ''}''}"

definition not_hd :: "char set \<Rightarrow> bytes \<Rightarrow> bool" where
  "not_hd A r \<longleftrightarrow> r = [] \<or> hd r \<notin> A"

lemma is_digit_simps [simp]:
  "\<not> is_digit (CHR ''.'')" "\<not> is_digit (CHR ''e'')" "\<not> is_digit (CHR ''E'')" "\<not> is_digit (CHR ''-'')"
  "\<not> is_digit (CHR ''+'')" "\<not> is_digit (CHR '','')" "\<not> is_digit (CHR '']'')" "\<not> is_digit (CHR ''}'')"
  "is_digit (CHR ''0'')"
  by (code_simp)+

lemma span_digits_replace:
  "span_digits s = (ds, r) \<Longrightarrow> not_hd {c. is_digit c} r' \<Longrightarrow> span_digits (ds @ r') = (ds, r')"
proof (induction s arbitrary: ds r)
  case Nil
  then show ?case by (cases r') (auto simp: not_hd_def)
next
  case (Cons c cs)
  show ?case
  proof (cases "is_digit c")
    case True
    with Cons.prems obtain ds' where "span_digits cs = (ds', r)" "ds = c # ds'"
      by (auto split: prod.splits)
    with Cons True show ?thesis by simp
  next
    case False
    with Cons.prems have "ds = []" by simp
    with Cons.prems(2) show ?thesis by (cases r') (auto simp: not_hd_def)
  qed
qed

lemma span_digits_all: "span_digits s = (ds, r) \<Longrightarrow> list_all is_digit ds \<and> not_hd {c. is_digit c} r"
  by (induction s arbitrary: ds r) (auto simp: not_hd_def split: if_splits prod.splits)

lemma scan_integer_replace:
  assumes "scan_integer s = Some (x, r)" and "not_hd {c. is_digit c} r'"
  shows "scan_integer (x @ r') = Some (x, r')"
proof -
  from assms(1) obtain c cs where s: "s = c # cs"
    by (auto simp: scan_integer_def split: list.splits)
  show ?thesis
  proof (cases "c = CHR ''0''")
    case True
    with assms s show ?thesis by (auto simp: scan_integer_def)
  next
    case False
    with assms(1) s have d: "is_digit c" "span_digits s = (x, r)"
      by (auto simp: scan_integer_def split: if_splits)
    with s obtain ds where x: "x = c # ds" by (auto split: prod.splits)
    from span_digits_replace [OF d(2) assms(2)] d(1) x False show ?thesis
      by (simp add: scan_integer_def)
  qed
qed

lemma scan_fraction_replace:
  assumes "scan_fraction s = Some (x, r)" and "not_hd ({c. is_digit c} \<union> {CHR ''.''}) r'"
  shows "scan_fraction (x @ r') = Some (x, r')"
proof -
  have n: "not_hd {c. is_digit c} r'" "r' = [] \<or> hd r' \<noteq> CHR ''.''"
    using assms(2) by (auto simp: not_hd_def)
  consider "x = []" | ds t where "x = CHR ''.'' # ds" "ds \<noteq> []" "span_digits t = (ds, r)"
    using assms(1) by (cases s) (auto simp: scan_fraction_def split: if_splits prod.splits)
  then show ?thesis
  proof cases
    case 1
    with n(2) show ?thesis by (cases r') (auto simp: scan_fraction_def)
  next
    case 2
    with span_digits_replace [OF 2(3) n(1)] show ?thesis by (simp add: scan_fraction_def)
  qed
qed

lemma scan_exponent_shape:
  assumes "scan_exponent s = Some (x, r)"
  shows "x = [] \<or> (\<exists>c sg ds t. x = c # sg @ ds \<and> (c = CHR ''e'' \<or> c = CHR ''E'') \<and> ds \<noteq> []
     \<and> (sg = [] \<or> sg = ''+'' \<or> sg = ''-'') \<and> span_digits t = (ds, r))"
proof (cases s)
  case Nil
  with assms show ?thesis by (simp add: scan_exponent_def)
next
  case (Cons c cs)
  show ?thesis
  proof (cases "c = CHR ''e'' \<or> c = CHR ''E''")
    case True
    define p where "p = (case cs of d # ds \<Rightarrow> if d = CHR ''+'' \<or> d = CHR ''-'' then ([d], ds) else ([], cs)
       | [] \<Rightarrow> ([], []))"
    obtain sg t where p: "p = (sg, t)" by (cases p)
    have sg: "sg = [] \<or> sg = ''+'' \<or> sg = ''-''"
      using p by (cases cs) (auto simp: p_def split: if_splits)
    from assms True Cons p obtain ds where "span_digits t = (ds, r)" "ds \<noteq> []" "x = c # sg @ ds"
      by (auto simp: scan_exponent_def p_def [symmetric] split: prod.splits if_splits)
    with True sg show ?thesis by blast
  next
    case False
    with assms Cons show ?thesis by (simp add: scan_exponent_def)
  qed
qed

lemma scan_exponent_replace:
  assumes "scan_exponent s = Some (x, r)" and "not_hd ({c. is_digit c} \<union> {CHR ''e'', CHR ''E''}) r'"
  shows "scan_exponent (x @ r') = Some (x, r')"
proof -
  have n: "not_hd {c. is_digit c} r'" "r' = [] \<or> hd r' \<noteq> CHR ''e'' \<and> hd r' \<noteq> CHR ''E''"
    using assms(2) by (auto simp: not_hd_def)
  consider "x = []"
    | c sg ds t where "x = c # sg @ ds" "c = CHR ''e'' \<or> c = CHR ''E''" "ds \<noteq> []"
        "sg = [] \<or> sg = ''+'' \<or> sg = ''-''" "span_digits t = (ds, r)"
    using scan_exponent_shape [OF assms(1)] by metis
  then show ?thesis
  proof cases
    case 1
    with n(2) show ?thesis by (cases r') (auto simp: scan_exponent_def)
  next
    case 2
    note sd = span_digits_replace [OF 2(5) n(1)]
    from span_digits_all [OF 2(5)] 2(3) obtain k ks where ds: "ds = k # ks" "is_digit k"
      by (cases ds) auto
    then have "k \<noteq> CHR ''+''" "k \<noteq> CHR ''-''" by auto
    with 2(1-4) sd ds show ?thesis by (auto simp: scan_exponent_def Let_def)
  qed
qed

lemma scan_exponent_hd: "scan_exponent s = Some (x, r) \<Longrightarrow> x = [] \<or> hd x = CHR ''e'' \<or> hd x = CHR ''E''"
  by (cases s) (auto simp: scan_exponent_def Let_def split: if_splits prod.splits)

lemma scan_fraction_hd: "scan_fraction s = Some (x, r) \<Longrightarrow> x = [] \<or> hd x = CHR ''.''"
  by (cases s) (auto simp: scan_fraction_def split: if_splits prod.splits)

lemma scan_integer_hd: "scan_integer s = Some (x, r) \<Longrightarrow> x \<noteq> [] \<and> is_digit (hd x)"
  by (cases s) (auto simp: scan_integer_def split: if_splits prod.splits)

lemma scan_number_parts:
  assumes "scan_number s = Some (n, r)"
  obtains sg s1 i s2 f s3 e where "sg = [] \<or> sg = ''-''" "scan_integer s1 = Some (i, s2)"
    "scan_fraction s2 = Some (f, s3)" "scan_exponent s3 = Some (e, r)" "n = sg @ i @ f @ e"
proof -
  define sg s1 where "sg = (if has_prefix s ''-'' then ''-'' else [])"
    and "s1 = (if has_prefix s ''-'' then tl s else s)"
  from assms obtain i s2 f s3 e where "scan_integer s1 = Some (i, s2)"
    "scan_fraction s2 = Some (f, s3)" "scan_exponent s3 = Some (e, r)" "n = sg @ i @ f @ e"
    unfolding scan_number_def sg_def s1_def
    by (cases "has_prefix s ''-''") (auto split: option.splits)
  moreover have "sg = [] \<or> sg = ''-''" by (simp add: sg_def)
  ultimately show ?thesis using that by blast
qed

lemma scan_number_replace:
  assumes "scan_number s = Some (n, r)" and "number_stop r'"
  shows "scan_number (n @ r') = Some (n, r')"
proof -
  from scan_number_parts [OF assms(1)] obtain sign s1 i s2 f s3 e where
    sc: "scan_integer s1 = Some (i, s2)" "scan_fraction s2 = Some (f, s3)"
      "scan_exponent s3 = Some (e, r)" "n = sign @ i @ f @ e" and sg: "sign = [] \<or> sign = ''-''" .
  have st: "not_hd ({c. is_digit c} \<union> {CHR ''e'', CHR ''E'', CHR ''.''}) r'"
    using assms(2) by (auto simp: number_stop_def not_hd_def)
  have e: "scan_exponent (e @ r') = Some (e, r')"
    using st by (intro scan_exponent_replace [OF sc(3)]) (auto simp: not_hd_def)
  have f: "scan_fraction (f @ e @ r') = Some (f, e @ r')"
    using st scan_exponent_hd [OF sc(3)]
    by (intro scan_fraction_replace [OF sc(2)]) (cases e; auto simp: not_hd_def)
  have i: "scan_integer (i @ f @ e @ r') = Some (i, f @ e @ r')"
    using st scan_exponent_hd [OF sc(3)] scan_fraction_hd [OF sc(2)]
    by (intro scan_integer_replace [OF sc(1)]) (cases f; cases e; auto simp: not_hd_def)
  have h: "\<not> has_prefix (i @ f @ e @ r') ''-''"
    using scan_integer_hd [OF sc(1)] by (cases i) auto
  show ?thesis
  proof (cases "sign = []")
    case True
    then show ?thesis using h i f e by (simp add: scan_number_def sc(4))
  next
    case False
    with sg have "sign = ''-''" by simp
    then show ?thesis using i f e by (simp add: scan_number_def sc(4))
  qed
qed

lemma number_ok_scan: "number_ok n \<Longrightarrow> number_stop r \<Longrightarrow> scan_number (n @ r) = Some (n, r)"
  unfolding number_ok_def using scan_number_replace by blast

lemma scan_number_ok: "scan_number s = Some (n, r) \<Longrightarrow> number_ok n"
  unfolding number_ok_def using scan_number_replace [of s n r "[]"] by (simp add: number_stop_def)

lemma number_ok_hd: "number_ok n \<Longrightarrow> n \<noteq> [] \<and> (is_digit (hd n) \<or> hd n = CHR ''-'')"
  unfolding number_ok_def
  by (cases n) (auto simp: scan_number_def split: option.splits if_splits dest!: scan_integer_hd,
      metis hd_append2 list.sel(1))

subsection \<open>Strings\<close>

lemma encode_rune_byte: "byte b < 0x80 \<Longrightarrow> encode_rune (byte b) = [b]"
proof -
  have "\<not> byte b < 0" by (simp add: not_less)
  then show "byte b < 0x80 \<Longrightarrow> ?thesis" by (simp add: encode_rune_def is_surrogate_def in_range_def)
qed

lemma scan_string_unit:
  assumes "string_unit s = Some (out, w)" and "s \<noteq> []" and "hd s \<noteq> CHR 0x22"
  shows "scan_string s = map_option (\<lambda>(t, r). (out @ t, r)) (scan_string (drop w s))"
  using assms by (subst scan_string.simps) (auto split: list.splits)

lemma string_unit_wide:
  assumes "decode_rune (u @ t) = (r, True, w)" "u \<noteq> []" "\<forall>b \<in> set u. \<not> byte b < 0x80" "encode_rune r = u"
  shows "string_unit (u @ t) = Some (u, w)"
  using assms by (cases u) (auto simp: string_unit_def byte_def)

lemma scan_string_wide:
  assumes "\<And>t. decode_rune (u @ t) = (r, True, length u)" "u \<noteq> []" "\<forall>b \<in> set u. \<not> byte b < 0x80"
    "encode_rune r = u"
  shows "scan_string (u @ zs) = map_option (\<lambda>(t, r). (u @ t, r)) (scan_string zs)"
proof -
  have "hd (u @ zs) \<noteq> CHR 0x22" using assms(2,3) by (cases u) (auto simp: byte_def)
  from scan_string_unit [OF string_unit_wide [OF assms(1,2,3,4)] _ this] assms(2) show ?thesis by simp
qed

lemma string_unit_valid: "string_unit s = Some (out, w) \<Longrightarrow> utf8_valid out"
  by (auto simp: string_unit_def unicode_escape_def simple_escape_def Let_def byte_def
      split: list.splits if_splits option.splits prod.splits)

lemma scan_string_valid: "scan_string s = Some (x, r) \<Longrightarrow> utf8_valid x"
proof (induction s arbitrary: x r rule: scan_string.induct)
  case (1 s)
  from "1.prems" obtain c cs where s: "s = c # cs"
    by (subst (asm) scan_string.simps) (auto split: list.splits)
  show ?case
  proof (cases "c = CHR 0x22")
    case True
    with "1.prems" s show ?thesis by (subst (asm) scan_string.simps) simp
  next
    case False
    with "1.prems" s obtain out w t where u: "string_unit s = Some (out, w)"
      and t: "scan_string (drop w s) = Some (t, r)" "x = out @ t"
      by (subst (asm) scan_string.simps) (auto split: option.splits)
    from "1.IH" [OF s False u refl t(1)] string_unit_valid [OF u] t(2) show ?thesis by simp
  qed
qed

lemma utf8_valid_ascii: "\<forall>c \<in> set s. byte c < 0x80 \<Longrightarrow> utf8_valid (s @ t) = utf8_valid t"
  by (induction s) auto

subsection \<open>What the decoder produces is well formed\<close>

definition tok_wf :: "tok \<Rightarrow> bool" where
  "tok_wf t = (case t of TStr s \<Rightarrow> utf8_valid s | TNum n \<Rightarrow> number_ok n | _ \<Rightarrow> True)"

lemma scan_scalar_wf: "scan_scalar s = Some (t, r) \<Longrightarrow> tok_wf t"
  by (auto simp: scan_scalar_def tok_wf_def split: if_splits
      dest: scan_string_valid scan_number_ok)

lemma next_token_wf: "next_token st stack s = Inr (t, d) \<Longrightarrow> tok_wf t"
proof (induction s arbitrary: st)
  case (Cons c cs)
  from Cons.prems show ?case
  proof (cases rule: next_token_step)
    case (skip st')
    then show ?thesis by (rule Cons.IH)
  next
    case scalar
    then show ?thesis by (rule scan_scalar_wf)
  qed (auto simp: tok_wf_def dest: scan_string_valid)
qed simp

lemma dec_token_wf: "dec_token d = Inr (t, d') \<Longrightarrow> tok_wf t"
  unfolding dec_token_def by (rule next_token_wf)

lemma reads_wf:
  "reads d v d' \<Longrightarrow> wf_json v"
  "reads_elems d vs d' \<Longrightarrow> \<forall>v \<in> set vs. wf_json v"
  "reads_members d ms d' \<Longrightarrow> \<forall>m \<in> set ms. utf8_valid (fst m) \<and> wf_json (snd m)"
proof (induction rule: reads_reads_elems_reads_members.inducts)
  case (scalar d t d' v)
  with dec_token_wf [OF scalar(1)] show ?case by (cases t) (auto simp: tok_wf_def)
next
  case (members_cons d k d1 v d2 ms d')
  with dec_token_wf [OF members_cons(2)] show ?case by (auto simp: tok_wf_def)
qed auto

lemma json_decode_wf: "json_decode s = Some v \<Longrightarrow> wf_json v"
  using reads_wf(1) by (auto simp: json_decode_iff_reads)

subsection \<open>Tokens of written text\<close>

abbreviation dec_at :: "tok_state \<Rightarrow> tok_state list \<Rightarrow> bytes \<Rightarrow> decoder" where
  "dec_at st stk s \<equiv> \<lparr>tokenState = st, tokenStack = stk, input = s\<rparr>"

lemma reads_cong:
  assumes "dec_token d = dec_token e" and "reads e v d'"
  shows "reads d v d'"
  using assms(2)
proof cases
  case (scalar t)
  with assms(1) show ?thesis by (intro reads_reads_elems_reads_members.scalar) auto
next
  case (object d1 ms)
  with assms(1) show ?thesis by (auto intro: reads_reads_elems_reads_members.object)
next
  case (array d1 vs)
  with assms(1) show ?thesis by (auto intro: reads_reads_elems_reads_members.array)
qed

lemma dec_token_open_close [simp]:
  "value_allowed st \<Longrightarrow> dec_token (dec_at st stk (CHR ''['' # s)) = Inr (TDelim (CHR ''[''), dec_at ArrayStart (st # stk) s)"
  "value_allowed st \<Longrightarrow> dec_token (dec_at st stk (CHR ''{'' # s)) = Inr (TDelim (CHR ''{''), dec_at ObjectStart (st # stk) s)"
  "st = ArrayStart \<or> st = ArrayComma \<Longrightarrow>
     dec_token (dec_at st (p # stk) (CHR '']'' # s)) = Inr (TDelim (CHR '']''), dec_at (value_end p) stk s)"
  "st = ObjectStart \<or> st = ObjectComma \<Longrightarrow>
     dec_token (dec_at st (p # stk) (CHR ''}'' # s)) = Inr (TDelim (CHR ''}''), dec_at (value_end p) stk s)"
  "dec_token (dec_at ArrayComma stk (CHR '','' # s)) = dec_token (dec_at ArrayValue stk s)"
  "dec_token (dec_at ObjectComma stk (CHR '','' # s)) = dec_token (dec_at ObjectKey stk s)"
  "dec_token (dec_at ObjectColon stk (CHR '':'' # s)) = dec_token (dec_at ObjectValue stk s)"
  by (simp_all add: dec_token_def)

lemma dec_more_Cons: "\<not> is_space c \<Longrightarrow> dec_more (dec_at st stk (c # s)) = (c \<noteq> CHR '']'' \<and> c \<noteq> CHR ''}'')"
  by (simp add: dec_more_def)

lemma next_token_scalar:
  assumes "c \<notin> {CHR ''['', CHR '']'', CHR ''{'', CHR ''}'', CHR '':'', CHR '',''}" "\<not> is_space c"
    and "value_allowed st" and "scan_scalar (c # cs) = Some (t, r)"
  shows "next_token st stk (c # cs) = Inr (t, dec_at (value_end st) stk r)"
  using assms by (auto simp: value_allowed_def)

lemma is_digit_char_all:
  "\<forall>c. is_digit c \<or> c = CHR ''-'' \<longrightarrow>
     c \<notin> {CHR ''['', CHR '']'', CHR ''{'', CHR ''}'', CHR '':'', CHR '',''} \<and> \<not> is_space c
     \<and> c \<noteq> CHR 0x22 \<and> c \<noteq> CHR ''t'' \<and> c \<noteq> CHR ''f'' \<and> c \<noteq> CHR ''n''"
  by code_simp

lemma dec_token_scalar:
  assumes "value_allowed st"
  shows "dec_token (dec_at st stk (''null'' @ s)) = Inr (TNull, dec_at (value_end st) stk s)"
    and "dec_token (dec_at st stk ((if b then ''true'' else ''false'') @ s)) = Inr (TBool b, dec_at (value_end st) stk s)"
    and "number_ok n \<Longrightarrow> number_stop s \<Longrightarrow>
       dec_token (dec_at st stk (n @ s)) = Inr (TNum n, dec_at (value_end st) stk s)"
proof -
  note ns = next_token_scalar [OF _ _ assms, where stk = stk and r = s]
  have "scan_scalar (CHR ''n'' # ''ull'' @ s) = Some (TNull, s)" by (simp add: scan_scalar_def)
  from ns [OF _ _ this]
  show "dec_token (dec_at st stk (''null'' @ s)) = Inr (TNull, dec_at (value_end st) stk s)"
    by (simp add: dec_token_def is_space_def del: next_token.simps)
  have "scan_scalar (CHR ''t'' # ''rue'' @ s) = Some (TBool True, s)"
    "scan_scalar (CHR ''f'' # ''alse'' @ s) = Some (TBool False, s)" by (simp_all add: scan_scalar_def)
  from ns [OF _ _ this(1)] ns [OF _ _ this(2)]
  show "dec_token (dec_at st stk ((if b then ''true'' else ''false'') @ s)) = Inr (TBool b, dec_at (value_end st) stk s)"
    by (simp add: dec_token_def is_space_def del: next_token.simps)
  show "dec_token (dec_at st stk (n @ s)) = Inr (TNum n, dec_at (value_end st) stk s)"
    if n: "number_ok n" "number_stop s"
  proof -
    from number_ok_hd [OF n(1)] obtain c cs where c: "n = c # cs" "is_digit c \<or> c = CHR ''-''"
      by (cases n) auto
    note a = spec [OF is_digit_char_all, of c]
    have "scan_scalar (c # cs @ s) = Some (TNum n, s)"
      using number_ok_scan [OF n] a c by (simp add: scan_scalar_def)
    from next_token_scalar [OF _ _ assms this, where stk = stk] a c show ?thesis
      by (simp add: dec_token_def del: next_token.simps)
  qed
qed

subsection \<open>Text that passes the encoding checks\<close>

definition plain :: "bytes \<Rightarrow> bool" where
  "plain s \<longleftrightarrow> (\<forall>c \<in> set s. byte c < 0x80 \<and> c \<noteq> CHR 0x22)"

lemma plain_simps [simp]:
  "plain []" "plain (c # cs) \<longleftrightarrow> byte c < 0x80 \<and> c \<noteq> CHR 0x22 \<and> plain cs"
  "plain (x @ y) \<longleftrightarrow> plain x \<and> plain y"
  by (auto simp: plain_def)

lemma is_digit_plain: "is_digit c \<Longrightarrow> byte c < 0x80 \<and> c \<noteq> CHR 0x22"
proof -
  have "\<forall>c. is_digit c \<longrightarrow> byte c < 0x80 \<and> c \<noteq> CHR 0x22" by code_simp
  then show "is_digit c \<Longrightarrow> ?thesis" by blast
qed

lemma span_digits_plain: "span_digits s = (ds, r) \<Longrightarrow> plain ds"
  by (induction s arbitrary: ds r) (auto split: if_splits prod.splits simp: is_digit_plain)

lemma byte_plain [simp]:
  "byte (CHR ''0'') = 48" "byte (CHR ''.'') = 46" "byte (CHR ''e'') = 101" "byte (CHR ''E'') = 69"
  "byte (CHR ''-'') = 45" "byte (CHR ''+'') = 43"
  by code_simp+

lemma number_plain:
  assumes "number_ok n"
  shows "plain n"
proof -
  from scan_number_parts [OF assms [unfolded number_ok_def]] obtain sg s1 i s2 f s3 e where
    sc: "scan_integer s1 = Some (i, s2)" "scan_fraction s2 = Some (f, s3)"
      "scan_exponent s3 = Some (e, [])" "n = sg @ i @ f @ e" "sg = [] \<or> sg = ''-''" .
  have "plain i" using sc(1)
    by (cases s1) (auto simp: scan_integer_def split: if_splits prod.splits
        dest: span_digits_plain simp: is_digit_plain)
  moreover have "plain f" using sc(2)
    by (cases s2) (auto simp: scan_fraction_def split: if_splits prod.splits dest: span_digits_plain)
  moreover have "plain e" using scan_exponent_shape [OF sc(3)]
    by (auto dest: span_digits_plain)
  ultimately show ?thesis using sc(4,5) by auto
qed

text \<open>\<open>passes s\<close>: the text \<open>s\<close> leaves both checks where they were.\<close>

definition passes :: "bytes \<Rightarrow> bool" where
  "passes s \<longleftrightarrow> (\<forall>rest. scanText False (s @ rest) = scanText False rest) \<and> utf8_valid s"

lemma passes_append [intro]: "passes s \<Longrightarrow> passes t \<Longrightarrow> passes (s @ t)"
  by (simp add: passes_def)

lemma passes_plain [intro]: "plain s \<Longrightarrow> passes s"
proof (induction s)
  case Nil
  show ?case by (simp add: passes_def)
next
  case (Cons c cs)
  moreover have "scanText False (c # r) = scanText False r" if "c \<noteq> CHR 0x22" for r
    using that by (subst scanText.simps) simp
  ultimately show ?case by (simp add: passes_def)
qed

lemma passes_Cons [intro]: "plain [c] \<Longrightarrow> passes s \<Longrightarrow> passes (c # s)"
  using passes_append [OF passes_plain [of "[c]"], of s] by simp

lemma passes_join [intro]: "\<forall>s \<in> set ss. passes s \<Longrightarrow> passes (join_with (CHR '','') ss)"
proof -
  have c: "plain '',''" by code_simp
  assume a: "\<forall>s \<in> set ss. passes s"
  have "passes (concat (map (\<lambda>c. CHR '','' # c) xs))" if "\<forall>s \<in> set xs. passes s" for xs
    using that c by (induction xs) (auto simp: passes_plain)
  with a show ?thesis
    by (cases ss) (simp_all add: passes_append join_with_Cons passes_plain del: join_with.simps(2))
qed

lemma passes_text_ok:
  assumes "passes s"
  shows "validateTextEncoding s = Inr ()"
proof -
  from assms have "scanText False (s @ []) = scanText False []" "utf8_valid s"
    unfolding passes_def by blast+
  moreover have "scanText False [] = Inr ()" by (subst scanText.simps) simp
  ultimately show ?thesis by (simp add: validateTextEncoding_def)
qed

subsection \<open>Writers\<close>

lemma number_stop_simps [simp]:
  "number_stop (CHR '','' # r)" "number_stop (CHR '']'' # r)" "number_stop (CHR ''}'' # r)" "number_stop []"
  by (simp_all add: number_stop_def)

definition elem_tail :: "(string \<Rightarrow> bytes) \<Rightarrow> json list \<Rightarrow> bytes" where
  "elem_tail str vs = concat (map (\<lambda>v. CHR '','' # write_json str v) vs)"

definition member_text :: "(string \<Rightarrow> bytes) \<Rightarrow> string \<times> json \<Rightarrow> bytes" where
  "member_text str m = str (fst m) @ CHR '':'' # write_json str (snd m)"

definition member_tail :: "(string \<Rightarrow> bytes) \<Rightarrow> (string \<times> json) list \<Rightarrow> bytes" where
  "member_tail str ms = concat (map (\<lambda>m. CHR '','' # member_text str m) ms)"

text \<open>A document whose text is read back wherever a value may stand.\<close>

definition readable :: "(string \<Rightarrow> bytes) \<Rightarrow> json \<Rightarrow> bool" where
  "readable str v \<longleftrightarrow> (\<forall>st stk rest. value_allowed st \<longrightarrow> number_stop rest
     \<longrightarrow> reads (dec_at st stk (write_json str v @ rest)) v (dec_at (value_end st) stk rest))"

locale string_writer =
  fixes str :: "string \<Rightarrow> bytes"
  assumes reads_back: "utf8_valid s \<Longrightarrow>
      \<exists>t. str s = CHR 0x22 # t \<and> (\<forall>rest. scan_string (t @ rest) = Some (s, rest))"
    and passes_str: "utf8_valid s \<Longrightarrow> passes (str s)"
begin

lemma dec_token_key:
  assumes "st = ObjectStart \<or> st = ObjectKey" and "utf8_valid k"
  shows "dec_token (dec_at st stk (str k @ s)) = Inr (TStr k, dec_at ObjectColon stk s)"
proof -
  from reads_back [OF assms(2)] obtain t where t: "str k = CHR 0x22 # t" "scan_string (t @ s) = Some (k, s)"
    by blast
  with assms(1) show ?thesis by (auto simp: dec_token_def)
qed

lemma dec_token_str:
  assumes "value_allowed st" and "utf8_valid x"
  shows "dec_token (dec_at st stk (str x @ s)) = Inr (TStr x, dec_at (value_end st) stk s)"
proof -
  from reads_back [OF assms(2)] obtain t where t: "str x = CHR 0x22 # t" "scan_string (t @ s) = Some (x, s)"
    by blast
  then have "scan_scalar (CHR 0x22 # t @ s) = Some (TStr x, s)" by (simp add: scan_scalar_def)
  from next_token_scalar [OF _ _ assms(1) this, where stk = stk] t show ?thesis
    by (simp add: dec_token_def is_space_def del: next_token.simps)
qed

lemma write_json_hd:
  "wf_json v \<Longrightarrow> write_json str v \<noteq> [] \<and> \<not> is_space (hd (write_json str v))
     \<and> hd (write_json str v) \<noteq> CHR '']'' \<and> hd (write_json str v) \<noteq> CHR ''}''"
proof (cases v)
  case (JNum n)
  moreover assume "wf_json v"
  ultimately show ?thesis using number_ok_hd [of n] spec [OF is_digit_char_all, of "hd n"] by auto
next
  case (JStr s)
  moreover assume "wf_json v"
  ultimately show ?thesis using reads_back [of s] by (auto simp: is_space_def)
qed (auto simp: is_space_def)

lemma write_json_arr:
  "write_json str (JArr []) = ''[]''"
  "write_json str (JArr (v # vs)) = CHR ''['' # write_json str v @ elem_tail str vs @ '']''"
  by (simp_all add: elem_tail_def join_with_Cons comp_def)

lemma write_json_obj:
  "write_json str (JObj []) = ''{}''"
  "write_json str (JObj (m # ms)) = CHR ''{'' # member_text str m @ member_tail str ms @ ''}''"
  by (simp_all add: member_tail_def member_text_def join_with_Cons comp_def split_def)

lemma readableD:
  "readable str v \<Longrightarrow> value_allowed st \<Longrightarrow> number_stop rest \<Longrightarrow> st' = value_end st
     \<Longrightarrow> reads (dec_at st stk (write_json str v @ rest)) v (dec_at st' stk rest)"
  by (simp add: readable_def)

lemma elem_tail_stop: "number_stop (elem_tail str vs @ CHR '']'' # rest)"
  by (cases vs) (simp_all add: number_stop_def elem_tail_def)

lemma member_tail_stop: "number_stop (member_tail str ms @ CHR ''}'' # rest)"
  by (cases ms) (simp_all add: number_stop_def member_tail_def)

lemma reads_elem_tail:
  "\<forall>v \<in> set vs. readable str v \<Longrightarrow>
     reads_elems (dec_at ArrayComma (p # stk) (elem_tail str vs @ CHR '']'' # rest)) vs (dec_at (value_end p) stk rest)"
proof (induction vs)
  case Nil
  show ?case
    by (rule elems_end [where t = "TDelim (CHR '']'')"]) (simp_all add: elem_tail_def dec_more_Cons)
next
  case (Cons v vs)
  have e: "elem_tail str (v # vs) @ CHR '']'' # rest = CHR '','' # write_json str v @ elem_tail str vs @ CHR '']'' # rest"
    by (simp add: elem_tail_def)
  have "reads (dec_at ArrayValue (p # stk) (write_json str v @ elem_tail str vs @ CHR '']'' # rest)) v
      (dec_at ArrayComma (p # stk) (elem_tail str vs @ CHR '']'' # rest))"
    using Cons.prems by (intro readableD elem_tail_stop) simp_all
  then have "reads (dec_at ArrayComma (p # stk) (elem_tail str (v # vs) @ CHR '']'' # rest)) v
      (dec_at ArrayComma (p # stk) (elem_tail str vs @ CHR '']'' # rest))"
    unfolding e by (rule reads_cong [rotated]) simp
  with Cons show ?case by (intro elems_cons) (auto simp: e dec_more_Cons)
qed

lemma reads_member:
  assumes "readable str v" "utf8_valid k" "st = ObjectStart \<or> st = ObjectKey" "number_stop rest"
  shows "dec_token (dec_at st (p # stk) (member_text str (k, v) @ rest)) = Inr (TStr k, dec_at ObjectColon (p # stk) (CHR '':'' # write_json str v @ rest))"
    and "reads (dec_at ObjectColon (p # stk) (CHR '':'' # write_json str v @ rest)) v (dec_at ObjectComma (p # stk) rest)"
proof -
  show "dec_token (dec_at st (p # stk) (member_text str (k, v) @ rest)) = Inr (TStr k, dec_at ObjectColon (p # stk) (CHR '':'' # write_json str v @ rest))"
    using assms by (simp add: member_text_def dec_token_key)
  have "reads (dec_at ObjectValue (p # stk) (write_json str v @ rest)) v (dec_at ObjectComma (p # stk) rest)"
    by (intro readableD assms) simp_all
  then show "reads (dec_at ObjectColon (p # stk) (CHR '':'' # write_json str v @ rest)) v (dec_at ObjectComma (p # stk) rest)"
    by (rule reads_cong [rotated]) simp
qed

lemma reads_member_tail:
  "\<forall>m \<in> set ms. readable str (snd m) \<and> utf8_valid (fst m) \<Longrightarrow>
     reads_members (dec_at ObjectComma (p # stk) (member_tail str ms @ CHR ''}'' # rest)) ms (dec_at (value_end p) stk rest)"
proof (induction ms)
  case Nil
  show ?case
    by (rule members_end [where t = "TDelim (CHR ''}'')"]) (simp_all add: member_tail_def dec_more_Cons)
next
  case (Cons m ms)
  obtain k v where m: "m = (k, v)" by (cases m)
  have e: "member_tail str (m # ms) @ CHR ''}'' # rest = CHR '','' # member_text str (k, v) @ member_tail str ms @ CHR ''}'' # rest"
    by (simp add: member_tail_def m)
  have r: "readable str v" "utf8_valid k" using Cons.prems m by auto
  note s = reads_member [OF r _ member_tail_stop, where st = ObjectKey and ms1 = ms and rest1 = rest and p = p and stk = stk]
  show ?case unfolding m e [unfolded m]
    by (rule members_cons [OF _ _ s(2)]) (use s(1) Cons in \<open>simp_all add: dec_more_Cons\<close>)
qed

lemma wf_readable: "wf_json v \<Longrightarrow> readable str v"
proof (induction v rule: json_tree_induct)
  case JNull
  show ?case by (auto simp: readable_def dec_token_scalar(1) [simplified] intro!: scalar)
next
  case (JBool b)
  show ?case unfolding readable_def write_json.simps
    by (intro allI impI scalar [where t = "TBool b"] dec_token_scalar(2)) simp_all
next
  case (JNum n)
  then show ?case unfolding readable_def write_json.simps
    by (intro allI impI scalar [where t = "TNum n"] dec_token_scalar(3)) simp_all
next
  case (JStr s)
  then show ?case unfolding readable_def write_json.simps
    by (intro allI impI scalar [where t = "TStr s"] dec_token_str) simp_all
next
  case (JArr vs)
  show ?case unfolding readable_def
  proof (intro allI impI)
    fix st stk rest assume st: "value_allowed st" "number_stop rest"
    show "reads (dec_at st stk (write_json str (JArr vs) @ rest)) (JArr vs) (dec_at (value_end st) stk rest)"
    proof (cases vs)
      case Nil
      show ?thesis unfolding Nil write_json_arr
        by (rule array) (use st in \<open>auto intro!: elems_end simp: dec_more_Cons\<close>)
    next
      case (Cons v vs')
      then have r: "readable str v" "\<forall>v \<in> set vs'. readable str v" and w: "wf_json v" using JArr by auto
      have "reads (dec_at ArrayStart (st # stk) (write_json str v @ elem_tail str vs' @ CHR '']'' # rest)) v
          (dec_at ArrayComma (st # stk) (elem_tail str vs' @ CHR '']'' # rest))"
        by (intro readableD elem_tail_stop r(1)) simp_all
      moreover have "dec_more (dec_at ArrayStart (st # stk) (write_json str v @ elem_tail str vs' @ CHR '']'' # rest))"
        using write_json_hd [OF w] by (cases "write_json str v") (auto simp: dec_more_Cons)
      ultimately have "reads_elems (dec_at ArrayStart (st # stk) (write_json str v @ elem_tail str vs' @ CHR '']'' # rest)) vs
          (dec_at (value_end st) stk rest)"
        unfolding Cons using reads_elem_tail [OF r(2)] by (intro elems_cons)
      then show ?thesis unfolding Cons write_json_arr
        by (intro array [where ?d1.0 = "dec_at ArrayStart (st # stk) (write_json str v @ elem_tail str vs' @ CHR '']'' # rest)"])
          (use st in simp_all)
    qed
  qed
next
  case (JObj ms)
  show ?case unfolding readable_def
  proof (intro allI impI)
    fix st stk rest assume st: "value_allowed st" "number_stop rest"
    show "reads (dec_at st stk (write_json str (JObj ms) @ rest)) (JObj ms) (dec_at (value_end st) stk rest)"
    proof (cases ms)
      case Nil
      show ?thesis unfolding Nil write_json_obj
        by (rule object) (use st in \<open>auto intro!: members_end simp: dec_more_Cons\<close>)
    next
      case (Cons m ms')
      obtain k v where m: "m = (k, v)" by (cases m)
      have r: "readable str v" "utf8_valid k" and t: "\<forall>m \<in> set ms'. readable str (snd m) \<and> utf8_valid (fst m)"
        using JObj Cons m by (auto, force)
      note s = reads_member [OF r _ member_tail_stop, where st = ObjectStart and ms1 = ms' and rest1 = rest and p = st and stk = stk]
      have "dec_more (dec_at ObjectStart (st # stk) (member_text str (k, v) @ member_tail str ms' @ CHR ''}'' # rest))"
        using reads_back [OF r(2)] by (auto simp: member_text_def dec_more_Cons)
      then have "reads_members (dec_at ObjectStart (st # stk) (member_text str (k, v) @ member_tail str ms' @ CHR ''}'' # rest))
          ms (dec_at (value_end st) stk rest)"
        unfolding Cons m by (rule members_cons [OF _ _ s(2)]) (use s(1) reads_member_tail [OF t] in simp_all)
      then show ?thesis unfolding Cons m write_json_obj
        by (intro object [where ?d1.0 = "dec_at ObjectStart (st # stk) (member_text str (k, v) @ member_tail str ms' @ CHR ''}'' # rest)"])
          (use st in simp_all)
    qed
  qed
qed

lemma json_decode_write:
  assumes "wf_json v"
  shows "json_decode (write_json str v) = Some v"
proof -
  have "reads (dec_at TopValue [] (write_json str v @ [])) v (dec_at TopValue [] [])"
    by (intro readableD wf_readable assms) (simp_all add: number_stop_def)
  then show ?thesis unfolding json_decode_iff_reads new_decoder_def by fastforce
qed

lemma passes_write_json: "wf_json v \<Longrightarrow> passes (write_json str v)"
proof (induction v rule: json_tree_induct)
  case JNull
  have "plain ''null''" by code_simp
  then show ?case by auto
next
  case (JBool b)
  have "plain ''true''" "plain ''false''" by code_simp+
  then show ?case by auto
next
  case (JArr vs)
  have p: "plain ''[''" "plain '']''" by code_simp+
  have "passes (''['' @ join_with (CHR '','') (map (write_json str) vs) @ '']'')"
    using JArr by (intro passes_append passes_join) (auto intro: passes_plain p)
  then show ?case by simp
next
  case (JObj ms)
  have p: "plain ''{''" "plain ''}''" "plain '':''" by code_simp+
  have "passes (''{'' @ join_with (CHR '','') (map (member_text str) ms) @ ''}'')"
  proof (intro passes_append passes_join ballI)
    fix s assume "s \<in> set (map (member_text str) ms)"
    then obtain k v where "(k, v) \<in> set ms" "s = str k @ '':'' @ write_json str v"
      by (auto simp: member_text_def)
    moreover from this JObj.prems have "utf8_valid k" "wf_json v" by auto
    ultimately show "passes s" using JObj.IH [of k v] p
      by (simp add: passes_append passes_str passes_Cons)
  qed (auto intro: passes_plain p)
  then show ?case by (simp add: member_text_def [abs_def] comp_def split_def)
qed (auto dest: number_plain intro: passes_str)

lemma write_json_text_ok: "wf_json v \<Longrightarrow> validateTextEncoding (write_json str v) = Inr ()"
  by (rule passes_text_ok) (rule passes_write_json)

end

subsection \<open>The string encoding of \<open>json.Marshal\<close>\<close>

lemma lower_hex_all:
  "list_all (\<lambda>d. hex_val (lower_hex d) = Some d \<and> byte (lower_hex d) < 0x80) [0..15]"
  by code_simp

lemma lower_hex_val: "0 \<le> d \<Longrightarrow> d < 16 \<Longrightarrow> hex_val (lower_hex d) = Some d \<and> byte (lower_hex d) < 0x80"
  using lower_hex_all by (simp add: list_all_iff)

lemma hex_quad_u4:
  assumes "0 \<le> n" and "n < 65536"
  shows "hex_quad (drop 2 (unicode_u4 n) @ zs) = Some n"
proof -
  have "n div 256 div 16 = n div 4096" "n div 16 div 16 = n div 256"
    by (simp_all add: zdiv_zmult2_eq [symmetric])
  then have d: "n div 256 mod 16 = n div 256 - n div 4096 * 16"
    "n div 16 mod 16 = n div 16 - n div 256 * 16" "n mod 16 = n - n div 16 * 16"
    by (metis minus_div_mult_eq_mod)+
  have "0 \<le> n div 4096" "n div 4096 < 16" using assms by simp_all
  then have h: "hex_val (lower_hex (n div 4096)) = Some (n div 4096)"
    "hex_val (lower_hex (n div 256 mod 16)) = Some (n div 256 mod 16)"
    "hex_val (lower_hex (n div 16 mod 16)) = Some (n div 16 mod 16)"
    "hex_val (lower_hex (n mod 16)) = Some (n mod 16)"
    using lower_hex_val by simp_all
  show ?thesis by (simp add: unicode_u4_def h) (simp add: d)
qed

lemma string_unit_u:
  "string_unit (CHR 0x5C # CHR ''u'' # s) = map_option (\<lambda>(out, w). (out, 2 + w)) (unicode_escape s)"
  by (simp add: string_unit_def)

lemma string_unit_u4:
  assumes "0 \<le> n" and "n < 65536" and "\<not> is_surrogate n"
  shows "string_unit (unicode_u4 n @ zs) = Some (encode_rune n, length (unicode_u4 n))"
proof -
  define hs where "hs = drop 2 (unicode_u4 n)"
  have u: "unicode_u4 n = CHR 0x5C # CHR ''u'' # hs" by (simp add: hs_def unicode_u4_def)
  have l: "length hs = 4" by (simp add: hs_def unicode_u4_def)
  have "unicode_escape (hs @ zs) = Some (encode_rune n, 4)"
    using hex_quad_u4 [OF assms(1,2), of zs] assms(3) by (simp add: hs_def unicode_escape_def)
  then show ?thesis by (simp add: u l string_unit_u)
qed

lemma u4_ascii: "0 \<le> n \<Longrightarrow> n < 65536 \<Longrightarrow> \<forall>c \<in> set (unicode_u4 n). byte c < 0x80"
proof -
  have b: "byte (CHR 0x5C) < 0x80" "byte (CHR ''u'') < 0x80" by code_simp+
  assume "0 \<le> n" "n < 65536"
  then have "0 \<le> n div 4096" "n div 4096 < 16" by simp_all
  with b show ?thesis using lower_hex_val by (auto simp: unicode_u4_def)
qed

text \<open>Every written unit is read back as the unit it stands for.\<close>

definition unit_ok :: "bytes \<Rightarrow> bytes \<Rightarrow> bool" where
  "unit_ok w u \<longleftrightarrow> w \<noteq> [] \<and> hd w \<noteq> CHR 0x22 \<and> utf8_valid w
     \<and> (\<forall>zs. string_unit (w @ zs) = Some (u, length w))
     \<and> (\<forall>zs. scanText True (w @ zs) = scanText True zs)"

lemma unit_ok_scan:
  assumes "unit_ok w u"
  shows "scan_string (w @ zs) = map_option (\<lambda>(t, r). (u @ t, r)) (scan_string zs)"
proof -
  from assms have "string_unit (w @ zs) = Some (u, length w)" "w @ zs \<noteq> []" "hd (w @ zs) \<noteq> CHR 0x22"
    by (auto simp: unit_ok_def)
  from scan_string_unit [OF this] show ?thesis by simp
qed

lemma hex4_quad: "hex4 s i = hex_quad (drop i s)"
proof (cases "length s < i + 4")
  case True
  then have "length (drop i s) < 4" by simp
  then have "hex_quad (drop i s) = None"
    by (cases "drop i s" rule: hex_quad.cases) auto
  with True show ?thesis by (simp add: hex4_def)
next
  case False
  then have "4 \<le> length (drop i s)" by simp
  then obtain a b c d t where "drop i s = a # b # c # d # t"
    by (cases "drop i s" rule: hex_quad.cases) auto
  with False show ?thesis by (simp add: hex4_def split: option.splits)
qed

lemma unit_ok_u4:
  assumes "0 \<le> n" and "n < 65536" and "\<not> is_surrogate n"
  shows "unit_ok (unicode_u4 n) (encode_rune n)"
proof -
  have c: "unicode_u4 n = CHR 0x5C # CHR ''u'' # drop 2 (unicode_u4 n)" "length (unicode_u4 n) = 6"
    by (simp_all add: unicode_u4_def)
  have "hex4 (unicode_u4 n @ zs) 2 = Some n" for zs
    using hex_quad_u4 [OF assms(1,2), of zs] c(2) by (simp add: hex4_quad)
  moreover have "tl (tl (unicode_u4 n @ zs)) = drop 2 (unicode_u4 n) @ zs" for zs
    by (simp add: unicode_u4_def)
  ultimately have "scanText True (unicode_u4 n @ zs) = scanText True zs" for zs
    by (subst scanText.simps, subst (1) c(1)) (use assms(3) c(2) in \<open>simp add: unicode_u4_def\<close>)
  moreover have "utf8_valid (unicode_u4 n)"
    using utf8_valid_ascii [OF u4_ascii [OF assms(1,2)], of "[]"] by simp
  moreover have "hd (unicode_u4 n) \<noteq> CHR 0x22" "unicode_u4 n \<noteq> []" by (simp_all add: unicode_u4_def)
  ultimately show ?thesis using string_unit_u4 [OF assms] by (simp add: unit_ok_def)
qed

lemma unit_ok_escape:
  assumes "simple_escape e = Some x" and "byte e < 0x80"
  shows "unit_ok [CHR 0x5C, e] [x]"
proof -
  have "e \<noteq> CHR ''u''" using assms(1) by (auto simp: simple_escape_def)
  moreover have "byte (CHR 0x5C) < 0x80" by code_simp
  moreover from calculation have "scanText True (CHR 0x5C # e # zs) = scanText True zs" for zs
    by (subst scanText.simps) simp
  ultimately show ?thesis using assms by (simp add: unit_ok_def string_unit_def)
qed

lemma unit_ok_plain:
  assumes "byte a < 0x80" and "\<not> byte a < 0x20" and "a \<noteq> CHR 0x22" and "a \<noteq> CHR 0x5C"
  shows "unit_ok [a] [a]"
proof -
  have "scanText True (a # zs) = scanText True zs" for zs
    using assms by (subst scanText.simps) simp
  with assms show ?thesis by (simp add: unit_ok_def string_unit_def)
qed

lemma unit_ok_wide:
  assumes "\<And>t. decode_rune (u @ t) = (r, True, length u)" "u \<noteq> []" "\<forall>b \<in> set u. \<not> byte b < 0x80"
    "encode_rune r = u"
  shows "unit_ok u u"
proof -
  have q: "byte (CHR 0x22) < 0x80" "byte (CHR 0x5C) < 0x80" by code_simp+
  have "scanText True (xs @ zs) = scanText True zs" if "\<forall>b \<in> set xs. \<not> byte b < 0x80" for xs zs
    using that
  proof (induction xs)
    case (Cons x xs)
    with q have "x \<noteq> CHR 0x22" "x \<noteq> CHR 0x5C" by auto
    then have "scanText True (x # xs @ zs) = scanText True (xs @ zs)" by (subst scanText.simps) simp
    with Cons show ?case by simp
  qed simp
  moreover have "hd u \<noteq> CHR 0x22" using assms(2,3) q by (cases u) auto
  moreover have "utf8_valid u" using encode_rune_valid [of r] assms(4) by simp
  ultimately show ?thesis using assms(2,3) string_unit_wide [OF assms(1) assms(2-4)]
    by (simp add: unit_ok_def)
qed

lemma marshal_ascii_all:
  "\<forall>a. byte a < 0x80 \<longrightarrow>
     (marshal_rune (byte a) True [a] = unicode_u4 (byte a) \<and> byte a < 65536)
   \<or> (marshal_rune (byte a) True [a] = [a] \<and> \<not> byte a < 0x20 \<and> a \<noteq> CHR 0x22 \<and> a \<noteq> CHR 0x5C)
   \<or> (case marshal_rune (byte a) True [a] of
        [b, e] \<Rightarrow> b = CHR 0x5C \<and> simple_escape e = Some a \<and> byte e < 0x80 | _ \<Rightarrow> False)"
  by code_simp

lemma unit_ok_marshal_ascii:
  assumes "byte a < 0x80"
  shows "unit_ok (marshal_rune (byte a) True [a]) [a]"
proof -
  consider "marshal_rune (byte a) True [a] = unicode_u4 (byte a)"
    | "marshal_rune (byte a) True [a] = [a]" "\<not> byte a < 0x20" "a \<noteq> CHR 0x22" "a \<noteq> CHR 0x5C"
    | e where "marshal_rune (byte a) True [a] = [CHR 0x5C, e]" "simple_escape e = Some a" "byte e < 0x80"
    using spec [OF marshal_ascii_all, of a] assms by (auto split: list.splits)
  then show ?thesis
  proof cases
    case 1
    with unit_ok_u4 [of "byte a"] assms encode_rune_byte [OF assms] show ?thesis
      by (simp add: is_surrogate_def in_range_def)
  next
    case 2
    with unit_ok_plain [OF assms] show ?thesis by simp
  next
    case 3
    with unit_ok_escape show ?thesis by simp
  qed
qed

lemma unit_ok_marshal_wide:
  assumes "\<And>t. decode_rune (u @ t) = (r, True, length u)" "1 < length u" "\<forall>b \<in> set u. \<not> byte b < 0x80"
    "encode_rune r = u"
  shows "unit_ok (marshal_rune r True u) u"
proof -
  have "u \<noteq> []" using assms(2) by auto
  have "decode_rune u = (r, True, length u)" using assms(1) [of "[]"] by simp
  then have "\<not> r < 0x80"
    using \<open>u \<noteq> []\<close>
    by (cases rule: decode_rune_cases) (use assms(2) in \<open>auto simp: in_range_def split: if_splits\<close>)
  then have "marshal_rune r True u = (if r = 0x2028 \<or> r = 0x2029 then unicode_u4 r else u)"
    by (auto simp: marshal_rune_def)
  moreover have "unit_ok (unicode_u4 r) u" if "r = 0x2028 \<or> r = 0x2029"
    using unit_ok_u4 [of r] that assms(4) by (auto simp: is_surrogate_def in_range_def)
  moreover have "unit_ok u u" by (rule unit_ok_wide [OF assms(1) \<open>u \<noteq> []\<close> assms(3,4)])
  ultimately show ?thesis by simp
qed

text \<open>A written string is a sequence of such units.\<close>

inductive units :: "bytes \<Rightarrow> string \<Rightarrow> bool" where
  units_Nil: "units [] []"
| units_Cons: "unit_ok w u \<Longrightarrow> units ws us \<Longrightarrow> units (w @ ws) (u @ us)"

lemma units_read:
  "units ws us \<Longrightarrow> scan_string (ws @ CHR 0x22 # rest) = Some (us, rest)
     \<and> scanText True (ws @ CHR 0x22 # rest) = scanText False rest \<and> utf8_valid ws"
proof (induction rule: units.induct)
  case units_Nil
  show ?case by (subst scan_string.simps, subst scanText.simps) simp
next
  case (units_Cons w u ws us)
  from units_Cons(1) have "utf8_valid w" "scanText True (w @ zs) = scanText True zs" for zs
    by (simp_all add: unit_ok_def)
  with units_Cons unit_ok_scan [OF units_Cons(1)] show ?case by simp
qed

lemma units_writer:
  assumes "units ws us"
  shows "passes (CHR 0x22 # ws @ [CHR 0x22])"
proof -
  have q: "scanText False (CHR 0x22 # zs) = scanText True zs" for zs by (subst scanText.simps) simp
  have b: "byte (CHR 0x22) < 0x80" by code_simp
  show ?thesis using units_read [OF assms] by (simp add: passes_def q b)
qed

lemma marshal_chars_units: "utf8_valid s \<Longrightarrow> units (marshal_chars s) s"
proof (induction s rule: utf8_induct)
  case Nil
  show ?case by (subst marshal_chars.simps) (simp add: units_Nil)
next
  case (ascii a t)
  have "marshal_chars (a # t) = marshal_rune (byte a) True [a] @ marshal_chars t"
    using ascii(1) by (subst marshal_chars.simps) (simp add: decode_rune_ascii)
  with units_Cons [OF unit_ok_marshal_ascii [OF ascii(1)] ascii(3)] show ?case by simp
next
  case (wide r w u t)
  have "u \<noteq> []" using wide(2,3) by auto
  then have "marshal_chars (u @ t) = marshal_rune r True u @ marshal_chars t"
    using wide by (subst marshal_chars.simps) (simp add: wide(6))
  moreover have "unit_ok (marshal_rune r True u) u"
    by (rule unit_ok_marshal_wide) (use wide in simp_all)
  ultimately show ?case using units_Cons wide(8) by simp
qed

interpretation marshal: string_writer marshal_string
proof
  show "utf8_valid s \<Longrightarrow> \<exists>t. marshal_string s = CHR 0x22 # t \<and> (\<forall>rest. scan_string (t @ rest) = Some (s, rest))" for s
    using units_read [OF marshal_chars_units] by (simp add: marshal_string_def)
  show "utf8_valid s \<Longrightarrow> passes (marshal_string s)" for s
    using units_writer [OF marshal_chars_units] by (simp add: marshal_string_def)
qed

lemma json_decode_marshal: "wf_json v \<Longrightarrow> json_decode (json_marshal v) = Some v"
  unfolding json_marshal_def by (rule marshal.json_decode_write)

lemma json_marshal_text_ok: "wf_json v \<Longrightarrow> validateTextEncoding (json_marshal v) = Inr ()"
  unfolding json_marshal_def by (rule marshal.write_json_text_ok)

end
