(* ===== verification/JCS_Canonical.thy ===== *)
theory JCS_Canonical
  imports Json_Roundtrip
begin

text \<open>
  The canonical form as a normal form.  Reading the text that the canonicalizer writes
  gives back the document with its members sorted and \<open>-0\<close> folded, so canonicalization is
  idempotent, and two documents have the same canonical bytes exactly when they are the
  same up to the order of members.
\<close>

subsection \<open>The canonical string writer\<close>

lemma writeByte_all:
  "\<forall>a. (\<not> byte a < 0x80 \<longrightarrow> writeByte a = [a]) \<and> (byte a < 0x80 \<longrightarrow>
     writeByte a = unicode_u4 (byte a)
   \<or> (writeByte a = [a] \<and> \<not> byte a < 0x20 \<and> a \<noteq> CHR 0x22 \<and> a \<noteq> CHR 0x5C)
   \<or> (case writeByte a of
        [b, e] \<Rightarrow> b = CHR 0x5C \<and> simple_escape e = Some a \<and> byte e < 0x80 | _ \<Rightarrow> False))"
  by code_simp

lemma unit_ok_writeByte:
  assumes "byte a < 0x80"
  shows "unit_ok (writeByte a) [a]"
proof -
  consider "writeByte a = unicode_u4 (byte a)"
    | "writeByte a = [a]" "\<not> byte a < 0x20" "a \<noteq> CHR 0x22" "a \<noteq> CHR 0x5C"
    | e where "writeByte a = [CHR 0x5C, e]" "simple_escape e = Some a" "byte e < 0x80"
    using spec [OF writeByte_all, of a] assms by (auto split: list.splits)
  then show ?thesis
  proof cases
    case 1
    with unit_ok_u4 [of "byte a"] assms encode_rune_byte [OF assms] show ?thesis
      by (simp add: is_surrogate_def in_range_def)
  next
    case 2
    with unit_ok_plain [OF assms] show ?thesis by simp
  next
    case 3
    with unit_ok_escape show ?thesis by simp
  qed
qed

lemma writeByte_units: "utf8_valid s \<Longrightarrow> units (concat (map writeByte s)) s"
proof (induction s rule: utf8_induct)
  case Nil
  show ?case by (simp add: units_Nil)
next
  case (ascii a t)
  with units_Cons [OF unit_ok_writeByte [OF ascii(1)]] show ?case by simp
next
  case (wide r w u t)
  have "concat (map writeByte xs) = xs" if "\<forall>b \<in> set xs. \<not> byte b < 0x80" for xs
    using that spec [OF writeByte_all] by (induction xs) auto
  moreover have "unit_ok u u" by (rule unit_ok_wide) (use wide in auto)
  ultimately show ?case using units_Cons wide(4,8) by simp
qed

interpretation canon: string_writer writeString
proof
  show "utf8_valid s \<Longrightarrow> \<exists>t. writeString s = CHR 0x22 # t \<and> (\<forall>rest. scan_string (t @ rest) = Some (s, rest))" for s
    using units_read [OF writeByte_units] by (simp add: writeString_def)
  show "utf8_valid s \<Longrightarrow> passes (writeString s)" for s
    using units_writer [OF writeByte_units] by (simp add: writeString_def)
qed

subsection \<open>The order of members\<close>

lemma compareUTF16_lex: "compareUTF16 a b < 0 \<longleftrightarrow> lex_less a b"
proof (induction a arbitrary: b)
  case Nil
  then show ?case by (cases b) auto
next
  case (Cons x xs)
  then show ?case by (cases b) auto
qed

interpretation utf16: strict_linear "\<lambda>a b. compareUTF16 a b < 0"
  unfolding compareUTF16_lex by (rule lex.strict_linear_axioms)

definition scalar_value :: "rune \<Rightarrow> bool" where
  "scalar_value r \<longleftrightarrow> 0 \<le> r \<and> r \<le> 0x10FFFF \<and> \<not> is_surrogate r"

lemma utf16_encode_Cons:
  "scalar_value r \<Longrightarrow> utf16_encode (r # rs) =
     (if 0x10000 \<le> r then [0xD800 + (r - 0x10000) div 1024, 0xDC00 + (r - 0x10000) mod 1024] else [r])
     @ utf16_encode rs"
  by (auto simp: utf16_encode_def scalar_value_def is_surrogate_def in_range_def)

lemma utf16_encode_inj:
  "list_all scalar_value rs \<Longrightarrow> list_all scalar_value rs' \<Longrightarrow> utf16_encode rs = utf16_encode rs'
     \<Longrightarrow> rs = rs'"
proof (induction rs arbitrary: rs')
  case Nil
  then show ?case by (cases rs') (auto simp: utf16_encode_Cons utf16_encode_def [of "[]"] split: if_splits)
next
  case (Cons r rs)
  obtain r' rs'' where rs': "rs' = r' # rs''"
    using Cons.prems by (cases rs') (auto simp: utf16_encode_Cons utf16_encode_def [of "[]"] split: if_splits)
  have s: "scalar_value r" "scalar_value r'" using Cons.prems rs' by auto
  have b: "0x10000 \<le> q \<Longrightarrow> scalar_value q \<Longrightarrow> 0 \<le> (q - 0x10000) div 1024 \<and> (q - 0x10000) div 1024 \<le> 1023" for q
    by (auto simp: scalar_value_def)
  have n: "\<not> (0xD800 \<le> q \<and> q \<le> 0xDBFF)" if "scalar_value q" for q
    using that by (auto simp: scalar_value_def is_surrogate_def in_range_def)
  have "r = r' \<and> utf16_encode rs = utf16_encode rs''"
  proof (cases "0x10000 \<le> r"; cases "0x10000 \<le> r'")
    assume h: "0x10000 \<le> r" "0x10000 \<le> r'"
    have "[0xD800 + (r - 0x10000) div 1024, 0xDC00 + (r - 0x10000) mod 1024] @ utf16_encode rs
        = [0xD800 + (r' - 0x10000) div 1024, 0xDC00 + (r' - 0x10000) mod 1024] @ utf16_encode rs''"
      using Cons.prems(3) h unfolding rs' utf16_encode_Cons [OF s(1)] utf16_encode_Cons [OF s(2)]
      by (simp only: if_True)
    then have e: "0xD800 + (r - 0x10000) div 1024 = 0xD800 + (r' - 0x10000) div 1024"
      "0xDC00 + (r - 0x10000) mod 1024 = 0xDC00 + (r' - 0x10000) mod 1024"
      "utf16_encode rs = utf16_encode rs''"
      by (simp_all only: append.simps list.inject)
    have "r - 0x10000 = r' - 0x10000"
      using div_mult_mod_eq [of "r - 0x10000" 1024] div_mult_mod_eq [of "r' - 0x10000" 1024]
        add_left_imp_eq [OF e(1)] add_left_imp_eq [OF e(2)] by metis
    with e(3) show ?thesis by simp
  next
    assume "0x10000 \<le> r" "\<not> 0x10000 \<le> r'"
    with Cons.prems(3) s rs' have "0xD800 + (r - 0x10000) div 1024 = r'" by (simp add: utf16_encode_Cons)
    with b [of r] n [of r'] s \<open>0x10000 \<le> r\<close> show ?thesis by auto
  next
    assume "\<not> 0x10000 \<le> r" "0x10000 \<le> r'"
    with Cons.prems(3) s rs' have "r = 0xD800 + (r' - 0x10000) div 1024" by (simp add: utf16_encode_Cons)
    with b [of r'] n [of r] s \<open>0x10000 \<le> r'\<close> show ?thesis by auto
  qed (use Cons.prems(3) s rs' in \<open>simp add: utf16_encode_Cons\<close>)
  with Cons rs' show ?case by simp
qed

lemma runes_Nil [simp]: "runes [] = []"
  by (subst runes.simps) simp

lemma runes_ascii: "byte a < 0x80 \<Longrightarrow> runes (a # t) = byte a # runes t"
  by (subst runes.simps) (simp add: decode_rune_ascii)

lemma runes_of_valid:
  "utf8_valid s \<Longrightarrow> concat (map encode_rune (runes s)) = s \<and> list_all scalar_value (runes s)"
proof (induction s rule: utf8_induct)
  case (ascii a t)
  then show ?case
    by (simp add: runes_ascii encode_rune_byte scalar_value_def is_surrogate_def in_range_def)
next
  case (wide r w u t)
  have u: "u \<noteq> []" using wide by auto
  have "runes (u @ t) = r # runes t"
    using wide u by (subst runes.simps) (simp add: wide(6))
  moreover have "scalar_value r"
    using wide(1) u
  proof (cases rule: decode_rune_cases)
    case (three a b c t)
    then show ?thesis by (auto simp: scalar_value_def is_surrogate_def in_range_def split: if_splits)
  next
    case (four a b c d t)
    then show ?thesis by (auto simp: scalar_value_def is_surrogate_def in_range_def split: if_splits)
  qed (auto simp: scalar_value_def is_surrogate_def in_range_def)
  ultimately show ?case using wide by simp
qed simp

lemma key16_inj: "utf8_valid a \<Longrightarrow> utf8_valid b \<Longrightarrow> key16 a = key16 b \<Longrightarrow> a = b"
  unfolding key16_def by (metis runes_of_valid utf16_encode_inj)

definition member_key :: "string \<times> 'v \<Rightarrow> int list" where
  "member_key m = key16 (fst m)"

lemma member_less_eq: "member_less = (\<lambda>x y. compareUTF16 (member_key x) (member_key y) < 0)"
  by (simp add: fun_eq_iff member_less_def member_key_def)

lemma distinct_member_keys:
  assumes "distinct (map fst ms)" and "\<forall>k \<in> fst ` set ms. utf8_valid k"
  shows "distinct (map member_key ms)"
  using assms by (induction ms) (auto simp: member_key_def dest: key16_inj)

lemma sort_members_unique:
  assumes "mset ms = mset ms'" and "distinct (map fst ms)" and "\<forall>k \<in> fst ` set ms. utf8_valid k"
  shows "sort_by member_less ms = sort_by member_less ms'"
  unfolding member_less_eq by (rule utf16.sort_by_unique [OF assms(1) distinct_member_keys [OF assms(2,3)]])

subsection \<open>The normal form of a document and its text\<close>

fun normal :: "json \<Rightarrow> json" where
  "normal (JNum n) = JNum (if n = ''-0'' then ''0'' else n)"
| "normal (JArr vs) = JArr (map normal vs)"
| "normal (JObj ms) = JObj (sort_by member_less (map (\<lambda>(k, v). (k, normal v)) ms))"
| "normal v = v"

abbreviation write_tree :: "json \<Rightarrow> bytes" where
  "write_tree \<equiv> write_json writeString"

text \<open>The documents that have a canonical form: integers only, keys distinct.\<close>

fun canonical_ok :: "json \<Rightarrow> bool" where
  "canonical_ok (JNum n) = is_ok (writeNumber n)"
| "canonical_ok (JArr vs) = (\<forall>v \<in> set vs. canonical_ok v)"
| "canonical_ok (JObj ms) = (distinct (map fst ms) \<and> (\<forall>m \<in> set ms. canonical_ok (snd m)))"
| "canonical_ok v = True"

lemma writeNumber_eq:
  "writeNumber n = Inr w \<longleftrightarrow> is_ok (writeNumber n) \<and> w = (if n = ''-0'' then ''0'' else n)"
  by (auto simp: writeNumber_def)

lemma write_tree_members: "write_tree (JObj ms) = writeMembers (map (\<lambda>(k, v). (k, write_tree v)) ms)"
  by (simp add: writeMembers_def comp_def split_def)

lemma write_members_sorted:
  "map (\<lambda>(k, v). (k, write_tree v)) (sort_by member_less ms)
     = sort_by member_less (map (\<lambda>(k, v). (k, write_tree v)) ms)"
  by (rule sort_by_map [symmetric]) (auto simp: member_less_def)

lemma canon_elems_eq:
  "(\<And>v. v \<in> set vs \<Longrightarrow> canon_tree v = (if canonical_ok v then Some (write_tree (normal v)) else None))
   \<Longrightarrow> canon_elems vs = (if \<forall>v \<in> set vs. canonical_ok v
         then Some (map (\<lambda>v. write_tree (normal v)) vs) else None)"
  by (induction vs) auto

lemma canon_members_eq:
  "(\<And>k v. (k, v) \<in> set ms \<Longrightarrow> canon_tree v = (if canonical_ok v then Some (write_tree (normal v)) else None))
   \<Longrightarrow> canon_members ms = (if \<forall>m \<in> set ms. canonical_ok (snd m)
         then Some (map (\<lambda>(k, v). (k, write_tree (normal v))) ms) else None)"
proof (induction ms)
  case (Cons m ms)
  obtain k v where m: "m = (k, v)" by (cases m)
  have "canon_tree v = (if canonical_ok v then Some (write_tree (normal v)) else None)"
    by (rule Cons.prems [of k]) (simp add: m)
  moreover have "canon_members ms = (if \<forall>m \<in> set ms. canonical_ok (snd m)
         then Some (map (\<lambda>(k, v). (k, write_tree (normal v))) ms) else None)"
    using Cons.prems by (intro Cons.IH) (metis list.set_intros(2))
  ultimately show ?case by (simp add: m)
qed simp

lemma canon_tree_eq:
  "canon_tree v = (if canonical_ok v then Some (write_tree (normal v)) else None)"
proof (induction v rule: json_tree_induct)
  case (JNum n)
  show ?case
  proof (cases "writeNumber n")
    case (Inr w)
    with writeNumber_eq [of n w] show ?thesis by simp
  qed simp
next
  case (JArr vs)
  show ?case using canon_elems_eq [OF JArr] by (simp add: comp_def)
next
  case (JObj ms)
  have "map (\<lambda>(k, v). (k, write_tree v)) (map (\<lambda>(k, v). (k, normal v)) ms)
      = map (\<lambda>(k, v). (k, write_tree (normal v))) ms" by (auto simp: split_def)
  then have "write_tree (normal (JObj ms))
      = writeMembers (sort_by member_less (map (\<lambda>(k, v). (k, write_tree (normal v))) ms))"
    by (simp only: normal.simps write_tree_members write_members_sorted)
  moreover have "canon_members ms = (if \<forall>m \<in> set ms. canonical_ok (snd m)
         then Some (map (\<lambda>(k, v). (k, write_tree (normal v))) ms) else None)"
    by (rule canon_members_eq) (rule JObj)
  ultimately show ?case by auto
qed simp_all

lemma normal_wf: "wf_json v \<Longrightarrow> wf_json (normal v)"
proof (induction v rule: json_tree_induct)
  case (JNum n)
  have "number_ok ''0''" unfolding number_ok_def by code_simp
  with JNum show ?case by auto
qed auto

lemma normal_keys: "map fst (map (\<lambda>(k, v). (k, normal v)) ms) = map fst ms"
  by auto

lemma normal_ok: "canonical_ok v \<Longrightarrow> canonical_ok (normal v)"
proof (induction v rule: json_tree_induct)
  case (JNum n)
  then show ?case by (auto simp: writeNumber_def is_ok_iff split: if_splits)
next
  case (JObj ms)
  have "distinct (map fst (sort_by member_less (map (\<lambda>(k, v). (k, normal v)) ms)))"
    using JObj.prems by (simp only: distinct_map_sort_by normal_keys canonical_ok.simps)
  with JObj show ?case by auto
qed auto

lemma normal_idem: "wf_json v \<Longrightarrow> canonical_ok v \<Longrightarrow> normal (normal v) = normal v"
proof (induction v rule: json_tree_induct)
  case (JObj ms)
  let ?ns = "map (\<lambda>(k, v). (k, normal v)) ms"
  have m: "map (\<lambda>(k, v). (k, normal v)) (sort_by member_less ?ns)
      = sort_by member_less (map (\<lambda>(k, v). (k, normal v)) ?ns)"
    by (rule sort_by_map [symmetric]) (auto simp: member_less_def)
  have n: "map (\<lambda>(k, v). (k, normal v)) ?ns = ?ns"
    using JObj by (auto, metis snd_conv)
  note normal_keys [of ms]
  then have d: "distinct (map fst ?ns)" and u: "\<forall>k \<in> fst ` set ?ns. utf8_valid k"
    using JObj.prems by (metis canonical_ok.simps(3)) (use JObj.prems in force)
  have "distinct (map fst (sort_by member_less ?ns))"
    using d by (simp only: distinct_map_sort_by)
  then have "sort_by member_less (sort_by member_less ?ns) = sort_by member_less ?ns"
    using u by (intro sort_members_unique) simp_all
  then show ?case unfolding normal.simps m n by simp
qed (auto simp: map_idI)

lemma canon_tree_normal:
  assumes "wf_json v" and "canonical_ok v"
  shows "canon_tree (normal v) = Some (write_tree (normal v))"
  using assms by (simp add: canon_tree_eq normal_ok normal_idem)

subsection \<open>Canonicalization as a normal form\<close>

lemma Canonicalize_iff_normal:
  "Canonicalize data = Inr c \<longleftrightarrow>
     validateTextEncoding data = Inr () \<and>
     (\<exists>v. json_decode data = Some v \<and> canonical_ok v \<and> c = write_tree (normal v))"
  by (auto simp: Canonicalize_ok_iff canon_tree_eq)

lemma Canonicalize_decode:
  assumes "Canonicalize data = Inr c"
  shows "\<exists>v. json_decode data = Some v \<and> json_decode c = Some (normal v) \<and> wf_json v \<and> canonical_ok v
     \<and> c = write_tree (normal v)"
proof -
  from assms obtain v where v: "json_decode data = Some v" "canonical_ok v" "c = write_tree (normal v)"
    by (auto simp: Canonicalize_iff_normal)
  with json_decode_wf [OF v(1)] canon.json_decode_write [OF normal_wf] show ?thesis by blast
qed

lemma Canonicalize_fixed:
  assumes "Canonicalize data = Inr c"
  shows "Canonicalize c = Inr c"
proof -
  from Canonicalize_decode [OF assms] obtain v where v: "json_decode c = Some (normal v)"
    "wf_json v" "canonical_ok v" "c = write_tree (normal v)" by blast
  moreover have "validateTextEncoding c = Inr ()"
    unfolding v(4) by (rule canon.write_json_text_ok) (rule normal_wf [OF v(2)])
  ultimately show ?thesis unfolding Canonicalize_iff_normal
    using normal_ok normal_idem by metis
qed

lemma member_order_normal:
  assumes "mset ms = mset ms'" and "wf_json (JObj ms)" and "canonical_ok (JObj ms)"
  shows "normal (JObj ms) = normal (JObj ms') \<and> canonical_ok (JObj ms')"
proof
  let ?f = "\<lambda>(k, v). (k, normal v)"
  have "distinct (map fst (map ?f ms))" using assms(3) by (simp only: normal_keys canonical_ok.simps)
  moreover have "\<forall>k \<in> fst ` set (map ?f ms). utf8_valid k" using assms(2) by force
  moreover have "mset (map ?f ms) = mset (map ?f ms')" using assms(1) by simp
  ultimately have "sort_by member_less (map ?f ms) = sort_by member_less (map ?f ms')"
    by (intro sort_members_unique)
  then show "normal (JObj ms) = normal (JObj ms')" by (simp only: normal.simps)
  have "set ms = set ms'" using assms(1) by (rule mset_eq_setD)
  moreover have "distinct (map fst ms) = distinct (map fst ms')"
    using assms(1) by (intro mset_eq_imp_distinct_iff) simp
  ultimately show "canonical_ok (JObj ms')" using assms(3) by simp
qed

lemma stream_mono:
  "canonicalizeValue n d out = Some r \<Longrightarrow> canonicalizeValue (Suc n) d out = Some r"
  "canonicalizeToken n d t out = Some r \<Longrightarrow> canonicalizeToken (Suc n) d t out = Some r"
  "canonicalizeObject n d mem seen out = Some r \<Longrightarrow> canonicalizeObject (Suc n) d mem seen out = Some r"
  "canonicalizeArray n d first out = Some r \<Longrightarrow> canonicalizeArray (Suc n) d first out = Some r"
proof (induction n arbitrary: d t mem seen first out r)
  case (Suc n)
  {
    case 1
    then show ?case using Suc.IH(2)
      by (subst canonicalizeValue.simps) (auto simp del: canonicalizeToken.simps split: sum.splits)
  next
    case 2
    then show ?case using Suc.IH(3,4)
      by (subst canonicalizeToken.simps)
        (auto simp del: canonicalizeObject.simps canonicalizeArray.simps split: tok.splits)
  next
    case 3
    show ?case
    proof (cases "dec_more d")
      case True
      show ?thesis
      proof (cases "\<exists>key d1. dec_token d = Inr (TStr key, d1) \<and> key \<notin> seen")
        case k: True
        then obtain key d1 where k: "dec_token d = Inr (TStr key, d1)" "key \<notin> seen" by blast
        with 3 True obtain q where q: "canonicalizeValue n d1 [] = Some q"
          by (auto split: option.splits)
        note q' = Suc.IH(1) [OF q]
        have e: "(case q of Inl e \<Rightarrow> Some (Inl e) | Inr (d2, val) \<Rightarrow>
            canonicalizeObject n d2 (mem @ [(key, val)]) (insert key seen) out) = Some r"
          using 3 True k q by simp
        have "canonicalizeObject (Suc (Suc n)) d mem seen out = (case q of Inl e \<Rightarrow> Some (Inl e)
           | Inr (d2, val) \<Rightarrow> canonicalizeObject (Suc n) d2 (mem @ [(key, val)]) (insert key seen) out)"
          using True k q' by (subst canonicalizeObject.simps(2))
            (simp del: canonicalizeObject.simps(2) canonicalizeValue.simps(2))
        then show ?thesis using e Suc.IH(3)
          by (cases q) (auto simp del: canonicalizeObject.simps(2))
      next
        case False
        with 3 True show ?thesis
          by (subst canonicalizeObject.simps)
            (auto simp del: canonicalizeValue.simps(2) split: sum.splits tok.splits)
      qed
    next
      case False
      with 3 show ?thesis by simp
    qed
  next
    case 4
    show ?case
    proof (cases "dec_more d")
      case True
      with 4 obtain q where q: "canonicalizeValue n d (if first then out else out @ '','') = Some q"
        by (auto split: option.splits)
      note q' = Suc.IH(1) [OF q]
      have e: "(case q of Inl e \<Rightarrow> Some (Inl e) | Inr (d1, out1) \<Rightarrow> canonicalizeArray n d1 False out1) = Some r"
        using 4 True q by simp
      have "canonicalizeArray (Suc (Suc n)) d first out = (case q of Inl e \<Rightarrow> Some (Inl e)
         | Inr (d1, out1) \<Rightarrow> canonicalizeArray (Suc n) d1 False out1)"
        using True q' by (subst canonicalizeArray.simps(2))
          (simp del: canonicalizeArray.simps(2) canonicalizeValue.simps(2))
      then show ?thesis using e Suc.IH(4)
        by (cases q) (auto simp del: canonicalizeArray.simps(2))
    next
      case False
      with 4 show ?thesis by simp
    qed
  }
qed simp_all

lemma stream_mono_add:
  "canonicalizeValue n d out = Some r \<Longrightarrow> canonicalizeValue (n + k) d out = Some r"
  by (induction k) (auto simp del: canonicalizeValue.simps(2) intro: stream_mono(1))

lemma CanonicalizeValue_eq:
  assumes "wf_json v"
  shows "CanonicalizeValue v = Inr c \<longleftrightarrow> canonical_ok v \<and> c = write_tree (normal v)"
  using json_marshal_text_ok [OF assms] json_decode_marshal [OF assms]
  by (auto simp: CanonicalizeValue_def Canonicalize_iff_normal)

lemma CanonicalizeValue_decode:
  assumes "wf_json v" and "CanonicalizeValue v = Inr c"
  shows "json_decode c = Some (normal v)"
  using assms canon.json_decode_write [OF normal_wf [OF assms(1)]] by (simp add: CanonicalizeValue_eq)

subsection \<open>Properties\<close>

text \<open>C31: The streaming canonicalizer computes the canonical form of the decoded document:
  it succeeds exactly on a document whose text passes the encoding checks, whose numbers
  are integers and whose objects have distinct keys, and then returns the text of the
  document with the members of every object in UTF-16 order and \<open>-0\<close> folded.\<close>

theorem Canonicalize_refines_normal_form:
  "Canonicalize data = Inr c \<longleftrightarrow>
     validateTextEncoding data = Inr () \<and>
     (\<exists>v. json_decode data = Some v \<and> canonical_ok v \<and> c = write_tree (normal v))"
  by (rule Canonicalize_iff_normal)

text \<open>Canonicalization is idempotent, so a signed object whose bytes are compared with
  their own canonical form is accepted exactly when it was canonical to begin with.\<close>

theorem Canonicalize_idempotent:
  assumes "Canonicalize data = Inr c"
  shows "Canonicalize c = Inr c"
  using assms by (rule Canonicalize_fixed)

theorem Canonicalize_idempotent_witness:
  "Canonicalize ''{ \"b\" :[1,-0], \"a\":true}'' = Inr ''{\"a\":true,\"b\":[1,0]}''
   \<and> Canonicalize ''{\"a\":true,\"b\":[1,0]}'' = Inr ''{\"a\":true,\"b\":[1,0]}''"
proof -
  have h: "Canonicalize ''{ \"b\" :[1,-0], \"a\":true}'' = Inr ''{\"a\":true,\"b\":[1,0]}''" by code_simp
  show ?thesis using h Canonicalize_idempotent [OF h] by simp
qed

text \<open>No canonicalization collisions: two documents have the same canonical bytes, and
  so one signature and one CID, only when they decode to the same document up to the
  order of members and the spelling of zero.\<close>

theorem Canonicalize_collision_free:
  assumes "Canonicalize a = Inr c" and "Canonicalize b = Inr c"
  shows "\<exists>v w. json_decode a = Some v \<and> json_decode b = Some w \<and> normal v = normal w"
  using Canonicalize_decode [OF assms(1)] Canonicalize_decode [OF assms(2)] by auto

theorem Canonicalize_collision_free_witness:
  "\<exists>v w. json_decode ''{\"b\":-0,\"a\":1}'' = Some v \<and> json_decode ''{\"a\":1, \"b\":0}'' = Some w
     \<and> normal v = normal w"
proof (rule Canonicalize_collision_free)
  show "Canonicalize ''{\"b\":-0,\"a\":1}'' = Inr ''{\"a\":1,\"b\":0}''" by code_simp
  show "Canonicalize ''{\"a\":1, \"b\":0}'' = Inr ''{\"a\":1,\"b\":0}''" by code_simp
qed

text \<open>The order in which an object's members are written does not matter: a document
  with the same members in another order has the same canonical form.\<close>

theorem Canonicalize_member_order:
  assumes "Canonicalize a = Inr c" and "json_decode a = Some (JObj ms)"
    and "json_decode b = Some (JObj ms')" and "mset ms = mset ms'"
    and "validateTextEncoding b = Inr ()"
  shows "Canonicalize b = Inr c"
proof -
  from assms(1,2) have "canonical_ok (JObj ms)" "c = write_tree (normal (JObj ms))"
    by (auto simp: Canonicalize_iff_normal)
  with member_order_normal [OF assms(4) json_decode_wf [OF assms(2)]] assms(3,5) show ?thesis
    by (simp add: Canonicalize_iff_normal)
qed

theorem Canonicalize_member_order_witness:
  "Canonicalize ''{\"a\":1,\"b\":[]}'' = Inr ''{\"a\":1,\"b\":[]}''"
proof (rule Canonicalize_member_order)
  show "Canonicalize ''{\"b\":[],\"a\":1}'' = Inr ''{\"a\":1,\"b\":[]}''" by code_simp
  show "json_decode ''{\"b\":[],\"a\":1}'' = Some (JObj [(''b'', JArr []), (''a'', JNum ''1'')])" by code_simp
  show "json_decode ''{\"a\":1,\"b\":[]}'' = Some (JObj [(''a'', JNum ''1''), (''b'', JArr [])])" by code_simp
  show "mset [(''b'', JArr []), (''a'', JNum ''1'')] = mset [(''a'', JNum ''1''), (''b'', JArr [])]" by simp
  show "validateTextEncoding ''{\"a\":1,\"b\":[]}'' = Inr ()" by code_simp
qed

text \<open>C32: The recursion of the canonicalizer always ends: on every input the fuel that
  \<open>Canonicalize\<close> supplies is enough, and more fuel does not change the outcome.\<close>

theorem canonicalizeValue_terminates:
  "canonicalizeValue (value_fuel data) (new_decoder data) out \<noteq> None
   \<and> canonicalizeValue (value_fuel data + k) (new_decoder data) out
     = canonicalizeValue (value_fuel data) (new_decoder data) out"
proof -
  have "canonicalizeValue (value_fuel data) (new_decoder data) out \<noteq> None"
    by (rule stream_total(1)) (simp add: value_fuel_def new_decoder_def)
  then show ?thesis using stream_mono_add by fastforce
qed

end
