(* ===== verification/Base64.thy ===== *)
theory Base64
  imports Go_Text
begin

text \<open>
  \<open>base64.RawURLEncoding\<close>: the URL-safe alphabet without padding.  As the Go documentation
  says of \<open>DecodeString\<close>, carriage returns and newlines in the input are ignored, and
  trailing padding bits are not checked (the encoding is not \<open>Strict\<close>), so decoding is a
  left inverse of encoding but not injective.
\<close>

definition b64_alphabet :: string where
  "b64_alphabet = ''ABCDEFGHIJKLMNOPQRSTUVWXYZabcdefghijklmnopqrstuvwxyz0123456789-_''"

definition b64_char :: "int \<Rightarrow> char" where
  "b64_char d = b64_alphabet ! nat d"

definition b64_val :: "char \<Rightarrow> int option" where
  "b64_val c = map_option int (index_byte b64_alphabet c)"

fun b64_encode :: "bytes \<Rightarrow> string" where
  "b64_encode [] = []"
| "b64_encode [a] = [b64_char (byte a div 4), b64_char (byte a mod 4 * 16)]"
| "b64_encode [a, b] =
     [b64_char (byte a div 4), b64_char (byte a mod 4 * 16 + byte b div 16),
      b64_char (byte b mod 16 * 4)]"
| "b64_encode (a # b # c # r) =
     [b64_char (byte a div 4), b64_char (byte a mod 4 * 16 + byte b div 16),
      b64_char (byte b mod 16 * 4 + byte c div 64), b64_char (byte c mod 64)] @ b64_encode r"

definition quantum :: "int \<Rightarrow> int \<Rightarrow> int \<Rightarrow> int \<Rightarrow> bytes" where
  "quantum w x y z =
     [char_of (w * 4 + x div 16), char_of (x mod 16 * 16 + y div 4), char_of (y mod 4 * 64 + z)]"

fun b64_groups :: "string \<Rightarrow> bytes option" where
  "b64_groups [] = Some []"
| "b64_groups [a] = None"
| "b64_groups [a, b] =
     (case (b64_val a, b64_val b) of
        (Some w, Some x) \<Rightarrow> Some (take 1 (quantum w x 0 0)) | _ \<Rightarrow> None)"
| "b64_groups [a, b, c] =
     (case (b64_val a, b64_val b, b64_val c) of
        (Some w, Some x, Some y) \<Rightarrow> Some (take 2 (quantum w x y 0)) | _ \<Rightarrow> None)"
| "b64_groups (a # b # c # d # r) =
     (case (b64_val a, b64_val b, b64_val c, b64_val d) of
        (Some w, Some x, Some y, Some z) \<Rightarrow> map_option ((@) (quantum w x y z)) (b64_groups r)
      | _ \<Rightarrow> None)"

definition is_newline :: "char \<Rightarrow> bool" where
  "is_newline c \<longleftrightarrow> c = CHR 0x0A \<or> c = CHR 0x0D"

definition b64_decode :: "string \<Rightarrow> bytes option" where
  "b64_decode s = b64_groups (filter (\<lambda>c. \<not> is_newline c) s)"

lemma b64_char_all:
  "list_all (\<lambda>d. b64_val (b64_char d) = Some d \<and> \<not> is_newline (b64_char d) \<and> b64_char d \<noteq> CHR ''.''
     \<and> byte (b64_char d) < 0x80) [0..63]"
  by code_simp

lemma b64_char_props:
  assumes "0 \<le> d" and "d < 64"
  shows "b64_val (b64_char d) = Some d" "\<not> is_newline (b64_char d)" "b64_char d \<noteq> CHR ''.''"
    "byte (b64_char d) < 0x80"
  using b64_char_all assms by (simp_all add: list_all_iff)

lemma div_ranges:
  "0 \<le> n \<Longrightarrow> n < 256 \<Longrightarrow> 0 \<le> n div 16 \<and> n div 16 < 16 \<and> 0 \<le> n div 64 \<and> n div 64 < 4
     \<and> 0 \<le> n div 4 \<and> n div 4 < (64::int)"
  by auto

lemma byte_div:
  "0 \<le> byte x div 16" "byte x div 16 < 16" "0 \<le> byte x div 64" "byte x div 64 < 4"
  "0 \<le> byte x div 4" "byte x div 4 < 64"
  using div_ranges [of "byte x"] by simp_all

lemma digit_ranges:
  "0 \<le> p \<Longrightarrow> p < 4 \<Longrightarrow> 0 \<le> q \<Longrightarrow> q < 16 \<Longrightarrow> 0 \<le> p * 16 + q \<and> p * 16 + q < (64::int)"
  "0 \<le> q \<Longrightarrow> q < 16 \<Longrightarrow> 0 \<le> p \<Longrightarrow> p < 4 \<Longrightarrow> 0 \<le> q * 4 + p \<and> q * 4 + p < (64::int)"
  "0 \<le> p \<Longrightarrow> p < 4 \<Longrightarrow> 0 \<le> p * 16 \<and> p * 16 < (64::int)"
  "0 \<le> q \<Longrightarrow> q < 16 \<Longrightarrow> 0 \<le> q * 4 \<and> q * 4 < (64::int)"
  by simp_all

lemma byte_mod:
  "0 \<le> byte x mod 4" "byte x mod 4 < 4" "0 \<le> byte x mod 16" "byte x mod 16 < 16"
  "0 \<le> byte x mod 64" "byte x mod 64 < 64"
  by (rule pos_mod_sign pos_mod_bound; simp)+

lemma b64_range:
  "0 \<le> byte a div 4 \<and> byte a div 4 < 64" "0 \<le> byte a mod 4 * 16 \<and> byte a mod 4 * 16 < 64"
  "0 \<le> byte a mod 4 * 16 + byte b div 16 \<and> byte a mod 4 * 16 + byte b div 16 < 64"
  "0 \<le> byte b mod 16 * 4 \<and> byte b mod 16 * 4 < 64"
  "0 \<le> byte b mod 16 * 4 + byte c div 64 \<and> byte b mod 16 * 4 + byte c div 64 < 64"
  "0 \<le> byte c mod 64 \<and> byte c mod 64 < 64"
  by (rule conjI digit_ranges byte_div byte_mod)+

lemma b64_encode_chars: "c \<in> set (b64_encode s) \<Longrightarrow> \<not> is_newline c \<and> c \<noteq> CHR ''.'' \<and> byte c < 0x80"
  by (induction s rule: b64_encode.induct) (auto simp: b64_char_props b64_range)

lemma quantum_bytes:
  "quantum (byte a div 4) (byte a mod 4 * 16 + byte b div 16) (byte b mod 16 * 4 + byte c div 64) (byte c mod 64)
     = [a, b, c]"
proof -
  note b = byte_div
  have "(byte a mod 4 * 16 + byte b div 16) div 16 = byte a mod 4"
    "(byte a mod 4 * 16 + byte b div 16) mod 16 = byte b div 16"
    "(byte b mod 16 * 4 + byte c div 64) div 4 = byte b mod 16"
    "(byte b mod 16 * 4 + byte c div 64) mod 4 = byte c div 64"
    using b by simp_all
  moreover have "byte x div k * k + byte x mod k = byte x" for x k by simp
  ultimately show ?thesis unfolding quantum_def by (simp only: char_of_byte)
qed

lemma quantum_short:
  "take 1 (quantum (byte a div 4) (byte a mod 4 * 16) 0 0) = [a]"
  "take 2 (quantum (byte a div 4) (byte a mod 4 * 16 + byte b div 16) (byte b mod 16 * 4) 0) = [a, b]"
proof -
  note b = byte_div
  have "(byte a mod 4 * 16 + byte b div 16) div 16 = byte a mod 4"
    "(byte a mod 4 * 16 + byte b div 16) mod 16 = byte b div 16" using b by simp_all
  then show "take 1 (quantum (byte a div 4) (byte a mod 4 * 16) 0 0) = [a]"
    "take 2 (quantum (byte a div 4) (byte a mod 4 * 16 + byte b div 16) (byte b mod 16 * 4) 0) = [a, b]"
    by (simp_all add: quantum_def)
qed

lemma b64_groups_encode: "b64_groups (b64_encode s) = Some s"
proof (induction s rule: b64_encode.induct)
  case (2 a)
  show ?case using quantum_short(1) [of a] by (simp add: b64_char_props b64_range)
next
  case (3 a b)
  show ?case using quantum_short(2) [of a b] by (simp add: b64_char_props b64_range)
next
  case (4 a b c r)
  then show ?case using quantum_bytes [of a b c] by (simp add: b64_char_props b64_range)
qed simp

theorem b64_decode_encode [simp]: "b64_decode (b64_encode s) = Some s"
proof -
  have "filter (\<lambda>c. \<not> is_newline c) (b64_encode s) = b64_encode s"
    using b64_encode_chars by (induction "b64_encode s") (auto simp: filter_id_conv)
  then show ?thesis by (simp add: b64_decode_def b64_groups_encode)
qed

lemma b64_decode_newline: "is_newline c \<Longrightarrow> b64_decode (s @ [c]) = b64_decode s"
  by (simp add: b64_decode_def)

end
