(* ===== verification/Signing.thy ===== *)
theory Signing
  imports JCS_Canonical Base64
begin

text \<open>
  \<open>internal/signing/sign.go\<close>: the SD-2 signing input, signing and verification.  An
  in-memory Go value is the \<open>json\<close> tree that \<open>json.Marshal\<close> encodes it as.

  The Ed25519 and SHA-256 primitives are a parameter, a record of functions.  What the
  source relies on is the named hypothesis \<open>ed25519_ok\<close>: keys and signatures have their
  documented sizes and a signature made with a private key verifies under its public key.
  Nothing is assumed about forgeries or collisions unless a statement says so.
\<close>

record crypto =
  ed_sign :: "bytes \<Rightarrow> bytes \<Rightarrow> bytes"
  ed_verify :: "bytes \<Rightarrow> bytes \<Rightarrow> bytes \<Rightarrow> bool"
  ed_public :: "bytes \<Rightarrow> bytes"
  sha256 :: "bytes \<Rightarrow> bytes"

definition PrivateKeySize :: nat where "PrivateKeySize = 64"
definition PublicKeySize :: nat where "PublicKeySize = 32"
definition SignatureSize :: nat where "SignatureSize = 64"

definition ed25519_ok :: "crypto \<Rightarrow> bool" where
  "ed25519_ok C \<longleftrightarrow> (\<forall>priv msg. length priv = PrivateKeySize \<longrightarrow>
     length (ed_public C priv) = PublicKeySize \<and> length (ed_sign C priv msg) = SignatureSize
     \<and> ed_verify C (ed_public C priv) msg (ed_sign C priv msg))"

definition sha256_ok :: "crypto \<Rightarrow> bool" where
  "sha256_ok C \<longleftrightarrow> (\<forall>d. length (sha256 C d) = 32)"

text \<open>A concrete instance, for evaluating statements on concrete inputs: the public key is
  the first half of the private key and a signature is the private key.\<close>

definition demo_crypto :: crypto where
  "demo_crypto =
     \<lparr>ed_sign = (\<lambda>priv msg. priv),
      ed_verify = (\<lambda>pub msg sig. take 32 sig = pub),
      ed_public = take 32,
      sha256 = (\<lambda>d. take 32 (drop (length d - 32) d @ replicate 32 (CHR 0x00)))\<rparr>"

lemma demo_crypto_ok: "ed25519_ok demo_crypto" "sha256_ok demo_crypto"
  by (simp_all add: ed25519_ok_def sha256_ok_def demo_crypto_def PrivateKeySize_def
      PublicKeySize_def SignatureSize_def)

subsection \<open>Go maps of raw messages\<close>

text \<open>\<open>json.Unmarshal\<close> into \<open>map[string]json.RawMessage\<close>: the last of several members of one
  name wins, \<open>null\<close> gives the nil map (which encodes as \<open>null\<close> again).  \<open>json.Marshal\<close>
  writes the keys in byte order.\<close>

fun last_wins :: "(string \<times> 'v) list \<Rightarrow> (string \<times> 'v) list" where
  "last_wins [] = []"
| "last_wins ((k, v) # ms) = (if k \<in> fst ` set ms then last_wins ms else (k, v) # last_wins ms)"

definition unmarshal_map :: "bytes \<Rightarrow> json option" where
  "unmarshal_map s =
     (case json_decode s of
        Some (JObj ms) \<Rightarrow> Some (JObj (last_wins ms))
      | Some JNull \<Rightarrow> Some JNull
      | _ \<Rightarrow> None)"

fun map_delete :: "string \<Rightarrow> json \<Rightarrow> json" where
  "map_delete k (JObj ms) = JObj (filter (\<lambda>m. fst m \<noteq> k) ms)"
| "map_delete k v = v"

definition key_bytes_less :: "string \<times> 'v \<Rightarrow> string \<times> 'v \<Rightarrow> bool" where
  "key_bytes_less x y \<longleftrightarrow> lex_less (map byte (fst x)) (map byte (fst y))"

fun marshal_map :: "json \<Rightarrow> bytes" where
  "marshal_map (JObj ms) = json_marshal (JObj (sort_by key_bytes_less ms))"
| "marshal_map v = json_marshal v"

subsection \<open>Signing input, signing, verification\<close>

definition DomainPrefix :: string where "DomainPrefix = ''AITP1''"

definition sigField :: string where "sigField = ''sig''"

definition SignatureInput :: "json \<Rightarrow> sign_error + bytes" where
  "SignatureInput obj =
     (case unmarshal_map (json_marshal obj) of
        None \<Rightarrow> Inl ErrNotObject
      | Some present \<Rightarrow>
          bindE (Canonicalize (marshal_map (map_delete sigField present))) (\<lambda>canon.
            Inr (DomainPrefix @ [CHR 0x00] @ canon)))"

definition Sign :: "crypto \<Rightarrow> json \<Rightarrow> bytes \<Rightarrow> sign_error + bytes" where
  "Sign C obj priv =
     (if length priv \<noteq> PrivateKeySize then Inl ErrInvalidPrivateKey
      else bindE (SignatureInput obj) (\<lambda>input. Inr (ed_sign C priv input)))"

definition Verify :: "crypto \<Rightarrow> json \<Rightarrow> bytes \<Rightarrow> bytes \<Rightarrow> sign_error + unit" where
  "Verify C obj sig pub =
     (if length pub \<noteq> PublicKeySize then Inl ErrInvalidPublicKey
      else if length sig \<noteq> SignatureSize then Inl ErrInvalidSignature
      else bindE (SignatureInput obj) (\<lambda>input.
        if \<not> ed_verify C pub input sig then Inl ErrVerification else Inr ()))"

definition EncodeSignature :: "bytes \<Rightarrow> string" where
  "EncodeSignature sig = b64_encode sig"

definition DecodeSignature :: "string \<Rightarrow> sign_error + bytes" where
  "DecodeSignature s =
     (case b64_decode s of None \<Rightarrow> Inl ErrInvalidSignature | Some b \<Rightarrow> Inr b)"

subsection \<open>Lemmas\<close>

lemma last_wins_distinct: "distinct (map fst ms) \<Longrightarrow> last_wins ms = ms"
  by (induction ms rule: last_wins.induct) auto

interpretation lex_bytes: strict_linear "\<lambda>a b. lex_less (map byte a) (map byte b)"
proof
  have inj: "map byte a = map byte b \<longleftrightarrow> a = b" for a b
    by (rule inj_map_eq_map) (simp add: inj_def)
  show "\<not> lex_less (map byte a) (map byte a)" for a by (rule lex_less_irrefl)
  show "lex_less (map byte a) (map byte b) \<Longrightarrow> lex_less (map byte b) (map byte c)
     \<Longrightarrow> lex_less (map byte a) (map byte c)" for a b c by (rule lex_less_trans)
  show "a \<noteq> b \<Longrightarrow> lex_less (map byte a) (map byte b) \<or> lex_less (map byte b) (map byte a)" for a b
    using lex_less_total inj by blast
qed

definition without_sig :: "(string \<times> json) list \<Rightarrow> json" where
  "without_sig ms = JObj (filter (\<lambda>m. fst m \<noteq> sigField) ms)"

lemma without_sig_wf: "wf_json (JObj ms) \<Longrightarrow> wf_json (without_sig ms)"
  by (simp add: without_sig_def)

lemma SignatureInput_unfold:
  assumes "wf_json (JObj ms)" and "distinct (map fst ms)"
  shows "SignatureInput (JObj ms) = bindE (Canonicalize (marshal_map (without_sig ms)))
     (\<lambda>canon. Inr (DomainPrefix @ [CHR 0x00] @ canon))"
  using json_decode_marshal [OF assms(1)] assms(2)
  by (simp add: SignatureInput_def unmarshal_map_def last_wins_distinct without_sig_def)

lemma SignatureInput_obj:
  assumes "wf_json (JObj ms)" and "distinct (map fst ms)"
  shows "SignatureInput (JObj ms) = Inr i \<longleftrightarrow>
     canonical_ok (without_sig ms) \<and> i = DomainPrefix @ [CHR 0x00] @ write_tree (normal (without_sig ms))"
proof -
  let ?fs = "filter (\<lambda>m. fst m \<noteq> sigField) ms"
  let ?ss = "sort_by key_bytes_less ?fs"
  have wf: "wf_json (JObj ?fs)" using assms(1) by simp
  then have wfs: "wf_json (JObj ?ss)" by auto
  have ms: "mset ?ss = mset ?fs" by simp
  have "CanonicalizeValue (JObj ?ss) = Inr c
      \<longleftrightarrow> canonical_ok (without_sig ms) \<and> c = write_tree (normal (without_sig ms))" for c
    unfolding CanonicalizeValue_eq [OF wfs] without_sig_def
    using member_order_normal [OF ms wfs] member_order_normal [OF ms [symmetric] wf] by auto
  then show ?thesis unfolding SignatureInput_unfold [OF assms]
    by (auto simp: without_sig_def CanonicalizeValue_def err_simps)
qed

lemma SignatureInput_not_obj: "SignatureInput (JArr vs) = Inl ErrNotObject" if "wf_json (JArr vs)"
  using json_decode_marshal [OF that] by (simp add: SignatureInput_def unmarshal_map_def)

lemma Verify_ok_iff:
  "Verify C obj sig pub = Inr () \<longleftrightarrow> length pub = PublicKeySize \<and> length sig = SignatureSize
     \<and> (\<exists>i. SignatureInput obj = Inr i \<and> ed_verify C pub i sig)"
  by (auto simp: Verify_def err_simps split: if_splits)

lemma DecodeSignature_Encode [simp]: "DecodeSignature (EncodeSignature sig) = Inr sig"
  by (simp add: DecodeSignature_def EncodeSignature_def)

lemma without_sig_input:
  assumes "wf_json (JObj ms)" and "distinct (map fst ms)"
    and "utf8_valid s" and "\<forall>m \<in> set ms. fst m \<noteq> sigField"
  shows "SignatureInput (JObj (ms @ [(sigField, JStr s)])) = SignatureInput (JObj ms)"
proof -
  have wf: "wf_json (JObj (ms @ [(sigField, JStr s)]))"
    using assms(1,3) by (auto simp: sigField_def byte_def)
  have d: "distinct (map fst (ms @ [(sigField, JStr s)]))" using assms(2,4) by auto
  have u: "without_sig (ms @ [(sigField, JStr s)]) = without_sig ms" by (simp add: without_sig_def)
  show ?thesis unfolding SignatureInput_unfold [OF wf d] SignatureInput_unfold [OF assms(1,2)] u ..
qed

lemma ed25519_verifies:
  "ed25519_ok C \<Longrightarrow> length priv = PrivateKeySize \<Longrightarrow> length (ed_public C priv) = PublicKeySize
     \<and> length (ed_sign C priv m) = SignatureSize \<and> ed_verify C (ed_public C priv) m (ed_sign C priv m)"
  by (simp add: ed25519_ok_def)

lemma utf8_EncodeSignature [simp]: "utf8_valid (EncodeSignature s)"
proof -
  have "utf8_valid (EncodeSignature s @ [])"
    unfolding EncodeSignature_def by (subst utf8_valid_ascii) (auto dest: b64_encode_chars)
  then show ?thesis by simp
qed

subsection \<open>Properties\<close>

text \<open>The signing input does not depend on the \<open>sig\<close> member: signing before the
  signature is attached and verifying after it is attached run over the same bytes.\<close>

theorem SignatureInput_ignores_sig:
  assumes "wf_json (JObj ms)" and "distinct (map fst ms)"
    and "utf8_valid s" and "\<forall>m \<in> set ms. fst m \<noteq> sigField"
  shows "SignatureInput (JObj (ms @ [(sigField, JStr s)])) = SignatureInput (JObj ms)"
  using assms by (rule without_sig_input)

theorem SignatureInput_ignores_sig_witness:
  "SignatureInput (JObj [(''b'', JNum ''2''), (''a'', JBool True), (''sig'', JStr ''abc'')])
     = Inr (''AITP1'' @ [CHR 0x00] @ ''{\"a\":true,\"b\":2}'')"
proof -
  let ?ms = "[(''b'', JNum ''2''), (''a'', JBool True)]"
  have h: "wf_json (JObj ?ms)" "distinct (map fst ?ms)" "utf8_valid ''abc''"
    "\<forall>m \<in> set ?ms. fst m \<noteq> sigField" by code_simp+
  have "SignatureInput (JObj ?ms) = Inr (''AITP1'' @ [CHR 0x00] @ ''{\"a\":true,\"b\":2}'')" by code_simp
  with SignatureInput_ignores_sig [OF h] show ?thesis by (simp add: sigField_def)
qed

text \<open>C33: A signature is bound to content: if two objects have the same signing input, they
  are the same object up to the \<open>sig\<close> member, the order of members and the spelling of zero.\<close>

theorem SignatureInput_binds_content:
  assumes "wf_json (JObj ms)" and "distinct (map fst ms)"
    and "wf_json (JObj ns)" and "distinct (map fst ns)"
    and "SignatureInput (JObj ms) = Inr i" and "SignatureInput (JObj ns) = Inr i"
  shows "normal (without_sig ms) = normal (without_sig ns)"
proof -
  have e: "write_tree (normal (without_sig ms)) = write_tree (normal (without_sig ns))"
    using assms(5,6) SignatureInput_obj [OF assms(1,2)] SignatureInput_obj [OF assms(3,4)] by auto
  have d: "json_decode (write_tree (normal (without_sig xs))) = Some (normal (without_sig xs))"
    if "wf_json (JObj xs)" for xs
    by (intro canon.json_decode_write normal_wf without_sig_wf that)
  show ?thesis using d [OF assms(1)] d [OF assms(3)] unfolding e by (rule option.inject [THEN iffD1, OF trans [OF sym]])
qed

theorem SignatureInput_binds_content_witness:
  "normal (without_sig [(''a'', JNum ''-0''), (''b'', JNull)])
     = normal (without_sig [(''b'', JNull), (''a'', JNum ''0''), (''sig'', JStr ''x'')])"
proof (rule SignatureInput_binds_content)
  let ?i = "''AITP1'' @ [CHR 0x00] @ ''{\"a\":0,\"b\":null}''"
  show "wf_json (JObj [(''a'', JNum ''-0''), (''b'', JNull)])"
    "wf_json (JObj [(''b'', JNull), (''a'', JNum ''0''), (''sig'', JStr ''x'')])"
    "SignatureInput (JObj [(''a'', JNum ''-0''), (''b'', JNull)]) = Inr ?i"
    "SignatureInput (JObj [(''b'', JNull), (''a'', JNum ''0''), (''sig'', JStr ''x'')]) = Inr ?i"
    by code_simp+
qed simp_all

text \<open>Verification accepts what signing produced: the signature of an object, attached as
  base64url text in its \<open>sig\<close> member, verifies against the signer's public key.\<close>

theorem Sign_then_Verify:
  assumes "ed25519_ok C" and "wf_json (JObj ms)" and "distinct (map fst ms)"
    and "\<forall>m \<in> set ms. fst m \<noteq> sigField" and "Sign C (JObj ms) priv = Inr s"
  shows "\<exists>b. DecodeSignature (EncodeSignature s) = Inr b
     \<and> Verify C (JObj (ms @ [(sigField, JStr (EncodeSignature s))])) b (ed_public C priv) = Inr ()"
proof -
  from assms(5) obtain i where i: "length priv = PrivateKeySize" "SignatureInput (JObj ms) = Inr i"
    "s = ed_sign C priv i" by (auto simp: Sign_def err_simps split: if_splits)
  from without_sig_input [OF assms(2,3) utf8_EncodeSignature assms(4)] i(2)
  have "SignatureInput (JObj (ms @ [(sigField, JStr (EncodeSignature s))])) = Inr i" by simp
  moreover have "length (ed_public C priv) = PublicKeySize" "length s = SignatureSize"
    "ed_verify C (ed_public C priv) i s"
    using assms(1) i(1) unfolding ed25519_ok_def i(3) by blast+
  ultimately show ?thesis by (simp add: Verify_ok_iff)
qed

theorem Sign_then_Verify_witness:
  "\<exists>b. DecodeSignature (EncodeSignature (replicate 64 (CHR ''k''))) = Inr b
     \<and> Verify demo_crypto (JObj ([(''a'', JNum ''1'')] @ [(sigField, JStr (EncodeSignature (replicate 64 (CHR ''k''))))]))
         b (ed_public demo_crypto (replicate 64 (CHR ''k''))) = Inr ()"
proof (rule Sign_then_Verify [OF demo_crypto_ok(1)])
  show "wf_json (JObj [(''a'', JNum ''1'')])" by code_simp
  have "SignatureInput (JObj [(''a'', JNum ''1'')]) = Inr (''AITP1'' @ [CHR 0x00] @ ''{\"a\":1}'')" by code_simp
  then show "Sign demo_crypto (JObj [(''a'', JNum ''1'')]) (replicate 64 (CHR ''k'')) = Inr (replicate 64 (CHR ''k''))"
    by (simp add: Sign_def PrivateKeySize_def demo_crypto_def)
qed (simp_all add: sigField_def)

text \<open>The signature text is not unique: \<open>base64.RawURLEncoding\<close> ignores newlines, so a signed
  object with a newline added to its \<open>sig\<close> member still verifies although its bytes differ.\<close>

lemma DecodeSignature_newline: "DecodeSignature (s @ [CHR 0x0A]) = DecodeSignature s"
  by (simp add: DecodeSignature_def b64_decode_newline is_newline_def)

end
