(* ===== verification/CID.thy ===== *)
theory CID
  imports Signing
begin

text \<open>
  \<open>internal/credential/cid.go\<close>: content identifiers (SD-5), CIDv1 with the raw codec and a
  sha2-256 multihash in lower-case unpadded base32.  SHA-256 is the parameter \<^const>\<open>sha256\<close> of
  the crypto record; the source relies on its 32-byte size, and what depends on collision
  resistance says so in a hypothesis.
\<close>

subsection \<open>Base32 (RFC 4648, lower case, no padding)\<close>

definition b32_alphabet :: string where
  "b32_alphabet = ''abcdefghijklmnopqrstuvwxyz234567''"

definition bits8 :: "char \<Rightarrow> bool list" where
  "bits8 c = [digit7 c, digit6 c, digit5 c, digit4 c, digit3 c, digit2 c, digit1 c, digit0 c]"

definition quintet :: "bool \<Rightarrow> bool \<Rightarrow> bool \<Rightarrow> bool \<Rightarrow> bool \<Rightarrow> nat" where
  "quintet a b c d e = 16 * of_bool a + 8 * of_bool b + 4 * of_bool c + 2 * of_bool d + of_bool e"

text \<open>Five bits to a character; the last group is filled up with zero bits.\<close>

fun quintets :: "bool list \<Rightarrow> nat list" where
  "quintets [] = []"
| "quintets [a] = [quintet a False False False False]"
| "quintets [a, b] = [quintet a b False False False]"
| "quintets [a, b, c] = [quintet a b c False False]"
| "quintets [a, b, c, d] = [quintet a b c d False]"
| "quintets (a # b # c # d # e # r) = quintet a b c d e # quintets r"

definition b32_encode :: "bytes \<Rightarrow> string" where
  "b32_encode s = map ((!) b32_alphabet) (quintets (concat (map bits8 s)))"

subsection \<open>Content identifiers\<close>

definition cidHeader :: bytes where
  "cidHeader = [CHR 0x01, CHR 0x55, CHR 0x12, CHR 0x20]"

definition ComputeCID :: "crypto \<Rightarrow> bytes \<Rightarrow> string" where
  "ComputeCID C data = ''b'' @ b32_encode (cidHeader @ sha256 C data)"

definition VerifyCID :: "crypto \<Rightarrow> bytes \<Rightarrow> string \<Rightarrow> bool" where
  "VerifyCID C data cid \<longleftrightarrow> ComputeCID C data = cid"

subsection \<open>Lemmas\<close>

lemma bits8_inj: "bits8 a = bits8 b \<longleftrightarrow> a = b"
  by (auto simp: bits8_def char.expand)

lemma length_bits8 [simp]: "length (bits8 c) = 8"
  by (simp add: bits8_def)

lemma concat_bits8_inj: "length s = length t \<Longrightarrow> concat (map bits8 s) = concat (map bits8 t) \<Longrightarrow> s = t"
proof (induction s arbitrary: t)
  case (Cons a s)
  then show ?case by (cases t) (auto simp: append_eq_append_conv bits8_inj)
qed simp

lemma quintet_inj:
  "quintet a b c d e = quintet a' b' c' d' e' \<longleftrightarrow> a = a' \<and> b = b' \<and> c = c' \<and> d = d' \<and> e = e'"
  by (cases a; cases b; cases c; cases d; cases e; cases a'; cases b'; cases c'; cases d'; cases e';
      simp add: quintet_def)

lemma quintet_less: "quintet a b c d e < 32"
  by (simp add: quintet_def)

lemma quintets_inj: "length ys = length xs \<Longrightarrow> quintets xs = quintets ys \<Longrightarrow> xs = ys"
proof (induction xs arbitrary: ys rule: quintets.induct)
  case (6 a b c d e r)
  then obtain a' b' c' d' e' r' where ys: "ys = a' # b' # c' # d' # e' # r'"
    by (auto simp: length_Suc_conv)
  with 6 show ?case by (auto simp: quintet_inj)
qed (auto simp: length_Suc_conv quintet_inj)

lemma quintets_less: "n \<in> set (quintets xs) \<Longrightarrow> n < 32"
  by (induction xs rule: quintets.induct) (auto simp: quintet_less)

lemma length_quintets: "length (quintets xs) = (length xs + 4) div 5"
  by (induction xs rule: quintets.induct) auto

lemma b32_char_inj:
  assumes "m < 32" and "n < 32" and "b32_alphabet ! m = b32_alphabet ! n"
  shows "m = n"
proof -
  have "distinct b32_alphabet" "length b32_alphabet = 32" by code_simp+
  with assms show ?thesis by (simp add: nth_eq_iff_index_eq)
qed

lemma b32_encode_inj:
  assumes "length s = length t" and "b32_encode s = b32_encode t"
  shows "s = t"
proof -
  have "quintets (concat (map bits8 s)) = quintets (concat (map bits8 t))"
    using assms(2) unfolding b32_encode_def
    by (rule map_inj_on) (auto intro!: inj_onI b32_char_inj dest: quintets_less)
  moreover have "length (concat (map bits8 s)) = length (concat (map bits8 t))"
    using assms(1) by (simp add: length_concat o_def sum_list_triv)
  ultimately show ?thesis using assms(1) quintets_inj concat_bits8_inj by metis
qed

lemma ComputeCID_eq_iff:
  assumes "sha256_ok C"
  shows "ComputeCID C d = ComputeCID C e \<longleftrightarrow> sha256 C d = sha256 C e"
proof
  assume "ComputeCID C d = ComputeCID C e"
  then have "b32_encode (cidHeader @ sha256 C d) = b32_encode (cidHeader @ sha256 C e)"
    by (simp add: ComputeCID_def)
  moreover have "length (cidHeader @ sha256 C d) = length (cidHeader @ sha256 C e)"
    using assms by (simp add: sha256_ok_def)
  ultimately have "cidHeader @ sha256 C d = cidHeader @ sha256 C e" by (rule b32_encode_inj [rotated])
  then show "sha256 C d = sha256 C e" by simp
qed (simp add: ComputeCID_def)

lemma ComputeCID_not_empty [simp]: "ComputeCID C d \<noteq> []" "[] \<noteq> ComputeCID C d"
  by (simp_all add: ComputeCID_def)

lemma b32_alphabet_ascii: "n < 32 \<Longrightarrow> byte (b32_alphabet ! n) < 0x80"
proof -
  have "list_all (\<lambda>c. byte c < 0x80) b32_alphabet" "length b32_alphabet = 32" by code_simp+
  then show "n < 32 \<Longrightarrow> byte (b32_alphabet ! n) < 0x80" by (simp add: list_all_length)
qed

lemma ComputeCID_ascii: "c \<in> set (ComputeCID C d) \<Longrightarrow> byte c < 0x80"
  by (auto simp: ComputeCID_def b32_encode_def byte_def dest!: quintets_less b32_alphabet_ascii)

lemma utf8_ComputeCID [simp]: "utf8_valid (ComputeCID C d)"
proof -
  have "utf8_valid (ComputeCID C d @ [])" by (subst utf8_valid_ascii) (auto dest: ComputeCID_ascii)
  then show ?thesis by simp
qed

subsection \<open>Properties\<close>

text \<open>Every content identifier has 59 characters and the fixed prefix \<open>bafkrei\<close>, and two
  contents share an identifier exactly when their digests collide.\<close>

theorem ComputeCID_form:
  assumes "sha256_ok C"
  shows "length (ComputeCID C d) = 59 \<and> take 7 (ComputeCID C d) = ''bafkrei''
    \<and> (VerifyCID C d (ComputeCID C e) \<longleftrightarrow> sha256 C d = sha256 C e)"
proof -
  have "length (sha256 C d) = 32" using assms by (simp add: sha256_ok_def)
  then obtain h t where h: "sha256 C d = h # t" "length t = 31"
    by (auto simp: length_Suc_conv eval_nat_numeral)
  have "length (ComputeCID C d) = 59"
    by (simp add: ComputeCID_def b32_encode_def length_quintets length_concat o_def sum_list_triv h cidHeader_def)
  moreover have "take 7 (ComputeCID C d) = ''bafkrei''"
    by (simp add: ComputeCID_def b32_encode_def h cidHeader_def bits8_def quintet_def
        b32_alphabet_def)
  ultimately show ?thesis using ComputeCID_eq_iff [OF assms, of d e] by (auto simp: VerifyCID_def)
qed

theorem ComputeCID_form_witness:
  "take 7 (ComputeCID demo_crypto ''x'') = ''bafkrei''"
  using ComputeCID_form [OF demo_crypto_ok(2), of "''x''" "''x''"] by simp

end
