(* ===== verification/Capability_URI.thy ===== *)
theory Capability_URI
  imports Go_Text ADTP_Errors
begin

text \<open>
  Capability resource URIs (\<open>internal/credential/capability.go\<close>, from
  \<open>CanonicalizeURI\<close> on, and \<open>internal/credential/uri_covers.go\<close>): the
  canonicalization profile, function by function, and the coverage test.  The
  lemmas show that canonicalization is idempotent and what a canonical URI looks
  like, and relate the coverage loop to a segment-wise specification.
\<close>

subsection \<open>Character classes\<close>

definition isUnreserved :: "char \<Rightarrow> bool" where
  "isUnreserved c \<longleftrightarrow> is_upper c \<or> is_lower c \<or> is_digit c
     \<or> c = CHR ''-'' \<or> c = CHR ''.'' \<or> c = CHR ''_'' \<or> c = CHR ''~''"

definition isSubDelim :: "char \<Rightarrow> bool" where
  "isSubDelim c \<longleftrightarrow> c = CHR ''!'' \<or> c = CHR ''$'' \<or> c = CHR ''&'' \<or> c = CHR 0x27
     \<or> c = CHR ''('' \<or> c = CHR '')'' \<or> c = CHR ''*'' \<or> c = CHR ''+'' \<or> c = CHR '',''
     \<or> c = CHR '';'' \<or> c = CHR ''=''"

definition isRegNameByte :: "char \<Rightarrow> bool" where
  "isRegNameByte c \<longleftrightarrow> isUnreserved c \<or> isSubDelim c"

definition isAllowedPathLiteral :: "char \<Rightarrow> bool" where
  "isAllowedPathLiteral c \<longleftrightarrow>
     isUnreserved c \<or> isSubDelim c \<or> c = CHR '':'' \<or> c = CHR ''@'' \<or> c = CHR ''/''"

definition fromHexDigit :: "char \<Rightarrow> int option" where
  "fromHexDigit c =
     (if is_digit c then Some (byte c - 48)
      else if 97 \<le> byte c \<and> byte c \<le> 102 then Some (byte c - 97 + 10)
      else if 65 \<le> byte c \<and> byte c \<le> 70 then Some (byte c - 65 + 10)
      else None)"

definition upperHexDigit :: "int \<Rightarrow> char" where
  "upperHexDigit n = ''0123456789ABCDEF'' ! nat n"

subsection \<open>Scheme, host, port and authority\<close>

text \<open>The bytes allowed after the first one of a scheme.\<close>

definition schemeTailByte :: "char \<Rightarrow> bool" where
  "schemeTailByte c \<longleftrightarrow>
     is_lower c \<or> is_digit c \<or> c = CHR ''+'' \<or> c = CHR ''-'' \<or> c = CHR ''.''"

definition canonicalScheme :: "string \<Rightarrow> cred_error + string" where
  "canonicalScheme scheme =
     (if scheme = [] then Inl ErrInvalidScheme
      else let lower = to_lower scheme in
        if is_lower (hd lower) \<and> list_all schemeTailByte (tl lower)
        then Inr lower else Inl ErrInvalidScheme)"

definition ipv6Byte :: "char \<Rightarrow> bool" where
  "ipv6Byte c \<longleftrightarrow> is_digit c \<or> (97 \<le> byte c \<and> byte c \<le> 102) \<or> (65 \<le> byte c \<and> byte c \<le> 70)
     \<or> c = CHR '':'' \<or> c = CHR ''.''"

definition canonicalHost :: "string \<Rightarrow> cred_error + string" where
  "canonicalHost host =
     (if host = [] then Inl ErrInvalidURI
      else if has_prefix host ''['' then
        (let inner = butlast (tl host) in
         if inner = [] then Inl ErrInvalidURI
         else if \<not> list_all ipv6Byte inner then Inl ErrInvalidURI
         else Inr (''['' @ to_lower inner @ '']''))
      else bindE
        (iterE (\<lambda>c. if 128 \<le> byte c then Inl ErrNonASCIIHost
                     else if \<not> isRegNameByte c then Inl ErrInvalidURI
                     else Inr ()) host)
        (\<lambda>_. Inr (to_lower host)))"

definition defaultPort :: "string \<Rightarrow> int" where
  "defaultPort scheme =
     (if scheme = ''http'' \<or> scheme = ''ws'' then 80
      else if scheme = ''https'' \<or> scheme = ''wss'' then 443
      else -1)"

definition canonicalPort :: "string \<Rightarrow> string \<Rightarrow> cred_error + string" where
  "canonicalPort port scheme =
     (if port = [] then Inr []
      else case atoi port of
        None \<Rightarrow> Inl ErrInvalidPort
      | Some n \<Rightarrow>
          if n < 0 \<or> n > 65535 then Inl ErrInvalidPort
          else if defaultPort scheme = n then Inr []
          else Inr (itoa n))"

text \<open>The host and port texts of an authority, before they are canonicalized.\<close>

definition splitAuthority :: "string \<Rightarrow> cred_error + (string \<times> string)" where
  "splitAuthority authority =
     (if has_prefix authority ''['' then
        (case index_byte authority (CHR '']'') of
           None \<Rightarrow> Inl ErrInvalidURI
         | Some end \<Rightarrow>
             (case drop (end + 1) authority of
                [] \<Rightarrow> Inr (take (end + 1) authority, [])
              | t # ts \<Rightarrow> if t \<noteq> CHR '':'' then Inl ErrInvalidURI
                          else Inr (take (end + 1) authority, ts)))
      else (case last_index_byte authority (CHR '':'') of
              Some i \<Rightarrow> Inr (take i authority, drop (i + 1) authority)
            | None \<Rightarrow> Inr (authority, [])))"

definition canonicalAuthority :: "string \<Rightarrow> string \<Rightarrow> cred_error + string" where
  "canonicalAuthority authority scheme =
     (if authority = [] then Inl ErrInvalidURI
      else if CHR ''@'' \<in> set authority then Inl ErrUserinfoNotAllowed
      else bindE (splitAuthority authority) (\<lambda>(host, port).
           bindE (canonicalHost host) (\<lambda>chost.
           bindE (canonicalPort port scheme) (\<lambda>cport.
             if cport = [] then Inr chost else Inr (chost @ '':'' @ cport)))))"

subsection \<open>Path\<close>

fun decodePath :: "string \<Rightarrow> cred_error + string" where
  "decodePath [] = Inr []"
| "decodePath (c # cs) =
     (if c = CHR 0x25 then
        (case cs of
           h # l # rest \<Rightarrow>
             (case (fromHexDigit h, fromHexDigit l) of
                (Some hi, Some lo) \<Rightarrow>
                  (let decoded = char_of (hi * 16 + lo) in
                   bindE (decodePath rest) (\<lambda>t.
                     Inr ((if isUnreserved decoded then [decoded]
                           else [CHR 0x25, upperHexDigit hi, upperHexDigit lo]) @ t)))
              | _ \<Rightarrow> Inl ErrInvalidPercentEncoding)
         | _ \<Rightarrow> Inl ErrInvalidPercentEncoding)
      else if \<not> isAllowedPathLiteral c then Inl ErrInvalidURI
      else bindE (decodePath cs) (\<lambda>t. Inr (c # t)))"

definition hasDotSegment :: "string \<Rightarrow> bool" where
  "hasDotSegment p = list_ex (\<lambda>seg. seg = ''.'' \<or> seg = ''..'') (split_on (CHR ''/'') p)"

definition canonicalPath :: "string \<Rightarrow> cred_error + string" where
  "canonicalPath path =
     (if path = [] then Inr []
      else let lower = to_lower path in
        if contains_str lower (CHR 0x25 # ''2f'') \<or> contains_str lower (CHR 0x25 # ''5c'')
           \<or> contains_str lower (CHR 0x25 # ''00'')
        then Inl ErrEncodedSeparator
        else bindE (decodePath path) (\<lambda>decoded.
               if hasDotSegment decoded then Inl ErrDotSegment else Inr decoded))"

definition canonicalizeURI :: "string \<Rightarrow> cred_error + string" where
  "canonicalizeURI raw =
     (case str_index raw ''://'' of
        None \<Rightarrow> Inl ErrInvalidURI
      | Some sep \<Rightarrow>
          if sep = 0 then Inl ErrInvalidURI
          else bindE (canonicalScheme (take sep raw)) (\<lambda>scheme.
            let rest = drop (sep + 3) raw in
            if contains_any rest ''?#'' then Inl ErrQueryOrFragment
            else let (authority, path) =
                   (case index_byte rest (CHR ''/'') of
                      Some slash \<Rightarrow> (take slash rest, drop slash rest)
                    | None \<Rightarrow> (rest, [])) in
              bindE (canonicalAuthority authority scheme) (\<lambda>cauth.
              bindE (canonicalPath path) (\<lambda>cpath.
                Inr (scheme @ ''://'' @ cauth @ cpath)))))"

subsection \<open>Coverage (\<open>uri_covers.go\<close>)\<close>

definition splitCanonicalURI :: "string \<Rightarrow> (string \<times> string \<times> string) option" where
  "splitCanonicalURI u =
     (case str_index u ''://'' of
        None \<Rightarrow> None
      | Some i \<Rightarrow>
          if i = 0 then None
          else let rest = drop (i + 3) u in
            case index_byte rest (CHR ''/'') of
              Some j \<Rightarrow> Some (take i u, take j rest, drop j rest)
            | None \<Rightarrow> Some (take i u, rest, []))"

fun coverSegments :: "string list \<Rightarrow> string list \<Rightarrow> bool" where
  "coverSegments (p # ps) (c # cs) =
     (if p = ''*'' then (if c = [] then False else coverSegments ps cs)
      else if p \<noteq> c then False
      else coverSegments ps cs)"
| "coverSegments _ _ = True"

definition uriCovers :: "string \<Rightarrow> string \<Rightarrow> bool" where
  "uriCovers parent child =
     (case canonicalizeURI parent of
        Inl _ \<Rightarrow> False
      | Inr p \<Rightarrow>
        (case canonicalizeURI child of
           Inl _ \<Rightarrow> False
         | Inr c \<Rightarrow>
             if p = c then True
             else case splitCanonicalURI p of
               None \<Rightarrow> False
             | Some (pScheme, pAuthority, pPath) \<Rightarrow>
                 (case splitCanonicalURI c of
                    None \<Rightarrow> False
                  | Some (cScheme, cAuthority, cPath) \<Rightarrow>
                      if pScheme \<noteq> cScheme \<or> pAuthority \<noteq> cAuthority then False
                      else let pSeg = split_on (CHR ''/'') pPath;
                               cSeg = split_on (CHR ''/'') cPath in
                        if length pSeg \<noteq> length cSeg then False
                        else coverSegments pSeg cSeg)))"

subsection \<open>Single characters\<close>

lemma hex_digit_all:
  "\<forall>h. case fromHexDigit h of None \<Rightarrow> True
     | Some n \<Rightarrow> 0 \<le> n \<and> n < 16 \<and> is_ascii h \<and> h \<noteq> CHR 0x25
         \<and> fromHexDigit (upperHexDigit n) = Some n
         \<and> ascii_lower (upperHexDigit n) = ascii_lower h \<and> ascii_lower h \<noteq> CHR 0x25"
  by code_simp

lemma hex_digit_cases:
  assumes "fromHexDigit h = Some n"
  shows "0 \<le> n" "n < 16" "is_ascii h" "fromHexDigit (upperHexDigit n) = Some n"
    "ascii_lower (upperHexDigit n) = ascii_lower h" "ascii_lower h \<noteq> CHR 0x25"
  using hex_digit_all [rule_format, of h] assms by auto

lemma path_char_all:
  "\<forall>c. (isAllowedPathLiteral c \<longrightarrow> is_ascii c \<and> c \<noteq> CHR 0x25 \<and> ascii_lower c \<noteq> CHR 0x25
          \<and> c \<noteq> CHR ''?'' \<and> c \<noteq> CHR ''#'')
     \<and> (isUnreserved c \<longrightarrow> isAllowedPathLiteral c)
     \<and> (isRegNameByte c \<longrightarrow> byte c < 128 \<and> is_ascii c \<and> c \<noteq> CHR ''['' \<and> c \<noteq> CHR '':'' \<and> c \<noteq> CHR ''@''
          \<and> isRegNameByte (ascii_lower c))
     \<and> (ipv6Byte c \<longrightarrow> is_ascii c \<and> c \<noteq> CHR '']'' \<and> ipv6Byte (ascii_lower c))
     \<and> (is_digit c \<longrightarrow> isRegNameByte c)"
  by code_simp

lemma path_literal:
  "isAllowedPathLiteral c \<Longrightarrow> is_ascii c" "isAllowedPathLiteral c \<Longrightarrow> c \<noteq> CHR 0x25"
  "isAllowedPathLiteral c \<Longrightarrow> ascii_lower c \<noteq> CHR 0x25"
  "isAllowedPathLiteral c \<Longrightarrow> c \<noteq> CHR ''?'' \<and> c \<noteq> CHR ''#''"
  "isUnreserved c \<Longrightarrow> isAllowedPathLiteral c"
  using path_char_all by blast+

lemma reg_name_byte:
  "isRegNameByte c \<Longrightarrow> byte c < 128" "isRegNameByte c \<Longrightarrow> is_ascii c"
  "isRegNameByte c \<Longrightarrow> c \<noteq> CHR ''[''" "isRegNameByte c \<Longrightarrow> c \<noteq> CHR '':''"
  "isRegNameByte c \<Longrightarrow> isRegNameByte (ascii_lower c)" "is_digit c \<Longrightarrow> isRegNameByte c"
  using path_char_all by blast+

lemma ipv6_byte:
  "ipv6Byte c \<Longrightarrow> is_ascii c" "ipv6Byte c \<Longrightarrow> c \<noteq> CHR '']''"
  "ipv6Byte c \<Longrightarrow> ipv6Byte (ascii_lower c)"
  using path_char_all by blast+

text \<open>The characters a canonical authority is made of.\<close>

definition authChar :: "char \<Rightarrow> bool" where
  "authChar c \<longleftrightarrow> isRegNameByte c \<or> ipv6Byte c \<or> c = CHR ''['' \<or> c = CHR '']'' \<or> c = CHR '':''"

lemma auth_char_all: "\<forall>c. authChar c \<longrightarrow>
    c \<noteq> CHR ''/'' \<and> c \<noteq> CHR ''?'' \<and> c \<noteq> CHR ''#'' \<and> c \<noteq> CHR ''@'' \<and> is_ascii c"
  by code_simp

subsection \<open>The path\<close>

declare decodePath.simps(2) [simp del]

lemma decodePath_literal:
  "c \<noteq> CHR 0x25 \<Longrightarrow> isAllowedPathLiteral c \<Longrightarrow>
   decodePath (c # cs) = bindE (decodePath cs) (\<lambda>t. Inr (c # t))"
  by (simp add: decodePath.simps(2))

lemma decodePath_escape:
  "fromHexDigit h = Some hi \<Longrightarrow> fromHexDigit l = Some lo \<Longrightarrow>
   decodePath (CHR 0x25 # h # l # rest) = bindE (decodePath rest) (\<lambda>t.
     Inr ((if isUnreserved (char_of (hi * 16 + lo)) then [char_of (hi * 16 + lo)]
           else [CHR 0x25, upperHexDigit hi, upperHexDigit lo]) @ t))"
  by (simp add: decodePath.simps(2) Let_def)

lemma decodePath_ConsE:
  assumes "decodePath (c # cs) = Inr t"
  obtains (literal) t' where "c \<noteq> CHR 0x25" "isAllowedPathLiteral c" "decodePath cs = Inr t'"
      "t = c # t'"
  | (escape) h l rest hi lo t' where "c = CHR 0x25" "cs = h # l # rest"
      "fromHexDigit h = Some hi" "fromHexDigit l = Some lo" "decodePath rest = Inr t'"
      "t = (if isUnreserved (char_of (hi * 16 + lo)) then [char_of (hi * 16 + lo)]
            else [CHR 0x25, upperHexDigit hi, upperHexDigit lo]) @ t'"
proof (cases "c = CHR 0x25")
  case False
  with assms literal show ?thesis
    by (auto simp: decodePath.simps(2) err_simps split: if_splits)
next
  case True
  show ?thesis
  proof (cases "\<exists>h l rest. cs = h # l # rest")
    case False
    then show ?thesis using assms True
      by (auto simp: decodePath.simps(2) split: list.splits)
  next
    case 2: True
    then obtain h l rest where cs: "cs = h # l # rest" by blast
    show ?thesis
    proof (cases "fromHexDigit h"; cases "fromHexDigit l")
      fix hi lo assume "fromHexDigit h = Some hi" "fromHexDigit l = Some lo"
      with assms True cs escape show ?thesis
        by (auto simp: decodePath_escape bindE_Inr_iff)
    qed (use assms True cs in \<open>simp_all add: decodePath.simps(2)\<close>)
  qed
qed

text \<open>Induction over a successful decoding: a literal byte, a decoded escape, a kept escape.\<close>

lemma decodePath_induct [consumes 1, case_names nil literal decoded kept]:
  assumes "decodePath s = Inr t"
    and "P [] []"
    and "\<And>c s t. c \<noteq> CHR 0x25 \<Longrightarrow> isAllowedPathLiteral c \<Longrightarrow> decodePath s = Inr t \<Longrightarrow> P s t
      \<Longrightarrow> P (c # s) (c # t)"
    and "\<And>h l hi lo s t. fromHexDigit h = Some hi \<Longrightarrow> fromHexDigit l = Some lo
      \<Longrightarrow> isUnreserved (char_of (hi * 16 + lo)) \<Longrightarrow> decodePath s = Inr t \<Longrightarrow> P s t
      \<Longrightarrow> P (CHR 0x25 # h # l # s) (char_of (hi * 16 + lo) # t)"
    and "\<And>h l hi lo s t. fromHexDigit h = Some hi \<Longrightarrow> fromHexDigit l = Some lo
      \<Longrightarrow> \<not> isUnreserved (char_of (hi * 16 + lo)) \<Longrightarrow> decodePath s = Inr t \<Longrightarrow> P s t
      \<Longrightarrow> P (CHR 0x25 # h # l # s) (CHR 0x25 # upperHexDigit hi # upperHexDigit lo # t)"
  shows "P s t"
  using assms(1)
proof (induction "length s" arbitrary: s t rule: less_induct)
  case less
  show ?case
  proof (cases s)
    case Nil
    with less.prems assms(2) show ?thesis by simp
  next
    case (Cons c cs)
    with less.prems have "decodePath (c # cs) = Inr t" by simp
    then show ?thesis
    proof (cases rule: decodePath_ConsE)
      case (literal t')
      with less.hyps [of cs t'] Cons assms(3) show ?thesis by simp
    next
      case (escape h l rest hi lo t')
      with less.hyps [of rest t'] Cons have "P rest t'" by simp
      with escape Cons assms(4,5) show ?thesis by simp
    qed
  qed
qed

lemma upper_hex_literal_all: "\<forall>i \<in> set [0..15]. isAllowedPathLiteral (upperHexDigit i)"
  by code_simp

lemma upper_hex_literal: "0 \<le> n \<Longrightarrow> n < 16 \<Longrightarrow> isAllowedPathLiteral (upperHexDigit n)"
  using upper_hex_literal_all by auto

lemma percent_ascii [simp]: "is_ascii (CHR 0x25)"
  by code_simp

lemma decodePath_ascii: "decodePath s = Inr t \<Longrightarrow> list_all is_ascii s"
  by (induction rule: decodePath_induct) (auto simp: path_literal hex_digit_cases)

lemma decodePath_chars:
  "decodePath s = Inr t \<Longrightarrow> list_all (\<lambda>c. isAllowedPathLiteral c \<or> c = CHR 0x25) t"
  by (induction rule: decodePath_induct)
    (auto simp: path_literal hex_digit_cases upper_hex_literal)

lemma decodePath_idem: "decodePath s = Inr t \<Longrightarrow> decodePath t = Inr t"
proof (induction rule: decodePath_induct)
  case (decoded h l hi lo s t)
  then show ?case using path_literal(2,5) by (simp add: decodePath_literal)
next
  case (kept h l hi lo s t)
  then show ?case by (simp add: decodePath_escape hex_digit_cases)
qed (simp_all add: decodePath_literal)

lemma contains_str_Cons:
  "contains_str (c # cs) p \<longleftrightarrow> has_prefix (c # cs) p \<or> contains_str cs p"
  by (auto simp: contains_str_def)

lemma decodePath_no_escape:
  assumes "decodePath s = Inr t"
    and "\<not> contains_str (map ascii_lower s) [CHR 0x25, x, y]"
  shows "\<not> contains_str (map ascii_lower t) [CHR 0x25, x, y]"
  using assms
proof (induction rule: decodePath_induct)
  case (decoded h l hi lo s t)
  then show ?case using path_literal(3,5) [of "char_of (hi * 16 + lo)"]
    by (simp add: contains_str_Cons)
next
  case (kept h l hi lo s t)
  then show ?case
    using hex_digit_cases(5,6) [OF kept(1)] hex_digit_cases(5,6) [OF kept(2)]
    by (auto simp: contains_str_Cons)
qed (auto simp: contains_str_Cons path_literal(3))

lemma canonicalPath_idem: "canonicalPath s = Inr t \<Longrightarrow> canonicalPath t = Inr t"
proof (cases "s = []")
  case False
  assume ok: "canonicalPath s = Inr t"
  with False have s: "decodePath s = Inr t" "\<not> hasDotSegment t"
      "\<not> contains_str (to_lower s) (CHR 0x25 # ''2f'')"
      "\<not> contains_str (to_lower s) (CHR 0x25 # ''5c'')"
      "\<not> contains_str (to_lower s) (CHR 0x25 # ''00'')"
    by (auto simp: canonicalPath_def Let_def err_simps split: if_splits)
  note t = decodePath_idem [OF s(1)]
  have "to_lower s = map ascii_lower s" "to_lower t = map ascii_lower t"
    using decodePath_ascii [OF s(1)] decodePath_ascii [OF t] by (simp_all add: to_lower_ascii)
  with s t show ?thesis
    by (simp add: canonicalPath_def Let_def decodePath_no_escape [OF s(1)])
qed (simp add: canonicalPath_def)

lemma canonicalPath_chars:
  assumes "canonicalPath s = Inr t"
  shows "list_all (\<lambda>c. isAllowedPathLiteral c \<or> c = CHR 0x25) t"
  using assms decodePath_chars
  by (auto simp: canonicalPath_def Let_def err_simps split: if_splits)

lemma canonicalPath_empty [simp]: "canonicalPath [] = Inr []"
  by (simp add: canonicalPath_def)

lemma canonicalPath_slash:
  assumes "canonicalPath (CHR ''/'' # s) = Inr t"
  shows "\<exists>u. t = CHR ''/'' # u"
proof -
  from assms have "decodePath (CHR ''/'' # s) = Inr t"
    by (auto simp: canonicalPath_def Let_def err_simps split: if_splits)
  then show ?thesis by (cases rule: decodePath_ConsE) auto
qed

subsection \<open>Scheme, host, port, authority\<close>

lemma schemeTailByte_all:
  "\<forall>c. schemeTailByte c \<longrightarrow> is_ascii c \<and> ascii_lower c = c \<and> c \<noteq> CHR '':''"
  by code_simp

lemma canonicalScheme_Inr:
  assumes "canonicalScheme s = Inr t"
  shows "canonicalScheme t = Inr t" "CHR '':'' \<notin> set t" "t \<noteq> []"
proof -
  from assms have s: "s \<noteq> []" and t: "t = to_lower s" "is_lower (hd t)" "list_all schemeTailByte (tl t)"
    by (auto simp: canonicalScheme_def Let_def split: if_splits)
  have "s \<noteq> [] \<Longrightarrow> to_lower s \<noteq> []" for s
    by (cases s) (auto simp: to_lower.simps split: list.splits)
  with s t show ne: "t \<noteq> []" by simp
  have all: "list_all schemeTailByte t" using t(2,3) ne
    by (cases t) (simp_all add: schemeTailByte_def)
  with schemeTailByte_all show "CHR '':'' \<notin> set t" by (auto simp: list_all_iff)
  from all schemeTailByte_all have "list_all is_ascii t" and "map ascii_lower t = t"
    by (simp_all add: list_all_iff map_idI)
  with t ne show "canonicalScheme t = Inr t"
    by (simp add: canonicalScheme_def Let_def to_lower_ascii)
qed

lemma canonicalPort_Inr:
  assumes "canonicalPort p scheme = Inr q"
  shows "canonicalPort q scheme = Inr q" "list_all is_digit q"
proof -
  have q: "q = [] \<or> (\<exists>n. 0 \<le> n \<and> n \<le> 65535 \<and> defaultPort scheme \<noteq> n \<and> q = itoa n)"
    using assms by (fastforce simp: canonicalPort_def not_less split: if_splits option.splits)
  from q show "canonicalPort q scheme = Inr q"
  proof
    assume "\<exists>n. 0 \<le> n \<and> n \<le> 65535 \<and> defaultPort scheme \<noteq> n \<and> q = itoa n"
    then obtain n where n: "0 \<le> n" "n \<le> 65535" "defaultPort scheme \<noteq> n" "q = itoa n" by blast
    with atoi_itoa [of n] show ?thesis by (simp add: canonicalPort_def)
  qed (simp add: canonicalPort_def)
  from q show "list_all is_digit q"
    using nat_digits_digits by (auto simp: itoa_def)
qed

lemma iterE_host: "iterE (\<lambda>c. if 128 \<le> byte c then Inl ErrNonASCIIHost
    else if \<not> isRegNameByte c then Inl ErrInvalidURI else Inr ()) s = Inr u
  \<longleftrightarrow> list_all isRegNameByte s"
proof -
  have "(if 128 \<le> byte c then Inl ErrNonASCIIHost
    else if \<not> isRegNameByte c then Inl ErrInvalidURI else Inr ()) = Inr () \<longleftrightarrow> isRegNameByte c" for c
    using reg_name_byte(1) [of c] by auto
  then show ?thesis by (simp only: iterE_ok_iff list_all_iff)
qed

lemma list_all_ascii_lower:
  assumes "list_all P s" and "\<And>c. P c \<Longrightarrow> is_ascii c" and "\<And>c. P c \<Longrightarrow> P (ascii_lower c)"
  shows "list_all P (to_lower s)" "to_lower (to_lower s) = to_lower s" "to_lower s = map ascii_lower s"
proof -
  have a: "list_all is_ascii s" using assms by (auto simp: list_all_iff)
  then show eq: "to_lower s = map ascii_lower s" by (rule to_lower_ascii)
  show "list_all P (to_lower s)" unfolding eq using assms by (auto simp: list_all_iff)
  show "to_lower (to_lower s) = to_lower s" unfolding eq using a by (rule to_lower_ascii_idem)
qed

text \<open>The two shapes of a canonical host.\<close>

lemma canonicalHost_Inr:
  assumes "canonicalHost h = Inr k"
  obtains (literal) inner where "k = ''['' @ inner @ '']''" "list_all ipv6Byte inner" "inner \<noteq> []"
      "to_lower inner = inner"
  | (name) "k \<noteq> []" "list_all isRegNameByte k" "to_lower k = k"
proof (cases "has_prefix h ''[''")
  case True
  let ?i = "butlast (tl h)"
  from True assms have i: "?i \<noteq> []" "list_all ipv6Byte ?i" "k = ''['' @ to_lower ?i @ '']''"
    by (auto simp: canonicalHost_def Let_def split: if_splits)
  note low = list_all_ascii_lower [OF i(2) ipv6_byte(1,3)]
  from i(1) low(3) have "to_lower ?i \<noteq> []" by simp
  with i(3) low(1,2) literal show ?thesis by blast
next
  case False
  with assms have h: "h \<noteq> []" "list_all isRegNameByte h" "k = to_lower h"
    by (auto simp: canonicalHost_def bindE_Inr_iff iterE_host split: if_splits)
  note low = list_all_ascii_lower [OF h(2) reg_name_byte(2,5)]
  from h low(3) have "k \<noteq> []" by simp
  with h low(1,2) name show ?thesis by blast
qed

lemma splitAuthority_name:
  assumes "list_all isRegNameByte h" and "CHR '':'' \<notin> set p"
  shows "splitAuthority h = Inr (h, [])" "splitAuthority (h @ '':'' @ p) = Inr (h, p)"
proof -
  have colon: "CHR '':'' \<notin> set h" and bracket: "\<not> has_prefix (h @ t) ''[''"
    if "t = [] \<or> hd t \<noteq> CHR ''[''" for t
    using assms(1) reg_name_byte(3,4) that by (cases h; cases t; fastforce simp: list_all_iff)+
  from colon [of "[]"] bracket [of "[]"] show "splitAuthority h = Inr (h, [])"
    by (simp add: splitAuthority_def del: last_index_byte_None_iff
          add: last_index_byte_None_iff [THEN iffD2])
  from bracket [of "'':'' @ p"] assms(2) show "splitAuthority (h @ '':'' @ p) = Inr (h, p)"
    by (simp add: splitAuthority_def last_index_byte_append)
qed

lemma splitAuthority_literal:
  assumes "CHR '']'' \<notin> set inner"
  shows "splitAuthority (''['' @ inner @ '']'') = Inr (''['' @ inner @ '']'', [])"
    "splitAuthority (''['' @ inner @ '']'' @ '':'' @ p) = Inr (''['' @ inner @ '']'', p)"
  using assms index_byte_append [of "CHR '']''" "''['' @ inner"]
  by (auto simp: splitAuthority_def)

lemma canonicalHost_canonical:
  "list_all isRegNameByte k \<Longrightarrow> k \<noteq> [] \<Longrightarrow> to_lower k = k \<Longrightarrow> canonicalHost k = Inr k"
  "list_all ipv6Byte i \<Longrightarrow> i \<noteq> [] \<Longrightarrow> to_lower i = i \<Longrightarrow>
     canonicalHost (''['' @ i @ '']'') = Inr (''['' @ i @ '']'')"
proof -
  assume k: "list_all isRegNameByte k" "k \<noteq> []" "to_lower k = k"
  then have "\<not> has_prefix k ''[''" using reg_name_byte(3) by (cases k) auto
  with k show "canonicalHost k = Inr k"
    by (simp add: canonicalHost_def bindE_Inr_iff iterE_host)
qed (simp add: canonicalHost_def)

lemma canonicalAuthority_Inr:
  assumes "canonicalAuthority a scheme = Inr b"
  shows "canonicalAuthority b scheme = Inr b" "list_all authChar b" "b \<noteq> []"
proof -
  from assms obtain h p k q where hp: "canonicalHost h = Inr k" "canonicalPort p scheme = Inr q"
      and b: "b = (if q = [] then k else k @ '':'' @ q)"
    by (auto simp: canonicalAuthority_def err_simps split: if_splits)
  note q = canonicalPort_Inr [OF hp(2)]
  have nocolon: "CHR '':'' \<notin> set q" and qchars: "list_all isRegNameByte q"
    using q(2) reg_name_byte(4,6) by (auto simp: list_all_iff)
  have split: "splitAuthority b = Inr (k, q) \<and> canonicalHost k = Inr k \<and> list_all authChar k \<and> k \<noteq> []"
    using hp(1)
  proof (cases rule: canonicalHost_Inr)
    case (literal inner)
    then have "CHR '']'' \<notin> set inner" using ipv6_byte(2) by (auto simp: list_all_iff)
    with literal show ?thesis
      using canonicalHost_canonical(2) [of inner]
      using splitAuthority_literal(1) [of inner] splitAuthority_literal(2) [of inner q]
      by (auto simp: b authChar_def list_all_iff)
  next
    case name
    with nocolon show ?thesis
      using splitAuthority_name [of k q] canonicalHost_canonical(1) [of k]
      by (auto simp: b authChar_def list_all_iff)
  qed
  then show chars: "list_all authChar b" and ne: "b \<noteq> []"
    using qchars by (auto simp: b authChar_def list_all_iff)
  with auth_char_all have "CHR ''@'' \<notin> set b" by (auto simp: list_all_iff)
  with split ne q(1) show "canonicalAuthority b scheme = Inr b"
    by (simp add: canonicalAuthority_def b)
qed

subsection \<open>Canonical URIs\<close>

text \<open>The parts of a canonical URI, and that the canonicalization and the splitting
  recover them.\<close>

definition canonParts :: "string \<Rightarrow> string \<Rightarrow> string \<Rightarrow> bool" where
  "canonParts scheme auth path \<longleftrightarrow>
     canonicalScheme scheme = Inr scheme \<and> canonicalAuthority auth scheme = Inr auth
     \<and> canonicalPath path = Inr path \<and> (path = [] \<or> hd path = CHR ''/'')"

lemma canonParts_index:
  assumes "canonParts scheme auth path"
  shows "str_index (scheme @ ''://'' @ auth @ path) ''://'' = Some (length scheme)"
    "scheme \<noteq> []" "\<not> contains_any (auth @ path) ''?#''"
    "index_byte (auth @ path) (CHR ''/'') = (if path = [] then None else Some (length auth))"
proof -
  note a = assms [unfolded canonParts_def]
  note scheme = canonicalScheme_Inr [of scheme scheme]
  show "str_index (scheme @ ''://'' @ auth @ path) ''://'' = Some (length scheme)"
    using scheme(2) a by (simp add: str_index_sep)
  show "scheme \<noteq> []" using scheme a by simp
  have auth: "list_all authChar auth" and path: "list_all (\<lambda>c. isAllowedPathLiteral c \<or> c = CHR 0x25) path"
    using a canonicalAuthority_Inr(2) canonicalPath_chars by auto
  with auth_char_all path_literal(4) show "\<not> contains_any (auth @ path) ''?#''"
    by (fastforce simp: contains_any_def list_ex_iff list_all_iff)
  from auth auth_char_all have "CHR ''/'' \<notin> set auth" by (auto simp: list_all_iff)
  with a show "index_byte (auth @ path) (CHR ''/'') = (if path = [] then None else Some (length auth))"
    by (cases path) (auto simp: index_byte_append simp del: index_byte_None_iff
          simp add: index_byte_None_iff [THEN iffD2])
qed

lemma canonParts_canonicalize:
  assumes "canonParts scheme auth path"
  shows "canonicalizeURI (scheme @ ''://'' @ auth @ path) = Inr (scheme @ ''://'' @ auth @ path)"
  using canonParts_index [OF assms] assms
  by (auto simp: canonicalizeURI_def canonParts_def Let_def canonicalAuthority_def split: if_splits)

lemma canonParts_split:
  assumes "canonParts scheme auth path"
  shows "splitCanonicalURI (scheme @ ''://'' @ auth @ path) = Some (scheme, auth, path)"
  using canonParts_index [OF assms] by (auto simp: splitCanonicalURI_def Let_def)

lemma canonicalizeURI_parts:
  assumes "canonicalizeURI raw = Inr c"
  obtains scheme auth path where "canonParts scheme auth path" "c = scheme @ ''://'' @ auth @ path"
proof -
  let ?parts = "\<lambda>rest. case index_byte rest (CHR ''/'') of
         Some slash \<Rightarrow> (take slash rest, drop slash rest) | None \<Rightarrow> (rest, [])"
  from assms obtain sep where sep: "str_index raw ''://'' = Some sep" "sep \<noteq> 0"
    by (auto simp: canonicalizeURI_def split: option.splits if_splits)
  obtain authority upath where au: "?parts (drop (sep + 3) raw) = (authority, upath)"
    by (rule prod.exhaust)
  from assms sep au obtain scheme auth path where
      u: "canonicalScheme (take sep raw) = Inr scheme"
      "canonicalAuthority authority scheme = Inr auth" "canonicalPath upath = Inr path"
      "c = scheme @ ''://'' @ auth @ path"
    by (auto simp: canonicalizeURI_def Let_def bindE_Inr_iff if_Inl_Inr_iff)
  have "upath = [] \<or> (\<exists>v. upath = CHR ''/'' # v)"
    using au by (auto split: option.splits dest!: index_byte_SomeD
        simp: Cons_nth_drop_Suc [symmetric] simp del: drop_drop)
  then have "path = [] \<or> hd path = CHR ''/''"
    using u(3) canonicalPath_slash by fastforce
  then have "canonParts scheme auth path"
    using u canonicalScheme_Inr(1) canonicalAuthority_Inr(1) canonicalPath_idem
    by (simp add: canonParts_def)
  with u(4) that show thesis by blast
qed

lemma canonicalizeURI_fixed: "canonicalizeURI raw = Inr c \<Longrightarrow> canonicalizeURI c = Inr c"
  by (erule canonicalizeURI_parts) (simp only: canonParts_canonicalize)

subsection \<open>Coverage\<close>

text \<open>The segment-wise meaning of coverage: a \<open>*\<close> segment stands for one non-empty
  segment, any other segment for itself.\<close>

definition segMatch :: "string \<Rightarrow> string \<Rightarrow> bool" where
  "segMatch p c \<longleftrightarrow> (if p = ''*'' then c \<noteq> [] else p = c)"

definition coversSpec :: "string \<Rightarrow> string \<Rightarrow> bool" where
  "coversSpec p c =
     (case (splitCanonicalURI p, splitCanonicalURI c) of
        (Some (ps, pa, pp), Some (cs, ca, cp)) \<Rightarrow>
          ps = cs \<and> pa = ca \<and>
          list_all2 segMatch (split_on (CHR ''/'') pp) (split_on (CHR ''/'') cp)
      | _ \<Rightarrow> False)"

lemma segMatch_refl: "segMatch s s"
  by (simp add: segMatch_def)

lemma segMatch_trans: "segMatch a b \<Longrightarrow> segMatch b c \<Longrightarrow> segMatch a c"
  by (auto simp: segMatch_def split: if_splits)

lemma segMatch_antisym: "segMatch a b \<Longrightarrow> segMatch b a \<Longrightarrow> a = b"
  by (auto simp: segMatch_def split: if_splits)

lemma coverSegments_iff:
  "length ps = length cs \<Longrightarrow> coverSegments ps cs = list_all2 segMatch ps cs"
  by (induction ps cs rule: coverSegments.induct) (auto simp: segMatch_def)

lemma coversSpec_refl:
  assumes "canonicalizeURI s = Inr c"
  shows "coversSpec c c"
  using canonicalizeURI_parts [OF assms]
proof -
  obtain scheme auth path where "canonParts scheme auth path" "c = scheme @ ''://'' @ auth @ path"
    using canonicalizeURI_parts [OF assms] .
  then have "splitCanonicalURI c = Some (scheme, auth, path)" by (simp only: canonParts_split)
  then show ?thesis by (simp add: coversSpec_def list_all2_refl segMatch_refl)
qed

lemma segMatches_trans:
  "list_all2 segMatch as bs \<Longrightarrow> list_all2 segMatch bs cs \<Longrightarrow> list_all2 segMatch as cs"
  by (rule list_all2_trans) (rule segMatch_trans)

lemma segMatches_antisym: "list_all2 segMatch as bs \<Longrightarrow> list_all2 segMatch bs as \<Longrightarrow> as = bs"
proof (induction rule: list_all2_induct)
  case (Cons a as b bs)
  then show ?case by (auto dest: segMatch_antisym)
qed simp

lemma coversSpec_trans: "coversSpec a b \<Longrightarrow> coversSpec b c \<Longrightarrow> coversSpec a c"
  using segMatches_trans by (fastforce simp: coversSpec_def split: option.splits)

text \<open>Canonical URIs with the same parts are equal.\<close>

lemma splitCanonicalURI_inj:
  assumes "canonicalizeURI s = Inr a" "canonicalizeURI t = Inr b"
    and "splitCanonicalURI a = splitCanonicalURI b"
  shows "a = b"
proof -
  obtain s1 a1 p1 where 1: "canonParts s1 a1 p1" "a = s1 @ ''://'' @ a1 @ p1"
    using canonicalizeURI_parts [OF assms(1)] .
  obtain s2 a2 p2 where 2: "canonParts s2 a2 p2" "b = s2 @ ''://'' @ a2 @ p2"
    using canonicalizeURI_parts [OF assms(2)] .
  from 1 2 assms(3) canonParts_split have "Some (s1, a1, p1) = Some (s2, a2, p2)"
    by metis
  with 1 2 show ?thesis by simp
qed

lemma coversSpec_antisym:
  assumes "canonicalizeURI s = Inr a" "canonicalizeURI t = Inr b"
    and "coversSpec a b" "coversSpec b a"
  shows "a = b"
proof -
  from assms(3) obtain sc au pa pb where
      p: "splitCanonicalURI a = Some (sc, au, pa)" "splitCanonicalURI b = Some (sc, au, pb)"
      and ab: "list_all2 segMatch (split_on (CHR ''/'') pa) (split_on (CHR ''/'') pb)"
    by (auto simp: coversSpec_def split: option.splits)
  with assms(4) have ba: "list_all2 segMatch (split_on (CHR ''/'') pb) (split_on (CHR ''/'') pa)"
    by (simp add: coversSpec_def)
  have "split_on (CHR ''/'') pa = split_on (CHR ''/'') pb"
    using ab ba by (rule segMatches_antisym)
  then have "pa = pb" by (simp only: split_on_inj)
  with p assms(1,2) show ?thesis by (auto intro: splitCanonicalURI_inj)
qed

lemma uriCovers_canonical:
  assumes p: "canonicalizeURI parent = Inr p" and c: "canonicalizeURI child = Inr c"
  shows "uriCovers parent child = coversSpec p c"
proof (cases "p = c")
  case True
  with p c coversSpec_refl show ?thesis by (simp add: uriCovers_def)
next
  case False
  with p c show ?thesis
    by (auto simp: uriCovers_def coversSpec_def coverSegments_iff Let_def
        dest: list_all2_lengthD split: option.splits)
qed

lemma uriCoversD:
  assumes "uriCovers a b"
  obtains p c where "canonicalizeURI a = Inr p" "canonicalizeURI b = Inr c" "coversSpec p c"
proof -
  from assms obtain p c where "canonicalizeURI a = Inr p" "canonicalizeURI b = Inr c"
    by (auto simp: uriCovers_def split: sum.splits)
  with assms that show thesis by (auto simp: uriCovers_canonical)
qed

lemma uriCovers_spec_eq:
  "uriCovers parent child =
     (case (canonicalizeURI parent, canonicalizeURI child) of
        (Inr p, Inr c) \<Rightarrow> coversSpec p c | _ \<Rightarrow> False)"
  by (auto simp: uriCovers_canonical split: sum.splits) (auto simp: uriCovers_def)

subsection \<open>Properties\<close>

text \<open>Canonicalization of capability URIs is idempotent: canonical input maps to
  itself, so a \<open>with\<close> or a caveat resource that has been canonicalized once passes
  the canonical-form test of \<open>Validate\<close> from then on.\<close>

theorem canonicalizeURI_idempotent:
  assumes "canonicalizeURI raw = Inr c"
  shows "canonicalizeURI c = Inr c"
  using assms by (rule canonicalizeURI_fixed)

theorem canonicalizeURI_idempotent_witness:
  "canonicalizeURI ''HTTPS://Ex.COM:0443/%7Ea/%2a'' = Inr ''https://ex.com/~a/%2A''
   \<and> canonicalizeURI ''https://ex.com/~a/%2A'' = Inr ''https://ex.com/~a/%2A''"
proof -
  have h: "canonicalizeURI ''HTTPS://Ex.COM:0443/%7Ea/%2a'' = Inr ''https://ex.com/~a/%2A''"
    by code_simp
  show ?thesis using h canonicalizeURI_idempotent [OF h] by simp
qed

text \<open>C34: The coverage routine (two canonicalizations, an equality fast path, a split and
  a segment loop with early exits) computes the segment-wise specification on the
  canonical forms, and is false as soon as either URI has none (fail closed).\<close>

theorem uriCovers_implements_spec:
  "uriCovers parent child =
     (case (canonicalizeURI parent, canonicalizeURI child) of
        (Inr p, Inr c) \<Rightarrow> coversSpec p c | _ \<Rightarrow> False)"
  by (rule uriCovers_spec_eq)

text \<open>Coverage is transitive: a resource covered by a narrowed caveat is covered by
  whatever the caveat's own resource is covered by, so narrowing composes along a path.\<close>

theorem uriCovers_transitive:
  assumes "uriCovers a b" and "uriCovers b c"
  shows "uriCovers a c"
  using assms by (auto elim!: uriCoversD simp: uriCovers_canonical intro: coversSpec_trans)

theorem uriCovers_transitive_witness:
  "uriCovers ''tool://x/*/*'' ''tool://x/a/*'' \<and> uriCovers ''tool://x/a/*'' ''tool://x/a/b''
   \<and> uriCovers ''tool://x/*/*'' ''tool://x/a/b''"
proof -
  have 1: "uriCovers ''tool://x/*/*'' ''tool://x/a/*''" by code_simp
  have 2: "uriCovers ''tool://x/a/*'' ''tool://x/a/b''" by code_simp
  show ?thesis using 1 2 uriCovers_transitive [OF 1 2] by simp
qed

text \<open>Two URIs that cover each other have the same canonical form, so coverage is an
  order on canonical URIs and no two distinct grants are mutually broader.\<close>

theorem uriCovers_antisymmetric:
  assumes "uriCovers a b" and "uriCovers b a"
  shows "canonicalizeURI a = canonicalizeURI b"
  using assms by (auto elim!: uriCoversD intro: coversSpec_antisym)

theorem uriCovers_antisymmetric_witness:
  "uriCovers ''tool://X/*'' ''TOOL://x/*'' \<and> uriCovers ''TOOL://x/*'' ''tool://X/*''
   \<and> canonicalizeURI ''tool://X/*'' = canonicalizeURI ''TOOL://x/*''"
proof -
  have 1: "uriCovers ''tool://X/*'' ''TOOL://x/*''" by code_simp
  have 2: "uriCovers ''TOOL://x/*'' ''tool://X/*''" by code_simp
  show ?thesis using 1 2 uriCovers_antisymmetric [OF 1 2] by simp
qed

text \<open>A finding about the scheme test: it runs on the lower-cased scheme, so a scheme
  written with U+212A (KELVIN SIGN), which is not ASCII, is accepted as \<open>k\<close>.\<close>

lemma canonicalScheme_accepts_kelvin_sign:
  "canonicalizeURI ([CHR 0xE2, CHR 0x84, CHR 0xAA] @ ''://host/a'') = Inr ''k://host/a''"
  by code_simp

end
