(* ===== verification/Json_Struct.thy ===== *)
theory Json_Struct
  imports JCS_Canonical
begin

text \<open>
  \<open>json.Unmarshal\<close> into a struct, field by field.  A member belongs to the field of exactly
  its name, or else to the field whose name it folds to (\<open>encoding/json\<close> matches field names
  without regard to case).  The members of one field are applied in document order;
  \<open>null\<close> leaves a string or a number as it is; a value of the wrong kind is an error of the
  whole call.  All field names of the source are lower case ASCII.
\<close>

fun fold_name :: "string \<Rightarrow> string" where
  "fold_name [] = []"
| "fold_name (c # cs) =
     (if byte c = 0xE2 \<and> take 2 cs = [CHR 0x84, CHR 0xAA] then CHR ''k'' # fold_name (drop 2 cs)
      else if byte c = 0xC5 \<and> take 1 cs = [CHR 0xBF] then CHR ''s'' # fold_name (drop 1 cs)
      else ascii_lower c # fold_name cs)"

definition field_values :: "string list \<Rightarrow> string \<Rightarrow> (string \<times> json) list \<Rightarrow> json list" where
  "field_values names name ms =
     map snd (filter (\<lambda>m. fst m = name \<or> (fst m \<notin> set names \<and> fold_name (fst m) = name)) ms)"

definition field :: "(json \<Rightarrow> 'a \<Rightarrow> 'a option) \<Rightarrow> 'a \<Rightarrow> string list \<Rightarrow> (string \<times> json) list \<Rightarrow> string \<Rightarrow> 'a option" where
  "field dec zero names ms name =
     foldl (\<lambda>r v. Option.bind r (dec v)) (Some zero) (field_values names name ms)"

fun dec_string :: "json \<Rightarrow> string \<Rightarrow> string option" where
  "dec_string (JStr s) old = Some s"
| "dec_string JNull old = Some old"
| "dec_string _ old = None"

fun dec_int64 :: "json \<Rightarrow> i64 \<Rightarrow> i64 option" where
  "dec_int64 (JNum n) old = map_option word_of_int (atoi n)"
| "dec_int64 JNull old = Some old"
| "dec_int64 _ old = None"

text \<open>Slices: \<open>null\<close> gives the nil slice, which the source never tells from the empty one.\<close>

fun those_map :: "('a \<Rightarrow> 'b option) \<Rightarrow> 'a list \<Rightarrow> 'b list option" where
  "those_map f [] = Some []"
| "those_map f (x # xs) =
     (case f x of None \<Rightarrow> None | Some y \<Rightarrow> map_option ((#) y) (those_map f xs))"

definition dec_list :: "(json \<Rightarrow> 'a option) \<Rightarrow> json \<Rightarrow> 'a list \<Rightarrow> 'a list option" where
  "dec_list dec v old = (case v of JArr vs \<Rightarrow> those_map dec vs | JNull \<Rightarrow> Some [] | _ \<Rightarrow> None)"

definition dec_strings :: "json \<Rightarrow> string list \<Rightarrow> string list option" where
  "dec_strings = dec_list (\<lambda>v. dec_string v [])"

text \<open>A top-level struct: an object's members, or nothing for \<open>null\<close>.\<close>

fun struct_members :: "json \<Rightarrow> (string \<times> json) list option" where
  "struct_members (JObj ms) = Some ms"
| "struct_members JNull = Some []"
| "struct_members _ = None"

definition json_int :: "i64 \<Rightarrow> json" where
  "json_int n = JNum (itoa (sint n))"

definition json_strings :: "string list \<Rightarrow> json" where
  "json_strings ss = JArr (map JStr ss)"

subsection \<open>Decoding what was encoded\<close>

lemma field_exact:
  assumes "distinct (map fst ms)" and "(name, v) \<in> set ms" and "fst ` set ms \<subseteq> set names"
  shows "field dec zero names ms name = dec v zero"
proof -
  have "filter (\<lambda>m. fst m = name \<or> (fst m \<notin> set names \<and> fold_name (fst m) = name)) ms
      = filter (\<lambda>m. fst m = name) ms"
    using assms(3) by (intro filter_cong) auto
  also have "\<dots> = [(name, v)]"
    using assms(1,2)
  proof (induction ms)
    case (Cons m ms)
    show ?case
    proof (cases "m = (name, v)")
      case True
      with Cons.prems have "filter (\<lambda>m. fst m = name) ms = []"
        by (auto simp: filter_empty_conv)
      with True show ?thesis by simp
    next
      case False
      with Cons.prems have "(name, v) \<in> set ms" by auto
      moreover from this have "name \<in> set (map fst ms)" by force
      then have "fst m \<noteq> name" using Cons.prems(1) by auto
      ultimately have "(name, v) \<in> set ms" "fst m \<noteq> name" by blast+
      with Cons show ?thesis by simp
    qed
  qed simp
  finally show ?thesis by (simp add: field_def field_values_def)
qed

lemma field_absent:
  assumes "name \<notin> fst ` set ms" and "fst ` set ms \<subseteq> set names"
  shows "field dec zero names ms name = Some zero"
proof -
  have "filter (\<lambda>m. fst m = name \<or> (fst m \<notin> set names \<and> fold_name (fst m) = name)) ms = []"
    using assms by (auto simp: filter_empty_conv)
  then show ?thesis by (simp add: field_def field_values_def)
qed

text \<open>The decimal text of an integer is a canonical JSON number.\<close>

lemma atoi_itoa_int64:
  assumes "- (2 ^ 63) \<le> n" and "n < 2 ^ 63"
  shows "atoi (itoa n) = Some n"
proof (cases "n < 0")
  case True
  have d: "list_all is_digit (nat_digits (- n))" "nat_digits (- n) \<noteq> []" "digits_val (nat_digits (- n)) = - n"
    using True nat_digits_digits [of "- n"] digits_val_nat_digits [of "- n"] by simp_all
  then show ?thesis using True assms by (simp add: atoi_def itoa_def)
next
  case False
  then show ?thesis using assms by (intro atoi_itoa) simp_all
qed

lemma nat_digits_hd: "0 < n \<Longrightarrow> hd (nat_digits n) \<noteq> CHR ''0''"
proof (induction n rule: nat_digits.induct)
  case (1 n)
  show ?case
  proof (cases "n < 10")
    case True
    have "byte (char_of (48 + n)) = 48 + n" using True 1(2) by (simp add: byte_char_of)
    then show ?thesis using True 1(2) by (auto simp: nat_digits.simps [of n])
  next
    case False
    then have "hd (nat_digits (n div 10)) \<noteq> CHR ''0''" by (intro 1(1)) simp_all
    moreover have "nat_digits (n div 10) \<noteq> []" using nat_digits_digits [of "n div 10"] False by simp
    ultimately show ?thesis using False by (simp add: nat_digits.simps [of n])
  qed
qed

lemma span_digits_all_digits: "list_all is_digit ds \<Longrightarrow> span_digits ds = (ds, [])"
  by (induction ds) auto

lemma scan_integer_nat_digits:
  assumes "0 \<le> n"
  shows "scan_integer (nat_digits n) = Some (nat_digits n, [])"
proof (cases "n = 0")
  case True
  have "nat_digits 0 = ''0''" by code_simp
  with True show ?thesis by (simp add: scan_integer_def)
next
  case False
  from nat_digits_digits [OF assms] obtain c cs where c: "nat_digits n = c # cs" "list_all is_digit (c # cs)"
    by (cases "nat_digits n") auto
  with nat_digits_hd [of n] False assms span_digits_all_digits [OF c(2)] show ?thesis
    by (simp add: scan_integer_def)
qed

lemma number_ok_itoa [simp]: "number_ok (itoa n)"
proof (cases "n < 0")
  case True
  then show ?thesis using scan_integer_nat_digits [of "- n"]
    by (simp add: number_ok_def itoa_def scan_number_def scan_fraction_def scan_exponent_def)
next
  case False
  have "\<not> has_prefix (nat_digits n) ''-''"
    using False nat_digits_digits [of n] by (cases "nat_digits n") auto
  then show ?thesis using False scan_integer_nat_digits [of n]
    by (simp add: number_ok_def itoa_def scan_number_def scan_fraction_def scan_exponent_def)
qed

lemma itoa_not_negative_zero [simp]: "itoa n \<noteq> ''-0''"
proof (cases "n < 0")
  case True
  then show ?thesis using nat_digits_hd [of "- n"] by (auto simp: itoa_def)
next
  case False
  then show ?thesis using nat_digits_digits [of n] by (auto simp: itoa_def)
qed

lemma writeNumber_itoa [simp]: "writeNumber (itoa n) = Inr (itoa n)"
proof -
  have d: "list_all is_digit (nat_digits m) " if "0 \<le> m" for m
    using nat_digits_digits [OF that] by blast
  have e: "\<not> list_ex (\<lambda>c. c = CHR ''.'' \<or> c = CHR ''e'' \<or> c = CHR ''E'') xs" if "list_all is_digit xs" for xs
    using that by (auto simp: list_all_iff list_ex_iff)
  have "\<not> list_ex (\<lambda>c. c = CHR ''.'' \<or> c = CHR ''e'' \<or> c = CHR ''E'') (itoa n)"
    using e [OF d, of n] e [OF d, of "- n"] by (auto simp: itoa_def)
  then show ?thesis by (simp add: writeNumber_def)
qed

lemma those_map_Some [simp]: "those_map f (map g xs) = Some xs" if "\<And>x. x \<in> set xs \<Longrightarrow> f (g x) = Some x"
  using that by (induction xs) auto

lemma dec_int64_json_int [simp]: "dec_int64 (json_int n) old = Some n"
proof -
  have "- (2 ^ 63) \<le> sint n" "sint n < 2 ^ 63"
    using sint_greater_eq [of n] sint_less [of n] by simp_all
  then show ?thesis by (simp add: json_int_def atoi_itoa_int64)
qed

lemma dec_strings_json [simp]: "dec_strings (json_strings ss) old = Some ss"
  by (simp add: dec_strings_def dec_list_def json_strings_def)

lemma json_int_ok [simp]: "wf_json (json_int n)" "canonical_ok (json_int n)" "normal (json_int n) = json_int n"
proof -
  show "wf_json (json_int n)" "canonical_ok (json_int n)" by (simp_all add: json_int_def)
  show "normal (json_int n) = json_int n" by (simp add: json_int_def)
qed

lemma json_strings_ok [simp]:
  "wf_json (json_strings ss) \<longleftrightarrow> (\<forall>s \<in> set ss. utf8_valid s)" "canonical_ok (json_strings ss)"
  "normal (json_strings ss) = json_strings ss"
  by (auto simp: json_strings_def)

text \<open>Decoded texts are valid UTF-8, as the decoder replaces what is not.\<close>

lemma struct_members_wf: "wf_json v \<Longrightarrow> struct_members v = Some ms \<Longrightarrow> \<forall>m \<in> set ms. wf_json (snd m)"
  by (cases v) auto

lemma field_dec_string_valid:
  assumes "field dec_string z names ms n = Some x" and "\<forall>m \<in> set ms. wf_json (snd m)" and "utf8_valid z"
  shows "utf8_valid x"
proof -
  have "foldl (\<lambda>r v. Option.bind r (dec_string v)) (Some z) vs = Some x \<Longrightarrow> \<forall>v \<in> set vs. wf_json v \<Longrightarrow> utf8_valid z \<Longrightarrow> utf8_valid x" for vs
  proof (induction vs arbitrary: z)
    case (Cons v vs)
    have none: "foldl (\<lambda>r v. Option.bind r (dec_string v)) None vs = None" by (induction vs) auto
    from Cons none show ?case by (cases v) auto
  qed simp
  then show ?thesis using assms by (auto simp: field_def field_values_def)
qed

end
