(* ===== verification/Capability.thy ===== *)
theory Capability
  imports Capability_URI Json_Struct
begin

text \<open>
  The capabilities and constraints of \<open>capability.go\<close> and the caveat types of
  \<open>restrict.go\<close>: their structure, validation and JSON form.  Every concrete constraint
  keeps its \<open>type\<close> member (the first argument of its constructor).  A \<open>json.RawMessage\<close> is
  the document it spells, \<open>None\<close> when it is empty; \<open>NilConstraint\<close> is the nil interface value,
  which only a caller inside the process can put in a list.
\<close>

subsection \<open>Abilities and constraint types\<close>

definition CanToolInvoke :: string where "CanToolInvoke = ''tool/invoke''"
definition CanResourceRead :: string where "CanResourceRead = ''resource/read''"
definition CanResourceWrite :: string where "CanResourceWrite = ''resource/write''"
definition CanAgentDelegate :: string where "CanAgentDelegate = ''agent/delegate''"
definition CanAPICall :: string where "CanAPICall = ''api/call''"

definition knownCapabilityTypes :: "string list" where
  "knownCapabilityTypes =
     [CanToolInvoke, CanResourceRead, CanResourceWrite, CanAgentDelegate, CanAPICall]"

definition ValidCapabilityType :: "string \<Rightarrow> bool" where
  "ValidCapabilityType can \<longleftrightarrow> List.member knownCapabilityTypes can"

definition ConstraintTimeWindow :: string where "ConstraintTimeWindow = ''time_window''"
definition ConstraintBudget :: string where "ConstraintBudget = ''budget''"
definition ConstraintParamLimit :: string where "ConstraintParamLimit = ''param_limit''"
definition ConstraintParameterSchema :: string where "ConstraintParameterSchema = ''parameter_schema''"
definition ConstraintResourceRestrict :: string where "ConstraintResourceRestrict = ''resource_restrict''"
definition ConstraintActionRestrict :: string where "ConstraintActionRestrict = ''action_restrict''"
definition ConstraintMethodRestrict :: string where "ConstraintMethodRestrict = ''method_restrict''"
definition ConstraintMaxCalls :: string where "ConstraintMaxCalls = ''max_calls''"
definition ConstraintDelegationDepth :: string where "ConstraintDelegationDepth = ''delegation_depth''"

lemmas constraint_type_defs =
  ConstraintTimeWindow_def ConstraintBudget_def ConstraintParamLimit_def ConstraintParameterSchema_def
  ConstraintResourceRestrict_def ConstraintActionRestrict_def ConstraintMethodRestrict_def
  ConstraintMaxCalls_def ConstraintDelegationDepth_def

subsection \<open>Constraints\<close>

record time_window =
  Start :: i64
  End :: i64

datatype constraint =
    TimeWindowConstraint string time_window
  | BudgetConstraint string (budget_dim: string) (budget_limit: i64)
      (budget_window: "time_window option") (budget_scope: string) (budget_meter: string)
  | ParamLimitConstraint string (limit_field: string) (limit_max: i64)
  | ParameterSchemaConstraint string (schema_doc: "json option")
  | RawConstraint (raw_type: string) (raw_doc: "json option")
  | ResourceRestrictConstraint string (restrict_resource: string)
  | ActionRestrictConstraint string (restrict_actions: "string list")
  | MethodRestrictConstraint string (restrict_methods: "string list")
  | MaxCallsConstraint string (calls_limit: i64) (calls_window: "time_window option")
  | DelegationDepthConstraint string (depth_max: i64)
  | NilConstraint

fun Kind :: "constraint \<Rightarrow> string" where
  "Kind (TimeWindowConstraint _ _) = ConstraintTimeWindow"
| "Kind (BudgetConstraint _ _ _ _ _ _) = ConstraintBudget"
| "Kind (ParamLimitConstraint _ _ _) = ConstraintParamLimit"
| "Kind (ParameterSchemaConstraint _ _) = ConstraintParameterSchema"
| "Kind (RawConstraint t _) = t"
| "Kind (ResourceRestrictConstraint _ _) = ConstraintResourceRestrict"
| "Kind (ActionRestrictConstraint _ _) = ConstraintActionRestrict"
| "Kind (MethodRestrictConstraint _ _) = ConstraintMethodRestrict"
| "Kind (MaxCallsConstraint _ _ _) = ConstraintMaxCalls"
| "Kind (DelegationDepthConstraint _ _) = ConstraintDelegationDepth"
| "Kind NilConstraint = []"

definition TimeWindow_Validate :: "time_window \<Rightarrow> cred_error + unit" where
  "TimeWindow_Validate w =
     (if slt (Start w) 0 \<or> slt (End w) 0 then Inl ErrInvalidConstraint
      else if sle (End w) (Start w) then Inl ErrInvalidConstraint
      else Inr ())"

definition window_Validate :: "time_window option \<Rightarrow> cred_error + unit" where
  "window_Validate w = (case w of None \<Rightarrow> Inr () | Some x \<Rightarrow> TimeWindow_Validate x)"

text \<open>\<open>Validate\<close> of each constraint type, then its dispatch through the interface.\<close>

definition TimeWindowConstraint_Validate :: "string \<Rightarrow> time_window \<Rightarrow> cred_error + unit" where
  [simp]: "TimeWindowConstraint_Validate t w =
     (if t \<noteq> ConstraintTimeWindow then Inl ErrInvalidConstraint else TimeWindow_Validate w)"

definition BudgetConstraint_Validate ::
    "string \<Rightarrow> string \<Rightarrow> i64 \<Rightarrow> time_window option \<Rightarrow> string \<Rightarrow> string \<Rightarrow> cred_error + unit" where
  [simp]: "BudgetConstraint_Validate t d limit window scope meter =
     (if t \<noteq> ConstraintBudget then Inl ErrInvalidConstraint
      else if d = [] then Inl ErrInvalidConstraint
      else if slt limit 0 then Inl ErrInvalidConstraint
      else if scope \<noteq> ''leaf'' \<and> scope \<noteq> ''chain'' then Inl ErrInvalidConstraint
      else if meter \<noteq> ''verifier'' \<and> meter \<noteq> ''receipts'' then Inl ErrInvalidConstraint
      else window_Validate window)"

definition ParamLimitConstraint_Validate :: "string \<Rightarrow> string \<Rightarrow> i64 \<Rightarrow> cred_error + unit" where
  [simp]: "ParamLimitConstraint_Validate t f m =
     (if t \<noteq> ConstraintParamLimit then Inl ErrInvalidConstraint
      else if f = [] then Inl ErrInvalidConstraint
      else if slt m 0 then Inl ErrInvalidConstraint
      else Inr ())"

definition ParameterSchemaConstraint_Validate :: "string \<Rightarrow> json option \<Rightarrow> cred_error + unit" where
  [simp]: "ParameterSchemaConstraint_Validate t s =
     (if t \<noteq> ConstraintParameterSchema then Inl ErrInvalidConstraint
      else case s of
        None \<Rightarrow> Inl ErrInvalidConstraint
      | Some v \<Rightarrow> mapErr (\<lambda>_. ErrInvalidConstraint) (ValidateIJSON (json_marshal v)))"

definition RawConstraint_Validate :: "string \<Rightarrow> cred_error + unit" where
  [simp]: "RawConstraint_Validate t = (if t = [] then Inl ErrInvalidConstraint else Inr ())"

definition ResourceRestrictConstraint_Validate :: "string \<Rightarrow> string \<Rightarrow> cred_error + unit" where
  [simp]: "ResourceRestrictConstraint_Validate t r =
     (if t \<noteq> ConstraintResourceRestrict then Inl ErrInvalidConstraint
      else bindE (mapErr (\<lambda>_. ErrInvalidConstraint) (canonicalizeURI r)) (\<lambda>canonical.
        if canonical \<noteq> r then Inl ErrInvalidConstraint else Inr ()))"

definition ActionRestrictConstraint_Validate :: "string \<Rightarrow> string list \<Rightarrow> cred_error + unit" where
  [simp]: "ActionRestrictConstraint_Validate t as =
     (if t \<noteq> ConstraintActionRestrict then Inl ErrInvalidConstraint
      else if as = [] then Inl ErrInvalidConstraint
      else iterE (\<lambda>a. if \<not> ValidCapabilityType a then Inl ErrInvalidConstraint else Inr ()) as)"

definition MethodRestrictConstraint_Validate :: "string \<Rightarrow> string list \<Rightarrow> cred_error + unit" where
  [simp]: "MethodRestrictConstraint_Validate t ms =
     (if t \<noteq> ConstraintMethodRestrict then Inl ErrInvalidConstraint
      else if ms = [] then Inl ErrInvalidConstraint
      else Inr ())"

definition MaxCallsConstraint_Validate :: "string \<Rightarrow> i64 \<Rightarrow> time_window option \<Rightarrow> cred_error + unit" where
  [simp]: "MaxCallsConstraint_Validate t limit window =
     (if t \<noteq> ConstraintMaxCalls then Inl ErrInvalidConstraint
      else if slt limit 0 then Inl ErrInvalidConstraint
      else window_Validate window)"

definition DelegationDepthConstraint_Validate :: "string \<Rightarrow> i64 \<Rightarrow> cred_error + unit" where
  [simp]: "DelegationDepthConstraint_Validate t m =
     (if t \<noteq> ConstraintDelegationDepth then Inl ErrInvalidConstraint
      else if slt m 0 then Inl ErrInvalidConstraint
      else Inr ())"

fun Validate :: "constraint \<Rightarrow> cred_error + unit" where
  "Validate (TimeWindowConstraint t w) = TimeWindowConstraint_Validate t w"
| "Validate (BudgetConstraint t d limit window scope meter) =
     BudgetConstraint_Validate t d limit window scope meter"
| "Validate (ParamLimitConstraint t f m) = ParamLimitConstraint_Validate t f m"
| "Validate (ParameterSchemaConstraint t s) = ParameterSchemaConstraint_Validate t s"
| "Validate (RawConstraint t r) = RawConstraint_Validate t"
| "Validate (ResourceRestrictConstraint t r) = ResourceRestrictConstraint_Validate t r"
| "Validate (ActionRestrictConstraint t as) = ActionRestrictConstraint_Validate t as"
| "Validate (MethodRestrictConstraint t ms) = MethodRestrictConstraint_Validate t ms"
| "Validate (MaxCallsConstraint t limit window) = MaxCallsConstraint_Validate t limit window"
| "Validate (DelegationDepthConstraint t m) = DelegationDepthConstraint_Validate t m"
| "Validate NilConstraint = Inl ErrInvalidConstraint"

definition Permits :: "string list \<Rightarrow> string \<Rightarrow> bool" where
  "Permits actions action \<longleftrightarrow> list_ex (\<lambda>a. a = action) actions"

subsection \<open>JSON form of constraints\<close>

definition window_json :: "time_window option \<Rightarrow> json" where
  "window_json w = (case w of None \<Rightarrow> JNull
     | Some x \<Rightarrow> JObj [(''start'', json_int (Start x)), (''end'', json_int (End x))])"

text \<open>\<open>json.Marshal\<close> of one constraint; an empty raw constraint is an error.\<close>

fun marshalConstraint :: "constraint \<Rightarrow> json option" where
  "marshalConstraint (TimeWindowConstraint t w) =
     Some (JObj [(''type'', JStr t), (''start'', json_int (Start w)), (''end'', json_int (End w))])"
| "marshalConstraint (BudgetConstraint t d limit window scope meter) =
     Some (JObj [(''type'', JStr t), (''dim'', JStr d), (''limit'', json_int limit),
       (''window'', window_json window), (''scope'', JStr scope), (''meter'', JStr meter)])"
| "marshalConstraint (ParamLimitConstraint t f m) =
     Some (JObj [(''type'', JStr t), (''field'', JStr f), (''max'', json_int m)])"
| "marshalConstraint (ParameterSchemaConstraint t s) =
     Some (JObj [(''type'', JStr t), (''schema'', case s of None \<Rightarrow> JNull | Some v \<Rightarrow> v)])"
| "marshalConstraint (RawConstraint t r) = r"
| "marshalConstraint (ResourceRestrictConstraint t r) =
     Some (JObj [(''type'', JStr t), (''resource'', JStr r)])"
| "marshalConstraint (ActionRestrictConstraint t as) =
     Some (JObj [(''type'', JStr t), (''actions'', json_strings as)])"
| "marshalConstraint (MethodRestrictConstraint t ms) =
     Some (JObj [(''type'', JStr t), (''methods'', json_strings ms)])"
| "marshalConstraint (MaxCallsConstraint t limit window) =
     Some (JObj [(''type'', JStr t), (''limit'', json_int limit), (''window'', window_json window)])"
| "marshalConstraint (DelegationDepthConstraint t m) =
     Some (JObj [(''type'', JStr t), (''max'', json_int m)])"
| "marshalConstraint NilConstraint = Some JNull"

definition marshalConstraints :: "constraint list \<Rightarrow> json option" where
  "marshalConstraints cs =
     (if cs = [] then Some (JArr []) else map_option JArr (those_map marshalConstraint cs))"

definition window_names :: "string list" where "window_names = [''start'', ''end'']"

definition dec_window :: "json \<Rightarrow> time_window option \<Rightarrow> time_window option option" where
  "dec_window v old =
     (case v of
        JNull \<Rightarrow> Some None
      | JObj ms \<Rightarrow>
          (case (field dec_int64 (case old of None \<Rightarrow> 0 | Some w \<Rightarrow> Start w) window_names ms ''start'',
                 field dec_int64 (case old of None \<Rightarrow> 0 | Some w \<Rightarrow> End w) window_names ms ''end'') of
             (Some s, Some e) \<Rightarrow> Some (Some \<lparr>Start = s, End = e\<rparr>) | _ \<Rightarrow> None)
      | _ \<Rightarrow> None)"

definition dec_raw :: "json \<Rightarrow> json option \<Rightarrow> json option option" where
  "dec_raw v old = Some (Some v)"

definition unmarshalConstraint :: "json \<Rightarrow> constraint option" where
  "unmarshalConstraint v =
     (case struct_members v of
        None \<Rightarrow> None
      | Some ms \<Rightarrow>
        (let str = (\<lambda>names name. field dec_string [] names ms name);
             strs = (\<lambda>names name. field dec_strings [] names ms name);
             int = (\<lambda>names name. field dec_int64 0 names ms name);
             win = (\<lambda>names name. field dec_window None names ms name)
         in case str [''type''] ''type'' of
              None \<Rightarrow> None
            | Some t \<Rightarrow>
                if t = ConstraintTimeWindow then
                  (let ns = [''type'', ''start'', ''end''] in
                   case (str ns ''type'', int ns ''start'', int ns ''end'') of
                     (Some ty, Some s, Some e) \<Rightarrow> Some (TimeWindowConstraint ty \<lparr>Start = s, End = e\<rparr>)
                   | _ \<Rightarrow> None)
                else if t = ConstraintBudget then
                  (let ns = [''type'', ''dim'', ''limit'', ''window'', ''scope'', ''meter''] in
                   case (str ns ''type'', str ns ''dim'', int ns ''limit'', win ns ''window'',
                         str ns ''scope'', str ns ''meter'') of
                     (Some ty, Some d, Some l, Some w, Some sc, Some me) \<Rightarrow> Some (BudgetConstraint ty d l w sc me)
                   | _ \<Rightarrow> None)
                else if t = ConstraintParamLimit then
                  (let ns = [''type'', ''field'', ''max''] in
                   case (str ns ''type'', str ns ''field'', int ns ''max'') of
                     (Some ty, Some f, Some m) \<Rightarrow> Some (ParamLimitConstraint ty f m) | _ \<Rightarrow> None)
                else if t = ConstraintParameterSchema then
                  (let ns = [''type'', ''schema''] in
                   case (str ns ''type'', field dec_raw None ns ms ''schema'') of
                     (Some ty, Some s) \<Rightarrow> Some (ParameterSchemaConstraint ty s) | _ \<Rightarrow> None)
                else if t = ConstraintResourceRestrict then
                  (let ns = [''type'', ''resource''] in
                   case (str ns ''type'', str ns ''resource'') of
                     (Some ty, Some r) \<Rightarrow> Some (ResourceRestrictConstraint ty r) | _ \<Rightarrow> None)
                else if t = ConstraintMethodRestrict then
                  (let ns = [''type'', ''methods''] in
                   case (str ns ''type'', strs ns ''methods'') of
                     (Some ty, Some m) \<Rightarrow> Some (MethodRestrictConstraint ty m) | _ \<Rightarrow> None)
                else if t = ConstraintActionRestrict then
                  (let ns = [''type'', ''actions''] in
                   case (str ns ''type'', strs ns ''actions'') of
                     (Some ty, Some a) \<Rightarrow> Some (ActionRestrictConstraint ty a) | _ \<Rightarrow> None)
                else if t = ConstraintMaxCalls then
                  (let ns = [''type'', ''limit'', ''window''] in
                   case (str ns ''type'', int ns ''limit'', win ns ''window'') of
                     (Some ty, Some l, Some w) \<Rightarrow> Some (MaxCallsConstraint ty l w) | _ \<Rightarrow> None)
                else if t = ConstraintDelegationDepth then
                  (let ns = [''type'', ''max''] in
                   case (str ns ''type'', int ns ''max'') of
                     (Some ty, Some m) \<Rightarrow> Some (DelegationDepthConstraint ty m) | _ \<Rightarrow> None)
                else if t = [] then None
                else Some (RawConstraint t (Some v))))"

definition unmarshalConstraints :: "json \<Rightarrow> constraint list \<Rightarrow> constraint list option" where
  "unmarshalConstraints v old =
     (case v of JArr vs \<Rightarrow> those_map unmarshalConstraint vs | JNull \<Rightarrow> Some [] | _ \<Rightarrow> None)"

subsection \<open>Capabilities\<close>

record capability =
  Can :: string
  With :: string
  Constraints :: "constraint list"

definition Capability_Validate :: "capability \<Rightarrow> cred_error + unit" where
  "Capability_Validate c =
     (if \<not> ValidCapabilityType (Can c) then Inl ErrUnknownCapabilityType
      else bindE (canonicalizeURI (With c)) (\<lambda>canonical.
        if canonical \<noteq> With c then Inl ErrCapabilityNotCanonical
        else iterE Validate (Constraints c)))"

definition NewCapability :: "string \<Rightarrow> string \<Rightarrow> constraint list \<Rightarrow> cred_error + capability" where
  "NewCapability can wth constraints =
     bindE (canonicalizeURI wth) (\<lambda>canonical.
       let c = \<lparr>Can = can, With = canonical, Constraints = constraints\<rparr> in
       bindE (Capability_Validate c) (\<lambda>_. Inr c))"

text \<open>\<open>constraints\<close> is omitted when empty.\<close>

definition marshalCapability :: "capability \<Rightarrow> json option" where
  "marshalCapability c =
     (if Constraints c = [] then Some (JObj [(''can'', JStr (Can c)), (''with'', JStr (With c))])
      else map_option (\<lambda>cs. JObj [(''can'', JStr (Can c)), (''with'', JStr (With c)), (''constraints'', cs)])
             (marshalConstraints (Constraints c)))"

definition capability_names :: "string list" where
  "capability_names = [''can'', ''with'', ''constraints'']"

definition unmarshalCapability :: "json \<Rightarrow> capability option" where
  "unmarshalCapability v =
     (case struct_members v of
        None \<Rightarrow> None
      | Some ms \<Rightarrow>
          (case (field dec_string [] capability_names ms ''can'',
                 field dec_string [] capability_names ms ''with'',
                 field unmarshalConstraints [] capability_names ms ''constraints'') of
             (Some c, Some w, Some cs) \<Rightarrow> Some \<lparr>Can = c, With = w, Constraints = cs\<rparr>
           | _ \<Rightarrow> None))"

subsection \<open>Decoding what was encoded\<close>

lemma field_sort_by:
  assumes "length (field_values names name ms) \<le> 1"
  shows "field dec zero names (sort_by lt ms) name = field dec zero names ms name"
proof -
  let ?m = "\<lambda>m. fst m = name \<or> (fst m \<notin> set names \<and> fold_name (fst m) = name)"
  have "mset (map snd (filter ?m (sort_by lt ms))) = mset (map snd (filter ?m ms))"
    by simp
  then have "mset (field_values names name (sort_by lt ms)) = mset (field_values names name ms)"
    by (simp add: field_values_def)
  moreover have "xs = ys" if "mset xs = mset ys" "length ys \<le> 1" for xs ys :: "json list"
  proof (cases ys)
    case (Cons y zs)
    with that have "mset xs = {#y#}" "zs = []" by auto
    with Cons show ?thesis by (cases xs) auto
  qed (use that in simp)
  ultimately have "field_values names name (sort_by lt ms) = field_values names name ms"
    using assms by blast
  then show ?thesis by (simp add: field_def)
qed

lemma fold_name_literals [simp]:
  "fold_name ''type'' = ''type''" "fold_name ''start'' = ''start''" "fold_name ''end'' = ''end''"
  "fold_name ''dim'' = ''dim''" "fold_name ''limit'' = ''limit''" "fold_name ''window'' = ''window''"
  "fold_name ''scope'' = ''scope''" "fold_name ''meter'' = ''meter''" "fold_name ''field'' =
  ''field''" "fold_name ''max'' = ''max''" "fold_name ''schema'' = ''schema''" "fold_name ''resource''
  = ''resource''" "fold_name ''actions'' = ''actions''" "fold_name ''methods'' = ''methods''"
  "fold_name ''can'' = ''can''" "fold_name ''with'' = ''with''" "fold_name ''constraints'' =
  ''constraints''" "fold_name ''typ'' = ''typ''" "fold_name ''iss'' = ''iss''" "fold_name ''aud'' =
  ''aud''" "fold_name ''prf'' = ''prf''" "fold_name ''nbf'' = ''nbf''" "fold_name ''exp'' = ''exp''"
  "fold_name ''dl'' = ''dl''" "fold_name ''cav'' = ''cav''" "fold_name ''crit'' = ''crit''" "fold_name
  ''sig'' = ''sig''" "fold_name ''alg'' = ''alg''" "fold_name ''ucv'' = ''ucv''" "fold_name ''att'' =
  ''att''" "fold_name ''iat'' = ''iat''"
  by code_simp+

lemma field_list:
  assumes "length (field_values names name ms) \<le> 1"
  shows "field dec zero names ms name
     = (case field_values names name ms of [] \<Rightarrow> Some zero | v # _ \<Rightarrow> dec v zero)"
  unfolding field_def using assms by (cases "field_values names name ms") auto

lemma field_sorted:
  assumes "length (field_values names name ms) \<le> 1"
  shows "field dec zero names (sort_by lt ms) name
     = (case field_values names name ms of [] \<Rightarrow> Some zero | v # _ \<Rightarrow> dec v zero)"
  using field_sort_by [OF assms] field_list [OF assms] by metis

lemma field_values_Cons [simp]:
  "field_values names name [] = []"
  "field_values names name ((k, v) # ms) =
     (if k = name \<or> (k \<notin> set names \<and> fold_name k = name) then v # field_values names name ms
      else field_values names name ms)"
  by (simp_all add: field_values_def)

lemma dec_window_json [simp]: "dec_window (window_json w) old = Some w"
  by (cases w) (simp_all add: dec_window_def window_json_def field_list window_names_def)

lemma dec_window_normal [simp]: "dec_window (normal (window_json w)) old = Some w"
  by (cases w) (simp_all add: dec_window_def window_json_def field_sorted window_names_def)

text \<open>A raw constraint is consistent when its document is one that decodes to it.\<close>

fun raw_consistent :: "constraint \<Rightarrow> bool" where
  "raw_consistent (RawConstraint t r) =
     (case r of None \<Rightarrow> False | Some v \<Rightarrow> unmarshalConstraint (normal v) = Some (RawConstraint t (Some (normal v))))"
| "raw_consistent _ = True"

text \<open>Canonicalization of an enclosing object rewrites the documents kept raw.\<close>

fun normal_constraint :: "constraint \<Rightarrow> constraint" where
  "normal_constraint (RawConstraint t r) = RawConstraint t (map_option normal r)"
| "normal_constraint (ParameterSchemaConstraint t s) = ParameterSchemaConstraint t (map_option normal s)"
| "normal_constraint c = c"

lemma marshal_unmarshal_normal:
  assumes "Validate c = Inr ()" and "raw_consistent c"
  shows "\<exists>v. marshalConstraint c = Some v \<and> unmarshalConstraint (normal v) = Some (normal_constraint c)"
proof (cases c)
  case (RawConstraint t r)
  with assms(2) show ?thesis by (auto split: option.splits)
next
  case (ParameterSchemaConstraint t s)
  with assms(1) show ?thesis
    by (auto simp: unmarshalConstraint_def field_sorted constraint_type_defs dec_raw_def split: if_splits option.splits)
qed (use assms(1) in \<open>simp_all split: if_splits\<close>,
     simp_all add: unmarshalConstraint_def field_sorted constraint_type_defs)

lemma marshalConstraints_normal:
  assumes "\<forall>c \<in> set cs. Validate c = Inr () \<and> raw_consistent c"
  shows "\<exists>v. marshalConstraints cs = Some v
     \<and> (\<forall>old. unmarshalConstraints (normal v) old = Some (map normal_constraint cs))"
proof -
  have "\<exists>vs. those_map marshalConstraint cs = Some vs
      \<and> those_map unmarshalConstraint (map normal vs) = Some (map normal_constraint cs)"
    using assms
  proof (induction cs)
    case (Cons c cs)
    then obtain vs where vs: "those_map marshalConstraint cs = Some vs"
      "those_map unmarshalConstraint (map normal vs) = Some (map normal_constraint cs)" by auto
    from Cons.prems marshal_unmarshal_normal [of c] obtain v
      where "marshalConstraint c = Some v" "unmarshalConstraint (normal v) = Some (normal_constraint c)" by auto
    with vs show ?case by (simp)
  qed simp
  then show ?thesis by (auto simp: marshalConstraints_def unmarshalConstraints_def)
qed

text \<open>The document of a constraint is one the canonicalizer accepts.\<close>

definition constraint_ok :: "constraint \<Rightarrow> bool" where
  "constraint_ok c \<longleftrightarrow> (case marshalConstraint c of None \<Rightarrow> False | Some v \<Rightarrow> wf_json v \<and> canonical_ok v)"

lemma marshalConstraints_ok:
  assumes "\<forall>c \<in> set cs. constraint_ok c" and "marshalConstraints cs = Some v"
  shows "wf_json v \<and> canonical_ok v"
proof -
  have "\<forall>w \<in> set vs. wf_json w \<and> canonical_ok w" if "those_map marshalConstraint cs = Some vs" for vs
    using assms(1) that by (induction cs arbitrary: vs) (auto simp: constraint_ok_def split: option.splits)
  with assms(2) show ?thesis by (auto simp: marshalConstraints_def split: if_splits)
qed

lemma capability_json_back:
  assumes "\<forall>con \<in> set (Constraints c). Validate con = Inr () \<and> raw_consistent con"
  shows "\<exists>v. marshalCapability c = Some v
     \<and> unmarshalCapability (normal v) = Some (c\<lparr>Constraints := map normal_constraint (Constraints c)\<rparr>)"
proof -
  from marshalConstraints_normal [OF assms] obtain v where "marshalConstraints (Constraints c) = Some v"
    "\<forall>old. unmarshalConstraints (normal v) old = Some (map normal_constraint (Constraints c))" by blast
  then show ?thesis
    by (cases c) (auto simp: marshalCapability_def unmarshalCapability_def field_sorted capability_names_def)
qed

subsection \<open>Properties\<close>

text \<open>A capability that passes validation survives the trip through JSON and
  canonicalization: decoding its canonical document gives the capability back, every
  constraint with its type and values, up to the member order of documents kept raw.\<close>

theorem Capability_JSON_roundtrip:
  assumes "Capability_Validate c = Inr ()" and "\<forall>con \<in> set (Constraints c). raw_consistent con"
  shows "\<exists>v. marshalCapability c = Some v
     \<and> unmarshalCapability (normal v) = Some (c\<lparr>Constraints := map normal_constraint (Constraints c)\<rparr>)"
  by (rule capability_json_back)
    (use assms in \<open>auto simp: Capability_Validate_def err_simps split: if_splits\<close>)

theorem Capability_JSON_roundtrip_witness:
  "\<exists>v. marshalCapability \<lparr>Can = ''tool/invoke'', With = ''tool://x/a'',
          Constraints = [MaxCallsConstraint ''max_calls'' 5 (Some \<lparr>Start = 1, End = 9\<rparr>)]\<rparr> = Some v
     \<and> unmarshalCapability (normal v) = Some \<lparr>Can = ''tool/invoke'', With = ''tool://x/a'',
          Constraints = [MaxCallsConstraint ''max_calls'' 5 (Some \<lparr>Start = 1, End = 9\<rparr>)]\<rparr>"
proof -
  let ?c = "\<lparr>Can = ''tool/invoke'', With = ''tool://x/a'',
     Constraints = [MaxCallsConstraint ''max_calls'' 5 (Some \<lparr>Start = 1, End = 9\<rparr>)]\<rparr>"
  have 1: "Capability_Validate ?c = Inr ()" by code_simp
  have 2: "\<forall>con \<in> set (Constraints ?c). raw_consistent con" by simp
  from Capability_JSON_roundtrip [OF 1 2] show ?thesis by simp
qed

text \<open>A new capability is valid, carries the canonical resource, and building it again
  from its own resource changes nothing.\<close>

theorem NewCapability_valid:
  assumes "NewCapability can w cs = Inr c"
  shows "Capability_Validate c = Inr () \<and> Can c = can \<and> Constraints c = cs
     \<and> canonicalizeURI w = Inr (With c) \<and> NewCapability can (With c) cs = Inr c"
proof -
  from assms obtain u where u: "canonicalizeURI w = Inr u" "c = \<lparr>Can = can, With = u, Constraints = cs\<rparr>"
    "Capability_Validate c = Inr ()"
    by (auto simp: NewCapability_def err_simps Let_def)
  with canonicalizeURI_fixed [OF u(1)] show ?thesis by (simp add: NewCapability_def)
qed

theorem NewCapability_valid_witness:
  "Capability_Validate \<lparr>Can = ''api/call'', With = ''https://a/b'', Constraints = []\<rparr> = Inr ()"
proof -
  have "NewCapability ''api/call'' ''HTTPS://A:443/b'' []
      = Inr \<lparr>Can = ''api/call'', With = ''https://a/b'', Constraints = []\<rparr>" by code_simp
  from NewCapability_valid [OF this] show ?thesis by simp
qed

end
