(* ===== verification/Restrict.thy ===== *)
theory Restrict
  imports CID Capability
begin

text \<open>
  \<open>internal/credential/restrict.go\<close>: RESTRICT blocks, the signed attenuation objects below
  the root of a chain: creation, parsing under the raw-bytes rule SD-6, signature, content
  identifier and the linkage rules against a parent.
\<close>

definition RestrictBlockTyp :: string where "RestrictBlockTyp = ''adtp/cav/1''"
definition MaxCaveatsPerBlock :: nat where "MaxCaveatsPerBlock = 50"

record restrict_block =
  blk_typ :: string
  blk_iss :: string
  blk_aud :: string
  blk_prf :: string
  blk_nbf :: i64
  blk_exp :: i64
  blk_dl :: i64
  blk_cav :: "constraint list"
  blk_crit :: "string list"
  blk_sig :: string

record delegation_parent =
  par_cid :: string
  par_aud :: string
  par_exp :: i64
  par_nbf :: i64
  par_dl :: i64

subsection \<open>JSON form\<close>

text \<open>The members below \<open>sig\<close>, in field order; \<open>crit\<close> is omitted when empty.\<close>

definition block_members :: "restrict_block \<Rightarrow> json \<Rightarrow> (string \<times> json) list" where
  "block_members b cav =
     [(''typ'', JStr (blk_typ b)), (''iss'', JStr (blk_iss b)), (''aud'', JStr (blk_aud b)),
      (''prf'', JStr (blk_prf b)), (''nbf'', json_int (blk_nbf b)), (''exp'', json_int (blk_exp b)),
      (''dl'', json_int (blk_dl b)), (''cav'', cav)]
     @ (if blk_crit b = [] then [] else [(''crit'', json_strings (blk_crit b))])"

definition block_json :: "restrict_block \<Rightarrow> json option" where
  "block_json b =
     map_option (\<lambda>cav. JObj (block_members b cav @ [(sigField, JStr (blk_sig b))]))
       (marshalConstraints (blk_cav b))"

definition block_names :: "string list" where
  "block_names = [''typ'', ''iss'', ''aud'', ''prf'', ''nbf'', ''exp'', ''dl'', ''cav'', ''crit'', ''sig'']"

definition unmarshalBlock :: "json \<Rightarrow> restrict_block option" where
  "unmarshalBlock v =
     (case struct_members v of
        None \<Rightarrow> None
      | Some ms \<Rightarrow>
         (let str = (\<lambda>n. field dec_string [] block_names ms n);
              int = (\<lambda>n. field dec_int64 0 block_names ms n)
          in case (str ''typ'', str ''iss'', str ''aud'', str ''prf'', int ''nbf'', int ''exp'', int ''dl'',
                   field unmarshalConstraints [] block_names ms ''cav'',
                   field dec_strings [] block_names ms ''crit'', str ''sig'') of
               (Some typ, Some iss, Some aud, Some prf, Some nbf, Some expiry, Some dl, Some cav,
                Some crit, Some sig) \<Rightarrow>
                 Some \<lparr>blk_typ = typ, blk_iss = iss, blk_aud = aud, blk_prf = prf, blk_nbf = nbf,
                   blk_exp = expiry, blk_dl = dl, blk_cav = cav, blk_crit = crit, blk_sig = sig\<rparr>
             | _ \<Rightarrow> None))"

text \<open>A marshalling failure (a raw constraint without a document) is wrapped with \<open>%w\<close>.\<close>

definition with_json :: "json option \<Rightarrow> (json \<Rightarrow> sign_error + 'a) \<Rightarrow> cred_error + 'a" where
  "with_json j f = (case j of None \<Rightarrow> Inl ErrInvalidConstraint | Some v \<Rightarrow> mapErr ErrSigning (f v))"

definition CanonicalBytes :: "restrict_block \<Rightarrow> cred_error + bytes" where
  "CanonicalBytes b = with_json (block_json b) CanonicalizeValue"

subsection \<open>Operations\<close>

definition CreateRestrictBlock ::
    "crypto \<Rightarrow> delegation_parent \<Rightarrow> string \<Rightarrow> i64 \<Rightarrow> constraint list \<Rightarrow> bytes
      \<Rightarrow> cred_error + (restrict_block \<times> bytes)" where
  "CreateRestrictBlock C parent audDID childDL caveats signerKey =
     (if length signerKey \<noteq> PrivateKeySize then Inl ErrInvalidKey
      else if par_cid parent = [] \<or> par_aud parent = [] then Inl ErrMissingField
      else if audDID = [] then Inl ErrMissingField
      else if length caveats = 0 then Inl ErrNoCaveats
      else if length caveats > MaxCaveatsPerBlock then Inl ErrTooManyCaveats
      else if sle (par_dl parent) childDL then Inl ErrDepthNotReduced
      else if slt childDL 0 then Inl ErrNegativeDepth
      else bindE (iterE Validate caveats) (\<lambda>_.
        let block = \<lparr>blk_typ = RestrictBlockTyp, blk_iss = par_aud parent, blk_aud = audDID,
              blk_prf = par_cid parent, blk_nbf = par_nbf parent, blk_exp = par_exp parent,
              blk_dl = childDL, blk_cav = caveats, blk_crit = [], blk_sig = []\<rparr>
        in bindE (with_json (block_json block) (\<lambda>v. Sign C v signerKey)) (\<lambda>sig.
           let signed = block\<lparr>blk_sig := EncodeSignature sig\<rparr>
           in bindE (CanonicalBytes signed) (\<lambda>raw. Inr (signed, raw)))))"

definition ParseRestrictBlock :: "bytes \<Rightarrow> cred_error + restrict_block" where
  "ParseRestrictBlock raw =
     bindE (mapErr (\<lambda>_. ErrNotRestrictBlock) (ValidateIJSON raw)) (\<lambda>_.
       case Option.bind (json_decode raw) unmarshalBlock of
         None \<Rightarrow> Inl ErrNotRestrictBlock
       | Some block \<Rightarrow>
           if blk_typ block \<noteq> RestrictBlockTyp then Inl ErrNotRestrictBlock
           else if blk_iss block = [] \<or> blk_aud block = [] \<or> blk_prf block = [] then Inl ErrMissingField
           else if blk_sig block = [] then Inl ErrMissingField
           else if slt (blk_dl block) 0 then Inl ErrNegativeDepth
           else bindE (mapErr (\<lambda>_. ErrNonCanonical) (CanonicalBytes block)) (\<lambda>canonical.
             if canonical \<noteq> raw then Inl ErrNonCanonical else Inr block))"

definition Block_Verify :: "crypto \<Rightarrow> restrict_block \<Rightarrow> bytes \<Rightarrow> cred_error + unit" where
  "Block_Verify C b pub =
     bindE (mapErr ErrSigning (DecodeSignature (blk_sig b))) (\<lambda>sig.
       if length pub \<noteq> PublicKeySize then Inl (ErrSigning ErrInvalidPublicKey)
       else if length sig \<noteq> SignatureSize then Inl (ErrSigning ErrInvalidSignature)
       else with_json (block_json b) (\<lambda>v. Verify C v sig pub))"

definition Block_CID :: "crypto \<Rightarrow> restrict_block \<Rightarrow> cred_error + string" where
  "Block_CID C b = bindE (CanonicalBytes b) (\<lambda>raw. Inr (ComputeCID C raw))"

definition ValidateAgainstParent :: "restrict_block \<Rightarrow> delegation_parent \<Rightarrow> cred_error + unit" where
  "ValidateAgainstParent b parent =
     (if blk_iss b \<noteq> par_aud parent then Inl ErrIssuerMismatch
      else if blk_prf b \<noteq> par_cid parent then Inl ErrNotRestrictBlock
      else if slt (par_exp parent) (blk_exp b) then Inl ErrExpiryEscalation
      else if slt (blk_nbf b) (par_nbf parent) then Inl ErrNotBeforeRegression
      else if sle (par_dl parent) (blk_dl b) then Inl ErrDepthNotReduced
      else if length (blk_cav b) = 0 then Inl ErrNoCaveats
      else Inr ())"

subsection \<open>Lemmas\<close>

lemma with_json_Inr [err_simps]: "with_json j f = Inr x \<longleftrightarrow> (\<exists>v. j = Some v \<and> f v = Inr x)"
  by (auto simp: with_json_def err_simps split: option.splits)

definition caveat_ok :: "constraint \<Rightarrow> bool" where
  "caveat_ok c \<longleftrightarrow> Validate c = Inr () \<and> constraint_ok c \<and> raw_consistent c \<and> normal_constraint c = c"

definition block_ok :: "restrict_block \<Rightarrow> bool" where
  "block_ok b \<longleftrightarrow> utf8_valid (blk_typ b) \<and> utf8_valid (blk_iss b) \<and> utf8_valid (blk_aud b)
     \<and> utf8_valid (blk_prf b) \<and> utf8_valid (blk_sig b) \<and> (\<forall>s \<in> set (blk_crit b). utf8_valid s)
     \<and> (\<forall>c \<in> set (blk_cav b). caveat_ok c)"

lemma caveats_json:
  assumes "\<forall>c \<in> set cs. caveat_ok c"
  shows "\<exists>v. marshalConstraints cs = Some v \<and> wf_json v \<and> canonical_ok v
     \<and> (\<forall>old. unmarshalConstraints (normal v) old = Some cs)"
proof -
  have "map normal_constraint cs = cs" using assms by (simp add: caveat_ok_def map_idI)
  moreover have "\<forall>c \<in> set cs. Validate c = Inr () \<and> raw_consistent c" "\<forall>c \<in> set cs. constraint_ok c"
    using assms by (auto simp: caveat_ok_def)
  ultimately show ?thesis using marshalConstraints_normal [of cs] marshalConstraints_ok [of cs] by fastforce
qed

lemma literal_names_wf [simp]:
  "utf8_valid ''typ''" "utf8_valid ''iss''" "utf8_valid ''aud''" "utf8_valid ''prf''" "utf8_valid ''nbf''"
  "utf8_valid ''exp''" "utf8_valid ''dl''" "utf8_valid ''cav''" "utf8_valid ''crit''" "utf8_valid ''sig''"
  "utf8_valid ''alg''" "utf8_valid ''ucv''" "utf8_valid ''att''" "utf8_valid ''iat''"
  "utf8_valid ''can''" "utf8_valid ''with''" "utf8_valid ''constraints''"
  by code_simp+

lemma block_json_ok:
  assumes "block_ok b"
  shows "\<exists>ms. block_json b = Some (JObj (ms @ [(sigField, JStr (blk_sig b))]))
     \<and> wf_json (JObj ms) \<and> distinct (map fst ms) \<and> (\<forall>m \<in> set ms. fst m \<noteq> sigField)
     \<and> (\<forall>sig. utf8_valid sig \<longrightarrow> block_json (b\<lparr>blk_sig := sig\<rparr>) = Some (JObj (ms @ [(sigField, JStr sig)]))
         \<and> wf_json (JObj (ms @ [(sigField, JStr sig)])) \<and> canonical_ok (JObj (ms @ [(sigField, JStr sig)]))
         \<and> unmarshalBlock (normal (JObj (ms @ [(sigField, JStr sig)]))) = Some (b\<lparr>blk_sig := sig\<rparr>))"
proof -
  from assms caveats_json [of "blk_cav b"] obtain v where v: "marshalConstraints (blk_cav b) = Some v"
    "wf_json v" "canonical_ok v" "\<forall>old. unmarshalConstraints (normal v) old = Some (blk_cav b)"
    by (auto simp: block_ok_def)
  let ?ms = "block_members b v"
  have c: "json_strings (blk_crit b) = JArr (map JStr (blk_crit b))" by (simp add: json_strings_def)
  have wf: "wf_json (JObj ?ms)" "canonical_ok (JObj ?ms)" "distinct (map fst ?ms)" "\<forall>m \<in> set ?ms. fst m \<noteq> sigField"
    using assms v(2,3) by (auto simp: block_members_def block_ok_def sigField_def c)
  have "block_json (b\<lparr>blk_sig := sig\<rparr>) = Some (JObj (?ms @ [(sigField, JStr sig)]))" for sig
    using v(1) by (simp add: block_json_def block_members_def)
  moreover have "wf_json (JObj (?ms @ [(sigField, JStr sig)]))
      \<and> canonical_ok (JObj (?ms @ [(sigField, JStr sig)]))" if "utf8_valid sig" for sig
    using wf that by (auto simp: sigField_def)
  moreover have "unmarshalBlock (normal (JObj (?ms @ [(sigField, JStr sig)]))) = Some (b\<lparr>blk_sig := sig\<rparr>)" for sig
    using v(4) by (cases b)
      (simp add: unmarshalBlock_def block_members_def block_names_def field_sorted sigField_def)
  moreover have "block_json b = Some (JObj (?ms @ [(sigField, JStr (blk_sig b))]))"
    using v(1) by (simp add: block_json_def)
  ultimately show ?thesis using wf by blast
qed

lemma CanonicalBytes_json:
  assumes "block_json b = Some v" and "wf_json v"
  shows "CanonicalBytes b = Inr raw \<longleftrightarrow> canonical_ok v \<and> raw = write_tree (normal v)"
  using CanonicalizeValue_eq [OF assms(2)] by (auto simp: CanonicalBytes_def with_json_def assms(1) err_simps)

lemma block_json_signed:
  assumes "block_ok b"
  shows "\<exists>v. block_json b = Some v \<and> wf_json v \<and> canonical_ok v \<and> unmarshalBlock (normal v) = Some b"
proof -
  have "b\<lparr>blk_sig := blk_sig b\<rparr> = b" "utf8_valid (blk_sig b)" using assms by (simp_all add: block_ok_def)
  with block_json_ok [OF assms] show ?thesis by metis
qed

text \<open>A well-formed block parses back from its canonical bytes.\<close>

lemma Parse_CanonicalBytes:
  assumes "block_ok b" and "blk_typ b = RestrictBlockTyp" and "blk_iss b \<noteq> []" and "blk_aud b \<noteq> []"
    and "blk_prf b \<noteq> []" and "blk_sig b \<noteq> []" and "\<not> slt (blk_dl b) 0"
  shows "\<exists>raw. CanonicalBytes b = Inr raw \<and> ParseRestrictBlock raw = Inr b"
proof -
  from block_json_signed [OF assms(1)] obtain v where v: "block_json b = Some v" "wf_json v"
    "canonical_ok v" "unmarshalBlock (normal v) = Some b" by blast
  let ?raw = "write_tree (normal v)"
  have raw: "CanonicalBytes b = Inr ?raw" using CanonicalBytes_json [OF v(1,2)] v(3) by blast
  have c: "CanonicalizeValue v = Inr ?raw" using CanonicalizeValue_eq [OF v(2)] v(3) by blast
  then have "ValidateIJSON ?raw = Inr ()"
    using Canonicalize_fixed [of "json_marshal v"] by (simp add: ValidateIJSON_def CanonicalizeValue_def)
  moreover have "json_decode ?raw = Some (normal v)" by (rule CanonicalizeValue_decode [OF v(2) c])
  ultimately have "ParseRestrictBlock ?raw = Inr b"
    using v(4) raw assms(2-7) by (simp add: ParseRestrictBlock_def)
  with raw show ?thesis by blast
qed

lemma ParseRestrictBlockD:
  assumes "ParseRestrictBlock raw = Inr b"
  shows "CanonicalBytes b = Inr raw" "blk_typ b = RestrictBlockTyp" "blk_iss b \<noteq> []" "blk_aud b \<noteq> []"
    "blk_prf b \<noteq> []" "blk_sig b \<noteq> []" "\<not> slt (blk_dl b) 0"
  using assms by (auto simp: ParseRestrictBlock_def err_simps split: option.splits if_splits)

lemma CreateRestrictBlock_result:
  assumes "CreateRestrictBlock C parent aud dl cs key = Inr (b, raw)"
  shows "\<exists>sig. b = \<lparr>blk_typ = RestrictBlockTyp, blk_iss = par_aud parent, blk_aud = aud,
        blk_prf = par_cid parent, blk_nbf = par_nbf parent, blk_exp = par_exp parent,
        blk_dl = dl, blk_cav = cs, blk_crit = [], blk_sig = EncodeSignature sig\<rparr>
     \<and> with_json (block_json (b\<lparr>blk_sig := []\<rparr>)) (\<lambda>v. Sign C v key) = Inr sig
     \<and> CanonicalBytes b = Inr raw \<and> length key = PrivateKeySize \<and> par_cid parent \<noteq> [] \<and> par_aud parent \<noteq> []
     \<and> aud \<noteq> [] \<and> cs \<noteq> [] \<and> length cs \<le> 50 \<and> slt dl (par_dl parent) \<and> sle 0 dl
     \<and> (\<forall>c \<in> set cs. Validate c = Inr ())"
  using assms
  by (auto simp: CreateRestrictBlock_def err_simps Let_def MaxCaveatsPerBlock_def split: if_splits)

text \<open>The verdict on a block depends on its \<open>sig\<close> text only through the decoded signature.\<close>

lemma Block_Verify_sig:
  assumes "block_ok b" and "utf8_valid s" and "utf8_valid t" and "DecodeSignature s = DecodeSignature t"
  shows "Block_Verify C (b\<lparr>blk_sig := s\<rparr>) pub = Block_Verify C (b\<lparr>blk_sig := t\<rparr>) pub"
proof -
  from block_json_ok [OF assms(1)] obtain ms where ms: "wf_json (JObj ms)" "distinct (map fst ms)"
    "\<forall>m \<in> set ms. fst m \<noteq> sigField"
    "\<And>sig. utf8_valid sig \<Longrightarrow> block_json (b\<lparr>blk_sig := sig\<rparr>) = Some (JObj (ms @ [(sigField, JStr sig)]))"
    by blast
  have "SignatureInput (JObj (ms @ [(sigField, JStr s)])) = SignatureInput (JObj (ms @ [(sigField, JStr t)]))"
    using without_sig_input [OF ms(1,2) assms(2) ms(3)] without_sig_input [OF ms(1,2) assms(3) ms(3)] by simp
  then show ?thesis using assms(4)
    by (simp add: Block_Verify_def with_json_def ms(4) [OF assms(2)] ms(4) [OF assms(3)] Verify_def
      cong: if_cong)
qed

text \<open>Creation succeeds on every request that satisfies its documented preconditions.\<close>

lemma CreateRestrictBlock_succeeds:
  assumes "length key = PrivateKeySize" and "par_cid parent \<noteq> []" and "par_aud parent \<noteq> []" and "aud \<noteq> []"
    and "cs \<noteq> []" and "length cs \<le> MaxCaveatsPerBlock" and "slt dl (par_dl parent)" and "sle 0 dl"
    and "utf8_valid (par_cid parent)" and "utf8_valid (par_aud parent)" and "utf8_valid aud"
    and "\<forall>c \<in> set cs. caveat_ok c"
  shows "\<exists>b bytes. CreateRestrictBlock C parent aud dl cs key = Inr (b, bytes)"
proof -
  let ?b = "\<lparr>blk_typ = RestrictBlockTyp, blk_iss = par_aud parent, blk_aud = aud,
        blk_prf = par_cid parent, blk_nbf = par_nbf parent, blk_exp = par_exp parent,
        blk_dl = dl, blk_cav = cs, blk_crit = [], blk_sig = []\<rparr>"
  have "utf8_valid RestrictBlockTyp" by code_simp
  then have ok: "block_ok ?b" using assms by (simp add: block_ok_def)
  from block_json_signed [OF ok] obtain v where v: "block_json ?b = Some v" by blast
  from block_json_ok [OF ok] obtain ms where ms: "block_json ?b = Some (JObj (ms @ [(sigField, JStr [])]))"
    "wf_json (JObj ms)" "distinct (map fst ms)" "\<forall>m \<in> set ms. fst m \<noteq> sigField"
    "canonical_ok (JObj (ms @ [(sigField, JStr [])]))"
    by (metis utf8_valid_Nil restrict_block.select_convs(10))
  then have "canonical_ok (without_sig ms)" by (auto simp: without_sig_def distinct_map_filter)
  then obtain i where "SignatureInput (JObj (ms @ [(sigField, JStr [])])) = Inr i"
    using without_sig_input [OF ms(2,3) _ ms(4), of "[]"] SignatureInput_obj [OF ms(2,3)] by auto
  then have sign: "with_json (block_json ?b) (\<lambda>v. Sign C v key) = Inr (ed_sign C key i)"
    using assms(1) by (simp add: ms(1) with_json_def Sign_def)
  let ?s = "?b\<lparr>blk_sig := EncodeSignature (ed_sign C key i)\<rparr>"
  have "block_ok ?s" using ok by (simp add: block_ok_def)
  from block_json_signed [OF this] CanonicalBytes_json [of ?s] obtain raw where "CanonicalBytes ?s = Inr raw"
    by blast
  moreover have "iterE Validate cs = Inr ()" using assms(12) by (simp add: iterE_ok_iff caveat_ok_def)
  ultimately show ?thesis using assms sign by (simp add: CreateRestrictBlock_def Let_def not_le not_less)
qed

lemma CreateRestrictBlock_parses:
  assumes "ed25519_ok C" and "CreateRestrictBlock C parent aud dl cs key = Inr (b, bytes)"
    and "utf8_valid (par_cid parent)" and "utf8_valid (par_aud parent)" and "utf8_valid aud"
    and "\<forall>c \<in> set cs. caveat_ok c"
  shows "ParseRestrictBlock bytes = Inr b \<and> Block_Verify C b (ed_public C key) = Inr ()
    \<and> ValidateAgainstParent b parent = Inr () \<and> blk_aud b = aud \<and> blk_dl b = dl \<and> blk_cav b = cs"
proof -
  from CreateRestrictBlock_result [OF assms(2)] obtain sig where
    b: "b = \<lparr>blk_typ = RestrictBlockTyp, blk_iss = par_aud parent, blk_aud = aud,
        blk_prf = par_cid parent, blk_nbf = par_nbf parent, blk_exp = par_exp parent,
        blk_dl = dl, blk_cav = cs, blk_crit = [], blk_sig = EncodeSignature sig\<rparr>"
    and sign: "with_json (block_json (b\<lparr>blk_sig := []\<rparr>)) (\<lambda>v. Sign C v key) = Inr sig"
    and raw: "CanonicalBytes b = Inr bytes" and key: "length key = PrivateKeySize"
    and g: "par_cid parent \<noteq> []" "par_aud parent \<noteq> []" "aud \<noteq> []" "cs \<noteq> []" "slt dl (par_dl parent)" "sle 0 dl"
    by blast
  have "utf8_valid RestrictBlockTyp" by code_simp
  then have ok: "block_ok b" using assms(3-6) by (simp add: b block_ok_def)
  then obtain ms where ms: "wf_json (JObj ms)" "distinct (map fst ms)" "\<forall>m \<in> set ms. fst m \<noteq> sigField"
    "\<And>sig. utf8_valid sig \<Longrightarrow> block_json (b\<lparr>blk_sig := sig\<rparr>) = Some (JObj (ms @ [(sigField, JStr sig)]))"
    using block_json_ok by blast
  note sig_in = without_sig_input [OF ms(1,2) _ ms(3)]
  from sign ms(4) [of "[]"] obtain i where i: "SignatureInput (JObj ms) = Inr i" "sig = ed_sign C key i"
    using sig_in [of "[]"] by (auto simp: with_json_def err_simps Sign_def split: if_splits)
  have len: "length sig = SignatureSize" using ed25519_verifies [OF assms(1) key] i(2) by blast
  then have ne: "blk_sig b \<noteq> []" 
    by (cases sig rule: b64_encode.cases) (auto simp: b EncodeSignature_def SignatureSize_def)
  have "block_json b = Some (JObj (ms @ [(sigField, JStr (EncodeSignature sig))]))"
    using ms(4) [of "EncodeSignature sig"] by (simp add: b)
  then have "Block_Verify C b (ed_public C key) = Inr ()"
    using ed25519_verifies [OF assms(1) key] i len sig_in [of "EncodeSignature sig"]
    by (simp add: Block_Verify_def b with_json_def Verify_ok_iff err_simps)
  moreover have "ParseRestrictBlock bytes = Inr b"
    using Parse_CanonicalBytes [OF ok] raw ne g by (simp add: b)
  moreover have "ValidateAgainstParent b parent = Inr ()"
    using g by (simp add: ValidateAgainstParent_def b)
  ultimately show ?thesis by (simp add: b)
qed

lemma CanonicalBytes_brace: "CanonicalBytes b = Inr bytes \<Longrightarrow> block_ok b \<Longrightarrow> \<exists>t. bytes = CHR 0x7B # t"
proof -
  assume a: "CanonicalBytes b = Inr bytes" "block_ok b"
  from block_json_signed [OF a(2)] obtain v where v: "block_json b = Some v" "wf_json v" by blast
  then obtain ms where "v = JObj ms" by (auto simp: block_json_def)
  with CanonicalBytes_json [OF v] a(1) show ?thesis by auto
qed

text \<open>A concrete block, for evaluation.\<close>

definition sample_caveat :: constraint where
  "sample_caveat = DelegationDepthConstraint ''delegation_depth'' 1"

definition sample_parent :: delegation_parent where
  "sample_parent = \<lparr>par_cid = ''p'', par_aud = ''i'', par_exp = 9, par_nbf = 0, par_dl = 2\<rparr>"

definition sample_block :: restrict_block where
  "sample_block = \<lparr>blk_typ = ''adtp/cav/1'', blk_iss = ''i'', blk_aud = ''a'', blk_prf = ''p'',
     blk_nbf = 0, blk_exp = 9, blk_dl = 0, blk_cav = [sample_caveat], blk_crit = [], blk_sig = ''AA''\<rparr>"

definition sample_bytes :: bytes where
  "sample_bytes = ''{\"aud\":\"a\",\"cav\":[{\"max\":1,\"type\":\"delegation_depth\"}],\"dl\":0,\"exp\":9,'' @
     ''\"iss\":\"i\",\"nbf\":0,\"prf\":\"p\",\"sig\":\"AA\",\"typ\":\"adtp/cav/1\"}''"

lemma sample_facts: "caveat_ok sample_caveat" "block_ok sample_block"
  "ParseRestrictBlock sample_bytes = Inr sample_block"
  by code_simp+

lemma sample_created:
  "\<exists>b bytes. CreateRestrictBlock demo_crypto sample_parent ''a'' 0 [sample_caveat] (replicate 64 (CHR ''k'')) = Inr (b, bytes)"
proof (rule CreateRestrictBlock_succeeds)
  show "utf8_valid (par_cid sample_parent)" "utf8_valid (par_aud sample_parent)" "utf8_valid ''a''" by code_simp+
qed (simp_all add: sample_parent_def sample_facts PrivateKeySize_def MaxCaveatsPerBlock_def)

lemma ParseRestrictBlock_aud_valid:
  assumes "ParseRestrictBlock raw = Inr b"
  shows "utf8_valid (blk_aud b)"
proof -
  from assms obtain v where v: "json_decode raw = Some v" "unmarshalBlock v = Some b"
    by (auto simp: ParseRestrictBlock_def err_simps bind_eq_Some_conv split: if_splits option.splits)
  from this(2) obtain ms where "struct_members v = Some ms" "field dec_string [] block_names ms ''aud'' = Some (blk_aud b)"
    by (auto simp: unmarshalBlock_def Let_def split: option.splits)
  with struct_members_wf json_decode_wf [OF v(1)] show ?thesis by (blast intro: field_dec_string_valid utf8_valid_Nil)
qed

subsection \<open>Properties\<close>

text \<open>C35: A block that creation returns is accepted downstream: its bytes parse back to exactly
  the block, its signature verifies under the signer's public key and it satisfies the linkage
  rules against the parent it was created from; it carries the requested audience, depth and
  caveats.\<close>

theorem CreateRestrictBlock_accepted:
  assumes "ed25519_ok C" and "CreateRestrictBlock C parent aud dl cs key = Inr (b, bytes)"
    and "utf8_valid (par_cid parent)" and "utf8_valid (par_aud parent)" and "utf8_valid aud"
    and "\<forall>c \<in> set cs. caveat_ok c"
  shows "ParseRestrictBlock bytes = Inr b \<and> Block_Verify C b (ed_public C key) = Inr ()
    \<and> ValidateAgainstParent b parent = Inr () \<and> blk_aud b = aud \<and> blk_dl b = dl \<and> blk_cav b = cs"
  using assms by (rule CreateRestrictBlock_parses)

theorem CreateRestrictBlock_accepted_witness:
  "\<exists>b bytes. CreateRestrictBlock demo_crypto sample_parent ''a'' 0 [sample_caveat] (replicate 64 (CHR ''k'')) = Inr (b, bytes)
     \<and> ParseRestrictBlock bytes = Inr b \<and> Block_Verify demo_crypto b (replicate 32 (CHR ''k'')) = Inr ()
     \<and> ValidateAgainstParent b sample_parent = Inr ()"
proof -
  from sample_created obtain b bytes where b: "CreateRestrictBlock demo_crypto sample_parent ''a'' 0
    [sample_caveat] (replicate 64 (CHR ''k'')) = Inr (b, bytes)" by blast
  have "utf8_valid (par_cid sample_parent)" "utf8_valid (par_aud sample_parent)" "utf8_valid ''a''" by code_simp+
  from CreateRestrictBlock_accepted [OF demo_crypto_ok(1) b this] sample_facts(1) b show ?thesis
    by (simp add: demo_crypto_def)
qed

text \<open>A block has one encoding: parsing accepts only the canonical bytes of the block it
  returns, so the block's identifier is the identifier of the received bytes and no two byte
  strings parse to one block.\<close>

theorem ParseRestrictBlock_canonical:
  assumes "ParseRestrictBlock bytes = Inr b"
  shows "Block_CID C b = Inr (ComputeCID C bytes)
    \<and> (\<forall>bytes'. ParseRestrictBlock bytes' = Inr b \<longrightarrow> bytes' = bytes)"
proof -
  have "CanonicalBytes b = Inr bytes" by (rule ParseRestrictBlockD(1) [OF assms])
  moreover have "CanonicalBytes b = Inr bytes'" if "ParseRestrictBlock bytes' = Inr b" for bytes'
    by (rule ParseRestrictBlockD(1) [OF that])
  ultimately show ?thesis by (auto simp: Block_CID_def)
qed

theorem ParseRestrictBlock_canonical_witness:
  "Block_CID demo_crypto sample_block = Inr (ComputeCID demo_crypto sample_bytes)"
  using ParseRestrictBlock_canonical [OF sample_facts(3)] by blast

text \<open>The raw-bytes rule does not make the signed object unique: adding a newline to the
  \<open>sig\<close> text of an accepted block gives different bytes that also parse and carry the same
  verdict of the signature check, because the base64 decoder skips newlines and \<open>sig\<close> is not
  part of the signing input.\<close>

theorem RestrictBlock_sig_malleable:
  assumes "block_ok b" and "ParseRestrictBlock bytes = Inr b"
  shows "\<exists>bytes'. bytes' \<noteq> bytes \<and> ParseRestrictBlock bytes' = Inr (b\<lparr>blk_sig := blk_sig b @ [CHR 0x0A]\<rparr>)
    \<and> Block_Verify C (b\<lparr>blk_sig := blk_sig b @ [CHR 0x0A]\<rparr>) pub = Block_Verify C b pub"
proof -
  let ?b = "b\<lparr>blk_sig := blk_sig b @ [CHR 0x0A]\<rparr>"
  have u: "utf8_valid (blk_sig b)" using assms(1) by (simp add: block_ok_def)
  have "utf8_valid [CHR 0x0A]" by code_simp
  with u have n: "utf8_valid (blk_sig b @ [CHR 0x0A])" by (simp add: utf8_valid_append)
  with assms(1) have ok: "block_ok ?b" by (simp add: block_ok_def)
  from Parse_CanonicalBytes [OF ok] ParseRestrictBlockD [OF assms(2)]
  obtain bytes' where p: "ParseRestrictBlock bytes' = Inr ?b" by auto
  have "?b \<noteq> b" by (cases b) simp
  with p assms(2) have "bytes' \<noteq> bytes" by auto
  moreover have "Block_Verify C ?b pub = Block_Verify C (b\<lparr>blk_sig := blk_sig b\<rparr>) pub"
    by (rule Block_Verify_sig [OF assms(1) n u]) (rule DecodeSignature_newline)
  ultimately show ?thesis using p by auto
qed

theorem RestrictBlock_sig_malleable_witness:
  "\<exists>bytes'. bytes' \<noteq> sample_bytes
    \<and> ParseRestrictBlock bytes' = Inr (sample_block\<lparr>blk_sig := ''AA'' @ [CHR 0x0A]\<rparr>)"
  using RestrictBlock_sig_malleable [OF sample_facts(2,3)] by (auto simp: sample_block_def)

end
