(* ===== verification/UCAN.thy ===== *)
theory UCAN
  imports Restrict
begin

text \<open>
  \<open>internal/credential/ucan.go\<close>: root credentials as JWS compact tokens: issuance through the
  canonical serialization, parsing, the signature over the received bytes and the identifier.
\<close>

definition UCANTyp :: string where "UCANTyp = ''adtp/ucan/1''"
definition UCANAlg :: string where "UCANAlg = ''EdDSA''"
definition UCANVersion :: string where "UCANVersion = ''0.1.0''"
definition MaxCapabilities :: nat where "MaxCapabilities = 100"
definition supportedUCANVersions :: "string list" where "supportedUCANVersions = [UCANVersion]"

record ucan_header =
  hdr_typ :: string
  hdr_alg :: string
  hdr_ucv :: string

record ucan_payload =
  pl_iss :: string
  pl_aud :: string
  pl_att :: "capability list"
  pl_prf :: "string list"
  pl_exp :: i64
  pl_nbf :: i64
  pl_iat :: i64

record ucan =
  u_header :: ucan_header
  u_payload :: ucan_payload
  u_signature :: bytes
  u_signingInput :: bytes
  u_raw :: string

subsection \<open>JSON form\<close>

definition header_json :: "ucan_header \<Rightarrow> json" where
  "header_json h = JObj [(''typ'', JStr (hdr_typ h)), (''alg'', JStr (hdr_alg h)), (''ucv'', JStr (hdr_ucv h))]"

definition header_names :: "string list" where "header_names = [''typ'', ''alg'', ''ucv'']"

definition unmarshalHeader :: "json \<Rightarrow> ucan_header option" where
  "unmarshalHeader v =
     (case struct_members v of
        None \<Rightarrow> None
      | Some ms \<Rightarrow>
          (case (field dec_string [] header_names ms ''typ'', field dec_string [] header_names ms ''alg'',
                 field dec_string [] header_names ms ''ucv'') of
             (Some t, Some a, Some u) \<Rightarrow> Some \<lparr>hdr_typ = t, hdr_alg = a, hdr_ucv = u\<rparr> | _ \<Rightarrow> None))"

definition payload_json :: "ucan_payload \<Rightarrow> json option" where
  "payload_json p =
     map_option (\<lambda>att. JObj
       [(''iss'', JStr (pl_iss p)), (''aud'', JStr (pl_aud p)), (''att'', JArr att),
        (''prf'', json_strings (pl_prf p)), (''exp'', json_int (pl_exp p)),
        (''nbf'', json_int (pl_nbf p)), (''iat'', json_int (pl_iat p))])
       (those_map marshalCapability (pl_att p))"

definition payload_names :: "string list" where
  "payload_names = [''iss'', ''aud'', ''att'', ''prf'', ''exp'', ''nbf'', ''iat'']"

definition unmarshalPayload :: "json \<Rightarrow> ucan_payload option" where
  "unmarshalPayload v =
     (case struct_members v of
        None \<Rightarrow> None
      | Some ms \<Rightarrow>
         (let str = (\<lambda>n. field dec_string [] payload_names ms n);
              int = (\<lambda>n. field dec_int64 0 payload_names ms n)
          in case (str ''iss'', str ''aud'', field (dec_list unmarshalCapability) [] payload_names ms ''att'',
                   field dec_strings [] payload_names ms ''prf'', int ''exp'', int ''nbf'', int ''iat'') of
               (Some iss, Some aud, Some att, Some prf, Some expiry, Some nbf, Some iat) \<Rightarrow>
                 Some \<lparr>pl_iss = iss, pl_aud = aud, pl_att = att, pl_prf = prf, pl_exp = expiry,
                   pl_nbf = nbf, pl_iat = iat\<rparr>
             | _ \<Rightarrow> None))"

subsection \<open>Issuance\<close>

definition validateForIssuance :: "ucan_payload \<Rightarrow> cred_error + unit" where
  "validateForIssuance p =
     (if pl_iss p = [] then Inl ErrMissingField
      else if pl_aud p = [] then Inl ErrMissingField
      else if sle (pl_exp p) 0 then Inl ErrMissingExpiry
      else if slt (pl_nbf p) 0 \<or> slt (pl_iat p) 0 then Inl ErrInvalidExpiry
      else if slt 0 (pl_nbf p) \<and> sle (pl_exp p) (pl_nbf p) then Inl ErrInvalidExpiry
      else if length (pl_att p) > MaxCapabilities then Inl ErrTooManyCapabilities
      else iterE Capability_Validate (pl_att p))"

definition createUCAN :: "crypto \<Rightarrow> ucan_header \<Rightarrow> ucan_payload \<Rightarrow> bytes \<Rightarrow> cred_error + string" where
  "createUCAN C header payload priv =
     (if length priv \<noteq> PrivateKeySize then Inl ErrInvalidKey
      else bindE (validateForIssuance payload) (\<lambda>_.
        bindE (with_json (Some (header_json header)) CanonicalizeValue) (\<lambda>headerJCS.
        bindE (with_json (payload_json payload) CanonicalizeValue) (\<lambda>payloadJCS.
          let signingInput = b64_encode headerJCS @ ''.'' @ b64_encode payloadJCS
          in Inr (signingInput @ ''.'' @ b64_encode (ed_sign C priv signingInput))))))"

definition CreateUCAN :: "crypto \<Rightarrow> ucan_payload \<Rightarrow> bytes \<Rightarrow> cred_error + string" where
  "CreateUCAN C payload priv =
     createUCAN C \<lparr>hdr_typ = UCANTyp, hdr_alg = UCANAlg, hdr_ucv = UCANVersion\<rparr> payload priv"

subsection \<open>Parsing and verification\<close>

definition b64_segment :: "string \<Rightarrow> cred_error + bytes" where
  "b64_segment s = (case b64_decode s of None \<Rightarrow> Inl ErrMalformedToken | Some b \<Rightarrow> Inr b)"

definition has_exp :: "bytes \<Rightarrow> cred_error + unit" where
  "has_exp payloadBytes =
     (case unmarshal_map payloadBytes of
        Some (JObj ms) \<Rightarrow> if list_ex (\<lambda>m. fst m = ''exp'') ms then Inr () else Inl ErrMissingExpiry
      | Some _ \<Rightarrow> Inl ErrMissingExpiry
      | None \<Rightarrow> Inl ErrMalformedToken)"

definition parse_segments :: "bytes \<Rightarrow> bytes \<Rightarrow> cred_error + (ucan_header \<times> ucan_payload)" where
  "parse_segments headerBytes payloadBytes =
     bindE (mapErr (\<lambda>_. ErrMalformedToken) (ValidateIJSON headerBytes)) (\<lambda>_.
     bindE (mapErr (\<lambda>_. ErrMalformedToken) (ValidateIJSON payloadBytes)) (\<lambda>_.
       case Option.bind (json_decode headerBytes) unmarshalHeader of
         None \<Rightarrow> Inl ErrMalformedToken
       | Some header \<Rightarrow>
           if hdr_typ header \<noteq> UCANTyp then Inl ErrUnsupportedHeader
           else if hdr_alg header \<noteq> UCANAlg then Inl ErrUnsupportedHeader
           else if \<not> List.member supportedUCANVersions (hdr_ucv header) then Inl ErrUnsupportedHeader
           else bindE (has_exp payloadBytes) (\<lambda>_.
             case Option.bind (json_decode payloadBytes) unmarshalPayload of
               None \<Rightarrow> Inl ErrMalformedToken
             | Some payload \<Rightarrow>
                 if length (pl_att payload) > MaxCapabilities then Inl ErrTooManyCapabilities
                 else Inr (header, payload))))"

definition ParseUCAN :: "string \<Rightarrow> cred_error + ucan" where
  "ParseUCAN token =
     (case split_on (CHR ''.'') token of
        [p0, p1, p2] \<Rightarrow>
          bindE (b64_segment p0) (\<lambda>headerBytes.
          bindE (b64_segment p1) (\<lambda>payloadBytes.
          bindE (b64_segment p2) (\<lambda>sig.
            if length sig \<noteq> SignatureSize then Inl ErrMalformedToken
            else bindE (parse_segments headerBytes payloadBytes) (\<lambda>(header, payload).
              Inr \<lparr>u_header = header, u_payload = payload, u_signature = sig,
                   u_signingInput = p0 @ ''.'' @ p1, u_raw = token\<rparr>))))
      | _ \<Rightarrow> Inl ErrMalformedToken)"

definition UCAN_Verify :: "crypto \<Rightarrow> ucan \<Rightarrow> bytes \<Rightarrow> cred_error + unit" where
  "UCAN_Verify C u pub =
     (if length pub \<noteq> PublicKeySize then Inl ErrInvalidKey
      else if \<not> ed_verify C pub (u_signingInput u) (u_signature u) then Inl ErrSignatureVerification
      else Inr ())"

definition UCAN_CID :: "crypto \<Rightarrow> ucan \<Rightarrow> string" where
  "UCAN_CID C u = ComputeCID C (u_raw u)"

definition UCAN_String :: "ucan \<Rightarrow> string" where
  "UCAN_String u = u_raw u"

subsection \<open>Lemmas\<close>

definition capability_ok :: "capability \<Rightarrow> bool" where
  "capability_ok c \<longleftrightarrow> utf8_valid (Can c) \<and> utf8_valid (With c) \<and> (\<forall>con \<in> set (Constraints c). caveat_ok con)"

definition payload_ok :: "ucan_payload \<Rightarrow> bool" where
  "payload_ok p \<longleftrightarrow> utf8_valid (pl_iss p) \<and> utf8_valid (pl_aud p) \<and> (\<forall>s \<in> set (pl_prf p). utf8_valid s)
     \<and> (\<forall>c \<in> set (pl_att p). capability_ok c)"

lemma capability_json_ok:
  assumes "capability_ok c"
  shows "\<exists>v. marshalCapability c = Some v \<and> wf_json v \<and> canonical_ok v \<and> unmarshalCapability (normal v) = Some c"
proof -
  have cs: "\<forall>con \<in> set (Constraints c). caveat_ok con" using assms by (simp add: capability_ok_def)
  then have "map normal_constraint (Constraints c) = Constraints c" by (simp add: caveat_ok_def map_idI)
  moreover have "\<forall>con \<in> set (Constraints c). Validate con = Inr () \<and> raw_consistent con"
    using cs by (auto simp: caveat_ok_def)
  ultimately obtain v where v: "marshalCapability c = Some v" "unmarshalCapability (normal v) = Some c"
    using capability_json_back [of c] by auto
  from caveats_json [OF cs] obtain w where "marshalConstraints (Constraints c) = Some w" "wf_json w" "canonical_ok w"
    by blast
  with v(1) assms have "wf_json v \<and> canonical_ok v"
    by (auto simp: marshalCapability_def capability_ok_def split: if_splits)
  with v show ?thesis by blast
qed

lemma capabilities_json_ok:
  assumes "\<forall>c \<in> set cs. capability_ok c"
  shows "\<exists>vs. those_map marshalCapability cs = Some vs \<and> (\<forall>v \<in> set vs. wf_json v \<and> canonical_ok v)
     \<and> those_map unmarshalCapability (map normal vs) = Some cs"
  using assms
proof (induction cs)
  case (Cons c cs)
  then obtain vs where "those_map marshalCapability cs = Some vs" "\<forall>v \<in> set vs. wf_json v \<and> canonical_ok v"
    "those_map unmarshalCapability (map normal vs) = Some cs" by auto
  moreover from Cons.prems capability_json_ok [of c] obtain v where "marshalCapability c = Some v" "wf_json v"
    "canonical_ok v" "unmarshalCapability (normal v) = Some c" by auto
  ultimately show ?case by simp
qed simp

lemma payload_json_ok:
  assumes "payload_ok p"
  shows "\<exists>v. payload_json p = Some v \<and> wf_json v \<and> canonical_ok v \<and> unmarshalPayload (normal v) = Some p"
proof -
  from assms capabilities_json_ok [of "pl_att p"] obtain vs where vs: "those_map marshalCapability (pl_att p) = Some vs"
    "\<forall>v \<in> set vs. wf_json v \<and> canonical_ok v" "those_map unmarshalCapability (map normal vs) = Some (pl_att p)"
    by (auto simp: payload_ok_def)
  have c: "json_strings (pl_prf p) = JArr (map JStr (pl_prf p))" by (simp add: json_strings_def)
  let ?v = "JObj [(''iss'', JStr (pl_iss p)), (''aud'', JStr (pl_aud p)), (''att'', JArr vs),
        (''prf'', json_strings (pl_prf p)), (''exp'', json_int (pl_exp p)),
        (''nbf'', json_int (pl_nbf p)), (''iat'', json_int (pl_iat p))]"
  have "payload_json p = Some ?v" using vs(1) by (simp add: payload_json_def)
  moreover have "wf_json ?v" "canonical_ok ?v" using vs(2) assms by (auto simp: payload_ok_def)
  moreover have "unmarshalPayload (normal ?v) = Some p"
    using vs(3) by (cases p) (simp add: unmarshalPayload_def payload_names_def field_sorted dec_list_def)
  ultimately show ?thesis by blast
qed

definition issued_header :: ucan_header where
  "issued_header = \<lparr>hdr_typ = UCANTyp, hdr_alg = UCANAlg, hdr_ucv = UCANVersion\<rparr>"

lemma issued_header_json:
  "wf_json (header_json issued_header)" "canonical_ok (header_json issued_header)"
  "unmarshalHeader (normal (header_json issued_header)) = Some issued_header"
  by code_simp+

lemma CanonicalizeValue_accepted:
  assumes "wf_json v" and "CanonicalizeValue v = Inr c"
  shows "ValidateIJSON c = Inr () \<and> json_decode c = Some (normal v)"
  using CanonicalizeValue_decode [OF assms] Canonicalize_fixed [of "json_marshal v"] assms(2)
  by (simp add: ValidateIJSON_def CanonicalizeValue_def)

lemma has_exp_canonical:
  assumes "payload_json p = Some v" and "wf_json v" and "canonical_ok v" and "CanonicalizeValue v = Inr c"
  shows "has_exp c = Inr ()"
proof -
  from assms(1) obtain vs where v: "v = JObj [(''iss'', JStr (pl_iss p)), (''aud'', JStr (pl_aud p)), (''att'', JArr vs),
        (''prf'', json_strings (pl_prf p)), (''exp'', json_int (pl_exp p)),
        (''nbf'', json_int (pl_nbf p)), (''iat'', json_int (pl_iat p))]" (is "v = JObj ?ms")
    by (auto simp: payload_json_def)
  from v obtain ns where ns: "normal v = JObj ns" "ns = sort_by member_less (map (\<lambda>(k, w). (k, normal w)) ?ms)"
    by simp
  have "canonical_ok (JObj ns)" using normal_ok [OF assms(3)] ns(1) by simp
  then have "last_wins ns = ns" by (simp add: last_wins_distinct)
  moreover have "list_ex (\<lambda>m. fst m = ''exp'') ns" by (simp add: ns(2) list_ex_iff)
  ultimately show ?thesis
    using CanonicalizeValue_decode [OF assms(2,4)] ns(1) by (simp add: has_exp_def unmarshal_map_def)
qed

lemma split_token:
  assumes "CHR ''.'' \<notin> set a" and "CHR ''.'' \<notin> set b" and "CHR ''.'' \<notin> set c"
  shows "split_on (CHR ''.'') (a @ ''.'' @ b @ ''.'' @ c) = [a, b, c]"
  using split_on_append [OF assms(1), of "b @ ''.'' @ c"] split_on_append [OF assms(2), of c]
    split_on_no_sep [OF assms(3)] by simp

lemma b64_no_dot [simp]: "CHR ''.'' \<notin> set (b64_encode s)"
  by (auto dest: b64_encode_chars)

lemma CreateUCAN_result:
  assumes "CreateUCAN C p priv = Inr token" and "payload_ok p"
  shows "\<exists>v hc pc. payload_json p = Some v \<and> wf_json v \<and> canonical_ok v \<and> unmarshalPayload (normal v) = Some p
     \<and> CanonicalizeValue (header_json issued_header) = Inr hc \<and> CanonicalizeValue v = Inr pc
     \<and> token = b64_encode hc @ ''.'' @ b64_encode pc @ ''.''
         @ b64_encode (ed_sign C priv (b64_encode hc @ ''.'' @ b64_encode pc))
     \<and> length priv = PrivateKeySize \<and> validateForIssuance p = Inr ()"
proof -
  from payload_json_ok [OF assms(2)] obtain v where v: "payload_json p = Some v" "wf_json v" "canonical_ok v"
    "unmarshalPayload (normal v) = Some p" by blast
  with assms(1) show ?thesis
    by (auto simp: CreateUCAN_def createUCAN_def issued_header_def [symmetric] with_json_def err_simps Let_def
        split: if_splits)
qed

lemma parse_segments_issued:
  assumes "payload_json p = Some v" and "wf_json v" and "canonical_ok v" and "unmarshalPayload (normal v) = Some p"
    and "CanonicalizeValue (header_json issued_header) = Inr hc" and "CanonicalizeValue v = Inr pc"
    and "validateForIssuance p = Inr ()"
  shows "parse_segments hc pc = Inr (issued_header, p)"
proof -
  have "length (pl_att p) \<le> MaxCapabilities"
    using assms(7) by (auto simp: validateForIssuance_def split: if_splits)
  then show ?thesis
    using CanonicalizeValue_accepted [OF issued_header_json(1) assms(5)] CanonicalizeValue_accepted [OF assms(2,6)]
      has_exp_canonical [OF assms(1-3,6)] issued_header_json(3) assms(4)
    by (simp add: parse_segments_def issued_header_def supportedUCANVersions_def)
qed

lemma CreateUCAN_parses:
  assumes "ed25519_ok C" and "payload_ok p" and "CreateUCAN C p priv = Inr token"
  shows "\<exists>u. ParseUCAN token = Inr u \<and> u_payload u = p \<and> u_header u = issued_header \<and> UCAN_String u = token
     \<and> UCAN_Verify C u (ed_public C priv) = Inr () \<and> UCAN_CID C u = ComputeCID C token"
proof -
  from CreateUCAN_result [OF assms(3,2)] obtain v hc pc where
    v: "payload_json p = Some v" "wf_json v" "canonical_ok v" "unmarshalPayload (normal v) = Some p"
    "CanonicalizeValue (header_json issued_header) = Inr hc" "CanonicalizeValue v = Inr pc"
    and t: "token = b64_encode hc @ ''.'' @ b64_encode pc @ ''.''
         @ b64_encode (ed_sign C priv (b64_encode hc @ ''.'' @ b64_encode pc))"
    and k: "length priv = PrivateKeySize" and i: "validateForIssuance p = Inr ()" by blast
  let ?in = "b64_encode hc @ ''.'' @ b64_encode pc"
  let ?u = "\<lparr>u_header = issued_header, u_payload = p, u_signature = ed_sign C priv ?in,
     u_signingInput = ?in, u_raw = token\<rparr>"
  have "split_on (CHR ''.'') token = [b64_encode hc, b64_encode pc, b64_encode (ed_sign C priv ?in)]"
    unfolding t by (rule split_token) simp_all
  then have "ParseUCAN token = Inr ?u"
    using parse_segments_issued [OF v i] ed25519_verifies [OF assms(1) k]
    by (simp add: ParseUCAN_def b64_segment_def)
  moreover have "UCAN_Verify C ?u (ed_public C priv) = Inr ()"
    using ed25519_verifies [OF assms(1) k] by (simp add: UCAN_Verify_def)
  ultimately show ?thesis by (intro exI [of _ ?u]) (simp add: UCAN_String_def UCAN_CID_def)
qed

lemma CreateUCAN_succeeds:
  assumes "payload_ok p" and "validateForIssuance p = Inr ()" and "length priv = PrivateKeySize"
  shows "\<exists>token. CreateUCAN C p priv = Inr token"
proof -
  from payload_json_ok [OF assms(1)] obtain v where v: "payload_json p = Some v" "wf_json v" "canonical_ok v" by blast
  moreover have "\<exists>c. CanonicalizeValue (header_json issued_header) = Inr c" "\<exists>c. CanonicalizeValue v = Inr c"
    using CanonicalizeValue_eq issued_header_json(1,2) v(2,3) by blast+
  ultimately show ?thesis using assms(2,3)
    by (auto simp: CreateUCAN_def createUCAN_def issued_header_def [symmetric] with_json_def Let_def)
qed

text \<open>A concrete claim set, for evaluation.\<close>

definition sample_payload :: ucan_payload where
  "sample_payload = \<lparr>pl_iss = ''i'', pl_aud = ''a'',
     pl_att = [\<lparr>Can = CanAgentDelegate, With = ''tool://x/a'', Constraints = [sample_caveat]\<rparr>],
     pl_prf = [], pl_exp = 9, pl_nbf = 0, pl_iat = 0\<rparr>"

lemma sample_payload_ok: "payload_ok sample_payload" "validateForIssuance sample_payload = Inr ()"
  by code_simp+

lemma sample_token:
  "\<exists>token. CreateUCAN demo_crypto sample_payload (replicate 64 (CHR ''k'')) = Inr token"
  by (rule CreateUCAN_succeeds [OF sample_payload_ok]) (simp add: PrivateKeySize_def)

lemma unmarshalPayload_aud:
  assumes "unmarshalPayload v = Some p"
  shows "\<exists>ms. struct_members v = Some ms \<and> field dec_string [] payload_names ms ''aud'' = Some (pl_aud p)"
  using assms by (auto simp: unmarshalPayload_def Let_def split: option.splits)

lemma ParseUCAN_aud_valid:
  assumes "ParseUCAN tok = Inr u"
  shows "utf8_valid (pl_aud (u_payload u))"
proof -
  from assms obtain hb pb h where "parse_segments hb pb = Inr (h, u_payload u)"
    by (auto simp: ParseUCAN_def bindE_Inr_iff split: list.splits if_splits)
  then have "Option.bind (json_decode pb) unmarshalPayload = Some (u_payload u)"
    by (auto simp: parse_segments_def bindE_Inr_iff split: option.splits if_splits)
  then obtain v where v: "json_decode pb = Some v" "unmarshalPayload v = Some (u_payload u)" by (auto simp: bind_eq_Some_conv)
  from unmarshalPayload_aud [OF v(2)] struct_members_wf json_decode_wf [OF v(1)] show ?thesis by (blast intro: field_dec_string_valid utf8_valid_Nil)
qed

subsection \<open>Properties\<close>

text \<open>C36: An issued token is accepted: it parses back to exactly the claims it was issued for
  under the version's header, and its signature verifies under the issuer's public key.\<close>

theorem CreateUCAN_accepted:
  assumes "ed25519_ok C" and "payload_ok p" and "CreateUCAN C p priv = Inr token"
  shows "\<exists>u. ParseUCAN token = Inr u \<and> u_payload u = p \<and> u_header u = issued_header \<and> UCAN_String u = token
     \<and> UCAN_Verify C u (ed_public C priv) = Inr () \<and> UCAN_CID C u = ComputeCID C token"
  using assms by (rule CreateUCAN_parses)

theorem CreateUCAN_accepted_witness:
  "\<exists>token u. CreateUCAN demo_crypto sample_payload (replicate 64 (CHR ''k'')) = Inr token
     \<and> ParseUCAN token = Inr u \<and> u_payload u = sample_payload
     \<and> UCAN_Verify demo_crypto u (replicate 32 (CHR ''k'')) = Inr ()"
proof -
  from sample_token obtain token
    where t: "CreateUCAN demo_crypto sample_payload (replicate 64 (CHR ''k'')) = Inr token" by blast
  from CreateUCAN_accepted [OF demo_crypto_ok(1) sample_payload_ok(1) t] t show ?thesis
    by (auto simp: demo_crypto_def)
qed

text \<open>A token has more than one spelling: a newline after the signature segment gives a
  different text, and so in general a different identifier, that parses to the same claims
  and carries the same verdict of the signature check under every key.\<close>

theorem UCAN_sig_malleable:
  assumes "ParseUCAN token = Inr u"
  shows "ParseUCAN (token @ [CHR 0x0A]) = Inr (u\<lparr>u_raw := token @ [CHR 0x0A]\<rparr>)
    \<and> UCAN_Verify C (u\<lparr>u_raw := token @ [CHR 0x0A]\<rparr>) pub = UCAN_Verify C u pub"
proof -
  from assms obtain p0 p1 p2 where p: "split_on (CHR ''.'') token = [p0, p1, p2]"
    by (auto simp: ParseUCAN_def split: list.splits)
  have j: "token = p0 @ CHR ''.'' # p1 @ CHR ''.'' # p2"
    using join_split [of "CHR ''.''" token] by (simp add: p)
  have "split_on (CHR ''.'') (p0 @ ''.'' @ p1 @ ''.'' @ (p2 @ [CHR 0x0A])) = [p0, p1, p2 @ [CHR 0x0A]]"
    using split_on_segments [of _ "CHR ''.''" token] by (intro split_token) (auto simp: p)
  then have "split_on (CHR ''.'') (token @ [CHR 0x0A]) = [p0, p1, p2 @ [CHR 0x0A]]" by (simp add: j)
  with assms p show ?thesis
    by (auto simp: ParseUCAN_def b64_segment_def b64_decode_newline is_newline_def UCAN_Verify_def err_simps
        split: if_splits option.splits)
qed

theorem UCAN_sig_malleable_witness:
  "\<exists>token u. ParseUCAN token = Inr u \<and> u_payload u = sample_payload
     \<and> ParseUCAN (token @ [CHR 0x0A]) = Inr (u\<lparr>u_raw := token @ [CHR 0x0A]\<rparr>)"
proof -
  from sample_token obtain token
    where "CreateUCAN demo_crypto sample_payload (replicate 64 (CHR ''k'')) = Inr token" by blast
  from CreateUCAN_parses [OF demo_crypto_ok(1) sample_payload_ok(1) this]
  obtain u where "ParseUCAN token = Inr u" "u_payload u = sample_payload" by blast
  with UCAN_sig_malleable [of token u] show ?thesis by blast
qed

end
