(* ===== verification/Delegation.thy ===== *)
theory Delegation
  imports UCAN
begin

text \<open>
  \<open>internal/delegation\<close>: walking proof links from a leaf to its root (\<open>chain.go\<close>), the
  in-memory proof store, and issuing RESTRICT delegations (\<open>delegate.go\<close>).  A \<open>ProofStore\<close> is the
  function its \<open>Get\<close> method computes; the context argument is only handed through.  The mutex
  of the memory store makes each of its operations atomic, so a store is a value.
\<close>

definition DefaultMaxDepth :: i64 where "DefaultMaxDepth = 10"
definition HardMaxDepth :: i64 where "HardMaxDepth = 100"
definition MaxChainCapsCaveats :: nat where "MaxChainCapsCaveats = 1000"

definition ModeRoot :: string where "ModeRoot = ''root''"
definition ModeRestrict :: string where "ModeRestrict = ''restrict''"

text \<open>Exactly one of the fields \<open>Token\<close> and \<open>Block\<close> of an element is set.\<close>

datatype element_body = Token ucan | Block restrict_block

record chain_element =
  el_body :: element_body
  el_cid :: string
  el_root :: bool
  el_mode :: string

record chain =
  Elements :: "chain_element list"
  Depth :: nat

definition Leaf :: "chain \<Rightarrow> chain_element" where "Leaf c = hd (Elements c)"
definition Root :: "chain \<Rightarrow> chain_element" where "Root c = last (Elements c)"

subsection \<open>Parsing an element\<close>

text \<open>\<open>bytes.TrimSpace\<close> on the left: white space in the sense of \<open>unicode.IsSpace\<close>.\<close>

definition is_space_rune :: "rune \<Rightarrow> bool" where
  "is_space_rune r \<longleftrightarrow> r \<in> {0x09, 0x0A, 0x0B, 0x0C, 0x0D, 0x20, 0x85, 0xA0, 0x1680, 0x2028, 0x2029,
     0x202F, 0x205F, 0x3000} \<or> (0x2000 \<le> r \<and> r \<le> 0x200A)"

function trim_space_left :: "bytes \<Rightarrow> bytes" where
  "trim_space_left s =
     (if s = [] then []
      else let (r, ok, w) = decode_rune s
           in if is_space_rune r then trim_space_left (drop (max 1 w) s) else s)"
  by pat_completeness auto
termination by (relation "measure length") auto

declare trim_space_left.simps [simp del]

definition looks_like_object :: "bytes \<Rightarrow> bool" where
  "looks_like_object s \<longleftrightarrow> (case trim_space_left s of [] \<Rightarrow> False | c # _ \<Rightarrow> c = CHR 0x7B)"

definition token_weight :: "ucan \<Rightarrow> nat" where
  "token_weight u = length (pl_att (u_payload u))
     + sum_list (map (\<lambda>c. length (Constraints c)) (pl_att (u_payload u)))"

definition parseElement :: "bytes \<Rightarrow> string \<Rightarrow> deleg_error + (chain_element \<times> string \<times> nat)" where
  "parseElement raw cid =
     (if looks_like_object raw then
        (case ParseRestrictBlock raw of
           Inl _ \<Rightarrow> Inl ErrChainBroken
         | Inr block \<Rightarrow>
             Inr (\<lparr>el_body = Block block, el_cid = cid, el_root = False, el_mode = ModeRestrict\<rparr>,
                  blk_prf block, length (blk_cav block)))
      else
        (case ParseUCAN raw of
           Inl _ \<Rightarrow> Inl ErrChainBroken
         | Inr token \<Rightarrow>
             (case pl_prf (u_payload token) of
                [] \<Rightarrow> Inr (\<lparr>el_body = Token token, el_cid = cid, el_root = True, el_mode = ModeRoot\<rparr>,
                           [], token_weight token)
              | [_] \<Rightarrow> Inl ErrNonRootToken
              | _ \<Rightarrow> Inl ErrBranchingUnsupported)))"

subsection \<open>Building a chain\<close>

text \<open>The loop of \<open>BuildChain\<close>.  It returns on every store: an element beyond the depth cap is an
  error, so the measure is the room left under the cap.\<close>

function buildLoop ::
    "crypto \<Rightarrow> (string \<Rightarrow> 'e + bytes) \<Rightarrow> nat \<Rightarrow> string \<Rightarrow> string list \<Rightarrow> chain_element list \<Rightarrow> nat
      \<Rightarrow> deleg_error + chain_element list" where
  "buildLoop C get maxDepth cid seen elements weightSum =
     (if cid = [] then Inl ErrChainBroken
      else if List.member seen cid then Inl ErrCircularChain
      else case get cid of
        Inl _ \<Rightarrow> Inl ErrProofNotFound
      | Inr raw \<Rightarrow>
          if \<not> VerifyCID C raw cid then Inl ErrCIDMismatch
          else case parseElement raw cid of
            Inl e \<Rightarrow> Inl e
          | Inr (elem, parentCID, weight) \<Rightarrow>
              if weightSum + weight > MaxChainCapsCaveats then Inl ErrChainTooWide
              else if length (elements @ [elem]) - 1 > maxDepth then Inl ErrChainTooDeep
              else if el_root elem then Inr (elements @ [elem])
              else buildLoop C get maxDepth parentCID (cid # seen) (elements @ [elem]) (weightSum + weight))"
  by pat_completeness auto
termination
  by (relation "measure (\<lambda>(C, get, maxDepth, cid, seen, elements, weightSum). Suc maxDepth - length elements)") auto

declare buildLoop.simps [simp del]

definition depthCap :: "i64 \<Rightarrow> nat" where
  "depthCap maxDepth =
     (let d = (if sle maxDepth 0 then DefaultMaxDepth else maxDepth)
      in nat (sint (if slt HardMaxDepth d then HardMaxDepth else d)))"

definition BuildChain :: "crypto \<Rightarrow> string \<Rightarrow> (string \<Rightarrow> 'e + bytes) \<Rightarrow> i64 \<Rightarrow> deleg_error + chain" where
  "BuildChain C leafCID get maxDepth =
     bindE (buildLoop C get (depthCap maxDepth) leafCID [] [] 0) (\<lambda>elements.
       Inr \<lparr>Elements = elements, Depth = length elements - 1\<rparr>)"

subsection \<open>The memory proof store\<close>

type_synonym proof_store = "string \<rightharpoonup> bytes"

definition NewMemoryProofStore :: proof_store where "NewMemoryProofStore = Map.empty"

definition Put :: "crypto \<Rightarrow> proof_store \<Rightarrow> bytes \<Rightarrow> string \<times> proof_store" where
  "Put C s raw = (let cid = ComputeCID C raw in (cid, s(cid \<mapsto> raw)))"

definition PutVerified :: "crypto \<Rightarrow> proof_store \<Rightarrow> bytes \<Rightarrow> string \<Rightarrow> deleg_error + proof_store" where
  "PutVerified C s raw claimedCID =
     (if ComputeCID C raw \<noteq> claimedCID then Inl ErrCIDMismatch else Inr (snd (Put C s raw)))"

definition Get :: "proof_store \<Rightarrow> string \<Rightarrow> deleg_error + bytes" where
  "Get s cid = (case s cid of None \<Rightarrow> Inl ErrProofNotFound | Some raw \<Rightarrow> Inr raw)"

subsection \<open>Issuing delegations\<close>

fun depth_constraint :: "constraint \<Rightarrow> i64 option" where
  "depth_constraint (DelegationDepthConstraint _ m) = Some m"
| "depth_constraint _ = None"

definition delegableDepth :: "ucan \<Rightarrow> i64 option" where
  "delegableDepth u =
     first_some (\<lambda>c. if Can c \<noteq> CanAgentDelegate then None
                     else first_some depth_constraint (Constraints c)) (pl_att (u_payload u))"

definition ParentFromUCAN :: "ucan \<Rightarrow> string \<Rightarrow> deleg_error + delegation_parent" where
  "ParentFromUCAN u cid =
     (case delegableDepth u of
        None \<Rightarrow> Inl ErrCannotDelegate
      | Some depth \<Rightarrow> Inr \<lparr>par_cid = cid, par_aud = pl_aud (u_payload u), par_exp = pl_exp (u_payload u),
          par_nbf = pl_nbf (u_payload u), par_dl = depth\<rparr>)"

definition ParentFromBlock :: "restrict_block \<Rightarrow> string \<Rightarrow> delegation_parent" where
  "ParentFromBlock b cid =
     \<lparr>par_cid = cid, par_aud = blk_aud b, par_exp = blk_exp b, par_nbf = blk_nbf b, par_dl = blk_dl b\<rparr>"

definition DelegateRestrict ::
    "crypto \<Rightarrow> delegation_parent \<Rightarrow> string \<Rightarrow> constraint list \<Rightarrow> i64 \<Rightarrow> bytes \<Rightarrow> proof_store
      \<Rightarrow> deleg_error + (restrict_block \<times> string \<times> proof_store)" where
  "DelegateRestrict C parent audDID caveats depth signerKey store =
     (if sle (par_dl parent) 0 then Inl ErrDepthExhausted
      else bindE (mapErr ErrCredential (CreateRestrictBlock C parent audDID depth caveats signerKey))
        (\<lambda>(block, raw). let (cid, store') = Put C store raw in Inr (block, cid, store')))"

subsection \<open>The proof store interface\<close>

locale proof_store_interface =
  fixes put :: "'s \<Rightarrow> bytes \<Rightarrow> string \<times> 's"
    and get :: "'s \<Rightarrow> string \<Rightarrow> 'e + bytes"
    and cid_of :: "bytes \<Rightarrow> string"
    and inv :: "'s \<Rightarrow> bool"
  assumes put_cid: "fst (put s r) = cid_of r"
    and put_inv: "inv s \<Longrightarrow> inv (snd (put s r))"
    and get_put: "inv s \<Longrightarrow> get (snd (put s r)) c = (if c = cid_of r then Inr r else get s c)"
    and get_content: "inv s \<Longrightarrow> get s c = Inr r \<Longrightarrow> cid_of r = c"
begin

lemma get_after_put: "inv s \<Longrightarrow> put s r = (c, s') \<Longrightarrow> get s' c = Inr r \<and> c = cid_of r"
  using put_cid [of s r] get_put [of s r] by auto

text \<open>A reference that resolves keeps its meaning, unless a digest collision overwrites it.\<close>

lemma get_stable:
  assumes "inv s" and "get s c = Inr r" and "put s r' = (c', s')"
  shows "get s' c = Inr r \<or> (r' \<noteq> r \<and> cid_of r' = cid_of r)"
  using get_put [OF assms(1), of r' c] get_content [OF assms(1,2)] assms(2,3) by auto

end

definition content_addressed :: "crypto \<Rightarrow> proof_store \<Rightarrow> bool" where
  "content_addressed C s \<longleftrightarrow> (\<forall>c r. s c = Some r \<longrightarrow> ComputeCID C r = c)"

interpretation memory_proofs: proof_store_interface "Put C" Get "ComputeCID C" "content_addressed C" for C
  by unfold_locales
    (auto simp: Put_def Get_def content_addressed_def Let_def split: option.splits if_splits)

subsection \<open>What a chain is\<close>

definition elem_parent :: "chain_element \<Rightarrow> string" where
  "elem_parent e = (case el_body e of Token _ \<Rightarrow> [] | Block b \<Rightarrow> blk_prf b)"

definition elem_weight :: "chain_element \<Rightarrow> nat" where
  "elem_weight e = (case el_body e of Token u \<Rightarrow> token_weight u | Block b \<Rightarrow> length (blk_cav b))"

text \<open>An identifier denotes an element when the store's bytes hash to it and decode to it.\<close>

definition resolves :: "crypto \<Rightarrow> (string \<Rightarrow> 'e + bytes) \<Rightarrow> string \<Rightarrow> chain_element \<Rightarrow> bool" where
  "resolves C get cid e \<longleftrightarrow> cid \<noteq> [] \<and> (\<exists>raw. get cid = Inr raw \<and> VerifyCID C raw cid
     \<and> parseElement raw cid = Inr (e, elem_parent e, elem_weight e))"

text \<open>The specification: a proof path follows the parent references from a leaf to a root.\<close>

inductive proof_path :: "crypto \<Rightarrow> (string \<Rightarrow> 'e + bytes) \<Rightarrow> string \<Rightarrow> chain_element list \<Rightarrow> bool"
  for C get where
  path_root: "resolves C get cid e \<Longrightarrow> el_root e \<Longrightarrow> proof_path C get cid [e]"
| path_hop: "resolves C get cid e \<Longrightarrow> \<not> el_root e \<Longrightarrow> proof_path C get (elem_parent e) es
    \<Longrightarrow> proof_path C get cid (e # es)"

inductive_cases proof_path_ConsE: "proof_path C get cid (e # es)"

lemma parseElement_shape:
  assumes "parseElement raw cid = Inr (e, p, w)"
  shows "p = elem_parent e \<and> w = elem_weight e \<and> el_cid e = cid
    \<and> (el_root e \<longleftrightarrow> (\<exists>u. el_body e = Token u \<and> ParseUCAN raw = Inr u \<and> pl_prf (u_payload u) = []))
    \<and> (\<not> el_root e \<longleftrightarrow> (\<exists>b. el_body e = Block b \<and> ParseRestrictBlock raw = Inr b))"
  using assms by (auto simp: parseElement_def elem_parent_def elem_weight_def split: if_splits sum.splits list.splits)

lemma resolves_unique: "resolves C get cid e \<Longrightarrow> resolves C get cid e' \<Longrightarrow> e = e'"
  by (auto simp: resolves_def)

lemma resolves_cid: "resolves C get cid e \<Longrightarrow> el_cid e = cid"
  by (auto simp: resolves_def dest: parseElement_shape)

lemma proof_path_unique: "proof_path C get cid es \<Longrightarrow> proof_path C get cid es' \<Longrightarrow> es = es'"
proof (induction arbitrary: es' rule: proof_path.induct)
  case (path_root cid e)
  from path_root.prems show ?case
    by cases (use path_root resolves_unique in blast)+
next
  case (path_hop cid e es)
  from path_hop.prems show ?case
    by cases (use path_hop resolves_unique in blast)+
qed

lemma proof_path_nonempty: "proof_path C get cid es \<Longrightarrow> es \<noteq> [] \<and> el_cid (hd es) = cid \<and> el_root (last es)"
  by (induction rule: proof_path.induct) (auto simp: resolves_cid)

text \<open>The element with a given identifier starts a path of its own, so a path that reaches a
  root never meets an identifier twice: the cycle check refuses no chain that ends.\<close>

lemma proof_path_suffix:
  "proof_path C get cid es \<Longrightarrow> e \<in> set es \<Longrightarrow> \<exists>pre suf. es = pre @ e # suf \<and> proof_path C get (el_cid e) (e # suf)"
proof (induction rule: proof_path.induct)
  case (path_root cid f)
  then have "proof_path C get (el_cid e) [e]" using proof_path.path_root resolves_cid by fastforce
  with path_root show ?case by force
next
  case (path_hop cid f es)
  show ?case
  proof (cases "e = f")
    case True
    have "proof_path C get (el_cid f) (f # es)"
      using proof_path.path_hop [OF path_hop.hyps] resolves_cid [OF path_hop.hyps(1)] by simp
    with True show ?thesis by fastforce
  next
    case False
    with path_hop obtain pre suf where "es = pre @ e # suf" "proof_path C get (el_cid e) (e # suf)" by auto
    then show ?thesis by (metis append_Cons)
  qed
qed

lemma proof_path_distinct: "proof_path C get cid es \<Longrightarrow> distinct (map el_cid es)"
proof (induction rule: proof_path.induct)
  case (path_hop cid e es)
  have full: "proof_path C get cid (e # es)" by (rule proof_path.path_hop [OF path_hop.hyps])
  have "el_cid f \<noteq> cid" if f: "f \<in> set es" for f
  proof
    assume "el_cid f = cid"
    with proof_path_suffix [OF path_hop.hyps(3) f] obtain pre suf
      where "es = pre @ f # suf" "proof_path C get cid (f # suf)" by auto
    with proof_path_unique [OF full, of "f # suf"] show False by auto
  qed
  with path_hop show ?case by (auto simp: resolves_cid)
qed simp

lemma buildLoop_sound:
  "buildLoop C get md cid seen els w = Inr r \<Longrightarrow> \<exists>es. proof_path C get cid es
     \<and> w + sum_list (map elem_weight es) \<le> MaxChainCapsCaveats \<and> length els + length es \<le> Suc md \<and> r = els @ es"
proof (induction C get md cid seen els w rule: buildLoop.induct)
  case (1 C get md cid seen els w)
  from "1.prems" obtain raw e p wt where g: "cid \<noteq> []" "\<not> List.member seen cid" "get cid = Inr raw" "VerifyCID C raw cid"
    "parseElement raw cid = Inr (e, p, wt)" "w + wt \<le> MaxChainCapsCaveats" "length els \<le> md"
    and r: "r = els @ [e] \<and> el_root e \<or> \<not> el_root e
      \<and> buildLoop C get md p (cid # seen) (els @ [e]) (w + wt) = Inr r"
    by (subst (asm) buildLoop.simps) (auto split: sum.splits if_splits)
  note sh = parseElement_shape [OF g(5)]
  have res: "resolves C get cid e" using g(1,3-5) sh by (auto simp: resolves_def)
  from r show ?case
  proof
    assume "r = els @ [e] \<and> el_root e"
    with proof_path.path_root [OF res] g sh show ?thesis by auto
  next
    assume a: "\<not> el_root e \<and> buildLoop C get md p (cid # seen) (els @ [e]) (w + wt) = Inr r"
    with g have "\<exists>es. proof_path C get p es \<and> w + wt + sum_list (map elem_weight es) \<le> MaxChainCapsCaveats
        \<and> length (els @ [e]) + length es \<le> Suc md \<and> r = (els @ [e]) @ es"
      by (intro "1.IH" [of raw "(e, p, wt)" e "(p, wt)" p wt]) auto
    then obtain es where "proof_path C get p es" "w + wt + sum_list (map elem_weight es) \<le> MaxChainCapsCaveats"
      "length els + length (e # es) \<le> Suc md" "r = els @ e # es" by auto
    with proof_path.path_hop [OF res] a sh show ?thesis by (intro exI [of _ "e # es"]) auto
  qed
qed

lemma buildLoop_complete:
  "proof_path C get cid es \<Longrightarrow> distinct (map el_cid es) \<Longrightarrow> set (map el_cid es) \<inter> set seen = {}
   \<Longrightarrow> w + sum_list (map elem_weight es) \<le> MaxChainCapsCaveats \<Longrightarrow> length els + length es \<le> Suc md
   \<Longrightarrow> buildLoop C get md cid seen els w = Inr (els @ es)"
proof (induction arbitrary: seen els w rule: proof_path.induct)
  case (path_root cid e)
  then show ?case
    by (subst buildLoop.simps) (auto simp: resolves_def resolves_cid dest: parseElement_shape)
next
  case (path_hop cid e es)
  have c: "el_cid e = cid" by (rule resolves_cid [OF path_hop.hyps(1)])
  have "buildLoop C get md (elem_parent e) (cid # seen) (els @ [e]) (w + elem_weight e) = Inr ((els @ [e]) @ es)"
    by (rule path_hop.IH) (use path_hop.prems c in auto)
  with path_hop c show ?case
    by (subst buildLoop.simps) (auto simp: resolves_def)
qed

lemma depthCap_bound: "0 < depthCap m" "depthCap m \<le> 100"
  by (auto simp: depthCap_def Let_def DefaultMaxDepth_def HardMaxDepth_def)

definition chain_of :: "chain_element list \<Rightarrow> chain" where
  "chain_of es = \<lparr>Elements = es, Depth = length es - 1\<rparr>"

lemma BuildChain_iff:
  "BuildChain C leaf get m = Inr c \<longleftrightarrow> (\<exists>es. proof_path C get leaf es \<and> length es - 1 \<le> depthCap m
     \<and> sum_list (map elem_weight es) \<le> MaxChainCapsCaveats \<and> c = chain_of es)"
proof
  assume "BuildChain C leaf get m = Inr c"
  then show "\<exists>es. proof_path C get leaf es \<and> length es - 1 \<le> depthCap m
     \<and> sum_list (map elem_weight es) \<le> MaxChainCapsCaveats \<and> c = chain_of es"
    using buildLoop_sound [of C get "depthCap m" leaf "[]" "[]" 0]
    by (auto simp: BuildChain_def err_simps chain_of_def)
next
  assume "\<exists>es. proof_path C get leaf es \<and> length es - 1 \<le> depthCap m
     \<and> sum_list (map elem_weight es) \<le> MaxChainCapsCaveats \<and> c = chain_of es"
  then obtain es where "proof_path C get leaf es" "length es - 1 \<le> depthCap m"
    "sum_list (map elem_weight es) \<le> MaxChainCapsCaveats" "c = chain_of es" by blast
  moreover from this have "buildLoop C get (depthCap m) leaf [] [] 0 = Inr ([] @ es)"
    by (intro buildLoop_complete proof_path_distinct) auto
  ultimately show "BuildChain C leaf get m = Inr c"
    by (simp add: BuildChain_def chain_of_def)
qed

lemma BuildChain_shape:
  assumes "BuildChain C leaf get m = Inr c"
  shows "Elements c \<noteq> [] \<and> Depth c = length (Elements c) - 1 \<and> Depth c \<le> depthCap m
    \<and> distinct (map el_cid (Elements c)) \<and> el_cid (Leaf c) = leaf \<and> el_root (Root c)
    \<and> sum_list (map elem_weight (Elements c)) \<le> MaxChainCapsCaveats"
  using assms proof_path_nonempty proof_path_distinct
  unfolding BuildChain_iff by (fastforce simp: chain_of_def Leaf_def Root_def)

text \<open>Every part of a path from some element up to the root is the path of that element.\<close>

lemma BuildChain_suffix:
  assumes "BuildChain C leaf get m = Inr ch" and "Elements ch = pre @ es" and "es \<noteq> []"
  shows "BuildChain C (el_cid (hd es)) get m = Inr (chain_of es)"
proof -
  from assms(1,2) have p: "proof_path C get leaf (pre @ es)" "length (pre @ es) - 1 \<le> depthCap m"
    "sum_list (map elem_weight (pre @ es)) \<le> MaxChainCapsCaveats"
    unfolding BuildChain_iff by (auto simp: chain_of_def)
  have "proof_path C get leaf (pre @ es) \<Longrightarrow> proof_path C get (el_cid (hd es)) es" for leaf
  proof (induction pre arbitrary: leaf)
    case Nil
    then show ?case using proof_path_nonempty [of C get leaf es] by simp
  next
    case (Cons e pre)
    from Cons.prems assms(3) show ?case by (auto elim!: proof_path_ConsE dest: Cons.IH)
  qed
  with p show ?thesis unfolding BuildChain_iff by (intro exI [of _ es]) auto
qed

lemma proof_path_elems:
  "proof_path C get cid es \<Longrightarrow> e \<in> set es \<Longrightarrow> resolves C get (el_cid e) e"
  by (induction rule: proof_path.induct) (auto simp: resolves_cid)

lemma proof_path_hops:
  "proof_path C get cid es \<Longrightarrow> (e, f) \<in> set (hops es) \<Longrightarrow> \<not> el_root e \<and> elem_parent e = el_cid f"
proof (induction rule: proof_path.induct)
  case (path_hop cid g es)
  from proof_path_nonempty [OF path_hop.hyps(3)] obtain h hs where "es = h # hs" "el_cid h = elem_parent g"
    by (cases es) auto
  with path_hop show ?case by auto
qed simp

lemma resolves_block: "resolves C get cid e \<Longrightarrow> \<not> el_root e
    \<Longrightarrow> \<exists>raw b. get cid = Inr raw \<and> el_body e = Block b \<and> ParseRestrictBlock raw = Inr b"
  by (auto simp: resolves_def dest: parseElement_shape)

lemma resolves_token: "resolves C get cid e \<Longrightarrow> el_root e
    \<Longrightarrow> \<exists>raw u. get cid = Inr raw \<and> el_body e = Token u \<and> ParseUCAN raw = Inr u \<and> pl_prf (u_payload u) = []"
  by (auto simp: resolves_def dest: parseElement_shape)

lemma proof_path_mono:
  assumes "\<And>c r. get c = Inr r \<Longrightarrow> get' c = Inr r"
  shows "proof_path C get cid es \<Longrightarrow> proof_path C get' cid es"
proof (induction rule: proof_path.induct)
  case (path_root cid e)
  then have "resolves C get' cid e" using assms by (auto simp: resolves_def)
  with path_root show ?case by (auto intro: proof_path.path_root)
next
  case (path_hop cid e es)
  then have "resolves C get' cid e" using assms by (auto simp: resolves_def)
  with path_hop show ?case by (auto intro: proof_path.path_hop)
qed

lemma trim_space_left_brace: "trim_space_left (CHR 0x7B # t) = CHR 0x7B # t"
  by (subst trim_space_left.simps) (simp add: decode_rune_def is_space_rune_def byte_def Let_def in_range_def)

lemma parseElement_block:
  assumes "raw = CHR 0x7B # t" and "ParseRestrictBlock raw = Inr b"
  shows "parseElement raw cid = Inr (\<lparr>el_body = Block b, el_cid = cid, el_root = False, el_mode = ModeRestrict\<rparr>,
     blk_prf b, length (blk_cav b))"
  using assms by (simp add: parseElement_def looks_like_object_def trim_space_left_brace)

lemma CreateRestrictBlock_brace:
  assumes "CreateRestrictBlock C parent aud depth cs key = Inr (b, raw)"
    and "utf8_valid (par_cid parent)" and "utf8_valid (par_aud parent)" and "utf8_valid aud"
    and "\<forall>c \<in> set cs. caveat_ok c"
  shows "\<exists>t. raw = CHR 0x7B # t"
proof -
  have "utf8_valid RestrictBlockTyp" by code_simp
  then have "block_ok b" using assms(2-5) CreateRestrictBlock_result [OF assms(1)] by (auto simp: block_ok_def)
  then show ?thesis using CanonicalBytes_brace CreateRestrictBlock_result [OF assms(1)] by blast
qed

text \<open>Extending a chain by one issued delegation, for any content-addressed store.\<close>

lemma DelegateRestrict_path:
  assumes "ed25519_ok C" and "content_addressed C store" and "proof_path C (Get store) (par_cid parent) es"
    and "DelegateRestrict C parent aud cs depth key store = Inr (b, cid, store')" and "store cid = None"
    and "utf8_valid (par_cid parent)" and "utf8_valid (par_aud parent)" and "utf8_valid aud"
    and "\<forall>c \<in> set cs. caveat_ok c"
  shows "proof_path C (Get store') cid (\<lparr>el_body = Block b, el_cid = cid, el_root = False, el_mode = ModeRestrict\<rparr> # es)"
proof -
  from assms(4) obtain raw where cr: "CreateRestrictBlock C parent aud depth cs key = Inr (b, raw)"
    and put: "Put C store raw = (cid, store')"
    by (auto simp: DelegateRestrict_def err_simps split: if_splits prod.splits)
  note acc = CreateRestrictBlock_parses [OF assms(1) cr assms(6-9)]
  have got: "Get store' cid = Inr raw" "cid = ComputeCID C raw"
    using memory_proofs.get_after_put [OF assms(2) put] by auto
  have mono: "Get store' c = Inr r" if "Get store c = Inr r" for c r
  proof -
    have "ComputeCID C r = c" by (rule memory_proofs.get_content [OF assms(2) that])
    moreover have "c \<noteq> cid" using that assms(5) by (auto simp: Get_def)
    ultimately show ?thesis using memory_proofs.get_stable [OF assms(2) that put] got(2) by auto
  qed
  have b: "blk_prf b = par_cid parent" using CreateRestrictBlock_result [OF cr] by auto
  obtain t where "raw = CHR 0x7B # t" using CreateRestrictBlock_brace [OF cr assms(6-9)] by blast
  from parseElement_block [OF this] acc
  have "resolves C (Get store') cid \<lparr>el_body = Block b, el_cid = cid, el_root = False, el_mode = ModeRestrict\<rparr>"
    using got by (auto simp: resolves_def elem_parent_def elem_weight_def VerifyCID_def)
  moreover have "proof_path C (Get store') (par_cid parent) es" by (rule proof_path_mono [OF mono assms(3)])
  ultimately show ?thesis using b by (intro proof_path.path_hop) (auto simp: elem_parent_def)
qed

text \<open>A concrete store holding one root token, for evaluation.\<close>

definition brace_crypto :: crypto where
  "brace_crypto = demo_crypto\<lparr>sha256 := (\<lambda>d. replicate 32 (if take 1 d = ''{'' then CHR ''A'' else CHR ''B''))\<rparr>"

lemma brace_crypto_ok: "ed25519_ok brace_crypto" "sha256_ok brace_crypto"
  using demo_crypto_ok(1) by (simp_all add: brace_crypto_def ed25519_ok_def sha256_ok_def)

lemma brace_cids:
  "ComputeCID brace_crypto (CHR 0x7B # t) = ComputeCID brace_crypto ''{''"
  "c \<noteq> CHR 0x7B \<Longrightarrow> ComputeCID brace_crypto (c # t) = ComputeCID brace_crypto ''x''"
  "ComputeCID brace_crypto ''{'' \<noteq> ComputeCID brace_crypto ''x''"
  by (simp_all add: ComputeCID_eq_iff [OF brace_crypto_ok(2)]) (simp_all add: brace_crypto_def)

lemma b64_encode_hd: "s \<noteq> [] \<Longrightarrow> \<exists>c t. b64_encode s = c # t \<and> byte c < 0x80 \<and> c \<noteq> CHR 0x7B \<and> \<not> is_space_rune (byte c)"
proof -
  have all: "list_all (\<lambda>c. byte c < 0x80 \<and> c \<noteq> CHR 0x7B \<and> \<not> is_space_rune (byte c)) (map b64_char [0..63])"
    by code_simp
  have "\<exists>d t. b64_encode s = b64_char d # t \<and> 0 \<le> d \<and> d < 64" if "s \<noteq> []"
    using that by (cases s rule: b64_encode.cases) (auto intro: b64_range [THEN conjunct1] b64_range [THEN conjunct2])
  moreover have "byte (b64_char d) < 0x80 \<and> b64_char d \<noteq> CHR 0x7B \<and> \<not> is_space_rune (byte (b64_char d))"
    if "0 \<le> d" "d < 64" for d
    using all that by (auto simp: list_all_iff)
  ultimately show "s \<noteq> [] \<Longrightarrow> ?thesis" by blast
qed

lemma looks_like_object_ascii:
  "byte c < 0x80 \<Longrightarrow> c \<noteq> CHR 0x7B \<Longrightarrow> \<not> is_space_rune (byte c) \<Longrightarrow> \<not> looks_like_object (c # t)"
  by (subst looks_like_object_def, subst trim_space_left.simps) (simp add: decode_rune_def Let_def)

text \<open>An issued root token in the store is a chain of its own.\<close>

lemma CreateUCAN_hd:
  assumes "CreateUCAN C p priv = Inr token" and "payload_ok p"
  shows "\<exists>c t. token = c # t \<and> byte c < 0x80 \<and> c \<noteq> CHR 0x7B \<and> \<not> is_space_rune (byte c)"
proof -
  from CreateUCAN_result [OF assms] obtain v hc pc where h: "CanonicalizeValue (header_json issued_header) = Inr hc"
    "token = b64_encode hc @ ''.'' @ b64_encode pc @ ''.''
         @ b64_encode (ed_sign C priv (b64_encode hc @ ''.'' @ b64_encode pc))" by blast
  have "hc \<noteq> []"
    using h(1) CanonicalizeValue_eq [OF issued_header_json(1), of hc] by (auto simp: header_json_def)
  from b64_encode_hd [OF this] h(2) show ?thesis by auto
qed

lemma issued_root_path:
  assumes "ed25519_ok C" and "payload_ok p" and "CreateUCAN C p priv = Inr token" and "pl_prf p = []"
    and "get cid = Inr token" and "cid = ComputeCID C token"
  shows "\<exists>u. u_payload u = p \<and> proof_path C get cid [\<lparr>el_body = Token u, el_cid = cid, el_root = True, el_mode = ModeRoot\<rparr>]"
proof -
  from CreateUCAN_parses [OF assms(1-3)] obtain u where u: "ParseUCAN token = Inr u" "u_payload u = p" by blast
  from CreateUCAN_hd [OF assms(3,2)] have "\<not> looks_like_object token" using looks_like_object_ascii by blast
  with u assms(4-6)
  have "resolves C get cid \<lparr>el_body = Token u, el_cid = cid, el_root = True, el_mode = ModeRoot\<rparr>"
    by (simp add: resolves_def parseElement_def elem_parent_def elem_weight_def VerifyCID_def)
  with u show ?thesis by (intro exI [of _ u]) (auto intro: proof_path.path_root)
qed

lemma sample_root_store:
  "\<exists>token u store. CreateUCAN brace_crypto sample_payload (replicate 64 (CHR ''k'')) = Inr token
     \<and> Put brace_crypto NewMemoryProofStore token = (ComputeCID brace_crypto ''x'', store)
     \<and> content_addressed brace_crypto store \<and> u_payload u = sample_payload
     \<and> proof_path brace_crypto (Get store) (ComputeCID brace_crypto ''x'')
         [\<lparr>el_body = Token u, el_cid = ComputeCID brace_crypto ''x'', el_root = True, el_mode = ModeRoot\<rparr>]
     \<and> store (ComputeCID brace_crypto ''{'') = None"
proof -
  from CreateUCAN_succeeds [OF sample_payload_ok, of "replicate 64 (CHR ''k'')" brace_crypto]
  obtain token where t: "CreateUCAN brace_crypto sample_payload (replicate 64 (CHR ''k'')) = Inr token"
    by (auto simp: PrivateKeySize_def)
  from CreateUCAN_hd [OF t sample_payload_ok(1)] obtain h tl where "token = h # tl" "h \<noteq> CHR 0x7B" by blast
  then have cid: "ComputeCID brace_crypto token = ComputeCID brace_crypto ''x''" using brace_cids(2) by metis
  let ?s = "[ComputeCID brace_crypto ''x'' \<mapsto> token]"
  have put: "Put brace_crypto NewMemoryProofStore token = (ComputeCID brace_crypto ''x'', ?s)"
    by (simp add: Put_def cid NewMemoryProofStore_def Let_def)
  have "content_addressed brace_crypto ?s" by (simp add: content_addressed_def cid)
  moreover have "pl_prf sample_payload = []" by (simp add: sample_payload_def)
  moreover have "Get ?s (ComputeCID brace_crypto ''x'') = Inr token" by (simp add: Get_def)
  moreover have "?s (ComputeCID brace_crypto ''{'') = None" using brace_cids(3) by simp
  ultimately show ?thesis
    using issued_root_path [OF brace_crypto_ok(1) sample_payload_ok(1) t, of "Get ?s"] put t cid
    by metis
qed

text \<open>A root token with one RESTRICT block of a given caveat below it.\<close>

lemma sample_hop:
  assumes "caveat_ok c"
  obtains store b store' u where
    "DelegateRestrict brace_crypto \<lparr>par_cid = ComputeCID brace_crypto ''x'', par_aud = ''a'', par_exp = 9, par_nbf = 0, par_dl = 1\<rparr>
      ''d'' [c] 0 (replicate 64 (CHR ''k'')) store = Inr (b, ComputeCID brace_crypto ''{'', store')"
    "BuildChain brace_crypto (ComputeCID brace_crypto ''{'') (Get store') 0 = Inr (chain_of
      [\<lparr>el_body = Block b, el_cid = ComputeCID brace_crypto ''{'', el_root = False, el_mode = ModeRestrict\<rparr>,
       \<lparr>el_body = Token u, el_cid = ComputeCID brace_crypto ''x'', el_root = True, el_mode = ModeRoot\<rparr>])"
    "blk_cav b = [c]" "u_payload u = sample_payload"
proof -
  let ?p = "\<lparr>par_cid = ComputeCID brace_crypto ''x'', par_aud = ''a'', par_exp = 9, par_nbf = 0, par_dl = 1\<rparr>"
  let ?k = "replicate 64 (CHR ''k'')"
  from sample_root_store obtain u store where s: "content_addressed brace_crypto store"
    "u_payload u = sample_payload" "proof_path brace_crypto (Get store) (ComputeCID brace_crypto ''x'')
         [\<lparr>el_body = Token u, el_cid = ComputeCID brace_crypto ''x'', el_root = True, el_mode = ModeRoot\<rparr>]"
    (is "proof_path _ _ _ [?e]")
    "store (ComputeCID brace_crypto ''{'') = None" by blast
  have w: "elem_weight ?e = 2" by (simp add: elem_weight_def token_weight_def s(2) sample_payload_def)
  have "utf8_valid ''a''" "utf8_valid ''d''" by code_simp+
  then have u: "utf8_valid (par_cid ?p)" "utf8_valid (par_aud ?p)" "utf8_valid ''d''" by simp_all
  have cav: "\<forall>c \<in> set [c]. caveat_ok c" using assms by simp
  have "\<exists>b raw. CreateRestrictBlock brace_crypto ?p ''d'' 0 [c] ?k = Inr (b, raw)"
    by (rule CreateRestrictBlock_succeeds) (use u cav in \<open>simp_all add: PrivateKeySize_def MaxCaveatsPerBlock_def\<close>)
  then obtain b raw where cr: "CreateRestrictBlock brace_crypto ?p ''d'' 0 [c] ?k = Inr (b, raw)" by blast
  obtain t where "raw = CHR 0x7B # t" using CreateRestrictBlock_brace [OF cr u cav] by blast
  then have d: "DelegateRestrict brace_crypto ?p ''d'' [c] 0 ?k store
      = Inr (b, ComputeCID brace_crypto ''{'', store(ComputeCID brace_crypto ''{'' \<mapsto> raw))"
    using cr brace_cids(1) [of t] by (simp add: DelegateRestrict_def Put_def Let_def)
  have b: "blk_cav b = [c]" using CreateRestrictBlock_result [OF cr] by auto
  have "1 \<le> depthCap 0" using depthCap_bound(1) [of 0] by simp
  with DelegateRestrict_path [OF brace_crypto_ok(1) s(1) _ d s(4) u cav] s(3) w b
  have "BuildChain brace_crypto (ComputeCID brace_crypto ''{'') (Get (store(ComputeCID brace_crypto ''{'' \<mapsto> raw))) 0
      = Inr (chain_of [\<lparr>el_body = Block b, el_cid = ComputeCID brace_crypto ''{'', el_root = False, el_mode = ModeRestrict\<rparr>, ?e])"
    unfolding BuildChain_iff by (fastforce simp: elem_weight_def MaxChainCapsCaveats_def)
  from that [OF d this b s(2)] show ?thesis .
qed

subsection \<open>Properties\<close>

text \<open>C28: \<open>BuildChain\<close> computes the proof path: it returns a chain exactly when following the
  parent references from the leaf, each resolved to bytes that hash to the reference, reaches a
  root within the depth cap and the weight cap, and it returns that path.  It returns on
  every store, and the cycle check refuses no chain that ends in a root.\<close>

theorem BuildChain_refines_path:
  "BuildChain C leaf get m = Inr c \<longleftrightarrow> (\<exists>es. proof_path C get leaf es \<and> length es - 1 \<le> depthCap m
     \<and> sum_list (map elem_weight es) \<le> MaxChainCapsCaveats \<and> c = chain_of es)"
  by (rule BuildChain_iff)

text \<open>Every chain that is returned has at most 100 hops and at most 1000 capabilities and
  caveats, names no credential twice, starts at the requested leaf, pins each element to
  the next by content identifier, has one root token without proofs at its end, and only
  RESTRICT blocks below it.\<close>

theorem BuildChain_invariants:
  assumes "BuildChain C leaf get m = Inr c"
  shows "el_cid (Leaf c) = leaf \<and> Depth c = length (Elements c) - 1 \<and> Depth c \<le> 100
    \<and> sum_list (map elem_weight (Elements c)) \<le> 1000
    \<and> distinct (map el_cid (Elements c))
    \<and> (\<exists>u. el_body (Root c) = Token u \<and> pl_prf (u_payload u) = [])
    \<and> (\<forall>(e, f) \<in> set (hops (Elements c)). \<exists>b. el_body e = Block b \<and> blk_prf b = el_cid f
         \<and> (\<exists>raw. get (el_cid e) = Inr raw \<and> VerifyCID C raw (el_cid e) \<and> ParseRestrictBlock raw = Inr b))"
proof -
  from assms obtain es where es: "proof_path C get leaf es" "c = chain_of es" unfolding BuildChain_iff by blast
  have "\<exists>b. el_body e = Block b \<and> blk_prf b = el_cid f
      \<and> (\<exists>raw. get (el_cid e) = Inr raw \<and> VerifyCID C raw (el_cid e) \<and> ParseRestrictBlock raw = Inr b)"
    if ef: "(e, f) \<in> set (hops es)" for e f
  proof -
    have r: "resolves C get (el_cid e) e" using proof_path_elems [OF es(1)] hops_memD [OF ef] by blast
    with resolves_block [OF r] proof_path_hops [OF es(1) ef] show ?thesis
      by (auto simp: resolves_def elem_parent_def)
  qed
  moreover have "\<exists>u. el_body (last es) = Token u \<and> pl_prf (u_payload u) = []"
    using resolves_token proof_path_elems [OF es(1)] proof_path_nonempty [OF es(1)] by (metis last_in_set)
  ultimately show ?thesis
    using BuildChain_shape [OF assms] depthCap_bound(2) [of m] es(2)
    by (auto simp: chain_of_def Root_def MaxChainCapsCaveats_def)
qed

theorem BuildChain_invariants_witness:
  "\<exists>store u. BuildChain brace_crypto (ComputeCID brace_crypto ''x'') (Get store) 0
      = Inr (chain_of [\<lparr>el_body = Token u, el_cid = ComputeCID brace_crypto ''x'', el_root = True, el_mode = ModeRoot\<rparr>])
    \<and> u_payload u = sample_payload \<and> pl_prf (u_payload u) = []"
proof -
  from sample_root_store obtain u store where p: "u_payload u = sample_payload"
    "proof_path brace_crypto (Get store) (ComputeCID brace_crypto ''x'')
         [\<lparr>el_body = Token u, el_cid = ComputeCID brace_crypto ''x'', el_root = True, el_mode = ModeRoot\<rparr>]" (is "proof_path _ _ _ ?es")
    by blast
  have "sum_list (map elem_weight ?es) \<le> MaxChainCapsCaveats"
    by (simp add: elem_weight_def token_weight_def p(1) sample_payload_def MaxChainCapsCaveats_def)
  with p(2) have b: "BuildChain brace_crypto (ComputeCID brace_crypto ''x'') (Get store) 0 = Inr (chain_of ?es)"
    unfolding BuildChain_iff by force
  from BuildChain_invariants [OF b] have "pl_prf (u_payload u) = []" by (auto simp: chain_of_def Root_def)
  with b p(1) show ?thesis by blast
qed

text \<open>Issuing a delegation extends the chain by exactly one hop: the chain of the new
  identifier is the new block on top of the parent's chain, provided its identifier is new
  to the store and the caps leave room.\<close>

theorem DelegateRestrict_extends_chain:
  assumes "ed25519_ok C" and "content_addressed C store" and "BuildChain C (par_cid parent) (Get store) m = Inr c"
    and "DelegateRestrict C parent aud cs depth key store = Inr (b, cid, store')" and "store cid = None"
    and "utf8_valid (par_cid parent)" and "utf8_valid (par_aud parent)" and "utf8_valid aud"
    and "\<forall>c \<in> set cs. caveat_ok c"
    and "Depth c < depthCap m" and "sum_list (map elem_weight (Elements c)) + length cs \<le> MaxChainCapsCaveats"
  shows "BuildChain C cid (Get store') m
    = Inr \<lparr>Elements = \<lparr>el_body = Block b, el_cid = cid, el_root = False, el_mode = ModeRestrict\<rparr> # Elements c,
           Depth = Suc (Depth c)\<rparr>"
proof -
  from assms(3) obtain es where es: "proof_path C (Get store) (par_cid parent) es" "c = chain_of es"
    unfolding BuildChain_iff by blast
  have "blk_cav b = cs"
    using assms(4) by (auto simp: DelegateRestrict_def err_simps split: if_splits prod.splits dest!: CreateRestrictBlock_result)
  moreover have "es \<noteq> []" using proof_path_nonempty [OF es(1)] by blast
  ultimately show ?thesis
    unfolding BuildChain_iff using DelegateRestrict_path [OF assms(1,2) es(1) assms(4-9)] assms(10,11) es(2)
    by (intro exI [of _ "\<lparr>el_body = Block b, el_cid = cid, el_root = False, el_mode = ModeRestrict\<rparr> # es"])
      (auto simp: chain_of_def elem_weight_def neq_Nil_conv)
qed

end
