(* ===== verification/Audit_Log.thy ===== *)
theory Audit_Log
  imports Signing Json_Struct
begin

text \<open>
  \<open>internal/audit/audit.go\<close>: the hash-linked audit log.  The payload of an entry is the
  \<open>map[string]any\<close> as the members it encodes as, \<open>None\<close> for the nil map; the wall clock is the
  argument \<open>now\<close>.  The log's mutex makes each operation atomic.
\<close>

definition EventDelegationIssued :: string where "EventDelegationIssued = ''DELEGATION_ISSUED''"
definition EventCapabilityInvoked :: string where "EventCapabilityInvoked = ''CAPABILITY_INVOKED''"
definition EventCapabilityDenied :: string where "EventCapabilityDenied = ''CAPABILITY_DENIED''"
definition EventAgentRegistered :: string where "EventAgentRegistered = ''AGENT_REGISTERED''"
definition EventAgentStateChange :: string where "EventAgentStateChange = ''AGENT_STATE_CHANGE''"
definition EventRevocationPosted :: string where "EventRevocationPosted = ''REVOCATION_POSTED''"
definition EventCompromiseCascade :: string where "EventCompromiseCascade = ''COMPROMISE_CASCADE''"
definition EventReconciliationCompleted :: string where
  "EventReconciliationCompleted = ''RECONCILIATION_COMPLETED''"
definition EventNonceCacheRestart :: string where "EventNonceCacheRestart = ''NONCE_CACHE_RESTART''"
definition EventSlowVerification :: string where "EventSlowVerification = ''SLOW_VERIFICATION''"

datatype audit_error = ErrChainTampered | ErrHashEntry sign_error | ErrAuditBackend

type_synonym payload = "(string \<times> json) list option"

record audit_entry =
  ae_id :: string
  ae_seq :: i64
  ae_ts :: i64
  ae_type :: string
  ae_agent :: string
  ae_cred :: string
  ae_chain :: string
  ae_payload :: payload
  ae_prev :: string
  ae_hash :: string

text \<open>The literal \<open>audit.AuditEntry{...}\<close> with the named fields, the others zero.\<close>

definition new_entry :: "string \<Rightarrow> string \<Rightarrow> string \<Rightarrow> i64 \<Rightarrow> payload \<Rightarrow> audit_entry" where
  "new_entry typ agent cred ts pl =
     \<lparr>ae_id = [], ae_seq = 0, ae_ts = ts, ae_type = typ, ae_agent = agent, ae_cred = cred, ae_chain = [],
      ae_payload = pl, ae_prev = [], ae_hash = []\<rparr>"

record audit_filter =
  f_type :: string
  f_agent :: string
  f_since :: i64

record audit_log =
  al_entries :: "audit_entry list"
  al_lastHash :: string
  al_seq :: i64

definition NewMemoryAuditLog :: audit_log where
  "NewMemoryAuditLog = \<lparr>al_entries = [], al_lastHash = [], al_seq = 0\<rparr>"

definition hex_encode :: "bytes \<Rightarrow> string" where
  "hex_encode s = concat (map (\<lambda>c. [hexDigits ! nat (byte c div 16), hexDigits ! nat (byte c mod 16)]) s)"

subsection \<open>Hash linking\<close>

definition payload_members :: "payload \<Rightarrow> (string \<times> json) list" where
  "payload_members p = (case p of None \<Rightarrow> [] | Some ms \<Rightarrow> ms)"

definition entry_json :: "i64 \<Rightarrow> i64 \<Rightarrow> string \<Rightarrow> string \<Rightarrow> string \<Rightarrow> string \<Rightarrow> string \<Rightarrow> payload \<Rightarrow> json" where
  "entry_json sq ts prevHash eventType agentID credCID chainHash pl =
     JObj [(''agent_id'', JStr agentID), (''chain_hash'', JStr chainHash), (''cred_cid'', JStr credCID),
           (''event_type'', JStr eventType), (''payload'', JObj (payload_members pl)),
           (''prev_hash'', JStr prevHash), (''seq'', json_int sq), (''ts'', json_int ts)]"

definition entryHash ::
    "crypto \<Rightarrow> i64 \<Rightarrow> i64 \<Rightarrow> string \<Rightarrow> string \<Rightarrow> string \<Rightarrow> string \<Rightarrow> string \<Rightarrow> payload \<Rightarrow> sign_error + string" where
  "entryHash C sq ts prevHash eventType agentID credCID chainHash pl =
     bindE (CanonicalizeValue (entry_json sq ts prevHash eventType agentID credCID chainHash pl))
       (\<lambda>canonical. Inr (hex_encode (sha256 C canonical)))"

definition ComputeEntryHash ::
    "crypto \<Rightarrow> i64 \<Rightarrow> i64 \<Rightarrow> string \<Rightarrow> string \<Rightarrow> string \<Rightarrow> string \<Rightarrow> string \<Rightarrow> payload \<Rightarrow> sign_error + string" where
  "ComputeEntryHash = entryHash"

subsection \<open>Operations\<close>

text \<open>The fields \<open>Append\<close> assigns.\<close>

definition stamped :: "i64 \<Rightarrow> audit_log \<Rightarrow> audit_entry \<Rightarrow> string \<Rightarrow> audit_entry" where
  "stamped now l entry hash =
     entry\<lparr>ae_seq := al_seq l + 1, ae_ts := (if ae_ts entry = 0 then now else ae_ts entry),
       ae_payload := Some (payload_members (ae_payload entry)), ae_prev := al_lastHash l, ae_hash := hash,
       ae_id := ''ae_'' @ itoa (sint (al_seq l + 1)) @ ''_'' @ take 12 hash\<rparr>"

definition stored_hash :: "crypto \<Rightarrow> audit_entry \<Rightarrow> sign_error + string" where
  "stored_hash C e = entryHash C (ae_seq e) (ae_ts e) (ae_prev e) (ae_type e) (ae_agent e) (ae_cred e)
     (ae_chain e) (ae_payload e)"

text \<open>A failing \<open>Append\<close> has already used up its sequence number.\<close>

definition Append :: "crypto \<Rightarrow> i64 \<Rightarrow> audit_log \<Rightarrow> audit_entry \<Rightarrow> (audit_error + unit) \<times> audit_log" where
  "Append C now l entry =
     (case stored_hash C (stamped now l entry []) of
        Inl e \<Rightarrow> (Inl (ErrHashEntry e), l\<lparr>al_seq := al_seq l + 1\<rparr>)
      | Inr hash \<Rightarrow>
          (Inr (), \<lparr>al_entries = al_entries l @ [stamped now l entry hash],
            al_lastHash = hash, al_seq = al_seq l + 1\<rparr>))"

definition filter_matches :: "audit_filter \<Rightarrow> audit_entry \<Rightarrow> bool" where
  "filter_matches f e \<longleftrightarrow> \<not> (f_type f \<noteq> [] \<and> ae_type e \<noteq> f_type f)
     \<and> \<not> (f_agent f \<noteq> [] \<and> ae_agent e \<noteq> f_agent f)
     \<and> \<not> (f_since f \<noteq> 0 \<and> slt (ae_ts e) (f_since f))"

definition Query :: "audit_log \<Rightarrow> audit_filter \<Rightarrow> audit_entry list" where
  "Query l f = filter (filter_matches f) (al_entries l)"

fun verifyEntries :: "crypto \<Rightarrow> string \<Rightarrow> audit_entry list \<Rightarrow> audit_error + unit" where
  "verifyEntries C prev [] = Inr ()"
| "verifyEntries C prev (e # es) =
     (if ae_prev e \<noteq> prev then Inl ErrChainTampered
      else case stored_hash C e of
             Inl x \<Rightarrow> Inl (ErrHashEntry x)
           | Inr hash \<Rightarrow> if hash \<noteq> ae_hash e then Inl ErrChainTampered else verifyEntries C (ae_hash e) es)"

definition VerifyChain :: "crypto \<Rightarrow> audit_log \<Rightarrow> audit_error + unit" where
  "VerifyChain C l = verifyEntries C [] (al_entries l)"

definition Len :: "audit_log \<Rightarrow> nat" where
  "Len l = length (al_entries l)"

subsection \<open>The audit log interface\<close>

text \<open>What a log promises for the entries it calls admissible: a backend may store the payload in another
  representation, as long as it keeps its canonical form.\<close>

locale audit_log_interface =
  fixes append :: "i64 \<Rightarrow> 's \<Rightarrow> audit_entry \<Rightarrow> (audit_error + unit) \<times> 's"
    and entries :: "'s \<Rightarrow> audit_entry list"
    and verify :: "'s \<Rightarrow> audit_error + unit"
    and inv :: "'s \<Rightarrow> bool"
    and admissible :: "audit_entry \<Rightarrow> bool"
  assumes append_inv: "inv s \<Longrightarrow> admissible e \<Longrightarrow> append now s e = (r, s') \<Longrightarrow> inv s'"
    and append_ok: "inv s \<Longrightarrow> admissible e \<Longrightarrow> append now s e = (Inr (), s') \<Longrightarrow> \<exists>x. entries s' = entries s @ [x]
      \<and> ae_type x = ae_type e \<and> ae_agent x = ae_agent e \<and> ae_cred x = ae_cred e
      \<and> ae_ts x = (if ae_ts e = 0 then now else ae_ts e)
      \<and> normal (JObj (payload_members (ae_payload x))) = normal (JObj (payload_members (ae_payload e)))"
    and append_fail: "inv s \<Longrightarrow> append now s e = (Inl x, s') \<Longrightarrow> entries s' = entries s"
    and inv_verify: "inv s \<Longrightarrow> verify s = Inr ()"
begin

lemma append_inv_snd: "inv s \<Longrightarrow> admissible e \<Longrightarrow> inv (snd (append now s e))"
  by (cases "append now s e") (auto dest: append_inv)

lemma append_extends: "inv s \<Longrightarrow> admissible e \<Longrightarrow> \<exists>t. entries (snd (append now s e)) = entries s @ t"
  using append_ok [of s e now "snd (append now s e)"] append_fail [of s now e _ "snd (append now s e)"]
  by (cases "append now s e"; cases "fst (append now s e)") auto

text \<open>Whatever is appended, successfully or not, the log verifies and its past is untouched.\<close>

lemma appends_history:
  "inv s \<Longrightarrow> \<forall>p \<in> set es. admissible (snd p) \<Longrightarrow> verify (foldl (\<lambda>s (now, e). snd (append now s e)) s es) = Inr ()
     \<and> (\<exists>t. entries (foldl (\<lambda>s (now, e). snd (append now s e)) s es) = entries s @ t)"
proof (induction es arbitrary: s)
  case (Cons p es)
  obtain now e where p: "p = (now, e)" by (cases p)
  let ?s = "snd (append now s e)"
  from Cons.prems(2) p have ok: "admissible e" "\<forall>p \<in> set es. admissible (snd p)" by simp_all
  obtain t where "verify (foldl (\<lambda>s (now, e). snd (append now s e)) ?s es) = Inr ()"
    "entries (foldl (\<lambda>s (now, e). snd (append now s e)) ?s es) = entries ?s @ t"
    using Cons.IH [OF append_inv_snd [OF Cons.prems(1) ok(1), of now] ok(2)] by blast
  moreover obtain u where "entries ?s = entries s @ u" using append_extends [OF Cons.prems(1) ok(1)] by blast
  ultimately show ?case by (simp add: p)
qed (simp add: inv_verify)

end

definition last_hash :: "audit_entry list \<Rightarrow> string" where
  "last_hash es = (if es = [] then [] else ae_hash (last es))"

definition audit_inv :: "crypto \<Rightarrow> audit_log \<Rightarrow> bool" where
  "audit_inv C l \<longleftrightarrow> VerifyChain C l = Inr () \<and> al_lastHash l = last_hash (al_entries l)"

lemma verifyEntries_append:
  "verifyEntries C prev (es @ fs) = bindE (verifyEntries C prev es)
     (\<lambda>_. verifyEntries C (if es = [] then prev else ae_hash (last es)) fs)"
  by (induction es arbitrary: prev) (auto split: sum.splits)

lemma stamped_simps [simp]:
  "ae_seq (stamped now l e h) = al_seq l + 1" "ae_prev (stamped now l e h) = al_lastHash l"
  "ae_hash (stamped now l e h) = h" "ae_type (stamped now l e h) = ae_type e"
  "ae_agent (stamped now l e h) = ae_agent e" "ae_cred (stamped now l e h) = ae_cred e"
  "ae_chain (stamped now l e h) = ae_chain e"
  "ae_ts (stamped now l e h) = (if ae_ts e = 0 then now else ae_ts e)"
  "payload_members (ae_payload (stamped now l e h)) = payload_members (ae_payload e)"
  by (simp_all add: stamped_def payload_members_def)

lemma stored_hash_stamped: "stored_hash C (stamped now l e h) = stored_hash C (stamped now l e h')"
  by (simp add: stored_hash_def stamped_def)

lemma Append_cases:
  assumes "Append C now l e = (r, l')"
  obtains (failed) x where "r = Inl (ErrHashEntry x)" "l' = l\<lparr>al_seq := al_seq l + 1\<rparr>"
  | (posted) h where "r = Inr ()" "al_entries l' = al_entries l @ [stamped now l e h]" "al_lastHash l' = h"
      "al_seq l' = al_seq l + 1" "stored_hash C (stamped now l e h) = Inr h"
proof (cases "stored_hash C (stamped now l e [])")
  case (Inl x)
  with assms show ?thesis by (intro failed) (auto simp: Append_def)
next
  case (Inr h)
  with assms stored_hash_stamped [of C now l e h "[]"] show ?thesis by (intro posted) (auto simp: Append_def)
qed

interpretation memory_audit: audit_log_interface "Append C" al_entries "VerifyChain C" "audit_inv C" "\<lambda>_. True" for C
proof
  fix now :: i64 and s s' :: audit_log and e :: audit_entry and r x
  assume inv: "audit_inv C s"
  show "Append C now s e = (r, s') \<Longrightarrow> audit_inv C s'"
    using inv by (erule_tac Append_cases)
      (auto simp: audit_inv_def VerifyChain_def last_hash_def verifyEntries_append)
  show "Append C now s e = (Inr (), s') \<Longrightarrow> \<exists>x. al_entries s' = al_entries s @ [x]
      \<and> ae_type x = ae_type e \<and> ae_agent x = ae_agent e \<and> ae_cred x = ae_cred e
      \<and> ae_ts x = (if ae_ts e = 0 then now else ae_ts e)
      \<and> normal (JObj (payload_members (ae_payload x))) = normal (JObj (payload_members (ae_payload e)))"
    by (erule Append_cases) auto
  show "Append C now s e = (Inl x, s') \<Longrightarrow> al_entries s' = al_entries s"
    by (erule Append_cases) auto
  show "VerifyChain C s = Inr ()" using inv by (simp add: audit_inv_def)
qed

lemmas memory_append_inv = memory_audit.append_inv_snd [OF _ TrueI]
lemmas memory_append_extends = memory_audit.append_extends [OF _ TrueI]

subsection \<open>What a hash commits to\<close>

definition entry_bytes :: "audit_entry \<Rightarrow> sign_error + bytes" where
  "entry_bytes e = CanonicalizeValue (entry_json (ae_seq e) (ae_ts e) (ae_prev e) (ae_type e) (ae_agent e)
     (ae_cred e) (ae_chain e) (ae_payload e))"

definition entry_ok :: "audit_entry \<Rightarrow> bool" where
  "entry_ok e \<longleftrightarrow> utf8_valid (ae_prev e) \<and> utf8_valid (ae_type e) \<and> utf8_valid (ae_agent e)
     \<and> utf8_valid (ae_cred e) \<and> utf8_valid (ae_chain e) \<and> wf_json (JObj (payload_members (ae_payload e)))"

definition same_content :: "audit_entry \<Rightarrow> audit_entry \<Rightarrow> bool" where
  "same_content e f \<longleftrightarrow> ae_seq e = ae_seq f \<and> ae_ts e = ae_ts f \<and> ae_prev e = ae_prev f \<and> ae_type e = ae_type f
     \<and> ae_agent e = ae_agent f \<and> ae_cred e = ae_cred f \<and> ae_chain e = ae_chain f
     \<and> normal (JObj (payload_members (ae_payload e))) = normal (JObj (payload_members (ae_payload f)))"

text \<open>Two entries whose hashed bytes differ but have one digest.\<close>

definition collision :: "crypto \<Rightarrow> audit_entry \<Rightarrow> audit_entry \<Rightarrow> bool" where
  "collision C e f \<longleftrightarrow> (\<exists>c d. entry_bytes e = Inr c \<and> entry_bytes f = Inr d \<and> c \<noteq> d \<and> sha256 C c = sha256 C d)"

lemma stored_hash_iff:
  "stored_hash C e = Inr h \<longleftrightarrow> (\<exists>c. entry_bytes e = Inr c \<and> h = hex_encode (sha256 C c))"
  by (auto simp: stored_hash_def entryHash_def entry_bytes_def err_simps)

lemma hex_digit_inj:
  "0 \<le> m \<Longrightarrow> m < 16 \<Longrightarrow> 0 \<le> n \<Longrightarrow> n < 16 \<Longrightarrow> hexDigits ! nat m = hexDigits ! nat n \<Longrightarrow> m = (n::int)"
proof -
  have "distinct hexDigits" "length hexDigits = 16" by code_simp+
  then show "0 \<le> m \<Longrightarrow> m < 16 \<Longrightarrow> 0 \<le> n \<Longrightarrow> n < 16 \<Longrightarrow> hexDigits ! nat m = hexDigits ! nat n \<Longrightarrow> m = n"
    by (simp add: nth_eq_iff_index_eq eq_nat_nat_iff nat_less_iff)
qed

lemma hex_pair_inj:
  assumes "[hexDigits ! nat (byte a div 16), hexDigits ! nat (byte a mod 16)]
     = [hexDigits ! nat (byte b div 16), hexDigits ! nat (byte b mod 16)]"
  shows "a = b"
proof -
  have "byte a div 16 = byte b div 16"
    by (rule hex_digit_inj [OF byte_div(1,2) byte_div(1,2)]) (use assms in simp)
  moreover have "byte a mod 16 = byte b mod 16"
    by (rule hex_digit_inj [OF byte_mod(3,4) byte_mod(3,4)]) (use assms in simp)
  ultimately have "byte a = byte b" by (metis mult_div_mod_eq)
  then show "a = b" by simp
qed

lemma hex_encode_inj: "hex_encode s = hex_encode t \<longleftrightarrow> s = t"
proof
  show "hex_encode s = hex_encode t \<Longrightarrow> s = t"
  proof (induction s arbitrary: t)
    case Nil
    then show ?case by (cases t) (auto simp: hex_encode_def)
  next
    case (Cons a s)
    then show ?case
      by (cases t) (auto simp: hex_encode_def intro: hex_pair_inj)
  qed
qed simp

lemma hexDigits_ascii: "n < 16 \<Longrightarrow> byte (hexDigits ! n) < 0x80"
proof -
  have "list_all (\<lambda>c. byte c < 0x80) hexDigits" "length hexDigits = 16" by code_simp+
  then show "n < 16 \<Longrightarrow> byte (hexDigits ! n) < 0x80" by (simp add: list_all_length)
qed

lemma hex_encode_ascii: "c \<in> set (hex_encode s) \<Longrightarrow> byte c < 0x80"
  using byte_div byte_mod by (auto simp: hex_encode_def nat_less_iff intro!: hexDigits_ascii)

lemma utf8_hex_encode [simp]: "utf8_valid (hex_encode s)"
  using utf8_valid_ascii [of "hex_encode s" "[]"] hex_encode_ascii by auto

lemma hex_encode_Nil: "hex_encode s = [] \<longleftrightarrow> s = []"
  by (cases s) (auto simp: hex_encode_def)

lemma json_int_inj: "json_int m = json_int n \<longleftrightarrow> m = n"
  by (metis dec_int64_json_int option.inject)

lemma entry_bytes_content:
  assumes "entry_ok e" and "entry_ok f" and "entry_bytes e = Inr c" and "entry_bytes f = Inr c"
  shows "same_content e f"
proof -
  let ?j = "\<lambda>e. entry_json (ae_seq e) (ae_ts e) (ae_prev e) (ae_type e) (ae_agent e) (ae_cred e) (ae_chain e) (ae_payload e)"
  let ?ms = "\<lambda>e. [(''agent_id'', JStr (ae_agent e)), (''chain_hash'', JStr (ae_chain e)), (''cred_cid'', JStr (ae_cred e)),
           (''event_type'', JStr (ae_type e)), (''payload'', normal (JObj (payload_members (ae_payload e)))),
           (''prev_hash'', JStr (ae_prev e)), (''seq'', json_int (ae_seq e)), (''ts'', json_int (ae_ts e))]"
  have "utf8_valid ''agent_id'' \<and> utf8_valid ''chain_hash'' \<and> utf8_valid ''cred_cid'' \<and> utf8_valid ''event_type''
      \<and> utf8_valid ''payload'' \<and> utf8_valid ''prev_hash'' \<and> utf8_valid ''seq'' \<and> utf8_valid ''ts''" by code_simp
  then have wf: "wf_json (?j e)" if "entry_ok e" for e using that by (simp add: entry_json_def entry_ok_def)
  have n: "normal (?j e) = JObj (sort_by member_less (?ms e))" for e by (simp add: entry_json_def)
  have "normal (?j e) = normal (?j f)"
    using CanonicalizeValue_decode [OF wf [OF assms(1)]] CanonicalizeValue_decode [OF wf [OF assms(2)]] assms(3,4)
    by (simp add: entry_bytes_def)
  then have "set (?ms e) = set (?ms f)" unfolding n by (metis json.inject(5) set_sort_by)
  moreover have "distinct (map fst (?ms g))" for g by simp
  ultimately have m: "map_of (?ms e) = map_of (?ms f)" using map_of_inject_set by blast
  show ?thesis
    using fun_cong [OF m, of "''agent_id''"] fun_cong [OF m, of "''chain_hash''"] fun_cong [OF m, of "''cred_cid''"]
      fun_cong [OF m, of "''event_type''"] fun_cong [OF m, of "''payload''"] fun_cong [OF m, of "''prev_hash''"]
      fun_cong [OF m, of "''seq''"] fun_cong [OF m, of "''ts''"]
    by (simp add: same_content_def json_int_inj del: normal.simps)
qed

lemma verifyEntries_snoc:
  "verifyEntries C [] (es @ [e]) = Inr () \<longleftrightarrow> verifyEntries C [] es = Inr () \<and> ae_prev e = last_hash es
     \<and> stored_hash C e = Inr (ae_hash e)"
  by (auto simp: verifyEntries_append err_simps last_hash_def split: sum.splits if_splits)

lemma verifyEntries_prefix: "verifyEntries C prev (es @ fs) = Inr () \<Longrightarrow> verifyEntries C prev es = Inr ()"
  by (induction es arbitrary: prev) (auto split: sum.splits if_splits)

lemma sha256_nonempty: "sha256_ok C \<Longrightarrow> sha256 C d \<noteq> []"
  by (metis length_0_conv sha256_ok_def zero_neq_numeral)

text \<open>An entry with well-formed fields is always accepted.\<close>

lemma Append_succeeds:
  assumes "entry_ok (stamped now l e [])" and "canonical_ok (JObj (payload_members (ae_payload e)))"
  shows "\<exists>l' h. Append C now l e = (Inr (), l') \<and> al_entries l' = al_entries l @ [stamped now l e h]"
proof -
  have "utf8_valid ''agent_id'' \<and> utf8_valid ''chain_hash'' \<and> utf8_valid ''cred_cid'' \<and> utf8_valid ''event_type''
      \<and> utf8_valid ''payload'' \<and> utf8_valid ''prev_hash'' \<and> utf8_valid ''seq'' \<and> utf8_valid ''ts''" by code_simp
  then obtain c where "entry_bytes (stamped now l e []) = Inr c"
    using assms unfolding entry_bytes_def entry_json_def
    using CanonicalizeValue_eq by (fastforce simp: entry_ok_def)
  then have "stored_hash C (stamped now l e []) = Inr (hex_encode (sha256 C c))" by (simp add: stored_hash_iff)
  then show ?thesis by (auto simp: Append_def)
qed

lemma audit_inv_lastHash:
  assumes "audit_inv C l"
  shows "utf8_valid (al_lastHash l)"
proof (cases "al_entries l" rule: rev_cases)
  case Nil
  with assms show ?thesis by (simp add: audit_inv_def last_hash_def)
next
  case (snoc es e)
  with assms show ?thesis
    by (auto simp: audit_inv_def VerifyChain_def last_hash_def verifyEntries_snoc stored_hash_iff)
qed

text \<open>An entry with valid texts and a well-formed payload is appended, whatever the log holds.\<close>

lemma Append_grows:
  assumes "audit_inv C l" and "utf8_valid typ" and "utf8_valid agent" and "utf8_valid cred"
    and "wf_json (JObj ms)" and "canonical_ok (JObj ms)"
  shows "\<exists>x. al_entries (snd (Append C now l (new_entry typ agent cred ts (Some ms)))) = al_entries l @ [x]
    \<and> ae_type x = typ \<and> ae_agent x = agent \<and> ae_cred x = cred \<and> ae_ts x = (if ts = 0 then now else ts)
    \<and> ae_payload x = Some ms"
proof -
  let ?e = "new_entry typ agent cred ts (Some ms)"
  have "entry_ok (stamped now l ?e [])"
    using assms(2-5) audit_inv_lastHash [OF assms(1)] by (simp add: entry_ok_def stamped_def new_entry_def payload_members_def)
  from Append_succeeds [OF this, of C] assms(6) obtain l' h where
    "Append C now l ?e = (Inr (), l')" "al_entries l' = al_entries l @ [stamped now l ?e h]"
    by (auto simp: new_entry_def payload_members_def)
  then show ?thesis by (simp add: stamped_def new_entry_def payload_members_def)
qed

lemma tamper_evident_aux:
  assumes "sha256_ok C"
  shows "verifyEntries C [] es = Inr () \<Longrightarrow> verifyEntries C [] fs = Inr () \<Longrightarrow> last_hash es = last_hash fs
    \<Longrightarrow> \<forall>e \<in> set es \<union> set fs. entry_ok e
    \<Longrightarrow> list_all2 same_content es fs \<or> (\<exists>e \<in> set es. \<exists>f \<in> set fs. collision C e f)"
proof (induction es arbitrary: fs rule: rev_induct)
  case Nil
  have "fs = []"
  proof (cases fs rule: rev_cases)
    case (snoc gs f)
    with Nil.prems(2) obtain c where "ae_hash f = hex_encode (sha256 C c)"
      by (auto simp: verifyEntries_snoc stored_hash_iff)
    with Nil.prems(3) snoc have "hex_encode (sha256 C c) = []" by (simp add: last_hash_def)
    then show ?thesis using sha256_nonempty [OF assms] by (simp add: hex_encode_Nil)
  qed
  then show ?case by simp
next
  case (snoc e es)
  from snoc.prems obtain c where c: "entry_bytes e = Inr c" "ae_hash e = hex_encode (sha256 C c)"
    "ae_prev e = last_hash es" "verifyEntries C [] es = Inr ()"
    by (auto simp: verifyEntries_snoc stored_hash_iff)
  have "fs \<noteq> []"
    using snoc.prems(3) c(2) sha256_nonempty [OF assms] by (auto simp: last_hash_def hex_encode_Nil)
  then obtain gs f where fs: "fs = gs @ [f]" by (cases fs rule: rev_cases) auto
  from snoc.prems(2) obtain d where d: "entry_bytes f = Inr d" "ae_hash f = hex_encode (sha256 C d)"
    "ae_prev f = last_hash gs" "verifyEntries C [] gs = Inr ()"
    unfolding fs by (auto simp: verifyEntries_snoc stored_hash_iff)
  have dig: "sha256 C c = sha256 C d"
    using snoc.prems(3) c(2) d(2) fs by (simp add: last_hash_def hex_encode_inj)
  show ?case
  proof (cases "c = d")
    case False
    with c(1) d(1) dig fs have "collision C e f" by (auto simp: collision_def)
    with fs show ?thesis by auto
  next
    case True
    with snoc.prems(4) fs c(1) d(1) have same: "same_content e f" using entry_bytes_content by auto
    then have "last_hash es = last_hash gs" using c(3) d(3) by (simp add: same_content_def)
    with snoc.IH [OF c(4) d(4)] snoc.prems(4) fs
    have "list_all2 same_content es gs \<or> (\<exists>e \<in> set es. \<exists>f \<in> set gs. collision C e f)" by auto
    with same fs show ?thesis by (auto intro: list_all2_appendI)
  qed
qed

lemma new_log_inv: "audit_inv C NewMemoryAuditLog"
  by (simp add: audit_inv_def NewMemoryAuditLog_def VerifyChain_def last_hash_def)

text \<open>A concrete log with one entry, for evaluation.\<close>

lemma sample_log:
  "VerifyChain demo_crypto (snd (Append demo_crypto 1 NewMemoryAuditLog (new_entry ''T'' ''d'' [] 0 None))) = Inr ()"
  "al_entries (snd (Append demo_crypto 1 NewMemoryAuditLog (new_entry ''T'' ''d'' [] 0 None))) \<noteq> []
    \<and> (\<forall>e \<in> set (al_entries (snd (Append demo_crypto 1 NewMemoryAuditLog (new_entry ''T'' ''d'' [] 0 None)))). entry_ok e)"
proof -
  let ?e = "new_entry ''T'' ''d'' [] 0 None"
  show "VerifyChain demo_crypto (snd (Append demo_crypto 1 NewMemoryAuditLog ?e)) = Inr ()"
    by (intro memory_audit.inv_verify memory_append_inv new_log_inv)
  have "utf8_valid ''T'' \<and> utf8_valid ''d''" by code_simp
  then have ok: "entry_ok (stamped 1 NewMemoryAuditLog ?e h)" for h
    unfolding entry_ok_def stamped_simps
    by (simp add: new_entry_def NewMemoryAuditLog_def payload_members_def)
  have "canonical_ok (JObj (payload_members (ae_payload ?e)))" by (simp add: new_entry_def payload_members_def)
  from Append_succeeds [OF ok this, of demo_crypto] obtain l' h where
    "Append demo_crypto 1 NewMemoryAuditLog ?e = (Inr (), l')" "al_entries l' = [stamped 1 NewMemoryAuditLog ?e h]"
    by (auto simp: NewMemoryAuditLog_def)
  with ok show "al_entries (snd (Append demo_crypto 1 NewMemoryAuditLog ?e)) \<noteq> []
    \<and> (\<forall>e \<in> set (al_entries (snd (Append demo_crypto 1 NewMemoryAuditLog ?e))). entry_ok e)" by simp
qed

subsection \<open>Properties\<close>

text \<open>The log stays verifiable and append-only: from any verified log, any sequence of
  \<open>Append\<close> calls, failing ones included, leaves a log that verifies and whose earlier entries
  are exactly those it had before.\<close>

theorem AuditLog_append_only:
  assumes "audit_inv C l"
  shows "VerifyChain C (foldl (\<lambda>l (now, e). snd (Append C now l e)) l es) = Inr ()
    \<and> (\<exists>t. al_entries (foldl (\<lambda>l (now, e). snd (Append C now l e)) l es) = al_entries l @ t)"
  using memory_audit.appends_history [OF assms] by simp

theorem AuditLog_append_only_witness:
  "VerifyChain demo_crypto (foldl (\<lambda>l (now, e). snd (Append demo_crypto now l e)) NewMemoryAuditLog
     [(1, new_entry EventAgentRegistered ''d'' [] 0 None), (2, new_entry EventCapabilityDenied ''d'' ''c'' 5 None)]) = Inr ()"
  by (rule AuditLog_append_only [OF new_log_inv, THEN conjunct1])

text \<open>C30: The last hash commits to the whole log: two logs that verify and end in the same hash
  have the same length and agree, entry by entry, on every semantic field, or they exhibit two
  different byte strings with one SHA-256 digest.\<close>

theorem AuditLog_tamper_evident:
  assumes "sha256_ok C" and "VerifyChain C l = Inr ()" and "VerifyChain C k = Inr ()"
    and "last_hash (al_entries l) = last_hash (al_entries k)"
    and "\<forall>e \<in> set (al_entries l) \<union> set (al_entries k). entry_ok e"
  shows "list_all2 same_content (al_entries l) (al_entries k)
    \<or> (\<exists>e \<in> set (al_entries l). \<exists>f \<in> set (al_entries k). collision C e f)"
  using tamper_evident_aux [OF assms(1)] assms(2-5) by (simp add: VerifyChain_def)

theorem AuditLog_tamper_evident_witness:
  "let l = snd (Append demo_crypto 1 NewMemoryAuditLog (new_entry ''T'' ''d'' [] 0 None)) in
   al_entries l \<noteq> [] \<and> (list_all2 same_content (al_entries l) (al_entries l)
    \<or> (\<exists>e \<in> set (al_entries l). \<exists>f \<in> set (al_entries l). collision demo_crypto e f))"
proof -
  let ?l = "snd (Append demo_crypto 1 NewMemoryAuditLog (new_entry ''T'' ''d'' [] 0 None))"
  have n: "al_entries ?l \<noteq> [] \<and> (\<forall>e \<in> set (al_entries ?l). entry_ok e)" by (rule sample_log(2))
  from AuditLog_tamper_evident [OF demo_crypto_ok(2) sample_log(1) sample_log(1)] n show ?thesis
    unfolding Let_def by blast
qed

text \<open>Truncation at the end goes unnoticed: a verified log from which any number of the last
  entries has been removed still verifies.\<close>

theorem AuditLog_truncation_unnoticed:
  assumes "VerifyChain C l = Inr ()"
  shows "VerifyChain C (l\<lparr>al_entries := take n (al_entries l)\<rparr>) = Inr ()"
  using assms verifyEntries_prefix [of C "[]" "take n (al_entries l)" "drop n (al_entries l)"]
  by (simp add: VerifyChain_def)

theorem AuditLog_truncation_unnoticed_witness:
  "VerifyChain demo_crypto ((snd (Append demo_crypto 1 NewMemoryAuditLog
      (new_entry ''T'' ''d'' [] 0 None)))\<lparr>al_entries := []\<rparr>) = Inr ()"
  using AuditLog_truncation_unnoticed [OF sample_log(1), of 0] by simp

end
