(* ===== verification/Identity.thy ===== *)
theory Identity
  imports ADTP_Errors Go_Text "HOL-Library.AList"
begin

text \<open>
  \<open>internal/identity\<close>: base58btc, did:key identifiers of Ed25519 keys and the in-memory key
  store.  Generating a key pair (\<open>GenerateDID\<close>) draws on the system's random source and is
  not modelled beyond the identifier it returns for the key.
\<close>

subsection \<open>Positional numerals\<close>

text \<open>The digits of a number, least significant first (the loop of \<open>big.Int.DivMod\<close>), and
  the value of a digit string, most significant first.\<close>

function digits :: "int \<Rightarrow> int \<Rightarrow> int list" where
  "digits b n = (if n \<le> 0 \<or> b < 2 then [] else n mod b # digits b (n div b))"
  by pat_completeness auto
termination
proof (relation "measure (\<lambda>(b, n). nat n)")
  fix b n :: int
  assume "\<not> (n \<le> 0 \<or> b < 2)"
  then have "n div b < n" by (intro int_div_less_self) auto
  then show "((b, n div b), (b, n)) \<in> measure (\<lambda>(b, n). nat n)"
    using \<open>\<not> (n \<le> 0 \<or> b < 2)\<close> by simp
qed simp

declare digits.simps [simp del]

definition numeral_val :: "int \<Rightarrow> int list \<Rightarrow> int" where
  "numeral_val b ds = foldl (\<lambda>n d. n * b + d) 0 ds"

lemma numeral_val_snoc [simp]: "numeral_val b (ds @ [d]) = numeral_val b ds * b + d"
  by (simp add: numeral_val_def)

lemma numeral_val_Nil [simp]: "numeral_val b [] = 0"
  by (simp add: numeral_val_def)

lemma digits_simps:
  "n \<le> 0 \<Longrightarrow> digits b n = []"
  "0 < n \<Longrightarrow> 2 \<le> b \<Longrightarrow> digits b n = n mod b # digits b (n div b)"
  by (subst digits.simps, simp)+

lemma numeral_val_digits: "2 \<le> b \<Longrightarrow> 0 \<le> n \<Longrightarrow> numeral_val b (rev (digits b n)) = n"
proof (induction b n rule: digits.induct)
  case (1 b n)
  show ?case
  proof (cases "n = 0")
    case True
    then show ?thesis by (simp add: digits_simps)
  next
    case False
    have "numeral_val b (rev (digits b (n div b))) = n div b"
      by (rule 1(1)) (use False 1(2,3) in \<open>auto simp: pos_imp_zdiv_nonneg_iff\<close>)
    with False 1(2,3) show ?thesis by (simp add: digits_simps)
  qed
qed

lemma digits_range: "2 \<le> b \<Longrightarrow> \<forall>d \<in> set (digits b n). 0 \<le> d \<and> d < b"
proof (induction b n rule: digits.induct)
  case (1 b n)
  show ?case
  proof (cases "n \<le> 0")
    case False
    then have "digits b n = n mod b # digits b (n div b)" using 1(2) by (intro digits_simps) simp_all
    moreover have "0 \<le> n mod b" "n mod b < b" using 1(2) by simp_all
    moreover have "\<forall>d \<in> set (digits b (n div b)). 0 \<le> d \<and> d < b" by (rule 1(1)) (use False 1(2) in auto)
    ultimately show ?thesis by (metis set_ConsD)
  qed (simp add: digits_simps)
qed

lemma numeral_val_nonneg: "2 \<le> b \<Longrightarrow> \<forall>d \<in> set ds. 0 \<le> d \<and> d < b \<Longrightarrow> 0 \<le> numeral_val b ds"
  by (induction ds rule: rev_induct) auto

lemma numeral_val_pos:
  "2 \<le> b \<Longrightarrow> \<forall>d \<in> set ds. 0 \<le> d \<and> d < b \<Longrightarrow> ds \<noteq> [] \<Longrightarrow> hd ds \<noteq> 0 \<Longrightarrow> 0 < numeral_val b ds"
proof (induction ds rule: rev_induct)
  case (snoc d ds)
  show ?case
  proof (cases "ds = []")
    case False
    with snoc have "0 < numeral_val b ds" by simp
    with snoc show ?thesis by (simp add: add_pos_nonneg)
  next
    case True
    with snoc.prems show ?thesis by (simp add: numeral_val_def)
  qed
qed simp

lemma digits_numeral_val:
  "2 \<le> b \<Longrightarrow> \<forall>d \<in> set ds. 0 \<le> d \<and> d < b \<Longrightarrow> ds = [] \<or> hd ds \<noteq> 0
     \<Longrightarrow> rev (digits b (numeral_val b ds)) = ds"
proof (induction ds rule: rev_induct)
  case Nil
  then show ?case by (simp add: digits_simps)
next
  case (snoc d ds)
  have pos: "0 < numeral_val b (ds @ [d])" using snoc.prems by (intro numeral_val_pos) auto
  have d: "0 \<le> d" "d < b" using snoc.prems by auto
  have ih: "rev (digits b (numeral_val b ds)) = ds"
    using snoc by (cases "ds = []") auto
  have "(numeral_val b ds * b + d) mod b = d" "(numeral_val b ds * b + d) div b = numeral_val b ds"
    using d by simp_all
  with digits_simps(2) [OF pos snoc.prems(1)] ih show ?case by simp
qed

lemma numeral_val_zeros: "numeral_val b (replicate k 0 @ ds) = numeral_val b ds"
proof -
  have z: "foldl (\<lambda>n d. n * b + d) 0 (replicate k 0) = 0" by (induction k) auto
  show ?thesis by (simp add: numeral_val_def z)
qed

text \<open>Change of base that keeps leading zeros; it is its own inverse with the bases swapped.\<close>

definition rebase :: "int \<Rightarrow> int \<Rightarrow> int list \<Rightarrow> int list" where
  "rebase b c ds = replicate (length (takeWhile (\<lambda>d. d = 0) ds)) 0 @ rev (digits c (numeral_val b ds))"

lemma split_zeros:
  obtains k r where "ds = replicate k (0::int) @ r" "r = [] \<or> hd r \<noteq> 0" "length (takeWhile (\<lambda>d. d = 0) ds) = k"
proof -
  have "ds = takeWhile (\<lambda>d. d = 0) ds @ dropWhile (\<lambda>d. d = 0) ds" by simp
  moreover have "takeWhile (\<lambda>d. d = 0) ds = replicate (length (takeWhile (\<lambda>d. d = 0) ds)) 0"
    by (rule replicate_length_same [symmetric]) (auto dest: set_takeWhileD)
  moreover have "dropWhile (\<lambda>d. d = 0) ds = [] \<or> hd (dropWhile (\<lambda>d. d = 0) ds) \<noteq> 0"
    using hd_dropWhile [of "\<lambda>d. d = 0" ds] by auto
  ultimately show ?thesis using that by metis
qed

lemma takeWhile_zeros: "r = [] \<or> hd r \<noteq> (0::int) \<Longrightarrow> length (takeWhile (\<lambda>d. d = 0) (replicate k 0 @ r)) = k"
  by (induction k) (cases r; auto)+

lemma digits_hd: "2 \<le> b \<Longrightarrow> rev (digits b n) = [] \<or> hd (rev (digits b n)) \<noteq> 0"
proof (induction b n rule: digits.induct)
  case (1 b n)
  show ?case
  proof (cases "n \<le> 0")
    case False
    show ?thesis
    proof (cases "digits b (n div b) = []")
      case True
      have "\<not> 0 < n div b" using True 1(2) by (subst (asm) digits.simps) (auto split: if_splits)
      then have "n < b" using False 1(2) by (simp add: pos_imp_zdiv_pos_iff)
      then show ?thesis using False 1(2) True by (simp add: digits_simps)
    next
      case n: False
      with 1(1) False 1(2) show ?thesis by (simp add: digits_simps hd_append)
    qed
  qed (simp add: digits_simps)
qed

theorem rebase_rebase:
  assumes "2 \<le> b" and "2 \<le> c" and "\<forall>d \<in> set ds. 0 \<le> d \<and> d < b"
  shows "rebase c b (rebase b c ds) = ds"
proof -
  obtain k r where s: "ds = replicate k 0 @ r" "r = [] \<or> hd r \<noteq> 0" "length (takeWhile (\<lambda>d. d = 0) ds) = k"
    by (rule split_zeros)
  have r: "\<forall>d \<in> set r. 0 \<le> d \<and> d < b" using assms(3) s(1) by auto
  have e: "rebase b c ds = replicate k 0 @ rev (digits c (numeral_val b r))"
    by (simp add: rebase_def s(3)) (simp add: s(1) numeral_val_zeros)
  have "numeral_val c (rebase b c ds) = numeral_val b r"
    by (simp add: e numeral_val_zeros numeral_val_digits assms numeral_val_nonneg r)
  moreover have "length (takeWhile (\<lambda>d. d = 0) (rebase b c ds)) = k"
    unfolding e by (rule takeWhile_zeros) (rule digits_hd [OF assms(2)])
  ultimately show ?thesis unfolding rebase_def [of c b]
    using digits_numeral_val [OF assms(1) r s(2)] s(1) by simp
qed

lemma rebase_range: "2 \<le> c \<Longrightarrow> \<forall>d \<in> set (rebase b c ds). 0 \<le> d \<and> d < c"
  using digits_range by (auto simp: rebase_def)

subsection \<open>base58btc (\<open>base58.go\<close>)\<close>

definition base58Alphabet :: string where
  "base58Alphabet = ''123456789ABCDEFGHJKLMNPQRSTUVWXYZabcdefghijkmnopqrstuvwxyz''"

text \<open>The table built by \<open>init\<close>: the position of a byte in the alphabet, or -1.\<close>

definition base58Index :: "char \<Rightarrow> int" where
  "base58Index c = (case index_byte base58Alphabet c of None \<Rightarrow> -1 | Some i \<Rightarrow> int i)"

definition base58Char :: "int \<Rightarrow> char" where
  "base58Char d = base58Alphabet ! nat d"

text \<open>\<open>big.Int.SetBytes\<close> and \<open>big.Int.Bytes\<close>.\<close>

definition int_of_bytes :: "bytes \<Rightarrow> int" where
  "int_of_bytes b = numeral_val 256 (map byte b)"

definition bytes_of_int :: "int \<Rightarrow> bytes" where
  "bytes_of_int n = map char_of (rev (digits 256 n))"

definition base58Encode :: "bytes \<Rightarrow> string" where
  "base58Encode b =
     (let zeros = length (takeWhile (\<lambda>c. c = CHR 0x00) b);
          out = map base58Char (digits 58 (int_of_bytes b)) @ replicate zeros (base58Char 0)
      in rev out)"

fun base58Value :: "int \<Rightarrow> string \<Rightarrow> id_error + int" where
  "base58Value x [] = Inr x"
| "base58Value x (c # cs) =
     (if base58Index c < 0 then Inl ErrInvalidBase58 else base58Value (x * 58 + base58Index c) cs)"

definition base58Decode :: "string \<Rightarrow> id_error + bytes" where
  "base58Decode s =
     bindE (base58Value 0 s) (\<lambda>x.
       let zeros = length (takeWhile (\<lambda>c. c = base58Char 0) s)
       in Inr (replicate zeros (CHR 0x00) @ bytes_of_int x))"

lemma base58_char_all:
  "list_all (\<lambda>d. base58Index (base58Char d) = d) [0..57]"
  "\<forall>c. base58Index c = -1 \<or> 0 \<le> base58Index c \<and> base58Index c < 58 \<and> base58Char (base58Index c) = c"
  by code_simp+

lemma base58Index_Char [simp]: "0 \<le> d \<Longrightarrow> d < 58 \<Longrightarrow> base58Index (base58Char d) = d"
  using base58_char_all(1) by (simp add: list_all_iff)

lemma base58Char_Index: "\<not> base58Index c < 0 \<Longrightarrow> base58Char (base58Index c) = c \<and> base58Index c < 58"
  using spec [OF base58_char_all(2), of c] by auto

lemma base58Value_eq:
  "base58Value x s = (if \<exists>c \<in> set s. base58Index c < 0 then Inl ErrInvalidBase58
     else Inr (foldl (\<lambda>n d. n * 58 + d) x (map base58Index s)))"
  by (induction x s rule: base58Value.induct) auto

lemma byte_zero: "byte c = 0 \<longleftrightarrow> c = CHR 0x00"
proof -
  have "byte (CHR 0x00) = 0" by code_simp
  then show ?thesis by (metis byte_inj)
qed

lemma base58Encode_rebase: "base58Encode b = map base58Char (rebase 256 58 (map byte b))"
proof -
  have "length (takeWhile (\<lambda>d. d = 0) (map byte b)) = length (takeWhile (\<lambda>c. c = CHR 0x00) b)"
    by (simp add: takeWhile_map comp_def byte_zero)
  then show ?thesis by (simp add: base58Encode_def rebase_def int_of_bytes_def rev_map)
qed

lemma base58Decode_rebase:
  assumes "\<forall>c \<in> set s. \<not> base58Index c < 0"
  shows "base58Decode s = Inr (map char_of (rebase 58 256 (map base58Index s)))"
proof -
  have z: "c = base58Char 0 \<longleftrightarrow> base58Index c = 0" if "c \<in> set s" for c
    using assms that base58Char_Index [of c] by auto
  have "takeWhile (\<lambda>c. c = base58Char 0) s = takeWhile (\<lambda>c. base58Index c = 0) s"
    by (rule takeWhile_cong) (auto simp: z)
  moreover have "char_of (0::int) = CHR 0x00" by code_simp
  ultimately show ?thesis using assms
    by (simp add: base58Decode_def base58Value_eq rebase_def numeral_val_def bytes_of_int_def
        takeWhile_map comp_def Let_def)
qed

lemma base58_decode_encode: "base58Decode (base58Encode b) = Inr b"
proof -
  have r: "\<forall>d \<in> set (rebase 256 58 (map byte b)). 0 \<le> d \<and> d < 58" by (rule rebase_range) simp
  then have idx: "map base58Index (base58Encode b) = rebase 256 58 (map byte b)"
    by (simp add: base58Encode_rebase comp_def map_idI)
  have "\<forall>c \<in> set (base58Encode b). \<not> base58Index c < 0"
    using r by (auto simp: base58Encode_rebase not_less)
  from base58Decode_rebase [OF this] have "base58Decode (base58Encode b)
      = Inr (map char_of (rebase 58 256 (rebase 256 58 (map byte b))))" unfolding idx .
  also have "rebase 58 256 (rebase 256 58 (map byte b)) = map byte b" by (rule rebase_rebase) auto
  finally show ?thesis by (simp add: comp_def)
qed

lemma base58_encode_decode:
  assumes "base58Decode s = Inr b"
  shows "base58Encode b = s"
proof -
  have v: "\<forall>c \<in> set s. \<not> base58Index c < 0"
    using assms by (auto simp: base58Decode_def base58Value_eq split: if_splits)
  have r: "\<forall>d \<in> set (rebase 58 256 (map base58Index s)). 0 \<le> d \<and> d < 256" by (rule rebase_range) simp
  have b: "b = map char_of (rebase 58 256 (map base58Index s))" using assms base58Decode_rebase [OF v] by simp
  have "map byte b = rebase 58 256 (map base58Index s)"
    unfolding b using r by (simp add: comp_def map_idI byte_char_of)
  then have "base58Encode b = map base58Char (rebase 256 58 (rebase 58 256 (map base58Index s)))"
    by (simp add: base58Encode_rebase)
  also have "rebase 256 58 (rebase 58 256 (map base58Index s)) = map base58Index s"
    using v base58Char_Index by (intro rebase_rebase) (auto simp: not_less)
  also have "map base58Char (map base58Index s) = s"
    using v base58Char_Index by (simp add: comp_def map_idI)
  finally show ?thesis .
qed

subsection \<open>did:key (\<open>didkey.go\<close>)\<close>

definition didKeyPrefix :: string where "didKeyPrefix = ''did:key:''"
definition base58BTCPrefix :: string where "base58BTCPrefix = ''z''"
definition ed25519MulticodecPrefix :: bytes where
  "ed25519MulticodecPrefix = [CHR 0xED, CHR 0x01]"

definition didKeySize :: nat where "didKeySize = 32"

definition EncodeDID :: "bytes \<Rightarrow> string" where
  "EncodeDID pub = didKeyPrefix @ base58BTCPrefix @ base58Encode (ed25519MulticodecPrefix @ pub)"

text \<open>\<open>strings.CutPrefix\<close>.\<close>

definition cut_prefix :: "string \<Rightarrow> string \<Rightarrow> string option" where
  "cut_prefix s p = (if has_prefix s p then Some (drop (length p) s) else None)"

definition ParseDID :: "string \<Rightarrow> id_error + bytes" where
  "ParseDID did =
     (case cut_prefix did didKeyPrefix of
        None \<Rightarrow> Inl ErrUnsupportedDIDMethod
      | Some rest \<Rightarrow>
          (case cut_prefix rest base58BTCPrefix of
             None \<Rightarrow> Inl ErrMalformedDID
           | Some multibase \<Rightarrow>
               bindE (mapErr (\<lambda>_. ErrMalformedDID) (base58Decode multibase)) (\<lambda>decoded.
                 if length decoded \<noteq> length ed25519MulticodecPrefix + didKeySize then Inl ErrMalformedDID
                 else if take (length ed25519MulticodecPrefix) decoded \<noteq> ed25519MulticodecPrefix
                 then Inl ErrMalformedDID
                 else Inr (drop (length ed25519MulticodecPrefix) decoded))))"

definition ResolveDID :: "string \<Rightarrow> id_error + bytes" where
  "ResolveDID did = ParseDID did"

lemma cut_prefix_iff: "cut_prefix s p = Some t \<longleftrightarrow> s = p @ t"
  by (auto simp: cut_prefix_def has_prefix_iff)

lemma ParseDID_iff:
  "ParseDID did = Inr pub \<longleftrightarrow> length pub = didKeySize \<and> did = EncodeDID pub"
proof
  assume p: "ParseDID did = Inr pub"
  then obtain m d where m: "did = didKeyPrefix @ base58BTCPrefix @ m" "base58Decode m = Inr d"
    "length d = length ed25519MulticodecPrefix + didKeySize"
    "take (length ed25519MulticodecPrefix) d = ed25519MulticodecPrefix"
    "pub = drop (length ed25519MulticodecPrefix) d"
    by (auto simp: ParseDID_def err_simps cut_prefix_iff split: option.splits if_splits)
  have d: "d = ed25519MulticodecPrefix @ pub" using m(4,5) by (metis append_take_drop_id)
  have "length pub = didKeySize" using m(3,5) by simp
  moreover have "did = EncodeDID pub"
    unfolding EncodeDID_def d [symmetric] base58_encode_decode [OF m(2)] by (rule m(1))
  ultimately show "length pub = didKeySize \<and> did = EncodeDID pub" by blast
next
  assume "length pub = didKeySize \<and> did = EncodeDID pub"
  moreover have "cut_prefix (EncodeDID pub) didKeyPrefix
      = Some (base58BTCPrefix @ base58Encode (ed25519MulticodecPrefix @ pub))"
    "cut_prefix (base58BTCPrefix @ base58Encode (ed25519MulticodecPrefix @ pub)) base58BTCPrefix
      = Some (base58Encode (ed25519MulticodecPrefix @ pub))"
    by (simp_all add: cut_prefix_iff EncodeDID_def)
  ultimately show "ParseDID did = Inr pub"
    by (simp add: ParseDID_def base58_decode_encode)
qed

subsection \<open>The key store (\<open>keystore.go\<close>)\<close>

text \<open>\<open>MemoryKeyStore\<close>: the entries of its \<open>sync.Map\<close>.  Keys are copied in and out, so no two
  slices are shared and a key is a value.\<close>

type_synonym key_store = "(string \<times> bytes) list"

definition NewMemoryKeyStore :: key_store where "NewMemoryKeyStore = []"

definition Store :: "key_store \<Rightarrow> string \<Rightarrow> bytes \<Rightarrow> id_error + key_store" where
  "Store s did priv =
     (if did = [] then Inl ErrEmptyDID
      else if length priv \<noteq> 64 then Inl ErrInvalidKeySize
      else Inr (AList.update did priv s))"

definition Load :: "key_store \<Rightarrow> string \<Rightarrow> id_error + bytes" where
  "Load s did = (case map_of s did of None \<Rightarrow> Inl ErrKeyNotFound | Some k \<Rightarrow> Inr k)"

definition Delete :: "key_store \<Rightarrow> string \<Rightarrow> id_error + key_store" where
  "Delete s did =
     (case map_of s did of None \<Rightarrow> Inl ErrKeyNotFound | Some _ \<Rightarrow> Inr (AList.delete did s))"

definition List :: "key_store \<Rightarrow> string list" where
  "List s = sort_by (\<lambda>a b. lex_less (map byte a) (map byte b)) (map fst s)"

text \<open>The \<open>KeyStore\<close> interface and what its implementations promise.\<close>

locale key_store_interface =
  fixes store :: "'s \<Rightarrow> string \<Rightarrow> bytes \<Rightarrow> id_error + 's"
    and load :: "'s \<Rightarrow> string \<Rightarrow> id_error + bytes"
    and delete :: "'s \<Rightarrow> string \<Rightarrow> id_error + 's"
    and list :: "'s \<Rightarrow> string list"
    and inv :: "'s \<Rightarrow> bool"
  assumes store_inv: "inv s \<Longrightarrow> store s did k = Inr s' \<Longrightarrow> inv s'"
    and delete_inv: "inv s \<Longrightarrow> delete s did = Inr s' \<Longrightarrow> inv s'"
    and load_store: "inv s \<Longrightarrow> store s did k = Inr s' \<Longrightarrow>
      load s' d = (if d = did then Inr k else load s d)"
    and load_delete: "inv s \<Longrightarrow> delete s did = Inr s' \<Longrightarrow>
      load s' d = (if d = did then Inl ErrKeyNotFound else load s d)"
    and delete_missing: "inv s \<Longrightarrow> load s did = Inl ErrKeyNotFound \<Longrightarrow> delete s did = Inl ErrKeyNotFound"
    and list_keys: "inv s \<Longrightarrow> set (list s) = {d. is_ok (load s d)}"
begin

lemma store_then_delete:
  assumes "inv s" and "store s did k = Inr s1" and "delete s1 did = Inr s2"
  shows "load s2 d = (if d = did then Inl ErrKeyNotFound else load s d)"
  using assms load_store load_delete store_inv by metis

lemma listed_after_store:
  assumes "inv s" and "store s did k = Inr s1"
  shows "set (list s1) = insert did (set (list s))"
  using assms load_store [OF assms] list_keys [OF assms(1)] list_keys [OF store_inv [OF assms]] by auto

end

definition key_store_inv :: "key_store \<Rightarrow> bool" where
  "key_store_inv s \<longleftrightarrow> distinct (map fst s)"

lemma distinct_fst_update: "distinct (map fst s) \<Longrightarrow> distinct (map fst (AList.update k v s))"
  by (rule distinct_update)

interpretation memory_keys: key_store_interface Store Load Delete List key_store_inv
proof
  fix s s' :: key_store and did d :: string and k :: bytes
  assume inv: "key_store_inv s"
  show "Store s did k = Inr s' \<Longrightarrow> key_store_inv s'"
    using inv distinct_fst_update [of s did k]
    by (simp add: Store_def key_store_inv_def split: if_splits)
  show "Delete s did = Inr s' \<Longrightarrow> key_store_inv s'"
    using inv by (auto simp: Delete_def key_store_inv_def distinct_delete split: option.splits)
  show "Store s did k = Inr s' \<Longrightarrow> Load s' d = (if d = did then Inr k else Load s d)"
    by (auto simp: Store_def Load_def update_conv split: if_splits)
  show "Delete s did = Inr s' \<Longrightarrow> Load s' d = (if d = did then Inl ErrKeyNotFound else Load s d)"
    by (auto simp: Delete_def Load_def delete_conv' split: option.splits if_splits)
  show "Load s did = Inl ErrKeyNotFound \<Longrightarrow> Delete s did = Inl ErrKeyNotFound"
    by (auto simp: Delete_def Load_def split: option.splits)
  show "set (List s) = {d. is_ok (Load s d)}"
    by (auto simp: List_def Load_def split: option.splits intro: map_of_SomeD dest: weak_map_of_SomeI)
      (metis fst_conv imageI map_of_SomeD)+
qed

lemma List_sorted:
  assumes "key_store_inv s"
  shows "sorted_wrt (\<lambda>a b. lex_less (map byte a) (map byte b)) (List s)"
proof -
  have inj: "map byte a = map byte b \<longleftrightarrow> a = b" for a b
    by (rule inj_map_eq_map) (simp add: inj_def)
  show ?thesis unfolding List_def
    by (rule lex.sort_by_sorted [where key = "map byte"])
      (use assms in \<open>simp add: key_store_inv_def distinct_map inj_on_def inj\<close>)
qed

subsection \<open>Properties\<close>

text \<open>base58btc encoding and decoding are inverse: every byte string decodes back from
  its encoding, leading zero bytes included, and every accepted text is the encoding of
  what it decodes to, so no byte string has two encodings.\<close>

theorem base58_bijection:
  "base58Decode s = Inr b \<longleftrightarrow> s = base58Encode b"
  using base58_decode_encode base58_encode_decode by blast

text \<open>C37: did:key identifiers name keys one to one: parsing accepts exactly the encodings of
  32-byte Ed25519 keys and returns the encoded key, so neither a key nor an identifier has
  an alias.\<close>

theorem ParseDID_exact:
  "ParseDID did = Inr pub \<longleftrightarrow> length pub = 32 \<and> did = EncodeDID pub"
  unfolding ParseDID_iff didKeySize_def ..

text \<open>A key store returns the key last stored under an identifier and nothing else
  changes; after a deletion the identifier is unknown again.\<close>

theorem KeyStore_load_after_store:
  assumes "key_store_inv s" and "Store s did k = Inr s1" and "Delete s1 did = Inr s2"
  shows "Load s1 d = (if d = did then Inr k else Load s d)
    \<and> Load s2 d = (if d = did then Inl ErrKeyNotFound else Load s d)
    \<and> set (List s1) = insert did (set (List s))"
  using memory_keys.load_store [OF assms(1,2)] memory_keys.store_then_delete [OF assms]
    memory_keys.listed_after_store [OF assms(1,2)] by simp_all

theorem KeyStore_load_after_store_witness:
  "Load [(''a'', replicate 64 (CHR ''x'')), (''b'', replicate 64 (CHR ''y''))] ''b'' = Inr (replicate 64 (CHR ''y''))
   \<and> Load [(''a'', replicate 64 (CHR ''x''))] ''b'' = Inl ErrKeyNotFound
   \<and> set (List [(''a'', replicate 64 (CHR ''x'')), (''b'', replicate 64 (CHR ''y''))]) = {''b'', ''a''}"
proof -
  let ?x = "replicate 64 (CHR ''x'')" and ?y = "replicate 64 (CHR ''y'')"
  have "key_store_inv [(''a'', ?x)]" "Store [(''a'', ?x)] ''b'' ?y = Inr [(''a'', ?x), (''b'', ?y)]"
    "Delete [(''a'', ?x), (''b'', ?y)] ''b'' = Inr [(''a'', ?x)]" "List [(''a'', ?x)] = [''a'']"
    by (simp_all add: key_store_inv_def Store_def Delete_def List_def sort_by_def)
  from KeyStore_load_after_store [OF this(1-3), of "''b''"] this(4) show ?thesis by simp
qed

end
