(* ===== verification/Revocation.thy ===== *)
theory Revocation
  imports Signing Json_Struct Audit_Log Identity
begin

text \<open>
  \<open>internal/revocation\<close>: the authority model (\<open>authority.go\<close>), signed revocation entries
  (\<open>entry.go\<close>) and lists (\<open>list.go\<close>), and the cache of the latest entry per subject
  (\<open>cache.go\<close>).  Authorities, scopes and statuses are string types in the source and here.  The
  wall clock is the argument \<open>now\<close>; the cache's mutex makes its operations atomic.
\<close>

datatype rev_error =
    ErrUnknownAuthority | ErrStatusNotPermitted | ErrScopeNotPermitted | ErrInsufficientAuthority
  | ErrNotRevocationEntry | ErrMissingSubject | ErrRevInvalidKey
  | ErrNotRevocationList | ErrSequenceRollback | ErrRevSigning sign_error
  | ErrLookup | ErrEmergencyPush | ErrAudit audit_error | ErrRevBackend

subsection \<open>Authority model\<close>

definition AuthPlatform :: string where "AuthPlatform = ''platform_root''"
definition AuthHopIssuer :: string where "AuthHopIssuer = ''hop_issuer''"
definition AuthSubject :: string where "AuthSubject = ''subject''"
definition AuthSponsor :: string where "AuthSponsor = ''sponsor''"

definition ScopeCredential :: string where "ScopeCredential = ''credential''"
definition ScopeSubtree :: string where "ScopeSubtree = ''subtree''"
definition ScopeIdentity :: string where "ScopeIdentity = ''identity''"

definition StatusRevoked :: string where "StatusRevoked = ''REVOKED''"
definition StatusSuspended :: string where "StatusSuspended = ''SUSPENDED''"
definition StatusReinstated :: string where "StatusReinstated = ''REINSTATED''"
definition StatusCompromised :: string where "StatusCompromised = ''COMPROMISED''"
definition StatusDecommissioned :: string where "StatusDecommissioned = ''DECOMMISSIONED''"
definition StatusCascade :: string where "StatusCascade = ''CASCADE''"

lemmas auth_defs = AuthPlatform_def AuthHopIssuer_def AuthSubject_def AuthSponsor_def
lemmas scope_defs = ScopeCredential_def ScopeSubtree_def ScopeIdentity_def
lemmas status_defs = StatusRevoked_def StatusSuspended_def StatusReinstated_def StatusCompromised_def
  StatusDecommissioned_def StatusCascade_def

definition authorityStatuses :: "(string \<times> string list) list" where
  "authorityStatuses =
     [(AuthPlatform, [StatusRevoked, StatusSuspended, StatusReinstated, StatusCompromised,
        StatusDecommissioned, StatusCascade]),
      (AuthHopIssuer, [StatusRevoked, StatusSuspended, StatusReinstated]),
      (AuthSubject, [StatusRevoked, StatusCompromised]),
      (AuthSponsor, [StatusRevoked, StatusCompromised, StatusDecommissioned])]"

definition authorityScopes :: "(string \<times> string list) list" where
  "authorityScopes =
     [(AuthPlatform, [ScopeCredential, ScopeSubtree, ScopeIdentity]),
      (AuthHopIssuer, [ScopeCredential, ScopeSubtree]),
      (AuthSubject, [ScopeCredential, ScopeIdentity]),
      (AuthSponsor, [ScopeIdentity])]"

definition authorityRank :: "(string \<times> int) list" where
  "authorityRank = [(AuthSubject, 1), (AuthHopIssuer, 2), (AuthSponsor, 3), (AuthPlatform, 4)]"

text \<open>Looking up a key that is missing from a map gives the zero value, here the empty set.\<close>

definition ValidateAuthority :: "string \<Rightarrow> string \<Rightarrow> string \<Rightarrow> rev_error + unit" where
  "ValidateAuthority authority status scp =
     (case map_of authorityStatuses authority of
        None \<Rightarrow> Inl ErrUnknownAuthority
      | Some statuses \<Rightarrow>
          if \<not> List.member statuses status then Inl ErrStatusNotPermitted
          else if \<not> List.member (case map_of authorityScopes authority of None \<Rightarrow> [] | Some s \<Rightarrow> s) scp
          then Inl ErrScopeNotPermitted
          else Inr ())"

definition ValidateReinstatement :: "string \<Rightarrow> string \<Rightarrow> rev_error + unit" where
  "ValidateReinstatement reinstater suspender =
     (case map_of authorityRank reinstater of
        None \<Rightarrow> Inl ErrUnknownAuthority
      | Some rRank \<Rightarrow>
          (case map_of authorityRank suspender of
             None \<Rightarrow> Inl ErrUnknownAuthority
           | Some sRank \<Rightarrow> if rRank < sRank then Inl ErrInsufficientAuthority else Inr ()))"

subsection \<open>Entries\<close>

definition RevocationEntryTyp :: string where "RevocationEntryTyp = ''adtp/rev/1''"

record rev_subject =
  sub_cid :: string
  sub_did :: string

definition Key :: "rev_subject \<Rightarrow> string" where
  "Key s = (if sub_cid s \<noteq> [] then sub_cid s else sub_did s)"

record rev_auth =
  ra_did :: string
  ra_basis :: string
  ra_proof :: string

record rev_entry =
  re_typ :: string
  re_seq :: i64
  re_subject :: rev_subject
  re_scope :: string
  re_status :: string
  re_authority :: rev_auth
  re_iat :: i64
  re_prev :: string
  re_sig :: string

definition subject_json :: "rev_subject \<Rightarrow> json" where
  "subject_json s = JObj ((if sub_cid s = [] then [] else [(''cid'', JStr (sub_cid s))])
     @ (if sub_did s = [] then [] else [(''did'', JStr (sub_did s))]))"

definition entry_members :: "rev_entry \<Rightarrow> (string \<times> json) list" where
  "entry_members e =
     [(''typ'', JStr (re_typ e)), (''seq'', json_int (re_seq e)), (''subject'', subject_json (re_subject e)),
      (''scope'', JStr (re_scope e)), (''status'', JStr (re_status e)),
      (''authority'', JObj [(''did'', JStr (ra_did (re_authority e))),
         (''basis'', JStr (ra_basis (re_authority e))), (''proof'', JStr (ra_proof (re_authority e)))]),
      (''iat'', json_int (re_iat e)), (''prev'', JStr (re_prev e))]"

definition rev_entry_json :: "rev_entry \<Rightarrow> json" where
  "rev_entry_json e = JObj (entry_members e @ [(sigField, JStr (re_sig e))])"

definition CreateRevocationEntry ::
    "crypto \<Rightarrow> i64 \<Rightarrow> rev_subject \<Rightarrow> string \<Rightarrow> string \<Rightarrow> rev_auth \<Rightarrow> i64 \<Rightarrow> string \<Rightarrow> bytes \<Rightarrow> rev_error + rev_entry" where
  "CreateRevocationEntry C now subject scp status authority sq prevHash signerKey =
     (if length signerKey \<noteq> PrivateKeySize then Inl ErrRevInvalidKey
      else if sub_cid subject = [] \<and> sub_did subject = [] then Inl ErrMissingSubject
      else bindE (ValidateAuthority (ra_basis authority) status scp) (\<lambda>_.
        let entry = \<lparr>re_typ = RevocationEntryTyp, re_seq = sq, re_subject = subject, re_scope = scp,
              re_status = status, re_authority = authority, re_iat = now, re_prev = prevHash, re_sig = []\<rparr>
        in bindE (mapErr ErrRevSigning (Sign C (rev_entry_json entry) signerKey)) (\<lambda>sig.
             Inr (entry\<lparr>re_sig := EncodeSignature sig\<rparr>))))"

definition VerifyRevocationEntry :: "crypto \<Rightarrow> rev_entry \<Rightarrow> bytes \<Rightarrow> rev_error + unit" where
  "VerifyRevocationEntry C entry pub =
     (if re_typ entry \<noteq> RevocationEntryTyp then Inl ErrNotRevocationEntry
      else bindE (ValidateAuthority (ra_basis (re_authority entry)) (re_status entry) (re_scope entry)) (\<lambda>_.
        bindE (mapErr ErrRevSigning (DecodeSignature (re_sig entry))) (\<lambda>sig.
          mapErr ErrRevSigning (Verify C (rev_entry_json entry) sig pub))))"

definition VerifyEntrySelfSignature :: "crypto \<Rightarrow> rev_entry \<Rightarrow> rev_error + unit" where
  "VerifyEntrySelfSignature C e =
     bindE (mapErr (\<lambda>_. ErrNotRevocationEntry) (ParseDID (ra_did (re_authority e)))) (\<lambda>pub.
       VerifyRevocationEntry C e pub)"

definition Entry_Hash :: "crypto \<Rightarrow> rev_entry \<Rightarrow> rev_error + string" where
  "Entry_Hash C e =
     bindE (mapErr ErrRevSigning (CanonicalizeValue (rev_entry_json e))) (\<lambda>canonical.
       Inr (hex_encode (sha256 C canonical)))"

subsection \<open>Lists\<close>

definition RevocationListSchemaVersion :: string where "RevocationListSchemaVersion = ''1.0''"
definition RevocationListTyp :: string where "RevocationListTyp = ''adtp/revlist/1''"
definition defaultListValidity :: i64 where "defaultListValidity = 900"

record rev_list =
  rl_typ :: string
  rl_schema :: string
  rl_issuedAt :: i64
  rl_expiresAt :: i64
  rl_issuer :: string
  rl_listID :: string
  rl_sequence :: i64
  rl_entries :: "rev_entry list"
  rl_prev :: string
  rl_sig :: string

definition rev_list_json :: "rev_list \<Rightarrow> json" where
  "rev_list_json l = JObj
     [(''typ'', JStr (rl_typ l)), (''schema_version'', JStr (rl_schema l)), (''issued_at'', json_int (rl_issuedAt l)),
      (''expires_at'', json_int (rl_expiresAt l)), (''issuer'', JStr (rl_issuer l)), (''list_id'', JStr (rl_listID l)),
      (''sequence'', json_int (rl_sequence l)), (''entries'', JArr (map rev_entry_json (rl_entries l))),
      (''previous_list_hash'', JStr (rl_prev l)), (sigField, JStr (rl_sig l))]"

definition listID :: "crypto \<Rightarrow> string \<Rightarrow> i64 \<Rightarrow> string" where
  "listID C issuer sq = ''rl_'' @ hex_encode (take 12 (sha256 C (issuer @ '':'' @ itoa (sint sq))))"

definition CreateRevocationList ::
    "crypto \<Rightarrow> i64 \<Rightarrow> rev_entry list \<Rightarrow> string \<Rightarrow> string \<Rightarrow> i64 \<Rightarrow> bytes \<Rightarrow> rev_error + rev_list" where
  "CreateRevocationList C now entries issuerDID prevHash sq signerKey =
     (if length signerKey \<noteq> PrivateKeySize then Inl ErrRevInvalidKey
      else
        let l = \<lparr>rl_typ = RevocationListTyp, rl_schema = RevocationListSchemaVersion, rl_issuedAt = now,
              rl_expiresAt = now + defaultListValidity, rl_issuer = issuerDID, rl_listID = listID C issuerDID sq,
              rl_sequence = sq, rl_entries = entries, rl_prev = prevHash, rl_sig = []\<rparr>
        in bindE (mapErr ErrRevSigning (Sign C (rev_list_json l) signerKey)) (\<lambda>sig.
             Inr (l\<lparr>rl_sig := EncodeSignature sig\<rparr>)))"

definition VerifyRevocationList :: "crypto \<Rightarrow> rev_list \<Rightarrow> bytes \<Rightarrow> rev_error + unit" where
  "VerifyRevocationList C l issuerPub =
     (if rl_typ l \<noteq> RevocationListTyp then Inl ErrNotRevocationList
      else if rl_schema l \<noteq> RevocationListSchemaVersion then Inl ErrNotRevocationList
      else bindE (mapErr ErrRevSigning (DecodeSignature (rl_sig l))) (\<lambda>sig.
        mapErr ErrRevSigning (Verify C (rev_list_json l) sig issuerPub)))"

definition List_Hash :: "crypto \<Rightarrow> rev_list \<Rightarrow> rev_error + string" where
  "List_Hash C l =
     bindE (mapErr ErrRevSigning (CanonicalizeValue (rev_list_json l))) (\<lambda>canonical.
       Inr (hex_encode (sha256 C canonical)))"

subsection \<open>The cache\<close>

record rev_cache =
  rc_entries :: "string \<rightharpoonup> rev_entry"
  rc_listSeq :: i64

definition NewMemoryRevocationCache :: rev_cache where
  "NewMemoryRevocationCache = \<lparr>rc_entries = Map.empty, rc_listSeq = 0\<rparr>"

definition GetStatus :: "rev_cache \<Rightarrow> string \<Rightarrow> rev_entry option" where
  "GetStatus c subject =
     (case rc_entries c subject of
        None \<Rightarrow> None
      | Some e \<Rightarrow> if re_status e = StatusReinstated then None else Some e)"

definition stale :: "rev_cache \<Rightarrow> rev_entry \<Rightarrow> bool" where
  "stale c e \<longleftrightarrow> (case rc_entries c (Key (re_subject e)) of None \<Rightarrow> False | Some x \<Rightarrow> sle (re_seq e) (re_seq x))"

definition Revoke :: "crypto \<Rightarrow> rev_cache \<Rightarrow> rev_entry \<Rightarrow> rev_error + rev_cache" where
  "Revoke C c entry =
     (if Key (re_subject entry) = [] then Inl ErrMissingSubject
      else bindE (VerifyEntrySelfSignature C entry) (\<lambda>_.
        if stale c entry then Inl ErrSequenceRollback
        else Inr (c\<lparr>rc_entries := (rc_entries c)(Key (re_subject entry) \<mapsto> entry)\<rparr>)))"

definition apply_entry :: "rev_entry \<Rightarrow> rev_cache \<Rightarrow> rev_cache" where
  "apply_entry e c =
     (if Key (re_subject e) = [] then c
      else if stale c e then c
      else c\<lparr>rc_entries := (rc_entries c)(Key (re_subject e) \<mapsto> e)\<rparr>)"

definition UpdateFromList :: "crypto \<Rightarrow> rev_cache \<Rightarrow> rev_list \<Rightarrow> bytes \<Rightarrow> rev_error + rev_cache" where
  "UpdateFromList C c l issuerPub =
     bindE (VerifyRevocationList C l issuerPub) (\<lambda>_.
       if sle (rl_sequence l) (rc_listSeq c) then Inl ErrSequenceRollback
       else Inr ((fold apply_entry (rl_entries l) c)\<lparr>rc_listSeq := rl_sequence l\<rparr>))"

text \<open>\<open>Entries\<close> ranges over a Go map, so its result is known only as a set.\<close>

definition Entries :: "rev_cache \<Rightarrow> rev_entry set" where
  "Entries c = ran (rc_entries c)"

definition CurrentSeq :: "rev_cache \<Rightarrow> string \<Rightarrow> i64" where
  "CurrentSeq c subject = (case rc_entries c subject of None \<Rightarrow> 0 | Some e \<Rightarrow> re_seq e)"

subsection \<open>Lemmas\<close>

lemma utf8_EncodeDID: "utf8_valid (EncodeDID pub)"
proof -
  have "byte (base58Char d) < 0x80" if "0 \<le> d" "d < 58" for d
  proof -
    have "list_all (\<lambda>d. byte (base58Char d) < 0x80) [0..57]" by code_simp
    with that show ?thesis by (simp add: list_all_iff)
  qed
  then have "\<And>c. c \<in> set (base58Encode b) \<Longrightarrow> byte c < 0x80" for b
    using rebase_range [of 58 256] by (fastforce simp: base58Encode_rebase)
  moreover have "list_all (\<lambda>c. byte c < 0x80) (didKeyPrefix @ base58BTCPrefix)" by code_simp
  ultimately have "\<And>c. c \<in> set (EncodeDID pub) \<Longrightarrow> byte c < 0x80"
    by (auto simp: EncodeDID_def list_all_iff)
  then have "utf8_valid (EncodeDID pub @ [])" by (subst utf8_valid_ascii) auto
  then show ?thesis by simp
qed

definition rev_entry_ok :: "rev_entry \<Rightarrow> bool" where
  "rev_entry_ok e \<longleftrightarrow> utf8_valid (re_typ e) \<and> utf8_valid (sub_cid (re_subject e)) \<and> utf8_valid (sub_did (re_subject e))
     \<and> utf8_valid (re_scope e) \<and> utf8_valid (re_status e) \<and> utf8_valid (ra_did (re_authority e))
     \<and> utf8_valid (ra_basis (re_authority e)) \<and> utf8_valid (ra_proof (re_authority e)) \<and> utf8_valid (re_prev e)"

lemma entry_members_ok:
  assumes "rev_entry_ok e"
  shows "wf_json (JObj (entry_members e))" "canonical_ok (JObj (entry_members e))"
    "distinct (map fst (entry_members e))" "\<forall>m \<in> set (entry_members e). fst m \<noteq> sigField"
proof -
  have "utf8_valid ''seq'' \<and> utf8_valid ''subject'' \<and> utf8_valid ''scope'' \<and> utf8_valid ''status''
    \<and> utf8_valid ''authority'' \<and> utf8_valid ''did'' \<and> utf8_valid ''basis'' \<and> utf8_valid ''proof''
    \<and> utf8_valid ''prev'' \<and> utf8_valid ''cid'' \<and> utf8_valid ''typ'' \<and> utf8_valid ''iat''" by code_simp
  then show "wf_json (JObj (entry_members e))"
    using assms by (auto simp: entry_members_def subject_json_def rev_entry_ok_def)
  show "canonical_ok (JObj (entry_members e))"
    by (auto simp: entry_members_def subject_json_def)
  show "distinct (map fst (entry_members e))" "\<forall>m \<in> set (entry_members e). fst m \<noteq> sigField"
    by (simp_all add: entry_members_def sigField_def)
qed

lemma rev_entry_input:
  assumes "rev_entry_ok e" and "utf8_valid (re_sig e)"
  shows "\<exists>i. SignatureInput (JObj (entry_members e)) = Inr i \<and> SignatureInput (rev_entry_json e) = Inr i"
proof -
  note ok = entry_members_ok [OF assms(1)]
  have "canonical_ok (without_sig (entry_members e))"
    using ok(2) by (auto simp: without_sig_def distinct_map_filter)
  then show ?thesis
    using without_sig_input [OF ok(1,3) assms(2) ok(4)] SignatureInput_obj [OF ok(1,3)]
    unfolding rev_entry_json_def by auto
qed

lemma re_sig_update [simp]: "entry_members (e\<lparr>re_sig := s\<rparr>) = entry_members e" "rev_entry_ok (e\<lparr>re_sig := s\<rparr>) = rev_entry_ok e"
  by (simp_all add: entry_members_def rev_entry_ok_def)

text \<open>A signed entry, from its unsigned fields.\<close>

definition signed_entry :: "crypto \<Rightarrow> i64 \<Rightarrow> rev_subject \<Rightarrow> string \<Rightarrow> string \<Rightarrow> rev_auth \<Rightarrow> i64 \<Rightarrow> string \<Rightarrow> bytes \<Rightarrow> rev_entry \<Rightarrow> bool" where
  "signed_entry C now subject scp status authority sq prevHash key e \<longleftrightarrow>
     re_typ e = RevocationEntryTyp \<and> re_seq e = sq \<and> re_subject e = subject \<and> re_scope e = scp \<and> re_status e = status
     \<and> re_authority e = authority \<and> re_iat e = now \<and> re_prev e = prevHash
     \<and> (ra_did authority = EncodeDID (ed_public C key) \<longrightarrow> VerifyEntrySelfSignature C e = Inr ())"

lemma CreateRevocationEntry_signed:
  assumes "ed25519_ok C" and "length key = PrivateKeySize" and "Key subject \<noteq> []"
    and "ValidateAuthority (ra_basis authority) status scp = Inr ()"
    and "\<And>e. re_subject e = subject \<Longrightarrow> re_scope e = scp \<Longrightarrow> re_status e = status \<Longrightarrow> re_authority e = authority
      \<Longrightarrow> re_prev e = prevHash \<Longrightarrow> re_typ e = RevocationEntryTyp \<Longrightarrow> rev_entry_ok e"
  shows "\<exists>e. CreateRevocationEntry C now subject scp status authority sq prevHash key = Inr e
    \<and> signed_entry C now subject scp status authority sq prevHash key e"
proof -
  define e where "e = \<lparr>re_typ = RevocationEntryTyp, re_seq = sq, re_subject = subject, re_scope = scp,
              re_status = status, re_authority = authority, re_iat = now, re_prev = prevHash, re_sig = []\<rparr>"
  then have e: "re_typ e = RevocationEntryTyp" "re_seq e = sq" "re_subject e = subject" "re_scope e = scp"
    "re_status e = status" "re_authority e = authority" "re_iat e = now" "re_prev e = prevHash" "re_sig e = []"
    by simp_all
  then have ok: "rev_entry_ok e" by (intro assms(5))
  from rev_entry_input [OF ok] e(9) obtain i where i: "SignatureInput (JObj (entry_members e)) = Inr i"
    "SignatureInput (rev_entry_json e) = Inr i" by auto
  define sig where "sig = ed_sign C key i"
  define f where "f = e\<lparr>re_sig := EncodeSignature sig\<rparr>"
  have "SignatureInput (rev_entry_json f) = Inr i"
    using rev_entry_input [of f] ok i(1) by (simp add: f_def)
  then have v: "Verify C (rev_entry_json f) sig (ed_public C key) = Inr ()"
    using ed25519_verifies [OF assms(1,2)] by (simp add: Verify_ok_iff sig_def)
  have "ParseDID (EncodeDID (ed_public C key)) = Inr (ed_public C key)"
    using ed25519_verifies [OF assms(1,2)] by (simp add: ParseDID_iff didKeySize_def PublicKeySize_def)
  then have "VerifyEntrySelfSignature C f = Inr ()" if "ra_did authority = EncodeDID (ed_public C key)"
    using that v assms(4) by (simp add: VerifyEntrySelfSignature_def VerifyRevocationEntry_def f_def e)
  then have se: "signed_entry C now subject scp status authority sq prevHash key f"
    by (simp add: signed_entry_def f_def e)
  have "\<not> (sub_cid subject = [] \<and> sub_did subject = [])" using assms(3) by (auto simp: Key_def)
  then have "CreateRevocationEntry C now subject scp status authority sq prevHash key = Inr f"
    using assms(2,4) i(2) by (simp add: CreateRevocationEntry_def Sign_def e_def [symmetric] f_def sig_def)
  with se show ?thesis by blast
qed

text \<open>Issued lists verify under their issuer's key.\<close>

lemma CreateRevocationList_verifies:
  assumes "ed25519_ok C" and "length key = PrivateKeySize" and "utf8_valid issuer" and "utf8_valid prevHash"
    and "\<forall>e \<in> set es. rev_entry_ok e \<and> utf8_valid (re_sig e)"
  shows "\<exists>l. CreateRevocationList C now es issuer prevHash sq key = Inr l \<and> rl_entries l = es
    \<and> rl_sequence l = sq \<and> VerifyRevocationList C l (ed_public C key) = Inr ()"
proof -
  have "list_all (\<lambda>c. byte c < 0x80) ''rl_''" by code_simp
  then have "\<And>c. c \<in> set (listID C issuer sq) \<Longrightarrow> byte c < 0x80" using hex_encode_ascii by (auto simp: listID_def)
  then have "utf8_valid (listID C issuer sq @ [])" by (subst utf8_valid_ascii) auto
  then have id: "utf8_valid (listID C issuer sq)" by simp
  define l where "l = \<lparr>rl_typ = RevocationListTyp, rl_schema = RevocationListSchemaVersion, rl_issuedAt = now,
              rl_expiresAt = now + defaultListValidity, rl_issuer = issuer, rl_listID = listID C issuer sq,
              rl_sequence = sq, rl_entries = es, rl_prev = prevHash, rl_sig = []\<rparr>"
  define ms where "ms = butlast (case rev_list_json l of JObj ms \<Rightarrow> ms | _ \<Rightarrow> [])"
  have json: "rev_list_json (l\<lparr>rl_sig := s\<rparr>) = JObj (ms @ [(sigField, JStr s)])" for s
    by (simp add: rev_list_json_def ms_def l_def)
  have u: "utf8_valid ''typ'' \<and> utf8_valid ''schema_version'' \<and> utf8_valid ''issued_at'' \<and> utf8_valid ''expires_at''
    \<and> utf8_valid ''issuer'' \<and> utf8_valid ''list_id'' \<and> utf8_valid ''sequence'' \<and> utf8_valid ''entries''
    \<and> utf8_valid ''previous_list_hash'' \<and> utf8_valid RevocationListTyp \<and> utf8_valid RevocationListSchemaVersion
    \<and> utf8_valid sigField" by code_simp
  have es: "wf_json (rev_entry_json e) \<and> canonical_ok (rev_entry_json e)" if "e \<in> set es" for e
    using assms(5) that entry_members_ok [of e] u by (auto simp: rev_entry_json_def)
  have wf: "wf_json (JObj ms)" "distinct (map fst ms)" "\<forall>m \<in> set ms. fst m \<noteq> sigField" "canonical_ok (JObj ms)"
    using u es assms(3,4) id by (auto simp: ms_def rev_list_json_def l_def sigField_def)
  then have "canonical_ok (without_sig ms)" by (auto simp: without_sig_def distinct_map_filter)
  then obtain i where i: "SignatureInput (JObj ms) = Inr i" using SignatureInput_obj [OF wf(1,2)] by auto
  have inp: "SignatureInput (rev_list_json (l\<lparr>rl_sig := s\<rparr>)) = Inr i" if "utf8_valid s" for s
    unfolding json using without_sig_input [OF wf(1,2) that wf(3)] i by simp
  define sig where "sig = ed_sign C key i"
  have "l\<lparr>rl_sig := []\<rparr> = l" by (simp add: l_def)
  with inp [of "[]"] have "CreateRevocationList C now es issuer prevHash sq key = Inr (l\<lparr>rl_sig := EncodeSignature sig\<rparr>)"
    using assms(2) by (simp add: CreateRevocationList_def Sign_def l_def [symmetric] sig_def)
  moreover have "Verify C (rev_list_json (l\<lparr>rl_sig := EncodeSignature sig\<rparr>)) sig (ed_public C key) = Inr ()"
    using inp [of "EncodeSignature sig"] ed25519_verifies [OF assms(1,2)] by (simp add: Verify_ok_iff sig_def)
  then have "VerifyRevocationList C (l\<lparr>rl_sig := EncodeSignature sig\<rparr>) (ed_public C key) = Inr ()"
    by (simp add: VerifyRevocationList_def l_def)
  ultimately show ?thesis by (auto simp: l_def)
qed

subsection \<open>The revocation service interface\<close>

text \<open>What a revocation service promises its clients: an accepted entry becomes the latest of its
  subject and of no other, and only a newer entry replaces one.\<close>

locale revocation_service =
  fixes revoke :: "'s \<Rightarrow> rev_entry \<Rightarrow> rev_error + 's"
    and currentSeq :: "'s \<Rightarrow> string \<Rightarrow> i64"
    and latest :: "'s \<Rightarrow> string \<Rightarrow> rev_entry option"
    and status :: "'s \<Rightarrow> string \<Rightarrow> rev_entry option"
  assumes revoke_latest: "revoke s e = Inr s' \<Longrightarrow>
      latest s' k = (if k = Key (re_subject e) then Some e else latest s k)"
    and revoke_newer: "revoke s e = Inr s' \<Longrightarrow> latest s (Key (re_subject e)) = Some x \<Longrightarrow> slt (re_seq x) (re_seq e)"
    and seq_latest: "currentSeq s k = (case latest s k of None \<Rightarrow> 0 | Some e \<Rightarrow> re_seq e)"
    and status_latest: "status s k = (case latest s k of None \<Rightarrow> None
      | Some e \<Rightarrow> if re_status e = StatusReinstated then None else Some e)"
begin

lemma revoke_keeps:
  assumes "revoke s e = Inr s'" and "latest s k = Some x"
  shows "\<exists>y. latest s' k = Some y \<and> (y = x \<or> slt (re_seq x) (re_seq y))"
  using revoke_latest [OF assms(1), of k] revoke_newer [OF assms(1), of x] assms(2) by auto

lemma revoke_status:
  assumes "revoke s e = Inr s'" and "re_status e \<noteq> StatusReinstated"
  shows "status s' (Key (re_subject e)) = Some e"
  using revoke_latest [OF assms(1)] assms(2) by (simp add: status_latest)

text \<open>A batch of accepted entries with distinct subjects: each subject ends with its entry.\<close>

fun revoke_all :: "'s \<Rightarrow> rev_entry list \<Rightarrow> rev_error + 's" where
  "revoke_all s [] = Inr s"
| "revoke_all s (e # es) = bindE (revoke s e) (\<lambda>s'. revoke_all s' es)"

lemma revoke_all_latest:
  "revoke_all s es = Inr s' \<Longrightarrow> distinct (map (\<lambda>e. Key (re_subject e)) es) \<Longrightarrow>
     (\<forall>e \<in> set es. latest s' (Key (re_subject e)) = Some e)
     \<and> (\<forall>k. k \<notin> (\<lambda>e. Key (re_subject e)) ` set es \<longrightarrow> latest s' k = latest s k)"
proof (induction es arbitrary: s)
  case (Cons e es)
  then obtain s1 where s1: "revoke s e = Inr s1" "revoke_all s1 es = Inr s'" by (auto simp: err_simps)
  from Cons.IH [OF s1(2)] Cons.prems(2) revoke_latest [OF s1(1)] show ?case by auto
qed simp

end

interpretation cache: revocation_service "Revoke C" CurrentSeq rc_entries GetStatus for C
  by unfold_locales
    (auto simp: Revoke_def CurrentSeq_def GetStatus_def err_simps stale_def split: if_splits option.splits)

subsection \<open>Cache histories\<close>

inductive cache_step :: "crypto \<Rightarrow> rev_cache \<Rightarrow> rev_cache \<Rightarrow> bool" for C where
  step_revoke: "Revoke C c e = Inr c' \<Longrightarrow> cache_step C c c'"
| step_update: "UpdateFromList C c l pub = Inr c' \<Longrightarrow> cache_step C c c'"

inductive cache_run :: "crypto \<Rightarrow> rev_cache \<Rightarrow> rev_cache \<Rightarrow> bool" for C where
  cache_refl: "cache_run C c c"
| cache_more: "cache_run C c d \<Longrightarrow> cache_step C d d' \<Longrightarrow> cache_run C c d'"

inductive_cases cache_stepE: "cache_step C c c'"

definition superseded :: "rev_cache \<Rightarrow> rev_cache \<Rightarrow> bool" where
  "superseded c c' \<longleftrightarrow> (\<forall>k x. rc_entries c k = Some x \<longrightarrow>
     (\<exists>y. rc_entries c' k = Some y \<and> (y = x \<or> slt (re_seq x) (re_seq y))))"

lemma superseded_refl: "superseded c c"
  by (simp add: superseded_def)

lemma superseded_trans: "superseded c d \<Longrightarrow> superseded d f \<Longrightarrow> superseded c f"
proof (unfold superseded_def, intro allI impI)
  fix k x
  assume cd: "\<forall>k x. rc_entries c k = Some x \<longrightarrow> (\<exists>y. rc_entries d k = Some y \<and> (y = x \<or> slt (re_seq x) (re_seq y)))"
    and df: "\<forall>k x. rc_entries d k = Some x \<longrightarrow> (\<exists>y. rc_entries f k = Some y \<and> (y = x \<or> slt (re_seq x) (re_seq y)))"
    and x: "rc_entries c k = Some x"
  from cd x obtain y where y: "rc_entries d k = Some y" "y = x \<or> slt (re_seq x) (re_seq y)" by blast
  from df y(1) obtain z where "rc_entries f k = Some z" "z = y \<or> slt (re_seq y) (re_seq z)" by blast
  with y(2) show "\<exists>y. rc_entries f k = Some y \<and> (y = x \<or> slt (re_seq x) (re_seq y))" by (intro exI [of _ z]) auto
qed

lemma apply_entry_superseded: "superseded c (apply_entry e c)"
  by (auto simp: superseded_def apply_entry_def stale_def split: option.splits)

lemma fold_apply_superseded: "superseded c (fold apply_entry es c)"
  by (induction es arbitrary: c) (auto simp: superseded_refl intro: superseded_trans apply_entry_superseded)

lemma superseded_listSeq [simp]: "superseded c (d\<lparr>rc_listSeq := n\<rparr>) = superseded c d"
  by (simp add: superseded_def)

lemma apply_entry_listSeq: "rc_listSeq (fold apply_entry es c) = rc_listSeq c"
  by (induction es arbitrary: c) (auto simp: apply_entry_def)

lemma cache_step_superseded: "cache_step C c c' \<Longrightarrow> superseded c c' \<and> sle (rc_listSeq c) (rc_listSeq c')"
proof (elim cache_stepE)
  fix e assume r: "Revoke C c e = Inr c'"
  then have "rc_listSeq c' = rc_listSeq c" by (auto simp: Revoke_def err_simps split: if_splits)
  then show ?thesis using cache.revoke_keeps [OF r] by (auto simp: superseded_def)
next
  fix l pub assume "UpdateFromList C c l pub = Inr c'"
  then show ?thesis
    by (auto simp: UpdateFromList_def err_simps fold_apply_superseded split: if_splits)
qed

lemma cache_run_superseded: "cache_run C c c' \<Longrightarrow> superseded c c' \<and> sle (rc_listSeq c) (rc_listSeq c')"
  by (induction rule: cache_run.induct)
    (auto simp: superseded_refl dest!: cache_step_superseded intro: superseded_trans)

text \<open>Applying a list keeps, per subject, an entry of the highest sequence number.\<close>

lemma fold_apply_max:
  "Key (re_subject e) = k \<Longrightarrow> k \<noteq> [] \<Longrightarrow> e \<in> set es \<Longrightarrow>
     \<exists>y. rc_entries (fold apply_entry es c) k = Some y \<and> sle (re_seq e) (re_seq y)"
proof (induction es arbitrary: c)
  case (Cons f es)
  show ?case
  proof (cases "e \<in> set es")
    case False
    with Cons.prems have f: "f = e" by simp
    have "\<exists>x. rc_entries (apply_entry e c) k = Some x \<and> sle (re_seq e) (re_seq x)"
      using Cons.prems by (auto simp: apply_entry_def stale_def split: option.splits)
    then obtain x where x: "rc_entries (apply_entry e c) k = Some x" "sle (re_seq e) (re_seq x)" by blast
    with fold_apply_superseded [of "apply_entry e c" es] obtain y where
      "rc_entries (fold apply_entry es (apply_entry e c)) k = Some y" "y = x \<or> slt (re_seq x) (re_seq y)"
      by (auto simp: superseded_def)
    with x f show ?thesis by auto
  qed (use Cons in simp)
qed simp

lemma fold_apply_origin:
  "rc_entries (fold apply_entry es c) k = Some y \<Longrightarrow> rc_entries c k = Some y \<or> (y \<in> set es \<and> Key (re_subject y) = k)"
proof (induction es arbitrary: c)
  case (Cons e es)
  from Cons.IH [of "apply_entry e c"] Cons.prems
  have "rc_entries (apply_entry e c) k = Some y \<or> y \<in> set es \<and> Key (re_subject y) = k" by simp
  then show ?case by (auto simp: apply_entry_def split: if_splits)
qed simp

subsection \<open>Properties\<close>

text \<open>Revocation never goes backwards: along any history of accepted single entries and
  accepted lists, the entry of a subject is only ever replaced by one with a higher sequence
  number, no subject is forgotten, and the list sequence does not decrease.\<close>

theorem RevocationCache_monotone:
  assumes "cache_run C c c'" and "rc_entries c k = Some x"
  shows "(\<exists>y. rc_entries c' k = Some y \<and> (y = x \<or> slt (re_seq x) (re_seq y)))
    \<and> sle (rc_listSeq c) (rc_listSeq c')"
  using cache_run_superseded [OF assms(1)] assms(2) by (auto simp: superseded_def)

theorem RevocationCache_monotone_witness:
  "\<exists>e c' y. Revoke demo_crypto NewMemoryRevocationCache e = Inr c'
    \<and> re_status e = StatusRevoked \<and> rc_entries c' ''x'' = Some y \<and> y = e"
proof -
  let ?k = "replicate 64 (CHR ''k'')"
  let ?a = "\<lparr>ra_did = EncodeDID (ed_public demo_crypto ?k), ra_basis = AuthPlatform, ra_proof = []\<rparr>"
  let ?s = "\<lparr>sub_cid = ''x'', sub_did = []\<rparr>"
  have u: "utf8_valid ''x'' \<and> utf8_valid AuthPlatform \<and> utf8_valid ScopeCredential \<and> utf8_valid StatusRevoked
    \<and> utf8_valid RevocationEntryTyp" by code_simp
  have v: "ValidateAuthority AuthPlatform StatusRevoked ScopeCredential = Inr ()" by code_simp
  have "\<exists>e. CreateRevocationEntry demo_crypto 7 ?s ScopeCredential StatusRevoked ?a 1 [] ?k = Inr e
      \<and> signed_entry demo_crypto 7 ?s ScopeCredential StatusRevoked ?a 1 [] ?k e"
    by (rule CreateRevocationEntry_signed [OF demo_crypto_ok(1)])
      (use u v utf8_EncodeDID in \<open>auto simp: PrivateKeySize_def Key_def rev_entry_ok_def\<close>)
  then obtain e where e: "signed_entry demo_crypto 7 ?s ScopeCredential StatusRevoked ?a 1 [] ?k e" by blast
  then have r: "Revoke demo_crypto NewMemoryRevocationCache e
      = Inr (NewMemoryRevocationCache\<lparr>rc_entries := [''x'' \<mapsto> e]\<rparr>)" (is "_ = Inr ?c")
    by (simp add: Revoke_def signed_entry_def Key_def stale_def NewMemoryRevocationCache_def)
  have "rc_entries ?c ''x'' = Some e" by simp
  from RevocationCache_monotone [OF cache_refl this] obtain y where "rc_entries ?c ''x'' = Some y" by blast
  with r e show ?thesis by (intro exI [of _ e] exI [of _ ?c] exI [of _ y]) (simp add: signed_entry_def)
qed

text \<open>Applying a signed list refines taking the maximum: the sequence of the list becomes the
  cache's, and for every subject the cache holds an entry that was there before or is one of
  the list's entries for that subject, with a sequence number at least that of each of them.\<close>

theorem UpdateFromList_max:
  assumes "UpdateFromList C c l pub = Inr c'" and "k \<noteq> []"
  shows "VerifyRevocationList C l pub = Inr () \<and> slt (rc_listSeq c) (rc_listSeq c') \<and> rc_listSeq c' = rl_sequence l
    \<and> (\<forall>y. rc_entries c' k = Some y \<longrightarrow>
         rc_entries c k = Some y \<or> (y \<in> set (rl_entries l) \<and> Key (re_subject y) = k))
    \<and> (\<forall>e \<in> set (rl_entries l). Key (re_subject e) = k \<longrightarrow>
         (\<exists>y. rc_entries c' k = Some y \<and> sle (re_seq e) (re_seq y)))
    \<and> (\<forall>x. rc_entries c k = Some x \<longrightarrow> (\<exists>y. rc_entries c' k = Some y \<and> sle (re_seq x) (re_seq y)))"
proof -
  from assms(1) have c: "VerifyRevocationList C l pub = Inr ()" "slt (rc_listSeq c) (rl_sequence l)"
    "c' = (fold apply_entry (rl_entries l) c)\<lparr>rc_listSeq := rl_sequence l\<rparr>"
    by (auto simp: UpdateFromList_def err_simps split: if_splits)
  have "\<exists>y. rc_entries c' k = Some y \<and> sle (re_seq x) (re_seq y)" if "rc_entries c k = Some x" for x
    using fold_apply_superseded [of c "rl_entries l"] that c(3) by (auto simp: superseded_def) force
  then show ?thesis
    using c fold_apply_origin fold_apply_max assms(2) by auto
qed

theorem UpdateFromList_max_witness:
  "\<exists>l c'. CreateRevocationList demo_crypto 5 [] ''i'' [] 1 (replicate 64 (CHR ''k'')) = Inr l
    \<and> UpdateFromList demo_crypto NewMemoryRevocationCache l (ed_public demo_crypto (replicate 64 (CHR ''k''))) = Inr c'
    \<and> rc_listSeq c' = 1"
proof -
  let ?k = "replicate 64 (CHR ''k'')"
  have "utf8_valid ''i''" by code_simp
  then have "\<exists>l. CreateRevocationList demo_crypto 5 [] ''i'' [] 1 ?k = Inr l \<and> rl_entries l = []
      \<and> rl_sequence l = 1 \<and> VerifyRevocationList demo_crypto l (ed_public demo_crypto ?k) = Inr ()"
    by (intro CreateRevocationList_verifies demo_crypto_ok) (simp_all add: PrivateKeySize_def)
  then obtain l where l: "CreateRevocationList demo_crypto 5 [] ''i'' [] 1 ?k = Inr l" "rl_sequence l = 1"
    "VerifyRevocationList demo_crypto l (ed_public demo_crypto ?k) = Inr ()" by blast
  then obtain c' where "UpdateFromList demo_crypto NewMemoryRevocationCache l (ed_public demo_crypto ?k) = Inr c'"
    by (auto simp: UpdateFromList_def NewMemoryRevocationCache_def)
  with UpdateFromList_max [OF this, of "''x''"] l show ?thesis by auto
qed

text \<open>An entry that creation signs is accepted by the cache, and it takes effect: it is the
  subject's status unless it reinstates.  The authority basis is whatever the signer claims: the
  only identity the check consults is the one the entry names.\<close>

theorem Revoke_accepts_created:
  assumes "ed25519_ok C" and "length key = PrivateKeySize" and "Key subject \<noteq> []"
    and "ra_did authority = EncodeDID (ed_public C key)"
    and "ValidateAuthority (ra_basis authority) status scp = Inr ()"
    and "utf8_valid (sub_cid subject)" and "utf8_valid (sub_did subject)" and "utf8_valid (ra_proof authority)"
    and "utf8_valid (ra_basis authority)" and "utf8_valid status" and "utf8_valid scp" and "utf8_valid prevHash"
    and "\<forall>x. rc_entries c (Key subject) = Some x \<longrightarrow> slt (re_seq x) sq"
  shows "\<exists>e c'. CreateRevocationEntry C now subject scp status authority sq prevHash key = Inr e
    \<and> Revoke C c e = Inr c' \<and> CurrentSeq c' (Key subject) = sq
    \<and> GetStatus c' (Key subject) = (if status = StatusReinstated then None else Some e)"
proof -
  have "utf8_valid RevocationEntryTyp" by code_simp
  then have "\<exists>e. CreateRevocationEntry C now subject scp status authority sq prevHash key = Inr e
      \<and> signed_entry C now subject scp status authority sq prevHash key e"
    by (intro CreateRevocationEntry_signed assms) (use assms utf8_EncodeDID in \<open>auto simp: rev_entry_ok_def\<close>)
  then obtain e where e: "CreateRevocationEntry C now subject scp status authority sq prevHash key = Inr e"
    "signed_entry C now subject scp status authority sq prevHash key e" by blast
  have "\<not> stale c e" using assms(13) e(2) by (auto simp: stale_def signed_entry_def split: option.splits)
  with e(2) assms(3,4) have "Revoke C c e = Inr (c\<lparr>rc_entries := (rc_entries c)(Key subject \<mapsto> e)\<rparr>)" (is "_ = Inr ?c")
    by (simp add: Revoke_def signed_entry_def)
  with e show ?thesis by (intro exI [of _ e] exI [of _ ?c]) (auto simp: CurrentSeq_def GetStatus_def signed_entry_def)
qed

theorem Revoke_accepts_created_witness:
  "\<exists>e c'. CreateRevocationEntry demo_crypto 7 \<lparr>sub_cid = ''x'', sub_did = []\<rparr> ScopeCredential StatusReinstated
      \<lparr>ra_did = EncodeDID (ed_public demo_crypto (replicate 64 (CHR ''k''))), ra_basis = AuthPlatform, ra_proof = []\<rparr>
      1 [] (replicate 64 (CHR ''k'')) = Inr e
    \<and> Revoke demo_crypto NewMemoryRevocationCache e = Inr c' \<and> GetStatus c' ''x'' = None"
proof -
  let ?k = "replicate 64 (CHR ''k'')"
  let ?a = "\<lparr>ra_did = EncodeDID (ed_public demo_crypto ?k), ra_basis = AuthPlatform, ra_proof = []\<rparr>"
  let ?s = "\<lparr>sub_cid = ''x'', sub_did = []\<rparr>"
  have u: "utf8_valid ''x'' \<and> utf8_valid AuthPlatform \<and> utf8_valid ScopeCredential \<and> utf8_valid StatusReinstated" by code_simp
  have v: "ValidateAuthority AuthPlatform StatusReinstated ScopeCredential = Inr ()" by code_simp
  have "\<exists>e c'. CreateRevocationEntry demo_crypto 7 ?s ScopeCredential StatusReinstated ?a 1 [] ?k = Inr e
    \<and> Revoke demo_crypto NewMemoryRevocationCache e = Inr c' \<and> CurrentSeq c' (Key ?s) = 1
    \<and> GetStatus c' (Key ?s) = (if StatusReinstated = StatusReinstated then None else Some e)"
    by (rule Revoke_accepts_created [OF demo_crypto_ok(1)])
      (use u v in \<open>simp_all add: PrivateKeySize_def Key_def NewMemoryRevocationCache_def\<close>)
  then show ?thesis by (auto simp: Key_def)
qed

end
