(* ===== verification/Verify_Errors.thy ===== *)
theory Verify_Errors
  imports ADTP_Errors
begin

text \<open>
  \<open>internal/verify/errors.go\<close>: the verification error taxonomy, its reduction to four external
  responses, and the risk tiers.  A \<open>VerificationError\<close> is its step and code; the detail text and
  the wrapped cause are dropped.
\<close>

datatype error_code =
    CodeSigInvalid | CodeExpired | CodeNotYetValid | CodeRevoked | CodeSuspended | CodeCompromised
  | CodeCapInsufficient | CodeAttenuation | CodeChainBroken | CodeChainTooDeep | CodeCircular
  | CodeUntrustedRoot | CodeCrossOrg | CodePoPFailed | CodeExpiryEscalate | CodeBranching
  | CodeMalformed | CodeCIDMismatch | CodeUnregistered
  | CodeRevocUnavailable | CodeDIDResolution | CodeClockSkew | CodeProofCacheMiss | CodeKeyStorage
  | CodeTrustUnavailable | CodeAuditUnavailable

fun code_string :: "error_code \<Rightarrow> string" where
  "code_string CodeSigInvalid = ''AGENT_ERR_V001_SIG_INVALID''"
| "code_string CodeExpired = ''AGENT_ERR_V002_EXPIRED''"
| "code_string CodeNotYetValid = ''AGENT_ERR_V003_NOT_YET_VALID''"
| "code_string CodeRevoked = ''AGENT_ERR_V004_REVOKED''"
| "code_string CodeSuspended = ''AGENT_ERR_V005_SUSPENDED''"
| "code_string CodeCompromised = ''AGENT_ERR_V006_COMPROMISED''"
| "code_string CodeCapInsufficient = ''AGENT_ERR_V007_CAPABILITY_INSUFFICIENT''"
| "code_string CodeAttenuation = ''AGENT_ERR_V008_ATTENUATION_VIOLATION''"
| "code_string CodeChainBroken = ''AGENT_ERR_V009_CHAIN_BROKEN''"
| "code_string CodeChainTooDeep = ''AGENT_ERR_V010_CHAIN_TOO_DEEP''"
| "code_string CodeCircular = ''AGENT_ERR_V011_CIRCULAR_DELEGATION''"
| "code_string CodeUntrustedRoot = ''AGENT_ERR_V012_UNTRUSTED_ROOT''"
| "code_string CodeCrossOrg = ''AGENT_ERR_V013_CROSS_ORG_VIOLATION''"
| "code_string CodePoPFailed = ''AGENT_ERR_V014_POP_FAILED''"
| "code_string CodeExpiryEscalate = ''AGENT_ERR_V015_EXPIRY_ESCALATION''"
| "code_string CodeBranching = ''AGENT_ERR_V016_BRANCHING_UNSUPPORTED''"
| "code_string CodeMalformed = ''AGENT_ERR_V017_MALFORMED''"
| "code_string CodeCIDMismatch = ''AGENT_ERR_V018_CID_MISMATCH''"
| "code_string CodeUnregistered = ''AGENT_ERR_V019_UNREGISTERED''"
| "code_string CodeRevocUnavailable = ''AGENT_ERR_O001_REVOC_UNAVAILABLE''"
| "code_string CodeDIDResolution = ''AGENT_ERR_O002_DID_RESOLUTION_FAILED''"
| "code_string CodeClockSkew = ''AGENT_ERR_O003_CLOCK_SKEW''"
| "code_string CodeProofCacheMiss = ''AGENT_ERR_O004_PROOF_CACHE_MISS''"
| "code_string CodeKeyStorage = ''AGENT_ERR_O005_KEY_STORAGE_UNAVAILABLE''"
| "code_string CodeTrustUnavailable = ''AGENT_ERR_O006_TRUST_POLICY_UNAVAILABLE''"
| "code_string CodeAuditUnavailable = ''AGENT_ERR_O007_AUDIT_LOG_UNAVAILABLE''"

record verification_error =
  ve_step :: nat
  ve_code :: error_code

definition verr :: "nat \<Rightarrow> error_code \<Rightarrow> verification_error" where
  "verr step code = \<lparr>ve_step = step, ve_code = code\<rparr>"

definition ExtMalformed :: string where "ExtMalformed = ''ADTP_MALFORMED''"
definition ExtDenied :: string where "ExtDenied = ''ADTP_DENIED''"
definition ExtRevoked :: string where "ExtRevoked = ''ADTP_REVOKED''"
definition ExtRetry :: string where "ExtRetry = ''ADTP_RETRY''"

definition External :: "verification_error \<Rightarrow> string" where
  "External e =
     (if ve_code e \<in> {CodeMalformed, CodeChainBroken, CodeChainTooDeep, CodeCircular, CodeBranching,
                      CodeCIDMismatch} then ExtMalformed
      else if ve_code e \<in> {CodeRevoked, CodeSuspended, CodeCompromised} then ExtRevoked
      else if ve_code e \<in> {CodeRevocUnavailable, CodeDIDResolution, CodeProofCacheMiss,
                           CodeTrustUnavailable, CodeAuditUnavailable} then ExtRetry
      else ExtDenied)"

datatype risk_tier = TierAnalytics | TierLow | TierMedium | TierHigh

text \<open>\<open>RiskTier\<close> is an \<open>int\<close> enumerated by \<open>iota\<close>: the tiers are ordered by the sensitivity they stand for.\<close>

fun tier_rank :: "risk_tier \<Rightarrow> nat" where
  "tier_rank TierAnalytics = 0"
| "tier_rank TierLow = 1"
| "tier_rank TierMedium = 2"
| "tier_rank TierHigh = 3"

lemma tier_rank_inj [simp]: "tier_rank t = tier_rank u \<longleftrightarrow> t = u"
  by (cases t; cases u) simp_all

instantiation risk_tier :: linorder
begin

definition less_eq_risk_tier :: "risk_tier \<Rightarrow> risk_tier \<Rightarrow> bool" where
  "t \<le> u \<longleftrightarrow> tier_rank t \<le> tier_rank u"

definition less_risk_tier :: "risk_tier \<Rightarrow> risk_tier \<Rightarrow> bool" where
  "t < u \<longleftrightarrow> tier_rank t < tier_rank u"

instance
  by standard (auto simp: less_eq_risk_tier_def less_risk_tier_def)

end

lemma tier_high_top [simp]: "t \<le> TierHigh" "TierHigh \<le> t \<longleftrightarrow> t = TierHigh"
  by (cases t; simp add: less_eq_risk_tier_def)+

fun tier_String :: "risk_tier \<Rightarrow> string" where
  "tier_String TierHigh = ''HIGH''"
| "tier_String TierMedium = ''MEDIUM''"
| "tier_String TierLow = ''LOW''"
| "tier_String TierAnalytics = ''ANALYTICS''"

lemma verr_simps [simp]: "ve_step (verr n c) = n" "ve_code (verr n c) = c" "verr n c = verr m d \<longleftrightarrow> n = m \<and> c = d"
  by (simp_all add: verr_def)

end
