(* ===== verification/Go_Int.thy ===== *)
theory Go_Int
  imports ADTP_Prelude
begin

text \<open>
  Signed 64-bit arithmetic: the integer value of a sum or difference of two \<open>int64\<close>, the wrap-around
  written out.
\<close>


lemma i64_range: "- (2 ^ 63) \<le> sint (a :: i64)" "sint a < 2 ^ 63"
  using sint_greater_eq [of a] sint_less [of a] by simp_all

lemma i64_of_int: "- (2 ^ 63) \<le> z \<Longrightarrow> z < 2 ^ 63 \<Longrightarrow> sint (word_of_int z :: i64) = z"
  by (simp add: signed_take_bit_int_eq_self sint_sbintrunc')

lemma i64_wrap:
  fixes z :: int
  assumes "- (2 ^ 64) \<le> z" and "z < 2 ^ 64"
  shows "sint (word_of_int z :: i64) =
     (if z < - (2 ^ 63) then z + 2 ^ 64 else if z < 2 ^ 63 then z else z - 2 ^ 64)"
proof -
  have *: "sint (word_of_int z :: i64) = (z + 2 ^ 63) mod 2 ^ 64 - 2 ^ 63"
    by (simp add: sint_sbintrunc' signed_take_bit_eq_take_bit_shift take_bit_eq_mod)
  consider "z < - (2 ^ 63)" | "- (2 ^ 63) \<le> z" "z < 2 ^ 63" | "2 ^ 63 \<le> z" by linarith
  then show ?thesis
  proof cases
    case 1
    have "(z + 2 ^ 63) mod 2 ^ 64 = (z + 2 ^ 63 + 2 ^ 64) mod 2 ^ 64" by (rule mod_add_self2 [symmetric])
    also have "\<dots> = z + 2 ^ 63 + 2 ^ 64" using 1 assms by (intro mod_pos_pos_trivial) auto
    finally show ?thesis using 1 by (simp add: *)
  next
    case 2
    then show ?thesis using i64_of_int [of z] by simp
  next
    case 3
    have "(z + 2 ^ 63) mod 2 ^ 64 = (z + 2 ^ 63 - 2 ^ 64) mod 2 ^ 64" by (rule minus_mod_self2 [symmetric])
    also have "\<dots> = z + 2 ^ 63 - 2 ^ 64" using 3 assms by (intro mod_pos_pos_trivial) auto
    finally show ?thesis using 3 by (simp add: *)
  qed
qed

lemma i64_add:
  "sint (a + b :: i64) = (let z = sint a + sint b in
     if z < - (2 ^ 63) then z + 2 ^ 64 else if z < 2 ^ 63 then z else z - 2 ^ 64)"
  using i64_wrap [of "sint a + sint b"] i64_range [of a] i64_range [of b] by (simp add: Let_def)

lemma i64_diff:
  "sint (a - b :: i64) = (let z = sint a - sint b in
     if z < - (2 ^ 63) then z + 2 ^ 64 else if z < 2 ^ 63 then z else z - 2 ^ 64)"
  using i64_wrap [of "sint a - sint b"] i64_range [of a] i64_range [of b] by (simp add: Let_def)
end
