(* ===== verification/Proof_of_Possession.thy ===== *)
theory Proof_of_Possession
  imports Revocation Verify_Errors Go_Int
begin

text \<open>
  \<open>internal/verify/pop.go\<close>: signed invocations and the nonce cache.  The clock \<open>clk\<close> is in
  nanoseconds since the epoch; \<open>time.Now().Unix()\<close> is its second.  The readings that the code takes
  in a row while it checks one invocation and its nonce are taken as one.  The random nonce is an
  argument.  A \<open>float64\<close> parameter is its exact value together with the text \<open>encoding/json\<close>
  writes for it; any other Go value that is neither a string nor a number is the document it
  encodes as.
\<close>

definition InvocationTyp :: string where "InvocationTyp = ''adtp/inv/1''"
definition invocationLifetime :: i64 where "invocationLifetime = 300"
definition invocationFreshness :: i64 where "invocationFreshness = 60"
definition invocationClockSkew :: i64 where "invocationClockSkew = 60"

datatype param_value = PString string | PInt i64 | PFloat rat string | POther json

record on_behalf_of =
  obo_principal :: string
  obo_chain :: string
  obo_scope_action :: string
  obo_scope_resource :: string

record invocation_run =
  run_delegation :: string
  run_action :: string
  run_resource :: string
  run_parameters :: "(string \<times> param_value) list option"

record invocation =
  inv_typ :: string
  inv_iss :: string
  inv_aud :: string
  inv_iat :: i64
  inv_exp :: i64
  inv_nonce :: string
  inv_cb :: string
  inv_obo :: "on_behalf_of option"
  inv_run :: invocation_run
  inv_sig :: string

subsection \<open>JSON form\<close>

fun param_json :: "param_value \<Rightarrow> json" where
  "param_json (PString s) = JStr s"
| "param_json (PInt n) = json_int n"
| "param_json (PFloat q t) = JNum t"
| "param_json (POther v) = v"

definition run_json :: "invocation_run \<Rightarrow> json" where
  "run_json r = JObj
     [(''delegation'', JStr (run_delegation r)), (''action'', JStr (run_action r)),
      (''resource'', JStr (run_resource r)),
      (''parameters'', case run_parameters r of None \<Rightarrow> JNull
         | Some ps \<Rightarrow> JObj (map (\<lambda>(k, p). (k, param_json p)) ps))]"

definition obo_json :: "on_behalf_of \<Rightarrow> json" where
  "obo_json b = JObj
     [(''principal'', JStr (obo_principal b)), (''chain'', JStr (obo_chain b)),
      (''scope'', JObj [(''action'', JStr (obo_scope_action b)), (''resource'', JStr (obo_scope_resource b))])]"

definition inv_members :: "invocation \<Rightarrow> (string \<times> json) list" where
  "inv_members i =
     [(''typ'', JStr (inv_typ i)), (''iss'', JStr (inv_iss i)), (''aud'', JStr (inv_aud i)),
      (''iat'', json_int (inv_iat i)), (''exp'', json_int (inv_exp i)), (''nonce'', JStr (inv_nonce i))]
     @ (if inv_cb i = [] then [] else [(''cb'', JStr (inv_cb i))])
     @ (case inv_obo i of None \<Rightarrow> [] | Some b \<Rightarrow> [(''obo'', obo_json b)])
     @ [(''run'', run_json (inv_run i))]"

definition inv_json :: "invocation \<Rightarrow> json" where
  "inv_json i = JObj (inv_members i @ [(sigField, JStr (inv_sig i))])"

subsection \<open>The nonce cache\<close>

definition second :: int where "second = 1000000000"

definition unix :: "int \<Rightarrow> i64" where
  "unix clk = word_of_int (clk div second)"

record nonce_cache =
  nc_m :: "string \<rightharpoonup> int"
  nc_instance :: string

definition NewMemoryNonceCache :: "bytes \<Rightarrow> nonce_cache" where
  "NewMemoryNonceCache rnd = \<lparr>nc_m = Map.empty, nc_instance = b64_encode rnd\<rparr>"

definition CheckAndStore :: "int \<Rightarrow> nonce_cache \<Rightarrow> string \<Rightarrow> int \<Rightarrow> bool \<times> nonce_cache" where
  "CheckAndStore clk c nonce ttl =
     (let expiry = clk + ttl in
      case nc_m c nonce of
        None \<Rightarrow> (False, c\<lparr>nc_m := (nc_m c)(nonce \<mapsto> expiry)\<rparr>)
      | Some prev \<Rightarrow>
          if clk < prev then (True, c)
          else (False, c\<lparr>nc_m := (nc_m c)(nonce \<mapsto> expiry)\<rparr>))"

definition InstanceID :: "nonce_cache \<Rightarrow> string" where
  "InstanceID c = nc_instance c"

subsection \<open>Creating and verifying invocations\<close>

datatype inv_error = ErrPresenterKey | ErrSignInvocation sign_error

definition CreateInvocation ::
    "crypto \<Rightarrow> int \<Rightarrow> bytes \<Rightarrow> string \<Rightarrow> string \<Rightarrow> string \<Rightarrow> (string \<times> param_value) list option \<Rightarrow> bytes
      \<Rightarrow> string \<Rightarrow> string \<Rightarrow> inv_error + invocation" where
  "CreateInvocation C clk nonce leafCID action resource params presenterKey verifierDID channelBinding =
     (if length presenterKey \<noteq> PrivateKeySize then Inl ErrPresenterKey
      else
        let now = unix clk;
            i = \<lparr>inv_typ = InvocationTyp, inv_iss = EncodeDID (ed_public C presenterKey), inv_aud = verifierDID,
              inv_iat = now, inv_exp = now + invocationLifetime, inv_nonce = b64_encode nonce,
              inv_cb = channelBinding, inv_obo = None,
              inv_run = \<lparr>run_delegation = leafCID, run_action = action, run_resource = resource,
                run_parameters = params\<rparr>, inv_sig = []\<rparr>
        in bindE (mapErr ErrSignInvocation (Sign C (inv_json i) presenterKey)) (\<lambda>sig.
             Inr (i\<lparr>inv_sig := EncodeSignature sig\<rparr>)))"

definition checkInvocation :: "crypto \<Rightarrow> i64 \<Rightarrow> invocation \<Rightarrow> string \<Rightarrow> string \<Rightarrow> bool" where
  "checkInvocation C now i expectedAudDID leafAudDID \<longleftrightarrow>
     inv_typ i = InvocationTyp
     \<and> inv_obo i = None
     \<and> inv_iss i = leafAudDID
     \<and> inv_aud i = expectedAudDID
     \<and> \<not> slt (now + invocationClockSkew) (inv_iat i)
     \<and> \<not> slt invocationFreshness (now - inv_iat i)
     \<and> \<not> slt (inv_exp i) now
     \<and> \<not> slt (inv_iat i + invocationLifetime) (inv_exp i)
     \<and> (case ParseDID (inv_iss i) of
          Inl _ \<Rightarrow> False
        | Inr pub \<Rightarrow>
            (case DecodeSignature (inv_sig i) of
               Inl _ \<Rightarrow> False
             | Inr sig \<Rightarrow> is_ok (Verify C (inv_json i) sig pub)))"

text \<open>All failures before the nonce is spent are \<open>CodePoPFailed\<close> at step 10, in whatever order they
  are met; the cache is consulted, and changed, only when everything else has passed.\<close>

definition invocation_ttl :: "i64 \<Rightarrow> invocation \<Rightarrow> int" where
  "invocation_ttl now i =
     (let ttl = sint ((inv_exp i - now) * word_of_int second) in if ttl \<le> 0 then second else ttl)"

definition VerifyInvocation ::
    "crypto \<Rightarrow> int \<Rightarrow> invocation \<Rightarrow> string \<Rightarrow> string \<Rightarrow> ('s \<Rightarrow> string \<Rightarrow> int \<Rightarrow> ('f + bool) \<times> 's) \<Rightarrow> 's
      \<Rightarrow> (verification_error + unit) \<times> 's" where
  "VerifyInvocation C clk i expectedAudDID leafAudDID checkAndStore s =
     (let now = unix clk in
      if \<not> checkInvocation C now i expectedAudDID leafAudDID then (Inl (verr 10 CodePoPFailed), s)
      else case checkAndStore s (inv_nonce i) (invocation_ttl now i) of
        (Inl _, s') \<Rightarrow> (Inl (verr 10 CodePoPFailed), s')
      | (Inr True, s') \<Rightarrow> (Inl (verr 10 CodePoPFailed), s')
      | (Inr False, s') \<Rightarrow> (Inr (), s'))"

text \<open>The call on the memory cache, which never fails.\<close>

definition memory_check :: "int \<Rightarrow> nonce_cache \<Rightarrow> string \<Rightarrow> int \<Rightarrow> (unit + bool) \<times> nonce_cache" where
  "memory_check clk c nonce ttl = (let (seen, c') = CheckAndStore clk c nonce ttl in (Inr seen, c'))"

subsection \<open>The nonce cache interface\<close>

text \<open>\<open>NonceCache\<close>: what a provider keeps about a nonce is the instant until which it refuses it.\<close>

locale nonce_cache_interface =
  fixes check :: "int \<Rightarrow> 's \<Rightarrow> string \<Rightarrow> int \<Rightarrow> bool \<times> 's"
    and spent_until :: "'s \<Rightarrow> string \<Rightarrow> int option"
  assumes fresh_recorded: "check clk s n ttl = (False, s') \<Longrightarrow> spent_until s' n = Some (clk + ttl)"
    and others_kept: "check clk s n ttl = (b, s') \<Longrightarrow> m \<noteq> n \<Longrightarrow> spent_until s' m = spent_until s m"
    and live_refused: "spent_until s n = Some t \<Longrightarrow> clk < t \<Longrightarrow> check clk s n ttl = (True, s)"
begin

text \<open>Calls made at instants before \<open>t\<close>.\<close>

inductive calls :: "int \<Rightarrow> 's \<Rightarrow> 's \<Rightarrow> bool" for t where
  calls_none: "calls t s s"
| calls_step: "calls t s s1 \<Longrightarrow> clk < t \<Longrightarrow> check clk s1 n ttl = (b, s2) \<Longrightarrow> calls t s s2"

lemma spent_stays:
  assumes "calls t s s'" and "spent_until s n = Some e" and "t \<le> e"
  shows "spent_until s' n = Some e"
  using assms
proof (induction rule: calls.induct)
  case (calls_step s s1 clk m ttl b s2)
  then have "spent_until s1 n = Some e" by simp
  with calls_step live_refused [of s1 n e clk ttl] others_kept [of clk s1 m ttl b s2 n]
  show ?case by (cases "m = n") auto
qed simp

lemma refused_until:
  assumes "check clk s n ttl = (False, s1)" and "calls t s1 s2" and "clk' < t" and "t \<le> clk + ttl"
  shows "check clk' s2 n ttl' = (True, s2)"
  using spent_stays [OF assms(2) fresh_recorded [OF assms(1)] assms(4)] live_refused assms(3,4) by force

end

interpretation memory_nonces: nonce_cache_interface CheckAndStore nc_m
  by unfold_locales (auto simp: CheckAndStore_def Let_def split: option.splits if_splits)

subsection \<open>Time bounds\<close>

definition clock_ok :: "int \<Rightarrow> bool" where
  "clock_ok clk \<longleftrightarrow> 0 \<le> clk \<and> clk div second < 2 ^ 62"

lemma unix_value: "clock_ok clk \<Longrightarrow> sint (unix clk) = clk div second"
  using pos_imp_zdiv_nonneg_iff [of second clk]
  unfolding unix_def clock_ok_def by (intro i64_of_int) (simp_all add: second_def)

text \<open>The four comparisons, made on wrapping \<open>int64\<close> values, bound the true values.\<close>

lemma checkInvocation_times:
  assumes "clock_ok clk" and "checkInvocation C (unix clk) i aud leaf"
  shows "sint (inv_iat i) \<le> clk div second + 60 \<and> clk div second \<le> sint (inv_iat i) + 60
    \<and> clk div second \<le> sint (inv_exp i) \<and> sint (inv_exp i) \<le> sint (inv_iat i) + 300"
proof -
  have n: "0 \<le> clk div second" "clk div second < 2 ^ 62" "sint (unix clk) = clk div second"
    using assms(1) unix_value by (auto simp: clock_ok_def second_def pos_imp_zdiv_nonneg_iff)
  have "\<not> slt (unix clk + invocationClockSkew) (inv_iat i)" "\<not> slt invocationFreshness (unix clk - inv_iat i)"
    "\<not> slt (inv_exp i) (unix clk)" "\<not> slt (inv_iat i + invocationLifetime) (inv_exp i)"
    using assms(2) by (simp_all add: checkInvocation_def)
  then show ?thesis
    using n i64_range [of "inv_iat i"] i64_range [of "inv_exp i"]
    by (auto simp: i64_add i64_diff invocationClockSkew_def invocationFreshness_def invocationLifetime_def
        Let_def split: if_splits)
qed

lemma invocation_ttl_value:
  assumes "clock_ok clk" and "checkInvocation C (unix clk) i aud leaf"
  shows "invocation_ttl (unix clk) i = max second ((sint (inv_exp i) - clk div second) * second)"
proof -
  define d where "d = sint (inv_exp i) - clk div second"
  have d: "0 \<le> d" "d \<le> 360" using checkInvocation_times [OF assms] by (auto simp: d_def)
  have "inv_exp i - unix clk = word_of_int d"
    by (simp add: d_def unix_def wi_hom_sub [symmetric])
  then have "sint ((inv_exp i - unix clk) * word_of_int second) = d * second"
    using d i64_of_int [of "d * second"] by (simp only: wi_hom_mult) (simp add: second_def)
  then show ?thesis using d by (auto simp: invocation_ttl_def Let_def d_def second_def max_def)
qed

subsection \<open>Lemmas\<close>

lemma VerifyInvocation_ok:
  "VerifyInvocation C clk i aud leaf chk s = (Inr (), s') \<longleftrightarrow>
     checkInvocation C (unix clk) i aud leaf
     \<and> chk s (inv_nonce i) (invocation_ttl (unix clk) i) = (Inr False, s')"
  by (auto simp: VerifyInvocation_def Let_def split: prod.splits sum.splits bool.splits)

lemma memory_check_eq [simp]: "memory_check clk c n ttl = (Inr b, c') \<longleftrightarrow> CheckAndStore clk c n ttl = (b, c')"
  by (auto simp: memory_check_def split: prod.splits)

lemma checkInvocation_signed:
  assumes "checkInvocation C now i aud leaf"
  shows "\<exists>pub sig. ParseDID leaf = Inr pub \<and> DecodeSignature (inv_sig i) = Inr sig
    \<and> Verify C (inv_json i) sig pub = Inr ()"
  using assms by (auto simp: checkInvocation_def is_ok_iff split: sum.splits)

lemma single_use:
  assumes "clock_ok clk1" and "clock_ok clk2" and "clk1 \<le> clk2"
    and "VerifyInvocation C clk1 i aud leaf (memory_check clk1) c = (Inr (), c1)"
    and "memory_nonces.calls (clk2 + 1) c1 c2"
    and "sint (inv_iat i) + 60 < sint (inv_exp i)"
  shows "VerifyInvocation C clk2 i aud' leaf' (memory_check clk2) c2 \<noteq> (Inr (), c3)"
proof
  assume a: "VerifyInvocation C clk2 i aud' leaf' (memory_check clk2) c2 = (Inr (), c3)"
  note one = VerifyInvocation_ok [THEN iffD1, OF assms(4)] and two = VerifyInvocation_ok [THEN iffD1, OF a]
  define ttl where "ttl = max second ((sint (inv_exp i) - clk1 div second) * second)"
  have ttl: "invocation_ttl (unix clk1) i = ttl"
    using invocation_ttl_value [OF assms(1), of C i aud leaf] one by (simp add: ttl_def)
  have "clk2 div second < sint (inv_exp i)"
    using checkInvocation_times [OF assms(2)] two assms(6) by fastforce
  then have "clk2 < sint (inv_exp i) * second" by (simp add: second_def)
  also have "\<dots> = (clk1 div second) * second + (sint (inv_exp i) - clk1 div second) * second"
    by (simp add: algebra_simps)
  also have "\<dots> \<le> clk1 + ttl"
    by (rule add_mono) (simp_all add: ttl_def second_def)
  finally have "clk2 < clk1 + ttl" .
  then have "CheckAndStore clk2 c2 (inv_nonce i) (invocation_ttl (unix clk2) i) = (True, c2)"
    using one assms(5) ttl
    by (intro memory_nonces.refused_until [of clk1 c _ ttl c1 "clk2 + 1"]) auto
  then show False using two by simp
qed

text \<open>What \<open>CreateInvocation\<close> signs has a canonical form.\<close>

definition request_ok :: "string \<Rightarrow> string \<Rightarrow> invocation_run \<Rightarrow> bool" where
  "request_ok aud cb r \<longleftrightarrow> utf8_valid aud \<and> utf8_valid cb \<and> wf_json (run_json r) \<and> canonical_ok (run_json r)"

lemma utf8_b64_encode [simp]: "utf8_valid (b64_encode s)"
  using utf8_EncodeSignature [of s] by (simp add: EncodeSignature_def)

lemma inv_members_ok:
  assumes "request_ok (inv_aud i) (inv_cb i) (inv_run i)" and "utf8_valid (inv_iss i)"
    and "inv_typ i = InvocationTyp" and "utf8_valid (inv_nonce i)" and "inv_obo i = None"
  shows "wf_json (JObj (inv_members i))" "canonical_ok (JObj (inv_members i))"
    "distinct (map fst (inv_members i))" "\<forall>m \<in> set (inv_members i). fst m \<noteq> sigField"
proof -
  have "utf8_valid ''typ'' \<and> utf8_valid ''iss'' \<and> utf8_valid ''aud'' \<and> utf8_valid ''iat'' \<and> utf8_valid ''exp''
    \<and> utf8_valid ''nonce'' \<and> utf8_valid ''cb'' \<and> utf8_valid ''run'' \<and> utf8_valid InvocationTyp" by code_simp
  then show "wf_json (JObj (inv_members i))"
    using assms by (auto simp: inv_members_def request_ok_def)
  show "canonical_ok (JObj (inv_members i))"
    using assms by (auto simp: inv_members_def request_ok_def)
  show "distinct (map fst (inv_members i))" "\<forall>m \<in> set (inv_members i). fst m \<noteq> sigField"
    using assms by (auto simp: inv_members_def sigField_def)
qed

lemma inv_sig_update [simp]: "inv_members (i\<lparr>inv_sig := s\<rparr>) = inv_members i"
  by (simp add: inv_members_def)

lemma signed_invocation:
  assumes "ed25519_ok C" and "length key = PrivateKeySize" and "inv_iss i = EncodeDID (ed_public C key)"
    and "request_ok (inv_aud i) (inv_cb i) (inv_run i)" and "inv_typ i = InvocationTyp"
    and "utf8_valid (inv_nonce i)" and "inv_obo i = None"
  shows "\<exists>sig. Sign C (inv_json (i\<lparr>inv_sig := []\<rparr>)) key = Inr sig
    \<and> Verify C (inv_json (i\<lparr>inv_sig := EncodeSignature sig\<rparr>)) sig (ed_public C key) = Inr ()"
proof -
  have ok: "wf_json (JObj (inv_members i))" "canonical_ok (JObj (inv_members i))"
    "distinct (map fst (inv_members i))" "\<forall>m \<in> set (inv_members i). fst m \<noteq> sigField"
    using inv_members_ok [of i] assms by (simp_all add: utf8_EncodeDID)
  have "canonical_ok (without_sig (inv_members i))"
    using ok(2) by (auto simp: without_sig_def distinct_map_filter)
  then obtain m where m: "SignatureInput (JObj (inv_members i)) = Inr m"
    using SignatureInput_obj [OF ok(1,3)] by blast
  define sig where "sig = ed_sign C key m"
  have sg: "SignatureInput (inv_json (i\<lparr>inv_sig := s\<rparr>)) = Inr m" if "utf8_valid s" for s
    using without_sig_input [OF ok(1,3) that ok(4)] m by (simp add: inv_json_def)
  have "Sign C (inv_json (i\<lparr>inv_sig := []\<rparr>)) key = Inr sig"
    using sg [of "[]"] assms(2) by (simp add: Sign_def sig_def)
  moreover have "Verify C (inv_json (i\<lparr>inv_sig := EncodeSignature sig\<rparr>)) sig (ed_public C key) = Inr ()"
    using ed25519_verifies [OF assms(1,2)] sg [of "EncodeSignature sig"] by (simp add: Verify_ok_iff sig_def)
  ultimately show ?thesis by blast
qed

lemma CreateInvocation_signed:
  assumes "ed25519_ok C" and "length key = PrivateKeySize"
    and "request_ok verifier cb \<lparr>run_delegation = leaf, run_action = act, run_resource = res, run_parameters = ps\<rparr>"
  shows "\<exists>i. CreateInvocation C clk nonce leaf act res ps key verifier cb = Inr i
    \<and> inv_typ i = InvocationTyp \<and> inv_obo i = None \<and> inv_iss i = EncodeDID (ed_public C key) \<and> inv_aud i = verifier
    \<and> inv_iat i = unix clk \<and> inv_exp i = unix clk + invocationLifetime \<and> inv_nonce i = b64_encode nonce
    \<and> inv_cb i = cb
    \<and> inv_run i = \<lparr>run_delegation = leaf, run_action = act, run_resource = res, run_parameters = ps\<rparr>
    \<and> (\<exists>sig. DecodeSignature (inv_sig i) = Inr sig \<and> Verify C (inv_json i) sig (ed_public C key) = Inr ())"
proof -
  define i where "i = \<lparr>inv_typ = InvocationTyp, inv_iss = EncodeDID (ed_public C key), inv_aud = verifier,
    inv_iat = unix clk, inv_exp = unix clk + invocationLifetime, inv_nonce = b64_encode nonce,
    inv_cb = cb, inv_obo = None, inv_run = \<lparr>run_delegation = leaf, run_action = act, run_resource = res,
    run_parameters = ps\<rparr>, inv_sig = []\<rparr>"
  have "i\<lparr>inv_sig := []\<rparr> = i" by (simp add: i_def)
  with signed_invocation [OF assms(1,2), of i] assms(3)
  obtain sig where "Sign C (inv_json i) key = Inr sig"
    "Verify C (inv_json (i\<lparr>inv_sig := EncodeSignature sig\<rparr>)) sig (ed_public C key) = Inr ()"
    by (auto simp: i_def)
  then show ?thesis
    using assms(2) by (simp add: CreateInvocation_def Let_def i_def)
qed

lemma created_accepted:
  assumes "ed25519_ok C" and "length key = PrivateKeySize"
    and "request_ok verifier cb \<lparr>run_delegation = leaf, run_action = act, run_resource = res, run_parameters = ps\<rparr>"
    and "clock_ok clk1" and "clock_ok clk2" and "\<bar>clk2 div second - clk1 div second\<bar> \<le> 60"
    and "CreateInvocation C clk1 nonce leaf act res ps key verifier cb = Inr i"
    and "nc_m c (inv_nonce i) = None"
  shows "\<exists>c'. VerifyInvocation C clk2 i verifier (EncodeDID (ed_public C key)) (memory_check clk2) c = (Inr (), c')
    \<and> sint (inv_exp i) = sint (inv_iat i) + 300"
proof -
  let ?pub = "ed_public C key"
  from CreateInvocation_signed [OF assms(1-3), of clk1 nonce] assms(7)
  obtain sig where i: "inv_typ i = InvocationTyp" "inv_obo i = None" "inv_iss i = EncodeDID ?pub" "inv_aud i = verifier"
    "inv_iat i = unix clk1" "inv_exp i = unix clk1 + invocationLifetime"
    and sig: "DecodeSignature (inv_sig i) = Inr sig" "Verify C (inv_json i) sig ?pub = Inr ()"
    by auto
  have "ParseDID (EncodeDID ?pub) = Inr ?pub"
    using ed25519_verifies [OF assms(1,2)] by (simp add: ParseDID_iff PublicKeySize_def didKeySize_def)
  moreover have n: "0 \<le> clk1 div second" "clk1 div second < 2 ^ 62" "0 \<le> clk2 div second" "clk2 div second < 2 ^ 62"
    "clk2 div second \<le> clk1 div second + 60" "clk1 div second \<le> clk2 div second + 60"
    using assms(4-6) by (auto simp add: clock_ok_def second_def pos_imp_zdiv_nonneg_iff)
  ultimately have "checkInvocation C (unix clk2) i verifier (EncodeDID ?pub)"
    using i sig unix_value [OF assms(4)] unix_value [OF assms(5)]
    by (simp add: checkInvocation_def i64_add i64_diff Let_def invocationClockSkew_def invocationFreshness_def
        invocationLifetime_def)
  moreover have "sint (inv_exp i) = sint (inv_iat i) + 300"
    using i n unix_value [OF assms(4)] by (simp add: i64_add Let_def invocationLifetime_def)
  ultimately show ?thesis
    using assms(8) by (auto simp: VerifyInvocation_ok CheckAndStore_def)
qed

lemma replay_window:
  assumes "clock_ok clk1" and "clock_ok clk2"
    and "VerifyInvocation C clk1 i aud leaf (memory_check clk1) c = (Inr (), c1)"
    and "clk1 + max second ((sint (inv_exp i) - clk1 div second) * second) \<le> clk2"
    and "clk2 div second \<le> sint (inv_exp i)" and "clk2 div second \<le> sint (inv_iat i) + 60"
  shows "\<exists>c2. VerifyInvocation C clk2 i aud leaf (memory_check clk2) c1 = (Inr (), c2)"
proof -
  note one = VerifyInvocation_ok [THEN iffD1, OF assms(3)]
  then have c: "checkInvocation C (unix clk1) i aud leaf" by blast
  note t = checkInvocation_times [OF assms(1) c]
  have n: "0 \<le> clk1 div second" "clk1 div second < 2 ^ 62" "0 \<le> clk2 div second" "clk2 div second < 2 ^ 62"
    "clk1 div second \<le> clk2 div second"
    using assms(1,2,4) by (auto simp: clock_ok_def second_def pos_imp_zdiv_nonneg_iff intro!: zdiv_mono1)
  have "checkInvocation C (unix clk2) i aud leaf"
    using c assms(5,6) n t unix_value [OF assms(1)] unix_value [OF assms(2)]
    by (auto simp: checkInvocation_def i64_add i64_diff Let_def invocationClockSkew_def
        invocationFreshness_def invocationLifetime_def)
  moreover have "nc_m c1 (inv_nonce i) = Some (clk1 + max second ((sint (inv_exp i) - clk1 div second) * second))"
    using one memory_nonces.fresh_recorded [of clk1 c "inv_nonce i" "invocation_ttl (unix clk1) i" c1]
      invocation_ttl_value [OF assms(1) c] by simp
  ultimately show ?thesis
    using assms(4) by (auto simp: VerifyInvocation_ok CheckAndStore_def)
qed

text \<open>A presenter, an audience and a clock used in examples.\<close>

definition sample_key :: bytes where "sample_key = replicate 64 (CHR 0x07)"
definition sample_aud :: string where "sample_aud = ''did:key:verifier''"
definition sample_invocation :: "i64 \<Rightarrow> invocation" where
  "sample_invocation expiry = \<lparr>inv_typ = InvocationTyp, inv_iss = EncodeDID (ed_public demo_crypto sample_key),
     inv_aud = sample_aud, inv_iat = 1000, inv_exp = expiry, inv_nonce = [], inv_cb = [], inv_obo = None,
     inv_run = \<lparr>run_delegation = ''cid'', run_action = ''tool/invoke'', run_resource = ''tool://acme/a'',
       run_parameters = None\<rparr>, inv_sig = []\<rparr>"

lemma sample_request_ok: "request_ok sample_aud [] \<lparr>run_delegation = ''cid'', run_action = ''tool/invoke'',
  run_resource = ''tool://acme/a'', run_parameters = None\<rparr>"
proof -
  have "utf8_valid sample_aud" "wf_json (run_json \<lparr>run_delegation = ''cid'', run_action = ''tool/invoke'',
    run_resource = ''tool://acme/a'', run_parameters = None\<rparr>)" by code_simp+
  then show ?thesis by (simp add: request_ok_def) (simp add: run_json_def)
qed

lemma sample_lengths [simp]: "length sample_key = PrivateKeySize" by (simp add: sample_key_def PrivateKeySize_def)

lemma no_nonce [simp]: "nc_m (NewMemoryNonceCache rnd) n = None"
  by (simp add: NewMemoryNonceCache_def)

subsection \<open>Properties\<close>

lemma accepted_invocation:
  assumes "clock_ok clk" and "VerifyInvocation C clk i aud leaf chk s = (Inr (), s')"
  shows "inv_typ i = InvocationTyp \<and> inv_obo i = None \<and> inv_iss i = leaf \<and> inv_aud i = aud"
    and "\<bar>clk div second - sint (inv_iat i)\<bar> \<le> 60"
    and "clk div second \<le> sint (inv_exp i) \<and> sint (inv_exp i) \<le> sint (inv_iat i) + 300"
    and "\<exists>pub sig. ParseDID leaf = Inr pub \<and> DecodeSignature (inv_sig i) = Inr sig
      \<and> Verify C (inv_json i) sig pub = Inr ()"
    and "chk s (inv_nonce i) (max second ((sint (inv_exp i) - clk div second) * second)) = (Inr False, s')"
proof -
  have c: "checkInvocation C (unix clk) i aud leaf"
    and chk: "chk s (inv_nonce i) (invocation_ttl (unix clk) i) = (Inr False, s')"
    using assms(2) by (auto simp: VerifyInvocation_ok)
  show "inv_typ i = InvocationTyp \<and> inv_obo i = None \<and> inv_iss i = leaf \<and> inv_aud i = aud"
    using c by (simp add: checkInvocation_def)
  show "\<bar>clk div second - sint (inv_iat i)\<bar> \<le> 60"
    "clk div second \<le> sint (inv_exp i) \<and> sint (inv_exp i) \<le> sint (inv_iat i) + 300"
    using checkInvocation_times [OF assms(1) c] by auto
  show "\<exists>pub sig. ParseDID leaf = Inr pub \<and> DecodeSignature (inv_sig i) = Inr sig
      \<and> Verify C (inv_json i) sig pub = Inr ()"
    by (rule checkInvocation_signed [OF c])
  show "chk s (inv_nonce i) (max second ((sint (inv_exp i) - clk div second) * second)) = (Inr False, s')"
    using chk by (simp only: invocation_ttl_value [OF assms(1) c])
qed

text \<open>C27: An invocation is accepted only if it is of the right type without an on-behalf-of part, was
  signed by the key named by the leaf credential's audience, is addressed to this verifier, lies as true
  integers (not just as wrapped ones) within sixty seconds of the clock and inside a lifetime of at most
  three hundred, and its nonce was unseen and is now spent until it expires.\<close>

theorem VerifyInvocation_sound:
  assumes "clock_ok clk" and "VerifyInvocation C clk i aud leaf chk s = (Inr (), s')"
  shows "inv_typ i = InvocationTyp \<and> inv_obo i = None \<and> inv_iss i = leaf \<and> inv_aud i = aud
    \<and> \<bar>clk div second - sint (inv_iat i)\<bar> \<le> 60
    \<and> clk div second \<le> sint (inv_exp i) \<and> sint (inv_exp i) \<le> sint (inv_iat i) + 300
    \<and> (\<exists>pub sig. ParseDID leaf = Inr pub \<and> DecodeSignature (inv_sig i) = Inr sig
      \<and> Verify C (inv_json i) sig pub = Inr ())
    \<and> chk s (inv_nonce i) (max second ((sint (inv_exp i) - clk div second) * second)) = (Inr False, s')"
  using accepted_invocation [OF assms] by blast

theorem VerifyInvocation_sound_witness:
  "\<exists>i c. sint (inv_exp i) \<le> sint (inv_iat i) + 300
    \<and> VerifyInvocation demo_crypto (5 * second) i sample_aud (EncodeDID (ed_public demo_crypto sample_key))
        (memory_check (5 * second)) (NewMemoryNonceCache []) = (Inr (), c)"
proof -
  have k: "clock_ok (5 * second)" by (simp add: clock_ok_def second_def)
  from CreateInvocation_signed [OF demo_crypto_ok(1) sample_lengths sample_request_ok] obtain i where
    i: "CreateInvocation demo_crypto (5 * second) ''n'' ''cid'' ''tool/invoke'' ''tool://acme/a'' None sample_key
      sample_aud [] = Inr i" by blast
  from created_accepted [OF demo_crypto_ok(1) sample_lengths sample_request_ok k k _ i no_nonce]
  obtain c where c: "VerifyInvocation demo_crypto (5 * second) i sample_aud (EncodeDID (ed_public demo_crypto sample_key))
      (memory_check (5 * second)) (NewMemoryNonceCache []) = (Inr (), c)" by auto
  from VerifyInvocation_sound [OF k c] c show ?thesis by blast
qed

text \<open>An invocation that outlives the freshness window (as every one \<open>CreateInvocation\<close> makes
  does) is accepted at most once, whatever other invocations the cache serves in between.\<close>

theorem Invocation_single_use:
  assumes "clock_ok clk1" and "clock_ok clk2" and "clk1 \<le> clk2"
    and "VerifyInvocation C clk1 i aud leaf (memory_check clk1) c = (Inr (), c1)"
    and "memory_nonces.calls (clk2 + 1) c1 c2"
    and "sint (inv_iat i) + 60 < sint (inv_exp i)"
  shows "VerifyInvocation C clk2 i aud' leaf' (memory_check clk2) c2 \<noteq> (Inr (), c3)"
  by (rule single_use [OF assms])

theorem Invocation_single_use_witness:
  "\<exists>i c1. VerifyInvocation demo_crypto (5 * second) i sample_aud (EncodeDID (ed_public demo_crypto sample_key))
        (memory_check (5 * second)) (NewMemoryNonceCache []) = (Inr (), c1)
    \<and> (\<forall>c3. VerifyInvocation demo_crypto (6 * second) i sample_aud (EncodeDID (ed_public demo_crypto sample_key))
        (memory_check (6 * second)) c1 \<noteq> (Inr (), c3))"
proof -
  have k: "clock_ok (5 * second)" "clock_ok (6 * second)" by (simp_all add: clock_ok_def second_def)
  from CreateInvocation_signed [OF demo_crypto_ok(1) sample_lengths sample_request_ok] obtain i where
    i: "CreateInvocation demo_crypto (5 * second) ''n'' ''cid'' ''tool/invoke'' ''tool://acme/a'' None sample_key
      sample_aud [] = Inr i" by blast
  from created_accepted [OF demo_crypto_ok(1) sample_lengths sample_request_ok k(1) k(1) _ i no_nonce]
  obtain c1 where c1: "VerifyInvocation demo_crypto (5 * second) i sample_aud
      (EncodeDID (ed_public demo_crypto sample_key)) (memory_check (5 * second)) (NewMemoryNonceCache []) = (Inr (), c1)"
    "sint (inv_iat i) + 60 < sint (inv_exp i)"
    by fastforce
  have "5 * second \<le> 6 * second" by (simp add: second_def)
  from Invocation_single_use [OF k this c1(1) memory_nonces.calls_none c1(2)] c1(1) show ?thesis by blast
qed

text \<open>A fresh invocation is accepted by the verifier it names within sixty seconds of its
  creation, when its nonce is unseen.\<close>

theorem CreateInvocation_accepted:
  assumes "ed25519_ok C" and "length key = PrivateKeySize"
    and "request_ok verifier cb \<lparr>run_delegation = leaf, run_action = act, run_resource = res, run_parameters = ps\<rparr>"
    and "clock_ok clk1" and "clock_ok clk2" and "\<bar>clk2 div second - clk1 div second\<bar> \<le> 60"
    and "CreateInvocation C clk1 nonce leaf act res ps key verifier cb = Inr i"
    and "nc_m c (inv_nonce i) = None"
  shows "\<exists>c'. VerifyInvocation C clk2 i verifier (EncodeDID (ed_public C key)) (memory_check clk2) c = (Inr (), c')"
  using created_accepted [OF assms] by blast

theorem CreateInvocation_accepted_witness:
  "\<exists>i c. VerifyInvocation demo_crypto (65 * second) i sample_aud (EncodeDID (ed_public demo_crypto sample_key))
        (memory_check (65 * second)) (NewMemoryNonceCache []) = (Inr (), c)"
proof -
  have k: "clock_ok (5 * second)" "clock_ok (65 * second)" by (simp_all add: clock_ok_def second_def)
  from CreateInvocation_signed [OF demo_crypto_ok(1) sample_lengths sample_request_ok] obtain i where
    i: "CreateInvocation demo_crypto (5 * second) ''n'' ''cid'' ''tool/invoke'' ''tool://acme/a'' None sample_key
      sample_aud [] = Inr i" by blast
  have "\<bar>65 * second div second - 5 * second div second\<bar> \<le> 60" by (simp add: second_def)
  from CreateInvocation_accepted [OF demo_crypto_ok(1) sample_lengths sample_request_ok k this i no_nonce]
  show ?thesis by blast
qed

text \<open>The nonce is kept until the instant \<open>exp\<close> counted from the moment of acceptance, but
  \<open>exp\<close> itself is inclusive in whole seconds: a short-lived invocation is accepted a second time in the
  rest of its last second.\<close>

theorem Invocation_replay_window:
  assumes "clock_ok clk1" and "clock_ok clk2"
    and "VerifyInvocation C clk1 i aud leaf (memory_check clk1) c = (Inr (), c1)"
    and "clk1 + max second ((sint (inv_exp i) - clk1 div second) * second) \<le> clk2"
    and "clk2 div second \<le> sint (inv_exp i)" and "clk2 div second \<le> sint (inv_iat i) + 60"
  shows "\<exists>c2. VerifyInvocation C clk2 i aud leaf (memory_check clk2) c1 = (Inr (), c2)"
  by (rule replay_window [OF assms])

theorem Invocation_replay_window_witness:
  "\<exists>i c1 c2. VerifyInvocation demo_crypto (1000 * second) i sample_aud
        (EncodeDID (ed_public demo_crypto sample_key)) (memory_check (1000 * second)) (NewMemoryNonceCache []) = (Inr (), c1)
    \<and> VerifyInvocation demo_crypto (1010 * second) i sample_aud
        (EncodeDID (ed_public demo_crypto sample_key)) (memory_check (1010 * second)) c1 = (Inr (), c2)"
proof -
  let ?i = "sample_invocation 1010" and ?pub = "ed_public demo_crypto sample_key"
  have k: "clock_ok (1000 * second)" "clock_ok (1010 * second)" by (simp_all add: clock_ok_def second_def)
  from signed_invocation [OF demo_crypto_ok(1) sample_lengths, of ?i] sample_request_ok obtain sig where
    sig: "Verify demo_crypto (inv_json (?i\<lparr>inv_sig := EncodeSignature sig\<rparr>)) sig ?pub = Inr ()"
    unfolding sample_invocation_def by force
  have "ParseDID (EncodeDID ?pub) = Inr ?pub"
    using ed25519_verifies [OF demo_crypto_ok(1) sample_lengths] by (simp add: ParseDID_iff PublicKeySize_def didKeySize_def)
  then have c: "checkInvocation demo_crypto (unix (1000 * second)) (?i\<lparr>inv_sig := EncodeSignature sig\<rparr>) sample_aud
      (EncodeDID ?pub)"
    using sig by (simp add: checkInvocation_def sample_invocation_def unix_def second_def invocationClockSkew_def
        invocationFreshness_def invocationLifetime_def)
  then obtain c1 where c1: "VerifyInvocation demo_crypto (1000 * second) (?i\<lparr>inv_sig := EncodeSignature sig\<rparr>) sample_aud
      (EncodeDID ?pub) (memory_check (1000 * second)) (NewMemoryNonceCache []) = (Inr (), c1)"
    by (simp add: VerifyInvocation_ok CheckAndStore_def NewMemoryNonceCache_def)
  from Invocation_replay_window [OF k c1] c1 show ?thesis
    by (fastforce simp: sample_invocation_def second_def)
qed

end
