(* ===== verification/Verify_Steps.thy ===== *)
theory Verify_Steps
  imports Delegation Proof_of_Possession Audit_Log Revocation
begin

text \<open>
  \<open>internal/verify/steps.go\<close>: the thirteen verification steps.  A step returns its
  \<open>VerificationError\<close> or what the next steps use.  Lookups (the revocation source, the registration
  store) are functions; the logger is dropped, so a degraded lookup is an ordinary success.
\<close>

record trust_policy =
  Platforms :: "string list"
  MaxDelegationDepth :: i64

record invocation_context =
  ctx_Action :: string
  ctx_Resource :: string
  ctx_Parameters :: "(string \<times> param_value) list option"
  ctx_Now :: i64
  ctx_MeteringEnabled :: bool

subsection \<open>Element fields\<close>

definition elemIss :: "chain_element \<Rightarrow> string" where
  "elemIss e = (case el_body e of Token u \<Rightarrow> pl_iss (u_payload u) | Block b \<Rightarrow> blk_iss b)"

definition elemAud :: "chain_element \<Rightarrow> string" where
  "elemAud e = (case el_body e of Token u \<Rightarrow> pl_aud (u_payload u) | Block b \<Rightarrow> blk_aud b)"

definition elemExp :: "chain_element \<Rightarrow> i64" where
  "elemExp e = (case el_body e of Token u \<Rightarrow> pl_exp (u_payload u) | Block b \<Rightarrow> blk_exp b)"

definition elemNbf :: "chain_element \<Rightarrow> i64" where
  "elemNbf e = (case el_body e of Token u \<Rightarrow> pl_nbf (u_payload u) | Block b \<Rightarrow> blk_nbf b)"

definition elemParentCID :: "chain_element \<Rightarrow> string" where
  "elemParentCID e = (case el_body e of Block b \<Rightarrow> blk_prf b
     | Token u \<Rightarrow> (case pl_prf (u_payload u) of [p] \<Rightarrow> p | _ \<Rightarrow> []))"

definition elemDelegableDepth :: "chain_element \<Rightarrow> i64 option" where
  "elemDelegableDepth e = (case el_body e of Block b \<Rightarrow> Some (blk_dl b)
     | Token u \<Rightarrow> first_some (\<lambda>c. if Can c \<noteq> CanAgentDelegate then None
                     else first_some depth_constraint (Constraints c)) (pl_att (u_payload u)))"

subsection \<open>Step 0: structure\<close>

definition structural :: "chain_element \<Rightarrow> verification_error + unit" where
  "structural e =
     (if sle (elemExp e) 0 then Inl (verr 0 CodeMalformed)
      else case el_body e of
        Token u \<Rightarrow>
          if MaxCapabilities < length (pl_att (u_payload u)) then Inl (verr 0 CodeMalformed)
          else mapErr (\<lambda>_. verr 0 CodeMalformed) (iterE Capability_Validate (pl_att (u_payload u)))
      | Block b \<Rightarrow>
          if blk_cav b = [] then Inl (verr 0 CodeMalformed)
          else if MaxCaveatsPerBlock < length (blk_cav b) then Inl (verr 0 CodeMalformed)
          else if blk_crit b \<noteq> [] then Inl (verr 0 CodeMalformed)
          else Inr ())"

definition step0Structural :: "chain \<Rightarrow> verification_error + unit" where
  "step0Structural ch = iterE structural (Elements ch)"

subsection \<open>Step 1: the chain\<close>

fun mapChainError :: "deleg_error \<Rightarrow> verification_error" where
  "mapChainError ErrCircularChain = verr 1 CodeCircular"
| "mapChainError ErrChainTooDeep = verr 1 CodeChainTooDeep"
| "mapChainError ErrChainTooWide = verr 1 CodeMalformed"
| "mapChainError ErrBranchingUnsupported = verr 1 CodeBranching"
| "mapChainError ErrProofNotFound = verr 1 CodeProofCacheMiss"
| "mapChainError ErrNonRootToken = verr 1 CodeChainBroken"
| "mapChainError ErrCIDMismatch = verr 1 CodeCIDMismatch"
| "mapChainError _ = verr 1 CodeChainBroken"

definition step1BuildChain ::
    "crypto \<Rightarrow> string \<Rightarrow> (string \<Rightarrow> deleg_error + bytes) \<Rightarrow> i64 \<Rightarrow> verification_error + chain" where
  "step1BuildChain C leafCID store maxDepth = mapErr mapChainError (BuildChain C leafCID store maxDepth)"

subsection \<open>Step 2: linkage\<close>

definition linkage :: "chain_element \<times> chain_element \<Rightarrow> verification_error + unit" where
  "linkage = (\<lambda>(child, parent).
     if elemIss child \<noteq> elemAud parent then Inl (verr 2 CodeChainBroken)
     else if elemParentCID child \<noteq> el_cid parent then Inl (verr 2 CodeChainBroken)
     else if slt (elemExp parent) (elemExp child) then Inl (verr 2 CodeExpiryEscalate)
     else if slt (elemNbf child) (elemNbf parent) then Inl (verr 2 CodeChainBroken)
     else case el_body child of
       Token _ \<Rightarrow> Inr ()
     | Block b \<Rightarrow>
         if slt (blk_dl b) 0 then Inl (verr 2 CodeAttenuation)
         else case elemDelegableDepth parent of
           None \<Rightarrow> Inr ()
         | Some pdl \<Rightarrow> if sle pdl (blk_dl b) then Inl (verr 2 CodeAttenuation) else Inr ())"

definition step2Linkage :: "chain \<Rightarrow> verification_error + unit" where
  "step2Linkage ch = iterE linkage (hops (Elements ch))"

subsection \<open>Step 3: root trust\<close>

definition step3RootTrust :: "chain \<Rightarrow> (string \<Rightarrow> bool) \<Rightarrow> trust_policy list \<Rightarrow> verification_error + bool" where
  "step3RootTrust ch trusted policies =
     (let rootIss = elemIss (Root ch) in
      if trusted rootIss then Inr False
      else if list_ex (\<lambda>p. list_ex (\<lambda>platform. platform = rootIss) (Platforms p)) policies then Inr True
      else Inl (verr 3 CodeUntrustedRoot))"

subsection \<open>Step 4: signatures\<close>

definition signature :: "crypto \<Rightarrow> chain_element \<Rightarrow> verification_error + unit" where
  "signature C e =
     (case ResolveDID (elemIss e) of
        Inl _ \<Rightarrow> Inl (verr 4 CodeDIDResolution)
      | Inr pub \<Rightarrow>
          (case el_body e of
             Token u \<Rightarrow> mapErr (\<lambda>_. verr 4 CodeSigInvalid) (UCAN_Verify C u pub)
           | Block b \<Rightarrow> mapErr (\<lambda>_. verr 4 CodeSigInvalid) (Block_Verify C b pub)))"

definition step4Signatures :: "crypto \<Rightarrow> chain \<Rightarrow> verification_error + unit" where
  "step4Signatures C ch = iterE (signature C) (Elements ch)"

subsection \<open>Step 5: time\<close>

definition temporal :: "i64 \<Rightarrow> i64 \<Rightarrow> chain_element \<Rightarrow> verification_error + unit" where
  "temporal now clockSkew e =
     (if slt (elemExp e + clockSkew) now then Inl (verr 5 CodeExpired)
      else if slt now (elemNbf e - clockSkew) then Inl (verr 5 CodeNotYetValid)
      else Inr ())"

definition step5Temporal :: "chain \<Rightarrow> i64 \<Rightarrow> i64 \<Rightarrow> verification_error + unit" where
  "step5Temporal ch now clockSkew = iterE (temporal now clockSkew) (Elements ch)"

subsection \<open>Step 6: revocation\<close>

definition statusError :: "string \<Rightarrow> verification_error + unit" where
  "statusError status =
     (if status = StatusRevoked \<or> status = StatusDecommissioned then Inl (verr 6 CodeRevoked)
      else if status = StatusSuspended then Inl (verr 6 CodeSuspended)
      else if status = StatusCompromised \<or> status = StatusCascade then Inl (verr 6 CodeCompromised)
      else Inr ())"

definition lookup_status ::
    "(string \<Rightarrow> rev_error + rev_entry option) \<Rightarrow> risk_tier \<Rightarrow> string \<Rightarrow> verification_error + unit" where
  "lookup_status cache tier subject =
     (case cache subject of
        Inl _ \<Rightarrow> if tier = TierHigh then Inl (verr 6 CodeRevocUnavailable) else Inr ()
      | Inr None \<Rightarrow> Inr ()
      | Inr (Some entry) \<Rightarrow> statusError (re_status entry))"

text \<open>The subjects are the keys of a Go map, visited in an unspecified order \<open>visit\<close>.\<close>

definition step6Revocation ::
    "(string list \<Rightarrow> string list) \<Rightarrow> chain \<Rightarrow> (string \<Rightarrow> rev_error + rev_entry option) option \<Rightarrow> risk_tier
      \<Rightarrow> verification_error + unit" where
  "step6Revocation visit ch cache tier =
     (case cache of
        None \<Rightarrow> Inr ()
      | Some get \<Rightarrow> iterE (lookup_status get tier)
          (visit (remdups (concat (map (\<lambda>e. [el_cid e, elemAud e]) (Elements ch))))))"

subsection \<open>Step 7: attenuation\<close>

definition step7Attenuation :: "chain \<Rightarrow> verification_error + unit" where
  "step7Attenuation ch = iterE (\<lambda>(child, parent).
     case el_body child of Token _ \<Rightarrow> Inl (verr 7 CodeChainBroken) | Block _ \<Rightarrow> Inr ()) (hops (Elements ch))"

subsection \<open>Step 8: authorization\<close>

definition lookup_param :: "invocation_context \<Rightarrow> string \<Rightarrow> param_value option" where
  "lookup_param ctx k = (case ctx_Parameters ctx of None \<Rightarrow> None | Some ps \<Rightarrow> map_of ps k)"

fun numericParam :: "param_value \<Rightarrow> i64 option" where
  "numericParam (PInt n) = Some n"
| "numericParam (PFloat q _) =
     (if q \<noteq> of_int \<lfloor>q\<rfloor> \<or> q < - (2 ^ 63) \<or> 2 ^ 63 \<le> q then None else Some (word_of_int \<lfloor>q\<rfloor>))"
| "numericParam _ = None"

text \<open>\<open>evaluateConstraint\<close> returns nil.  The nil interface value, on which it would panic, is refused.\<close>

fun evaluateConstraint :: "constraint \<Rightarrow> invocation_context \<Rightarrow> bool" where
  "evaluateConstraint (TimeWindowConstraint _ w) ctx \<longleftrightarrow> \<not> (slt (ctx_Now ctx) (Start w) \<or> sle (End w) (ctx_Now ctx))"
| "evaluateConstraint (ResourceRestrictConstraint _ r) ctx \<longleftrightarrow> uriCovers r (ctx_Resource ctx)"
| "evaluateConstraint (ActionRestrictConstraint _ as) ctx \<longleftrightarrow> Permits as (ctx_Action ctx)"
| "evaluateConstraint (MethodRestrictConstraint _ ms) ctx \<longleftrightarrow>
     (case lookup_param ctx ''method'' of Some (PString m) \<Rightarrow> list_ex (\<lambda>x. x = m) ms | _ \<Rightarrow> False)"
| "evaluateConstraint (ParamLimitConstraint _ f m) ctx \<longleftrightarrow>
     (case lookup_param ctx f of None \<Rightarrow> True
      | Some raw' \<Rightarrow> (case numericParam raw' of None \<Rightarrow> False | Some n \<Rightarrow> \<not> slt m n))"
| "evaluateConstraint (BudgetConstraint _ _ _ _ _ _) ctx \<longleftrightarrow> ctx_MeteringEnabled ctx"
| "evaluateConstraint (MaxCallsConstraint _ _ _) ctx \<longleftrightarrow> ctx_MeteringEnabled ctx"
| "evaluateConstraint (DelegationDepthConstraint _ _) ctx \<longleftrightarrow> True"
| "evaluateConstraint (ParameterSchemaConstraint _ _) ctx \<longleftrightarrow> ctx_MeteringEnabled ctx"
| "evaluateConstraint _ ctx \<longleftrightarrow> False"

definition effectiveAtt :: "chain \<Rightarrow> capability list" where
  "effectiveAtt ch =
     (case first_some (\<lambda>e. case el_body e of Token u \<Rightarrow> Some (pl_att (u_payload u)) | Block _ \<Rightarrow> None) (Elements ch)
      of None \<Rightarrow> [] | Some att \<Rightarrow> att)"

definition wildcard_request :: "string \<Rightarrow> bool" where
  "wildcard_request resource \<longleftrightarrow> list_ex (\<lambda>seg. seg = ''*'' \<or> seg = ''**'') (split_on (CHR ''/'') resource)"

definition matches :: "invocation_context \<Rightarrow> capability \<Rightarrow> bool" where
  "matches ctx c \<longleftrightarrow> Can c = ctx_Action ctx \<and> uriCovers (With c) (ctx_Resource ctx)"

definition chain_caveats :: "chain_element list \<Rightarrow> constraint list" where
  "chain_caveats es = concat (map (\<lambda>e. case el_body e of Block b \<Rightarrow> blk_cav b | Token _ \<Rightarrow> []) es)"

definition evaluate :: "invocation_context \<Rightarrow> constraint \<Rightarrow> verification_error + unit" where
  "evaluate ctx c = (if evaluateConstraint c ctx then Inr () else Inl (verr 8 CodeCapInsufficient))"

definition step8Authorization :: "chain \<Rightarrow> invocation_context \<Rightarrow> verification_error + capability" where
  "step8Authorization ch ctx =
     (if wildcard_request (ctx_Resource ctx) then Inl (verr 8 CodeCapInsufficient)
      else case find (matches ctx) (effectiveAtt ch) of
        None \<Rightarrow> Inl (verr 8 CodeCapInsufficient)
      | Some matched \<Rightarrow>
          bindE (iterE (evaluate ctx) (Constraints matched)) (\<lambda>_.
          bindE (iterE (evaluate ctx) (chain_caveats (Elements ch))) (\<lambda>_. Inr matched)))"

subsection \<open>Steps 9 to 12\<close>

text \<open>The first policy that names the root's issuer decides.\<close>

definition step9CrossOrg :: "chain \<Rightarrow> trust_policy list \<Rightarrow> bool \<Rightarrow> verification_error + unit" where
  "step9CrossOrg ch policies crossOrg =
     (if \<not> crossOrg then Inr ()
      else case find (\<lambda>p. list_ex (\<lambda>platform. platform = elemIss (Root ch)) (Platforms p)) policies of
        None \<Rightarrow> Inl (verr 9 CodeCrossOrg)
      | Some p \<Rightarrow>
          if slt 0 (MaxDelegationDepth p) \<and> sint (MaxDelegationDepth p) < int (Depth ch)
          then Inl (verr 9 CodeCrossOrg) else Inr ())"

definition step11Registration ::
    "chain \<Rightarrow> risk_tier \<Rightarrow> (string \<Rightarrow> string \<Rightarrow> bool) option \<Rightarrow> verification_error + unit" where
  "step11Registration ch tier checker =
     (case checker of
        None \<Rightarrow> Inr ()
      | Some contains \<Rightarrow>
          if contains (el_cid (Leaf ch)) (el_cid (Leaf ch)) then Inr ()
          else if tier = TierHigh then Inl (verr 11 CodeUnregistered)
          else Inr ())"

subsection \<open>What the steps establish\<close>

definition well_formed :: "chain_element \<Rightarrow> bool" where
  "well_formed e \<longleftrightarrow> slt 0 (elemExp e) \<and> (case el_body e of
       Token u \<Rightarrow> length (pl_att (u_payload u)) \<le> MaxCapabilities
         \<and> (\<forall>c \<in> set (pl_att (u_payload u)). Capability_Validate c = Inr ())
     | Block b \<Rightarrow> blk_cav b \<noteq> [] \<and> length (blk_cav b) \<le> MaxCaveatsPerBlock \<and> blk_crit b = [])"

text \<open>A child credential under its parent.\<close>

definition attenuates :: "chain_element \<Rightarrow> chain_element \<Rightarrow> bool" where
  "attenuates child parent \<longleftrightarrow> elemIss child = elemAud parent \<and> elemParentCID child = el_cid parent
     \<and> sle (elemExp child) (elemExp parent) \<and> sle (elemNbf parent) (elemNbf child)
     \<and> (\<forall>b. el_body child = Block b \<longrightarrow> sle 0 (blk_dl b)
          \<and> (\<forall>d. elemDelegableDepth parent = Some d \<longrightarrow> slt (blk_dl b) d))"

definition signed_by_issuer :: "crypto \<Rightarrow> chain_element \<Rightarrow> bool" where
  "signed_by_issuer C e \<longleftrightarrow> (\<exists>pub. ResolveDID (elemIss e) = Inr pub \<and> (case el_body e of
       Token u \<Rightarrow> UCAN_Verify C u pub = Inr () | Block b \<Rightarrow> Block_Verify C b pub = Inr ()))"

definition in_window :: "i64 \<Rightarrow> i64 \<Rightarrow> chain_element \<Rightarrow> bool" where
  "in_window now skew e \<longleftrightarrow> sle now (elemExp e + skew) \<and> sle (elemNbf e - skew) now"

definition trusted_root :: "(string \<Rightarrow> bool) \<Rightarrow> trust_policy list \<Rightarrow> chain \<Rightarrow> bool" where
  "trusted_root trusted policies ch \<longleftrightarrow> trusted (elemIss (Root ch))
     \<or> (\<exists>p. find (\<lambda>p. elemIss (Root ch) \<in> set (Platforms p)) policies = Some p
          \<and> (slt 0 (MaxDelegationDepth p) \<longrightarrow> int (Depth ch) \<le> sint (MaxDelegationDepth p)))"

definition denying :: "string \<Rightarrow> bool" where
  "denying status \<longleftrightarrow> status \<in> {StatusRevoked, StatusDecommissioned, StatusSuspended, StatusCompromised, StatusCascade}"

definition subjects :: "chain_element list \<Rightarrow> string set" where
  "subjects es = el_cid ` set es \<union> elemAud ` set es"

lemma structural_ok [step_simps]: "structural e = Inr () \<longleftrightarrow> well_formed e"
  by (auto simp: structural_def well_formed_def err_simps split: element_body.splits)

lemma step0_ok [step_simps]: "step0Structural ch = Inr () \<longleftrightarrow> (\<forall>e \<in> set (Elements ch). well_formed e)"
  by (simp add: step0Structural_def iterE_ok_iff step_simps)

lemma step1_ok [step_simps]: "step1BuildChain C leaf get m = Inr ch \<longleftrightarrow> BuildChain C leaf get m = Inr ch"
  by (simp add: step1BuildChain_def err_simps)

lemma linkage_ok [step_simps]: "linkage (child, parent) = Inr () \<longleftrightarrow> attenuates child parent"
  by (auto simp: linkage_def attenuates_def split: element_body.splits option.splits)

lemma step2_ok [step_simps]:
  "step2Linkage ch = Inr () \<longleftrightarrow> (\<forall>(child, parent) \<in> set (hops (Elements ch)). attenuates child parent)"
  by (auto simp: step2Linkage_def iterE_ok_iff step_simps)

lemma step3_ok [step_simps]:
  "step3RootTrust ch trusted policies = Inr x \<longleftrightarrow> (x = (\<not> trusted (elemIss (Root ch)))
     \<and> (x \<longrightarrow> (\<exists>p \<in> set policies. elemIss (Root ch) \<in> set (Platforms p))))"
  by (auto simp: step3RootTrust_def Let_def list_ex_iff)

lemma signature_ok [step_simps]: "signature C e = Inr () \<longleftrightarrow> signed_by_issuer C e"
  by (auto simp: signature_def signed_by_issuer_def err_simps split: sum.splits element_body.splits)

lemma step4_ok [step_simps]: "step4Signatures C ch = Inr () \<longleftrightarrow> (\<forall>e \<in> set (Elements ch). signed_by_issuer C e)"
  by (simp add: step4Signatures_def iterE_ok_iff step_simps)

lemma step5_ok [step_simps]: "step5Temporal ch now skew = Inr () \<longleftrightarrow> (\<forall>e \<in> set (Elements ch). in_window now skew e)"
  by (auto simp: step5Temporal_def iterE_ok_iff temporal_def in_window_def not_less)

lemma statusError_ok [step_simps]: "statusError st = Inr () \<longleftrightarrow> \<not> denying st"
  by (auto simp: statusError_def denying_def)

lemma lookup_status_ok [step_simps]:
  "lookup_status get tier s = Inr () \<longleftrightarrow>
     (case get s of Inl _ \<Rightarrow> tier \<noteq> TierHigh | Inr None \<Rightarrow> True | Inr (Some x) \<Rightarrow> \<not> denying (re_status x))"
  by (auto simp: lookup_status_def step_simps split: sum.splits option.splits)

lemma step6_ok [step_simps]:
  assumes "\<And>xs. set (visit xs) = set xs"
  shows "step6Revocation visit ch (Some get) tier = Inr ()
    \<longleftrightarrow> (\<forall>s \<in> subjects (Elements ch). lookup_status get tier s = Inr ())"
  by (auto simp: step6Revocation_def iterE_ok_iff assms subjects_def)

lemma step6_none [simp]: "step6Revocation visit ch None tier = Inr ()"
  by (simp add: step6Revocation_def)

lemma step7_ok [step_simps]:
  "step7Attenuation ch = Inr () \<longleftrightarrow> (\<forall>(child, parent) \<in> set (hops (Elements ch)). \<exists>b. el_body child = Block b)"
  by (auto simp: step7Attenuation_def iterE_ok_iff split: element_body.splits)

lemma step8_ok [step_simps]:
  "step8Authorization ch ctx = Inr cap \<longleftrightarrow> \<not> wildcard_request (ctx_Resource ctx)
     \<and> find (matches ctx) (effectiveAtt ch) = Some cap
     \<and> (\<forall>c \<in> set (Constraints cap) \<union> set (chain_caveats (Elements ch)). evaluateConstraint c ctx)"
  by (auto simp: step8Authorization_def err_simps iterE_ok_iff evaluate_def split: option.splits)

lemma step9_ok [step_simps]:
  "step9CrossOrg ch policies x = Inr () \<longleftrightarrow> (x \<longrightarrow> (\<exists>p. find (\<lambda>p. elemIss (Root ch) \<in> set (Platforms p)) policies = Some p
          \<and> (slt 0 (MaxDelegationDepth p) \<longrightarrow> int (Depth ch) \<le> sint (MaxDelegationDepth p))))"
proof -
  have "(\<lambda>p :: trust_policy. list_ex (\<lambda>platform. platform = elemIss (Root ch)) (Platforms p)) = (\<lambda>p. elemIss (Root ch) \<in> set (Platforms p))"
    by (auto simp: list_ex_iff)
  then show ?thesis unfolding step9CrossOrg_def by (simp only:) (auto simp: not_less split: option.splits)
qed

lemma step11_ok [step_simps]:
  "step11Registration ch tier (Some contains) = Inr () \<longleftrightarrow> contains (el_cid (Leaf ch)) (el_cid (Leaf ch)) \<or> tier \<noteq> TierHigh"
  by (simp add: step11Registration_def)

lemma step11_none [simp]: "step11Registration ch tier None = Inr ()"
  by (simp add: step11Registration_def)

text \<open>A lower tier is never stricter.\<close>

lemma lookup_status_mono:
  "t \<le> u \<Longrightarrow> lookup_status get u s = Inr () \<Longrightarrow> lookup_status get t s = Inr ()"
  by (auto simp: lookup_status_ok split: sum.splits option.splits)

lemma step11_mono:
  "t \<le> u \<Longrightarrow> step11Registration ch u checker = Inr () \<Longrightarrow> step11Registration ch t checker = Inr ()"
  by (cases checker) (auto simp: step11_ok)

text \<open>The two trust steps together.\<close>

lemma trust_steps:
  "(\<exists>x. step3RootTrust ch trusted policies = Inr x \<and> step9CrossOrg ch policies x = Inr ())
    \<longleftrightarrow> trusted_root trusted policies ch"
  by (auto simp: step_simps trusted_root_def find_Some_iff)

end
