(* ===== verification/Verifier.thy ===== *)
theory Verifier
  imports Verify_Steps
begin

text \<open>
  \<open>internal/verify/verifier.go\<close>: the verifier's configuration and the composition of the thirteen
  steps.  The dependencies that only answer queries are functions of the configuration; the two that
  change, the nonce cache and the audit log, are the state.  Every reading of a clock is a separate
  input.  The latency measurement and the \<open>OnSlow\<close> callback are not modelled.
\<close>

record verifier_config =
  VerifierDID :: string
  TrustedRootDIDs :: "string \<Rightarrow> bool"
  MaxChainDepth :: i64
  ClockSkewSeconds :: i64
  RiskTierFn :: "(string \<Rightarrow> risk_tier) option"
  ProofStore :: "(string \<Rightarrow> deleg_error + bytes) option"
  RevocationSource :: "(string \<Rightarrow> rev_error + rev_entry option) option"
  RegistrationStore :: "(string \<Rightarrow> string \<Rightarrow> bool) option"
  TrustPolicies :: "trust_policy list"
  ExpectedChannelBinding :: string
  StartTime :: i64
  MeteringEnabled :: bool

type_synonym 'l audit_append = "'l \<Rightarrow> audit_entry \<Rightarrow> (audit_error + unit) \<times> 'l"

record 'l verifier_state =
  vs_nonces :: nonce_cache
  vs_audit :: 'l

text \<open>The readings of one call: \<open>config.now()\<close> in step 5, for the invocation context and for the
  audit entry, and the wall clock (in nanoseconds) in step 10.\<close>

record readings =
  at_temporal :: i64
  at_context :: i64
  at_pop :: int
  at_audit :: i64

record verification_result =
  res_OK :: bool
  res_Chain :: "chain option"
  res_Capability :: "capability option"
  res_Error :: "verification_error option"

definition clockSkew :: "verifier_config \<Rightarrow> i64" where
  "clockSkew cfg = (if slt 0 (ClockSkewSeconds cfg) then ClockSkewSeconds cfg else 60)"

definition tierFor :: "verifier_config \<Rightarrow> string \<Rightarrow> risk_tier" where
  "tierFor cfg resource = (case RiskTierFn cfg of None \<Rightarrow> TierMedium | Some f \<Rightarrow> f resource)"

subsection \<open>The proof store that is walked\<close>

definition emptyStore :: "string \<Rightarrow> deleg_error + bytes" where
  "emptyStore cid = Inl ErrProofNotFound"

definition overlayStore :: "(string \<Rightarrow> deleg_error + bytes) \<Rightarrow> string \<Rightarrow> bytes \<Rightarrow> string \<Rightarrow> deleg_error + bytes" where
  "overlayStore store cid raw' c = (if c = cid then Inr raw' else store c)"

definition effectiveStore :: "crypto \<Rightarrow> verifier_config \<Rightarrow> ucan option \<Rightarrow> string \<Rightarrow> deleg_error + bytes" where
  "effectiveStore C cfg token =
     (let base = (case ProofStore cfg of None \<Rightarrow> emptyStore | Some s \<Rightarrow> s)
      in case token of None \<Rightarrow> base
       | Some u \<Rightarrow> overlayStore base (UCAN_CID C u) (UCAN_String u))"

subsection \<open>Steps 10 and 12\<close>

definition step10PoP ::
    "crypto \<Rightarrow> int \<Rightarrow> invocation option \<Rightarrow> string \<Rightarrow> verifier_config \<Rightarrow> nonce_cache
      \<Rightarrow> (verification_error + unit) \<times> nonce_cache" where
  "step10PoP C clk inv' leafAudDID cfg nonces =
     (case inv' of
        None \<Rightarrow> (Inl (verr 10 CodePoPFailed), nonces)
      | Some i \<Rightarrow>
          if slt 0 (StartTime cfg) \<and> slt (inv_iat i) (StartTime cfg) then (Inl (verr 10 CodePoPFailed), nonces)
          else case VerifyInvocation C clk i (VerifierDID cfg) leafAudDID (memory_check clk) nonces of
            (Inl e, nonces') \<Rightarrow> (Inl e, nonces')
          | (Inr _, nonces') \<Rightarrow>
              if ExpectedChannelBinding cfg \<noteq> [] \<and> inv_cb i \<noteq> ExpectedChannelBinding cfg
              then (Inl (verr 10 CodePoPFailed), nonces') else (Inr (), nonces'))"

text \<open>\<open>config.AuditLog\<close> is the \<open>Append\<close> of the configured log, or nil; its error is ignored.\<close>

definition audit_with :: "'l audit_append option \<Rightarrow> audit_entry \<Rightarrow> 'l \<Rightarrow> 'l" where
  "audit_with alog entry l = (case alog of None \<Rightarrow> l | Some ap \<Rightarrow> snd (ap l entry))"

definition step12Audit ::
    "'l audit_append option \<Rightarrow> readings \<Rightarrow> chain \<Rightarrow> string \<Rightarrow> 'l \<Rightarrow> 'l" where
  "step12Audit alog t ch leafAud =
     audit_with alog (new_entry EventCapabilityInvoked leafAud (el_cid (Leaf ch)) (at_audit t)
       (Some [(''result'', JStr ''ALLOW'')]))"

subsection \<open>Verify\<close>

definition denial :: "readings \<Rightarrow> chain option \<Rightarrow> verification_error \<Rightarrow> audit_entry" where
  "denial t ch e =
     (let (agentID, credCID) = (case ch of None \<Rightarrow> ([], [])
            | Some c \<Rightarrow> if Elements c = [] then ([], []) else (elemAud (Leaf c), el_cid (Leaf c)))
      in new_entry EventCapabilityDenied agentID credCID (at_audit t)
           (Some [(''result'', JStr ''DENY''), (''code'', JStr (code_string (ve_code e))),
                  (''step'', json_int (of_nat (ve_step e)))]))"

definition fail ::
    "'l audit_append option \<Rightarrow> readings \<Rightarrow> chain option \<Rightarrow> capability option \<Rightarrow> 'l verifier_state
      \<Rightarrow> verification_error \<Rightarrow> verification_result \<times> 'l verifier_state" where
  "fail alog t ch cap s e =
     (\<lparr>res_OK = False, res_Chain = ch, res_Capability = cap, res_Error = Some e\<rparr>,
      s\<lparr>vs_audit := audit_with alog (denial t ch e) (vs_audit s)\<rparr>)"

definition invocation_ctx :: "verifier_config \<Rightarrow> i64 \<Rightarrow> invocation \<Rightarrow> invocation_context" where
  "invocation_ctx cfg now i =
     \<lparr>ctx_Action = run_action (inv_run i), ctx_Resource = run_resource (inv_run i),
      ctx_Parameters = run_parameters (inv_run i), ctx_Now = now, ctx_MeteringEnabled = MeteringEnabled cfg\<rparr>"

text \<open>The steps that only read.\<close>

definition read_steps ::
    "crypto \<Rightarrow> (string list \<Rightarrow> string list) \<Rightarrow> verifier_config \<Rightarrow> readings \<Rightarrow> invocation \<Rightarrow> chain
      \<Rightarrow> (verification_error + capability \<times> bool)" where
  "read_steps C visit cfg t i ch =
     bindE (step0Structural ch) (\<lambda>_.
     bindE (step2Linkage ch) (\<lambda>_.
     bindE (step3RootTrust ch (TrustedRootDIDs cfg) (TrustPolicies cfg)) (\<lambda>crossOrg.
     bindE (step4Signatures C ch) (\<lambda>_.
     bindE (step5Temporal ch (at_temporal t) (clockSkew cfg)) (\<lambda>_.
     bindE (step6Revocation visit ch (RevocationSource cfg) (tierFor cfg (run_resource (inv_run i)))) (\<lambda>_.
     bindE (step7Attenuation ch) (\<lambda>_.
     bindE (step8Authorization ch (invocation_ctx cfg (at_context t) i)) (\<lambda>authorized.
       Inr (authorized, crossOrg)))))))))"

definition Verify_request ::
    "crypto \<Rightarrow> (string list \<Rightarrow> string list) \<Rightarrow> verifier_config \<Rightarrow> 'l audit_append option \<Rightarrow> readings
      \<Rightarrow> ucan option \<Rightarrow> invocation option \<Rightarrow> 'l verifier_state \<Rightarrow> verification_result \<times> 'l verifier_state" where
  "Verify_request C visit cfg alog t token inv' s =
     (case inv' of
        None \<Rightarrow> fail alog t None None s (verr 10 CodePoPFailed)
      | Some i \<Rightarrow>
        if run_delegation (inv_run i) = [] then fail alog t None None s (verr 0 CodeMalformed)
        else case step1BuildChain C (run_delegation (inv_run i)) (effectiveStore C cfg token) (MaxChainDepth cfg) of
          Inl e \<Rightarrow> fail alog t None None s e
        | Inr ch \<Rightarrow>
          (case read_steps C visit cfg t i ch of
             Inl e \<Rightarrow> fail alog t (Some ch) None s e
           | Inr (authorized, crossOrg) \<Rightarrow>
             (case step9CrossOrg ch (TrustPolicies cfg) crossOrg of
                Inl e \<Rightarrow> fail alog t (Some ch) (Some authorized) s e
              | Inr _ \<Rightarrow>
                (case step10PoP C (at_pop t) inv' (elemAud (Leaf ch)) cfg (vs_nonces s) of
                   (Inl e, nonces) \<Rightarrow> fail alog t (Some ch) (Some authorized) (s\<lparr>vs_nonces := nonces\<rparr>) e
                 | (Inr _, nonces) \<Rightarrow>
                   (case step11Registration ch (tierFor cfg (run_resource (inv_run i))) (RegistrationStore cfg) of
                      Inl e \<Rightarrow> fail alog t (Some ch) (Some authorized) (s\<lparr>vs_nonces := nonces\<rparr>) e
                    | Inr _ \<Rightarrow>
                      (\<lparr>res_OK = True, res_Chain = Some ch, res_Capability = Some authorized, res_Error = None\<rparr>,
                       \<lparr>vs_nonces = nonces, vs_audit = step12Audit alog t ch (elemAud (Leaf ch)) (vs_audit s)\<rparr>))))))"

subsection \<open>The specification\<close>

definition status_allows :: "verifier_config \<Rightarrow> string \<Rightarrow> string \<Rightarrow> bool" where
  "status_allows cfg resource subject \<longleftrightarrow> (case RevocationSource cfg of None \<Rightarrow> True
     | Some get \<Rightarrow> (case get subject of
         Inl _ \<Rightarrow> tierFor cfg resource \<noteq> TierHigh
       | Inr None \<Rightarrow> True
       | Inr (Some entry) \<Rightarrow> \<not> denying (re_status entry)))"

definition registered :: "verifier_config \<Rightarrow> string \<Rightarrow> string \<Rightarrow> bool" where
  "registered cfg resource cid \<longleftrightarrow> (case RegistrationStore cfg of None \<Rightarrow> True
     | Some contains \<Rightarrow> contains cid cid \<or> tierFor cfg resource \<noteq> TierHigh)"

text \<open>A chain of credentials that grants a capability at an instant.\<close>

definition valid_chain :: "crypto \<Rightarrow> verifier_config \<Rightarrow> i64 \<Rightarrow> chain \<Rightarrow> bool" where
  "valid_chain C cfg now ch \<longleftrightarrow>
     (\<forall>e \<in> set (Elements ch). well_formed e \<and> signed_by_issuer C e \<and> in_window now (clockSkew cfg) e)
     \<and> (\<forall>(child, parent) \<in> set (hops (Elements ch)). attenuates child parent)
     \<and> trusted_root (TrustedRootDIDs cfg) (TrustPolicies cfg) ch"

definition grants :: "chain \<Rightarrow> invocation_context \<Rightarrow> capability \<Rightarrow> bool" where
  "grants ch ctx cap \<longleftrightarrow> \<not> wildcard_request (ctx_Resource ctx) \<and> find (matches ctx) (effectiveAtt ch) = Some cap
     \<and> (\<forall>c \<in> set (Constraints cap) \<union> set (chain_caveats (Elements ch)). evaluateConstraint c ctx)"

definition presented :: "crypto \<Rightarrow> verifier_config \<Rightarrow> int \<Rightarrow> invocation \<Rightarrow> string \<Rightarrow> bool" where
  "presented C cfg clk i holder \<longleftrightarrow> \<not> (slt 0 (StartTime cfg) \<and> slt (inv_iat i) (StartTime cfg))
     \<and> checkInvocation C (unix clk) i (VerifierDID cfg) holder
     \<and> (ExpectedChannelBinding cfg = [] \<or> inv_cb i = ExpectedChannelBinding cfg)"

definition nonce_unspent :: "int \<Rightarrow> nonce_cache \<Rightarrow> string \<Rightarrow> bool" where
  "nonce_unspent clk c nonce \<longleftrightarrow> (case nc_m c nonce of None \<Rightarrow> True | Some t \<Rightarrow> t \<le> clk)"

definition authorized ::
    "crypto \<Rightarrow> verifier_config \<Rightarrow> readings \<Rightarrow> ucan option \<Rightarrow> invocation \<Rightarrow> chain \<Rightarrow> capability \<Rightarrow> bool" where
  "authorized C cfg t token i ch cap \<longleftrightarrow>
     BuildChain C (run_delegation (inv_run i)) (effectiveStore C cfg token) (MaxChainDepth cfg) = Inr ch
     \<and> valid_chain C cfg (at_temporal t) ch
     \<and> (\<forall>s \<in> subjects (Elements ch). status_allows cfg (run_resource (inv_run i)) s)
     \<and> grants ch (invocation_ctx cfg (at_context t) i) cap
     \<and> presented C cfg (at_pop t) i (elemAud (Leaf ch))
     \<and> registered cfg (run_resource (inv_run i)) (el_cid (Leaf ch))"

subsection \<open>Lemmas\<close>

lemma step6_spec:
  assumes "\<And>xs. set (visit xs) = set xs"
  shows "step6Revocation visit ch (RevocationSource cfg) (tierFor cfg r) = Inr ()
    \<longleftrightarrow> (\<forall>s \<in> subjects (Elements ch). status_allows cfg r s)"
  using step6_ok [of visit, OF assms]
  by (cases "RevocationSource cfg") (auto simp: status_allows_def lookup_status_ok)

lemma step11_spec: "step11Registration ch (tierFor cfg r) (RegistrationStore cfg) = Inr ()
    \<longleftrightarrow> registered cfg r (el_cid (Leaf ch))"
  by (cases "RegistrationStore cfg") (auto simp: registered_def step_simps)

lemma step10_ok:
  "step10PoP C clk (Some i) holder cfg n = (Inr (), n') \<longleftrightarrow> presented C cfg clk i holder
     \<and> CheckAndStore clk n (inv_nonce i) (invocation_ttl (unix clk) i) = (False, n')"
  by (auto simp: step10PoP_def presented_def VerifyInvocation_def Let_def memory_check_def
      split: if_splits prod.splits sum.splits bool.splits)

lemma step10_unspent: "(\<exists>n'. step10PoP C clk (Some i) holder cfg n = (Inr (), n')) \<longleftrightarrow>
    presented C cfg clk i holder \<and> nonce_unspent clk n (inv_nonce i)"
  by (auto simp: step10_ok CheckAndStore_def nonce_unspent_def Let_def split: option.splits)

lemma chain_blocks_then_token:
  assumes "BuildChain C leaf get m = Inr ch"
  shows "\<exists>u. el_body (Root ch) = Token u \<and> effectiveAtt ch = pl_att (u_payload u) \<and> pl_prf (u_payload u) = []"
    and "(child, parent) \<in> set (hops (Elements ch)) \<Longrightarrow> \<exists>b. el_body child = Block b"
proof -
  from assms obtain es where es: "proof_path C get leaf es" "ch = chain_of es" unfolding BuildChain_iff by blast
  from es(1) have "\<exists>u. el_body (last es) = Token u \<and> pl_prf (u_payload u) = []
      \<and> first_some (\<lambda>e. case el_body e of Token u \<Rightarrow> Some (pl_att (u_payload u)) | Block _ \<Rightarrow> None) es
        = Some (pl_att (u_payload u))"
  proof (induction rule: proof_path.induct)
    case (path_root cid e)
    then show ?case using resolves_token by fastforce
  next
    case (path_hop cid e es)
    then show ?case using resolves_block proof_path_nonempty by fastforce
  qed
  then show "\<exists>u. el_body (Root ch) = Token u \<and> effectiveAtt ch = pl_att (u_payload u) \<and> pl_prf (u_payload u) = []"
    by (auto simp: es(2) chain_of_def Root_def effectiveAtt_def)
  show "\<exists>b. el_body child = Block b" if "(child, parent) \<in> set (hops (Elements ch))"
  proof -
    have h: "(child, parent) \<in> set (hops es)" using that es(2) by (simp add: chain_of_def)
    have "resolves C get (el_cid child) child" using proof_path_elems [OF es(1)] hops_memD [OF h] by blast
    from resolves_block [OF this] proof_path_hops [OF es(1) h] show ?thesis by blast
  qed
qed

lemma read_steps_all:
  "read_steps C visit cfg t i ch = Inr (cap, x) \<longleftrightarrow>
     step0Structural ch = Inr () \<and> step2Linkage ch = Inr ()
     \<and> step3RootTrust ch (TrustedRootDIDs cfg) (TrustPolicies cfg) = Inr x
     \<and> step4Signatures C ch = Inr () \<and> step5Temporal ch (at_temporal t) (clockSkew cfg) = Inr ()
     \<and> step6Revocation visit ch (RevocationSource cfg) (tierFor cfg (run_resource (inv_run i))) = Inr ()
     \<and> step7Attenuation ch = Inr () \<and> step8Authorization ch (invocation_ctx cfg (at_context t) i) = Inr cap"
  by (simp add: read_steps_def bindE_Inr_iff)

lemma read_steps_ok:
  assumes "\<And>xs. set (visit xs) = set xs"
    and "BuildChain C leaf get m = Inr ch"
  shows "read_steps C visit cfg t i ch = Inr (cap, x) \<and> step9CrossOrg ch (TrustPolicies cfg) x = Inr ()
    \<longleftrightarrow> valid_chain C cfg (at_temporal t) ch \<and> x = (\<not> TrustedRootDIDs cfg (elemIss (Root ch)))
     \<and> (\<forall>s \<in> subjects (Elements ch). status_allows cfg (run_resource (inv_run i)) s)
     \<and> grants ch (invocation_ctx cfg (at_context t) i) cap"
proof -
  have "\<forall>(child, parent) \<in> set (hops (Elements ch)). \<exists>b. el_body child = Block b"
    using chain_blocks_then_token(2) [OF assms(2)] by blast
  then have s7: "step7Attenuation ch = Inr ()" by (simp add: step_simps)
  have "(step3RootTrust ch (TrustedRootDIDs cfg) (TrustPolicies cfg) = Inr x \<and> step9CrossOrg ch (TrustPolicies cfg) x = Inr ())
    \<longleftrightarrow> trusted_root (TrustedRootDIDs cfg) (TrustPolicies cfg) ch \<and> x = (\<not> TrustedRootDIDs cfg (elemIss (Root ch)))"
    using trust_steps [of ch "TrustedRootDIDs cfg" "TrustPolicies cfg"] by (auto simp: step3_ok)
  then show ?thesis
    using s7 step6_spec [of visit, OF assms(1)]
    unfolding read_steps_all step0_ok step2_ok step4_ok step5_ok step8_ok valid_chain_def grants_def by blast
qed

lemma fail_not_ok [simp]: "res_OK (fst (fail alog t ch cap s e)) = False"
  by (simp add: fail_def)

lemma Verify_result:
  "(\<exists>i ch cap x n. inv' = Some i \<and> run_delegation (inv_run i) \<noteq> []
      \<and> BuildChain C (run_delegation (inv_run i)) (effectiveStore C cfg token) (MaxChainDepth cfg) = Inr ch
      \<and> (read_steps C visit cfg t i ch = Inr (cap, x) \<and> step9CrossOrg ch (TrustPolicies cfg) x = Inr ())
      \<and> step10PoP C (at_pop t) inv' (elemAud (Leaf ch)) cfg (vs_nonces s) = (Inr (), n)
      \<and> step11Registration ch (tierFor cfg (run_resource (inv_run i))) (RegistrationStore cfg) = Inr ()
      \<and> Verify_request C visit cfg alog t token inv' s
        = (\<lparr>res_OK = True, res_Chain = Some ch, res_Capability = Some cap, res_Error = None\<rparr>,
           \<lparr>vs_nonces = n, vs_audit = step12Audit alog t ch (elemAud (Leaf ch)) (vs_audit s)\<rparr>))
    \<or> (\<exists>e. \<not> res_OK (fst (Verify_request C visit cfg alog t token inv' s)) \<and> res_Error (fst (Verify_request C visit cfg alog t token inv' s)) = Some e)"
  by (auto simp: Verify_request_def fail_def step1BuildChain_def err_simps split: option.splits sum.splits prod.splits if_splits)

lemma unspent_iff: "nonce_unspent clk c nonce \<longleftrightarrow> (\<exists>c'. CheckAndStore clk c nonce ttl = (False, c'))"
  by (auto simp: CheckAndStore_def nonce_unspent_def Let_def split: option.splits)

lemma authorized_steps:
  assumes "\<And>xs. set (visit xs) = set xs"
  shows "authorized C cfg t token i ch cap \<longleftrightarrow>
     BuildChain C (run_delegation (inv_run i)) (effectiveStore C cfg token) (MaxChainDepth cfg) = Inr ch
     \<and> (\<exists>x. read_steps C visit cfg t i ch = Inr (cap, x) \<and> step9CrossOrg ch (TrustPolicies cfg) x = Inr ())
     \<and> presented C cfg (at_pop t) i (elemAud (Leaf ch))
     \<and> step11Registration ch (tierFor cfg (run_resource (inv_run i))) (RegistrationStore cfg) = Inr ()"
  using read_steps_ok [of visit, OF assms] unfolding authorized_def step11_spec by blast

lemma BuildChain_cid:
  assumes "BuildChain C leaf get m = Inr ch"
  shows "leaf \<noteq> []"
proof -
  from assms obtain es where "proof_path C get leaf es" unfolding BuildChain_iff by blast
  then show ?thesis by cases (auto simp: resolves_def)
qed

lemma Verify_accepts:
  assumes "\<And>xs. set (visit xs) = set xs" and "authorized C cfg t token i ch cap"
    and "CheckAndStore (at_pop t) (vs_nonces s) (inv_nonce i) (invocation_ttl (unix (at_pop t)) i) = (False, n)"
  shows "Verify_request C visit cfg alog t token (Some i) s
    = (\<lparr>res_OK = True, res_Chain = Some ch, res_Capability = Some cap, res_Error = None\<rparr>,
       \<lparr>vs_nonces = n, vs_audit = step12Audit alog t ch (elemAud (Leaf ch)) (vs_audit s)\<rparr>)"
proof -
  from assms(2) obtain x where a:
    "BuildChain C (run_delegation (inv_run i)) (effectiveStore C cfg token) (MaxChainDepth cfg) = Inr ch"
    "read_steps C visit cfg t i ch = Inr (cap, x)" "step9CrossOrg ch (TrustPolicies cfg) x = Inr ()"
    "presented C cfg (at_pop t) i (elemAud (Leaf ch))"
    "step11Registration ch (tierFor cfg (run_resource (inv_run i))) (RegistrationStore cfg) = Inr ()"
    unfolding authorized_steps [of visit, OF assms(1)] by blast
  have "step10PoP C (at_pop t) (Some i) (elemAud (Leaf ch)) cfg (vs_nonces s) = (Inr (), n)"
    using a(4) assms(3) by (simp add: step10_ok)
  moreover have "step1BuildChain C (run_delegation (inv_run i)) (effectiveStore C cfg token) (MaxChainDepth cfg) = Inr ch"
    using a(1) by (simp add: step1_ok)
  ultimately show ?thesis
    using a BuildChain_cid [OF a(1)] by (simp add: Verify_request_def)
qed

lemma Verify_accepted:
  assumes "\<And>xs. set (visit xs) = set xs" and "res_OK (fst (Verify_request C visit cfg alog t token inv' s))"
  shows "\<exists>i ch cap n. inv' = Some i \<and> authorized C cfg t token i ch cap
    \<and> CheckAndStore (at_pop t) (vs_nonces s) (inv_nonce i) (invocation_ttl (unix (at_pop t)) i) = (False, n)
    \<and> Verify_request C visit cfg alog t token inv' s
      = (\<lparr>res_OK = True, res_Chain = Some ch, res_Capability = Some cap, res_Error = None\<rparr>,
         \<lparr>vs_nonces = n, vs_audit = step12Audit alog t ch (elemAud (Leaf ch)) (vs_audit s)\<rparr>)"
proof -
  from Verify_result [of inv' C cfg token visit t s alog] assms(2) obtain i ch cap x n where r: "inv' = Some i"
    "BuildChain C (run_delegation (inv_run i)) (effectiveStore C cfg token) (MaxChainDepth cfg) = Inr ch"
    "read_steps C visit cfg t i ch = Inr (cap, x)" "step9CrossOrg ch (TrustPolicies cfg) x = Inr ()"
    "step10PoP C (at_pop t) inv' (elemAud (Leaf ch)) cfg (vs_nonces s) = (Inr (), n)"
    "step11Registration ch (tierFor cfg (run_resource (inv_run i))) (RegistrationStore cfg) = Inr ()"
    "Verify_request C visit cfg alog t token inv' s
        = (\<lparr>res_OK = True, res_Chain = Some ch, res_Capability = Some cap, res_Error = None\<rparr>,
           \<lparr>vs_nonces = n, vs_audit = step12Audit alog t ch (elemAud (Leaf ch)) (vs_audit s)\<rparr>)"
    by (elim disjE exE conjE) blast+
  then have "authorized C cfg t token i ch cap"
    unfolding authorized_steps [of visit, OF assms(1)] by (auto simp: step10_ok)
  with r show ?thesis by (auto simp: step10_ok)
qed

lemma Verify_ok_iff_authorized:
  assumes "\<And>xs. set (visit xs) = set xs"
  shows "res_OK (fst (Verify_request C visit cfg alog t token inv' s)) \<longleftrightarrow>
    (\<exists>i ch cap. inv' = Some i \<and> authorized C cfg t token i ch cap
       \<and> nonce_unspent (at_pop t) (vs_nonces s) (inv_nonce i))"
proof
  assume "res_OK (fst (Verify_request C visit cfg alog t token inv' s))"
  from Verify_accepted [of visit, OF assms this] show "\<exists>i ch cap. inv' = Some i \<and> authorized C cfg t token i ch cap
       \<and> nonce_unspent (at_pop t) (vs_nonces s) (inv_nonce i)"
    using unspent_iff by blast
next
  assume "\<exists>i ch cap. inv' = Some i \<and> authorized C cfg t token i ch cap
       \<and> nonce_unspent (at_pop t) (vs_nonces s) (inv_nonce i)"
  then obtain i ch cap where a: "inv' = Some i" "authorized C cfg t token i ch cap"
    "nonce_unspent (at_pop t) (vs_nonces s) (inv_nonce i)" by blast
  then obtain n where "CheckAndStore (at_pop t) (vs_nonces s) (inv_nonce i) (invocation_ttl (unix (at_pop t)) i) = (False, n)"
    using unspent_iff by blast
  from Verify_accepts [of visit, OF assms a(2) this] a(1) show "res_OK (fst (Verify_request C visit cfg alog t token inv' s))" by simp
qed

end
