(* ===== verification/Cascade.thy ===== *)
theory Cascade
  imports Revocation Delegation
begin

text \<open>
  The compromise cascade (\<open>cascade.go\<close>) and the reconciliation of the registration index
  (\<open>reconciliation.go\<close>).  The interfaces \<open>RegistrationIndex\<close>, \<open>RevocationService\<close>,
  \<open>EmergencyChannel\<close> and \<open>AuditLog\<close> are arguments of the operations: the functions their methods
  compute, on states that are threaded through and returned also when the operation fails
  half-way.  The wall clock is read once per call, as \<open>now\<close>.
\<close>

text \<open>A method of an in-memory component, whose error result is always nil.\<close>

definition total2 :: "('a \<Rightarrow> 'b \<Rightarrow> 'c) \<Rightarrow> 'a \<Rightarrow> 'b \<Rightarrow> unit + 'c" where
  "total2 f = (\<lambda>a b. Inr (f a b))"

definition total3 :: "('a \<Rightarrow> 'b \<Rightarrow> 'c \<Rightarrow> 'd) \<Rightarrow> 'a \<Rightarrow> 'b \<Rightarrow> 'c \<Rightarrow> unit + 'd" where
  "total3 f = (\<lambda>a b c. Inr (f a b c))"

lemma total_case [simp]:
  "(case total2 f a b of Inl x \<Rightarrow> l x | Inr y \<Rightarrow> r y) = r (f a b)"
  "(case total3 g a b c of Inl x \<Rightarrow> l' x | Inr y \<Rightarrow> r' y) = r' (g a b c)"
  by (simp_all add: total2_def total3_def)

lemma total_Inr [simp]: "total2 f a b = Inr x \<longleftrightarrow> f a b = x" "total3 g a b c = Inr y \<longleftrightarrow> g a b c = y"
  by (simp_all add: total2_def total3_def)

subsection \<open>The registration index\<close>

type_synonym reg_index = "string \<rightharpoonup> string list"

definition NewMemoryRegistrationIndex :: reg_index where "NewMemoryRegistrationIndex = Map.empty"

definition index_set :: "reg_index \<Rightarrow> string \<Rightarrow> string list" where
  "index_set r c = (case r c of None \<Rightarrow> [] | Some l \<Rightarrow> l)"

definition add_member :: "string \<Rightarrow> string \<Rightarrow> reg_index \<Rightarrow> reg_index" where
  "add_member credentialCID c r = r(c \<mapsto> List.insert credentialCID (index_set r c))"

definition Register :: "reg_index \<Rightarrow> string \<Rightarrow> string list \<Rightarrow> reg_index" where
  "Register r credentialCID chainCIDs =
     fold (add_member credentialCID) chainCIDs r"

definition FindDescendants :: "reg_index \<Rightarrow> string \<Rightarrow> string list" where
  "FindDescendants r cid =
     sort_by (\<lambda>a b. lex_less (map byte a) (map byte b)) (filter (\<lambda>c. c \<noteq> cid) (index_set r cid))"

definition Contains :: "reg_index \<Rightarrow> string \<Rightarrow> string \<Rightarrow> bool" where
  "Contains r credentialCID chainCID =
     (case r chainCID of None \<Rightarrow> False | Some s \<Rightarrow> List.member s credentialCID)"

locale registration_index =
  fixes register :: "'s \<Rightarrow> string \<Rightarrow> string list \<Rightarrow> 's"
    and find :: "'s \<Rightarrow> string \<Rightarrow> string list"
    and contains :: "'s \<Rightarrow> string \<Rightarrow> string \<Rightarrow> bool"
  assumes contains_register:
      "contains (register s c ch) d x \<longleftrightarrow> contains s d x \<or> (d = c \<and> x \<in> set ch)"
    and find_contains: "set (find s x) = {c. contains s c x \<and> c \<noteq> x}"
begin

lemma registered_found: "d \<noteq> x \<Longrightarrow> x \<in> set ch \<Longrightarrow> d \<in> set (find (register s d ch) x)"
  by (simp add: find_contains contains_register)

end

lemma add_member_set: "set (index_set (add_member c d r) x) = set (index_set r x) \<union> (if x = d then {c} else {})"
proof -
  have "index_set (add_member c d r) x = (if x = d then List.insert c (index_set r d) else index_set r x)"
    unfolding add_member_def index_set_def fun_upd_apply by simp
  then show ?thesis by simp
qed

lemma Register_index_set:
  "set (index_set (Register r c ch) x) = set (index_set r x) \<union> (if x \<in> set ch then {c} else {})"
  unfolding Register_def by (induction ch arbitrary: r) (auto simp: add_member_set)

lemma Contains_index_set: "Contains r c x \<longleftrightarrow> c \<in> set (index_set r x)"
  by (cases "r x") (simp_all add: Contains_def index_set_def)

interpretation memory_index: registration_index Register FindDescendants Contains
  by unfold_locales (auto simp: Contains_index_set Register_index_set FindDescendants_def)

subsection \<open>The cascade\<close>

record cascade_report =
  cr_compromised :: string
  cr_primary :: rev_entry
  cr_entries :: "rev_entry list"
  cr_count :: nat

definition appendAudit ::
    "('l \<Rightarrow> audit_entry \<Rightarrow> (audit_error + unit) \<times> 'l) option \<Rightarrow> 'l \<Rightarrow> string \<Rightarrow> string \<Rightarrow> (string \<times> json) list
      \<Rightarrow> (rev_error + unit) \<times> 'l" where
  "appendAudit alog l eventType credCID pl =
     (case alog of
        None \<Rightarrow> (Inr (), l)
      | Some ap \<Rightarrow>
          (case ap l (new_entry eventType [] credCID 0 (Some pl)) of
             (Inl e, l') \<Rightarrow> (Inl (ErrAudit e), l') | (Inr _, l') \<Rightarrow> (Inr (), l')))"

text \<open>One \<open>CASCADE\<close> entry per descendant.\<close>

fun cascadeEach ::
    "crypto \<Rightarrow> i64 \<Rightarrow> ('s \<Rightarrow> rev_entry \<Rightarrow> rev_error + 's) \<Rightarrow> ('s \<Rightarrow> string \<Rightarrow> 'f + i64) \<Rightarrow> rev_auth \<Rightarrow> bytes
      \<Rightarrow> 's \<Rightarrow> rev_entry list \<Rightarrow> string list \<Rightarrow> (rev_error + rev_entry list) \<times> 's" where
  "cascadeEach C now revoke currentSeq auth key s acc [] = (Inr acc, s)"
| "cascadeEach C now revoke currentSeq auth key s acc (d # ds) =
     (case currentSeq s d of
        Inl _ \<Rightarrow> (Inl ErrLookup, s)
      | Inr dSeq \<Rightarrow>
          (case CreateRevocationEntry C now \<lparr>sub_cid = d, sub_did = []\<rparr> ScopeCredential StatusCascade auth
                  (dSeq + 1) [] key of
             Inl e \<Rightarrow> (Inl e, s)
           | Inr entry \<Rightarrow>
               (case revoke s entry of
                  Inl e \<Rightarrow> (Inl e, s)
                | Inr s' \<Rightarrow> cascadeEach C now revoke currentSeq auth key s' (acc @ [entry]) ds)))"

definition pushBatch :: "('m \<Rightarrow> rev_entry list \<Rightarrow> 'f + 'm) option \<Rightarrow> 'm \<Rightarrow> rev_entry list \<Rightarrow> rev_error + 'm" where
  "pushBatch emergency m batch =
     (case emergency of
        None \<Rightarrow> Inr m
      | Some push \<Rightarrow> (case push m batch of Inl _ \<Rightarrow> Inl ErrEmergencyPush | Inr m' \<Rightarrow> Inr m'))"

definition cascade_auth :: "crypto \<Rightarrow> bytes \<Rightarrow> string \<Rightarrow> rev_auth" where
  "cascade_auth C key cid = \<lparr>ra_did = EncodeDID (ed_public C key), ra_basis = AuthPlatform, ra_proof = cid\<rparr>"

definition ExecuteCascade ::
    "crypto \<Rightarrow> i64 \<Rightarrow> string \<Rightarrow> (string \<Rightarrow> 'f + string list) \<Rightarrow> ('s \<Rightarrow> rev_entry \<Rightarrow> rev_error + 's)
      \<Rightarrow> ('s \<Rightarrow> string \<Rightarrow> 'f + i64) \<Rightarrow> ('m \<Rightarrow> rev_entry list \<Rightarrow> 'f + 'm) option
      \<Rightarrow> ('l \<Rightarrow> audit_entry \<Rightarrow> (audit_error + unit) \<times> 'l) option \<Rightarrow> bytes \<Rightarrow> 's \<times> 'm \<times> 'l
      \<Rightarrow> (rev_error + cascade_report) \<times> 's \<times> 'm \<times> 'l" where
  "ExecuteCascade C now cid findDesc revoke currentSeq emergency alog key st =
     (let (s, m, l) = st; auth = cascade_auth C key cid in
      if length key \<noteq> PrivateKeySize then (Inl ErrRevInvalidKey, st)
      else case currentSeq s cid of
        Inl _ \<Rightarrow> (Inl ErrLookup, st)
      | Inr sq \<Rightarrow>
        (case CreateRevocationEntry C now \<lparr>sub_cid = cid, sub_did = []\<rparr> ScopeSubtree StatusCompromised auth
                (sq + 1) [] key of
           Inl e \<Rightarrow> (Inl e, st)
         | Inr primary \<Rightarrow>
           (case revoke s primary of
              Inl e \<Rightarrow> (Inl e, st)
            | Inr s1 \<Rightarrow>
              (case appendAudit alog l EventRevocationPosted cid
                      [(''scope'', JStr ScopeSubtree), (''status'', JStr StatusCompromised)] of
                 (Inl e, l1) \<Rightarrow> (Inl e, s1, m, l1)
               | (Inr _, l1) \<Rightarrow>
                 (case findDesc cid of
                    Inl _ \<Rightarrow> (Inl ErrLookup, s1, m, l1)
                  | Inr descendants \<Rightarrow>
                    (case cascadeEach C now revoke currentSeq auth key s1 [] descendants of
                       (Inl e, s2) \<Rightarrow> (Inl e, s2, m, l1)
                     | (Inr entries, s2) \<Rightarrow>
                       (case pushBatch emergency m (primary # entries) of
                          Inl e \<Rightarrow> (Inl e, s2, m, l1)
                        | Inr m2 \<Rightarrow>
                          (case appendAudit alog l1 EventCompromiseCascade cid
                                  [(''compromised'', JStr cid),
                                   (''descendants'', JNum (itoa (int (length descendants))))] of
                             (Inl e, l2) \<Rightarrow> (Inl e, s2, m2, l2)
                           | (Inr _, l2) \<Rightarrow>
                               (Inr \<lparr>cr_compromised = cid, cr_primary = primary, cr_entries = entries,
                                     cr_count = length descendants\<rparr>, s2, m2, l2)))))))))"

text \<open>The in-memory emergency channel records every batch.\<close>

definition Push :: "rev_entry list list \<Rightarrow> rev_entry list \<Rightarrow> unit + rev_entry list list" where
  "Push batches entries = Inr (batches @ [entries])"

subsection \<open>Reconciliation\<close>

record recon_report =
  CredentialsWalked :: nat
  RepairsApplied :: nat
  Errors :: nat

fun reconcileChain ::
    "('i \<Rightarrow> string \<Rightarrow> string \<Rightarrow> bool) \<Rightarrow> ('i \<Rightarrow> string \<Rightarrow> string list \<Rightarrow> 'f + 'i) \<Rightarrow> string \<Rightarrow> chain_element list
      \<Rightarrow> 'i \<times> recon_report \<Rightarrow> 'i \<times> recon_report" where
  "reconcileChain contains register cid [] st = st"
| "reconcileChain contains register cid (e # es) (i, rep) =
     (if contains i cid (el_cid e) then reconcileChain contains register cid es (i, rep)
      else case register i cid [el_cid e] of
        Inl _ \<Rightarrow> reconcileChain contains register cid es (i, rep\<lparr>Errors := Errors rep + 1\<rparr>)
      | Inr i' \<Rightarrow> reconcileChain contains register cid es (i', rep\<lparr>RepairsApplied := RepairsApplied rep + 1\<rparr>))"

fun reconcileAll ::
    "crypto \<Rightarrow> (string \<Rightarrow> 'g + bytes) \<Rightarrow> ('i \<Rightarrow> string \<Rightarrow> string \<Rightarrow> bool)
      \<Rightarrow> ('i \<Rightarrow> string \<Rightarrow> string list \<Rightarrow> 'f + 'i) \<Rightarrow> string list \<Rightarrow> 'i \<times> recon_report \<Rightarrow> 'i \<times> recon_report" where
  "reconcileAll C get contains register [] st = st"
| "reconcileAll C get contains register (cid # cids) (i, rep) =
     (let rep = rep\<lparr>CredentialsWalked := CredentialsWalked rep + 1\<rparr> in
      case BuildChain C cid get HardMaxDepth of
        Inl _ \<Rightarrow> reconcileAll C get contains register cids (i, rep\<lparr>Errors := Errors rep + 1\<rparr>)
      | Inr chain \<Rightarrow>
          reconcileAll C get contains register cids (reconcileChain contains register cid (Elements chain) (i, rep)))"

definition Reconcile ::
    "crypto \<Rightarrow> 'f + string list \<Rightarrow> (string \<Rightarrow> 'g + bytes) \<Rightarrow> ('i \<Rightarrow> string \<Rightarrow> string \<Rightarrow> bool)
      \<Rightarrow> ('i \<Rightarrow> string \<Rightarrow> string list \<Rightarrow> 'f + 'i) \<Rightarrow> ('l \<Rightarrow> audit_entry \<Rightarrow> (audit_error + unit) \<times> 'l) option
      \<Rightarrow> 'i \<times> 'l \<Rightarrow> (rev_error + recon_report) \<times> 'i \<times> 'l" where
  "Reconcile C listed get contains register alog st =
     (case listed of
        Inl _ \<Rightarrow> (Inl ErrLookup, st)
      | Inr cids \<Rightarrow>
          (let (i, l) = st;
               (i', rep) = reconcileAll C get contains register cids
                 (i, \<lparr>CredentialsWalked = 0, RepairsApplied = 0, Errors = 0\<rparr>)
           in case appendAudit alog l EventReconciliationCompleted []
                     [(''credentials_walked'', JNum (itoa (int (CredentialsWalked rep)))),
                      (''errors'', JNum (itoa (int (Errors rep)))),
                      (''repairs_applied'', JNum (itoa (int (RepairsApplied rep))))] of
                (Inl e, l') \<Rightarrow> (Inl e, i', l')
              | (Inr _, l') \<Rightarrow> (Inr rep, i', l')))"

subsection \<open>Lemmas\<close>

lemma CreateRevocationEntry_fields:
  assumes "CreateRevocationEntry C now subject scp status authority sq prevHash key = Inr e"
  shows "re_subject e = subject \<and> re_status e = status \<and> re_scope e = scp \<and> re_authority e = authority \<and> re_seq e = sq"
  using assms by (auto simp: CreateRevocationEntry_def err_simps Let_def split: if_splits)

lemma Key_cid [simp]: "Key \<lparr>sub_cid = d, sub_did = []\<rparr> = d"
  by (simp add: Key_def)

lemma status_not_reinstated [simp]: "StatusCascade \<noteq> StatusReinstated" "StatusCompromised \<noteq> StatusReinstated"
  by (simp_all add: status_defs)

text \<open>What one pass over the descendants does, for any service that keeps its contract.\<close>

context revocation_service
begin

lemma cascadeEach_result:
  "cascadeEach C now revoke (total2 currentSeq) auth key s acc ds = (Inr es, s') \<Longrightarrow>
    \<exists>new. es = acc @ new \<and> map (\<lambda>e. Key (re_subject e)) new = ds
      \<and> (\<forall>e \<in> set new. re_status e = StatusCascade \<and> re_authority e = auth)
      \<and> (\<forall>d \<in> set ds. \<exists>e \<in> set new. latest s' d = Some e)
      \<and> (\<forall>k. k \<notin> set ds \<longrightarrow> latest s' k = latest s k)"
proof (induction ds arbitrary: s acc)
  case (Cons d ds)
  from Cons.prems obtain entry s1 where e:
    "CreateRevocationEntry C now \<lparr>sub_cid = d, sub_did = []\<rparr> ScopeCredential StatusCascade auth
       (currentSeq s d + 1) [] key = Inr entry"
    "revoke s entry = Inr s1"
    "cascadeEach C now revoke (total2 currentSeq) auth key s1 (acc @ [entry]) ds = (Inr es, s')"
    by (auto split: sum.splits)
  note f = CreateRevocationEntry_fields [OF e(1)]
  from Cons.IH [OF e(3)] obtain new where new: "es = (acc @ [entry]) @ new"
    "map (\<lambda>e. Key (re_subject e)) new = ds"
    "\<forall>e \<in> set new. re_status e = StatusCascade \<and> re_authority e = auth"
    "\<forall>d \<in> set ds. \<exists>e \<in> set new. latest s' d = Some e" "\<forall>k. k \<notin> set ds \<longrightarrow> latest s' k = latest s1 k" by blast
  have l: "latest s1 k = (if k = d then Some entry else latest s k)" for k
    using revoke_latest [OF e(2), of k] f by simp
  then have "\<exists>e \<in> set (entry # new). latest s' d = Some e" using new(4,5) by (cases "d \<in> set ds") auto
  with new l f show ?case by (intro exI [of _ "entry # new"]) auto
qed simp

lemma ExecuteCascade_result:
  assumes "ExecuteCascade C now cid findDesc revoke (total2 currentSeq) emergency alog key (s, m, l)
      = (Inr rep, s', m', l')"
  shows "\<exists>ds. findDesc cid = Inr ds \<and> cr_count rep = length ds \<and> map (\<lambda>e. Key (re_subject e)) (cr_entries rep) = ds
    \<and> (\<forall>d \<in> set ds. \<exists>e. status s' d = Some e \<and> re_status e = StatusCascade \<and> ra_proof (re_authority e) = cid)
    \<and> (cid \<notin> set ds \<longrightarrow> status s' cid = Some (cr_primary rep)) \<and> re_status (cr_primary rep) = StatusCompromised
    \<and> (\<forall>k. k \<noteq> cid \<and> k \<notin> set ds \<longrightarrow> latest s' k = latest s k)"
proof -
  let ?auth = "cascade_auth C key cid"
  from assms obtain primary s1 l1 ds es where x:
    "CreateRevocationEntry C now \<lparr>sub_cid = cid, sub_did = []\<rparr> ScopeSubtree StatusCompromised ?auth
       (currentSeq s cid + 1) [] key = Inr primary"
    "revoke s primary = Inr s1" "findDesc cid = Inr ds"
    "cascadeEach C now revoke (total2 currentSeq) ?auth key s1 [] ds = (Inr es, s')"
    "rep = \<lparr>cr_compromised = cid, cr_primary = primary, cr_entries = es, cr_count = length ds\<rparr>"
    by (auto simp: ExecuteCascade_def Let_def split: sum.splits prod.splits if_splits)
  note f = CreateRevocationEntry_fields [OF x(1)]
  have l1: "latest s1 k = (if k = cid then Some primary else latest s k)" for k
    using revoke_latest [OF x(2), of k] f by simp
  from cascadeEach_result [OF x(4)] obtain new where new: "es = new" "map (\<lambda>e. Key (re_subject e)) new = ds"
    "\<forall>e \<in> set new. re_status e = StatusCascade \<and> re_authority e = ?auth"
    "\<forall>d \<in> set ds. \<exists>e \<in> set new. latest s' d = Some e" "\<forall>k. k \<notin> set ds \<longrightarrow> latest s' k = latest s1 k" by auto
  have "\<exists>e. status s' d = Some e \<and> re_status e = StatusCascade \<and> ra_proof (re_authority e) = cid" if "d \<in> set ds" for d
  proof -
    from new(4) that obtain e where "e \<in> set new" "latest s' d = Some e" by blast
    with new(3) show ?thesis by (auto simp: status_latest cascade_auth_def)
  qed
  moreover have "status s' cid = Some primary" if "cid \<notin> set ds"
    using new(5) that l1 f by (simp add: status_latest)
  ultimately show ?thesis using x(3,5) new(1,2,5) l1 f by auto
qed

end

text \<open>Reconciliation over a contract-abiding index whose \<open>Register\<close> does not fail.\<close>

context registration_index
begin

lemma reconcileChain_contains:
  "reconcileChain contains (total3 register) cid es (i, rep) = (i', rep') \<Longrightarrow>
     (contains i' c x \<longleftrightarrow> contains i c x \<or> (c = cid \<and> x \<in> el_cid ` set es)) \<and> Errors rep' = Errors rep"
proof (induction es arbitrary: i rep)
  case (Cons e es)
  show ?case
  proof (cases "contains i cid (el_cid e)")
    case True
    with Cons show ?thesis by auto
  next
    case False
    with Cons show ?thesis by (auto simp: contains_register)
  qed
qed simp

lemma reconcileChain_noop:
  "\<forall>e \<in> set es. contains i cid (el_cid e) \<Longrightarrow>
     reconcileChain contains (total3 register) cid es (i, rep) = (i, rep)"
  by (induction es) auto

lemma reconcileAll_contains:
  "reconcileAll C get contains (total3 register) cids (i, rep) = (i', rep') \<Longrightarrow>
     contains i' c x \<longleftrightarrow> contains i c x
       \<or> (c \<in> set cids \<and> (\<exists>ch. BuildChain C c get HardMaxDepth = Inr ch \<and> x \<in> el_cid ` set (Elements ch)))"
proof (induction cids arbitrary: i rep)
  case (Cons cid cids)
  show ?case
  proof (cases "BuildChain C cid get HardMaxDepth")
    case (Inl e)
    with Cons.prems have "reconcileAll C get contains (total3 register) cids
      (i, rep\<lparr>CredentialsWalked := CredentialsWalked rep + 1, Errors := Errors rep + 1\<rparr>) = (i', rep')"
      by (simp add: Let_def)
    from Cons.IH [OF this] Inl show ?thesis by auto
  next
    case (Inr ch)
    obtain i1 rep1 where r: "reconcileChain contains (total3 register) cid (Elements ch)
        (i, rep\<lparr>CredentialsWalked := CredentialsWalked rep + 1\<rparr>) = (i1, rep1)"
      by (cases "reconcileChain contains (total3 register) cid (Elements ch)
        (i, rep\<lparr>CredentialsWalked := CredentialsWalked rep + 1\<rparr>)")
    with Cons.prems Inr have "reconcileAll C get contains (total3 register) cids (i1, rep1) = (i', rep')"
      by (simp add: Let_def)
    from Cons.IH [OF this] reconcileChain_contains [OF r] Inr show ?thesis by auto
  qed
qed simp

lemma reconcileAll_noop:
  assumes "\<forall>c \<in> set cids. \<forall>ch. BuildChain C c get HardMaxDepth = Inr ch \<longrightarrow>
      (\<forall>e \<in> set (Elements ch). contains i c (el_cid e))"
  shows "\<exists>rep'. reconcileAll C get contains (total3 register) cids (i, rep) = (i, rep')
      \<and> RepairsApplied rep' = RepairsApplied rep"
  using assms
proof (induction cids arbitrary: rep)
  case (Cons cid cids)
  let ?r = "rep\<lparr>CredentialsWalked := Suc (CredentialsWalked rep)\<rparr>"
  from Cons.IH [of ?r] Cons.IH [of "?r\<lparr>Errors := Suc (Errors rep)\<rparr>"] Cons.prems show ?case
    by (cases "BuildChain C cid get HardMaxDepth") (simp_all add: Let_def reconcileChain_noop)
qed simp

end

subsection \<open>When the cascade succeeds\<close>

text \<open>A service that accepts every authentic, newer entry.\<close>

locale accepting_service = revocation_service +
  fixes authentic :: "rev_entry \<Rightarrow> bool"
  assumes revoke_accepts: "authentic e \<Longrightarrow> Key (re_subject e) \<noteq> [] \<Longrightarrow>
      (\<And>x. latest s (Key (re_subject e)) = Some x \<Longrightarrow> slt (re_seq x) (re_seq e)) \<Longrightarrow> \<exists>s'. revoke s e = Inr s'"
begin

text \<open>The next sequence number exists: the current one is not the largest \<open>int64\<close>.\<close>

definition seq_room :: "'a \<Rightarrow> string \<Rightarrow> bool" where
  "seq_room s k \<longleftrightarrow> slt (currentSeq s k) (currentSeq s k + 1)"

lemma post_next:
  assumes "ed25519_ok C" and "length key = PrivateKeySize"
    and "\<And>e. VerifyEntrySelfSignature C e = Inr () \<Longrightarrow> authentic e"
    and "ValidateAuthority AuthPlatform stat scp = Inr ()" and "utf8_valid stat" and "utf8_valid scp"
    and "utf8_valid cid" and "utf8_valid d" and "d \<noteq> []" and "seq_room s d"
  shows "\<exists>e s'. CreateRevocationEntry C now \<lparr>sub_cid = d, sub_did = []\<rparr> scp stat (cascade_auth C key cid)
      (currentSeq s d + 1) [] key = Inr e \<and> revoke s e = Inr s'"
proof -
  let ?s = "\<lparr>sub_cid = d, sub_did = []\<rparr>" and ?a = "cascade_auth C key cid"
  have u: "utf8_valid RevocationEntryTyp \<and> utf8_valid AuthPlatform" by code_simp
  have "\<exists>e. CreateRevocationEntry C now ?s scp stat ?a (currentSeq s d + 1) [] key = Inr e
      \<and> signed_entry C now ?s scp stat ?a (currentSeq s d + 1) [] key e"
    by (rule CreateRevocationEntry_signed [OF assms(1,2)])
      (use assms(4-9) u utf8_EncodeDID in \<open>auto simp: rev_entry_ok_def cascade_auth_def\<close>)
  then obtain e where e: "CreateRevocationEntry C now ?s scp stat ?a (currentSeq s d + 1) [] key = Inr e"
    "signed_entry C now ?s scp stat ?a (currentSeq s d + 1) [] key e" by blast
  have "\<exists>s'. revoke s e = Inr s'"
  proof (rule revoke_accepts)
    show "authentic e" using e(2) by (intro assms(3)) (simp add: signed_entry_def cascade_auth_def)
    show "Key (re_subject e) \<noteq> []" using e(2) assms(9) by (simp add: signed_entry_def)
    show "slt (re_seq x) (re_seq e)" if "latest s (Key (re_subject e)) = Some x" for x
      using that e(2) assms(10) by (simp add: signed_entry_def seq_room_def seq_latest)
  qed
  with e(1) show ?thesis by blast
qed

lemma cascadeEach_succeeds:
  assumes "ed25519_ok C" and "length key = PrivateKeySize"
    and "\<And>e. VerifyEntrySelfSignature C e = Inr () \<Longrightarrow> authentic e" and "utf8_valid cid"
  shows "distinct ds \<Longrightarrow> \<forall>d \<in> set ds. d \<noteq> [] \<and> utf8_valid d \<and> seq_room s d \<Longrightarrow>
    \<exists>es s'. cascadeEach C now revoke (total2 currentSeq) (cascade_auth C key cid) key s acc ds = (Inr es, s')"
proof (induction ds arbitrary: s acc)
  case (Cons d ds)
  have v: "ValidateAuthority AuthPlatform StatusCascade ScopeCredential = Inr ()"
    "utf8_valid StatusCascade" "utf8_valid ScopeCredential" by code_simp+
  have "utf8_valid d" "d \<noteq> []" "seq_room s d" using Cons.prems(2) by auto
  from post_next [OF assms(1-3) v assms(4) this] obtain e s1 where e:
    "CreateRevocationEntry C now \<lparr>sub_cid = d, sub_did = []\<rparr> ScopeCredential StatusCascade (cascade_auth C key cid)
      (currentSeq s d + 1) [] key = Inr e" "revoke s e = Inr s1" by blast
  have "currentSeq s1 k = currentSeq s k" if "k \<noteq> d" for k
    using revoke_latest [OF e(2), of k] CreateRevocationEntry_fields [OF e(1)] that by (simp add: seq_latest)
  then have "\<forall>k \<in> set ds. k \<noteq> [] \<and> utf8_valid k \<and> seq_room s1 k"
    using Cons.prems unfolding seq_room_def by (metis distinct.simps(2) list.set_intros(2))
  with Cons.IH [of s1 "acc @ [e]"] Cons.prems(1) e show ?case by simp
qed simp

end

interpretation accepting_cache: accepting_service "Revoke C" CurrentSeq rc_entries GetStatus
    "\<lambda>e. VerifyEntrySelfSignature C e = Inr ()" for C
  by unfold_locales (auto simp: Revoke_def stale_def not_le split: option.splits)

definition audit_accepts :: "('l \<Rightarrow> audit_entry \<Rightarrow> (audit_error + unit) \<times> 'l) option \<Rightarrow> bool" where
  "audit_accepts alog \<longleftrightarrow> (\<forall>ap l e. alog = Some ap \<longrightarrow> fst (ap l e) = Inr ())"

lemma appendAudit_ok: "audit_accepts alog \<Longrightarrow> \<exists>l'. appendAudit alog l t c pl = (Inr (), l')"
  unfolding audit_accepts_def appendAudit_def
  by (cases alog) (auto split: prod.splits sum.splits, metis fst_conv sum.distinct(1))

definition index_inv :: "reg_index \<Rightarrow> bool" where
  "index_inv r \<longleftrightarrow> (\<forall>c. distinct (index_set r c))"

lemma Register_inv: "index_inv r \<Longrightarrow> index_inv (Register r c ch)"
proof -
  have "index_inv (add_member c d r)" if "index_inv r" for d r
  proof -
    have "index_set (add_member c d r) x = (if x = d then List.insert c (index_set r d) else index_set r x)" for x
      unfolding add_member_def index_set_def fun_upd_apply by simp
    with that show ?thesis by (simp add: index_inv_def)
  qed
  then show "index_inv r \<Longrightarrow> index_inv (Register r c ch)"
    unfolding Register_def by (induction ch arbitrary: r) auto
qed

lemma FindDescendants_distinct: "index_inv r \<Longrightarrow> distinct (FindDescendants r cid)"
  using distinct_map_sort_by [of "\<lambda>x :: string. x"] by (simp add: FindDescendants_def index_inv_def)

lemma utf8_cascade_fields: "utf8_valid StatusCompromised" "utf8_valid ScopeSubtree"
  "ValidateAuthority AuthPlatform StatusCompromised ScopeSubtree = Inr ()"
  by code_simp+

lemma ExecuteCascade_succeeds:
  assumes "ed25519_ok C" and "length key = PrivateKeySize" and "audit_accepts alog" and "index_inv idx"
    and "\<forall>d \<in> insert cid (set (FindDescendants idx cid)). d \<noteq> [] \<and> utf8_valid d \<and> slt (CurrentSeq c d) (CurrentSeq c d + 1)"
  shows "\<exists>rep c' m' l'. ExecuteCascade C now cid (\<lambda>x. Inr (FindDescendants idx x)) (Revoke C) (total2 CurrentSeq)
      (Some Push) alog key (c, m, l) = (Inr rep, c', m', l')"
proof -
  let ?ds = "FindDescendants idx cid"
  have cid: "utf8_valid cid" "cid \<noteq> []" "accepting_cache.seq_room c cid"
    using assms(5) by (auto simp: accepting_cache.seq_room_def)
  from accepting_cache.post_next [OF assms(1,2) _ utf8_cascade_fields(3,1,2) cid(1,1) cid(2,3)]
  obtain p c1 where p: "CreateRevocationEntry C now \<lparr>sub_cid = cid, sub_did = []\<rparr> ScopeSubtree StatusCompromised
      (cascade_auth C key cid) (CurrentSeq c cid + 1) [] key = Inr p" "Revoke C c p = Inr c1" by blast
  have "CurrentSeq c1 d = CurrentSeq c d" if "d \<noteq> cid" for d
    using cache.revoke_latest [OF p(2), of d] CreateRevocationEntry_fields [OF p(1)] that
    by (simp add: CurrentSeq_def)
  moreover have "d \<noteq> cid" if "d \<in> set ?ds" for d using that by (simp add: FindDescendants_def)
  ultimately have "\<forall>d \<in> set ?ds. d \<noteq> [] \<and> utf8_valid d \<and> accepting_cache.seq_room c1 d"
    using assms(5) by (simp add: accepting_cache.seq_room_def)
  from accepting_cache.cascadeEach_succeeds [OF assms(1,2) _ cid(1) FindDescendants_distinct [OF assms(4)] this]
  obtain es c2 where es: "cascadeEach C now (Revoke C) (total2 CurrentSeq) (cascade_auth C key cid) key c1 [] ?ds = (Inr es, c2)"
    by blast
  obtain l1 where l1: "appendAudit alog l EventRevocationPosted cid
      [(''scope'', JStr ScopeSubtree), (''status'', JStr StatusCompromised)] = (Inr (), l1)"
    using appendAudit_ok [OF assms(3)] by blast
  obtain l2 where l2: "appendAudit alog l1 EventCompromiseCascade cid [(''compromised'', JStr cid),
      (''descendants'', JNum (itoa (int (length ?ds))))] = (Inr (), l2)"
    using appendAudit_ok [OF assms(3)] by blast
  show ?thesis using p es l1 l2 assms(2) by (simp add: ExecuteCascade_def Let_def pushBatch_def Push_def)
qed

lemma FindDescendants_set: "set (FindDescendants idx cid) = {d. Contains idx d cid \<and> d \<noteq> cid}"
  by (rule memory_index.find_contains)

lemma Reconcile_result:
  assumes "Reconcile C (Inr cids :: unit + string list) get Contains (total3 Register) alog (idx, l) = (Inr rep, idx', l')"
  shows "Contains idx' d x \<longleftrightarrow> Contains idx d x
     \<or> (d \<in> set cids \<and> (\<exists>ch. BuildChain C d get HardMaxDepth = Inr ch \<and> x \<in> el_cid ` set (Elements ch)))"
proof -
  let ?z = "\<lparr>CredentialsWalked = 0, RepairsApplied = 0, Errors = 0\<rparr>"
  obtain i r where r: "reconcileAll C get Contains (total3 Register) cids (idx, ?z) = (i, r)" by fastforce
  with assms have "idx' = i" by (auto simp: Reconcile_def Let_def split: prod.splits sum.splits)
  with memory_index.reconcileAll_contains [OF r] show ?thesis by simp
qed

text \<open>A concrete index and cascade, for evaluation.\<close>

lemma sample_index:
  "index_inv (Register NewMemoryRegistrationIndex ''c'' [''p'', ''c''])"
  "\<forall>d \<in> insert ''p'' (set (FindDescendants (Register NewMemoryRegistrationIndex ''c'' [''p'', ''c'']) ''p'')).
     d \<noteq> [] \<and> utf8_valid d \<and> slt (CurrentSeq NewMemoryRevocationCache d) (CurrentSeq NewMemoryRevocationCache d + 1)"
proof -
  have "index_inv NewMemoryRegistrationIndex" by (simp add: index_inv_def index_set_def NewMemoryRegistrationIndex_def)
  then show "index_inv (Register NewMemoryRegistrationIndex ''c'' [''p'', ''c''])" by (rule Register_inv)
  have "utf8_valid ''p'' \<and> utf8_valid ''c'' \<and> FindDescendants (Register NewMemoryRegistrationIndex ''c'' [''p'', ''c'']) ''p'' = [''c'']"
    by code_simp
  then show "\<forall>d \<in> insert ''p'' (set (FindDescendants (Register NewMemoryRegistrationIndex ''c'' [''p'', ''c'']) ''p'')).
     d \<noteq> [] \<and> utf8_valid d \<and> slt (CurrentSeq NewMemoryRevocationCache d) (CurrentSeq NewMemoryRevocationCache d + 1)"
    by (simp add: CurrentSeq_def NewMemoryRevocationCache_def)
qed

lemma sample_cascade:
  "\<exists>rep c' m' l'. ExecuteCascade demo_crypto 5 ''p''
      (\<lambda>x. Inr (FindDescendants (Register NewMemoryRegistrationIndex ''c'' [''p'', ''c'']) x)) (Revoke demo_crypto)
      (total2 CurrentSeq) (Some Push) None (replicate 64 (CHR ''k'')) (NewMemoryRevocationCache, [], ()) = (Inr rep, c', m', l')"
  by (rule ExecuteCascade_succeeds [OF demo_crypto_ok(1) _ _ sample_index])
    (simp_all add: PrivateKeySize_def audit_accepts_def)

subsection \<open>Properties\<close>

text \<open>A cascade that reports success is complete: the compromised credential is
  \<open>COMPROMISED\<close>, every other credential that the registration index records with it in its chain
  has an active \<open>CASCADE\<close> entry that names it as the origin, there is exactly one such entry per
  descendant, and no other subject's entry has changed.\<close>

theorem Cascade_complete:
  assumes "ExecuteCascade C now cid (\<lambda>x. Inr (FindDescendants idx x)) (Revoke C) (total2 CurrentSeq)
      emergency alog key (c, m, l) = (Inr rep, c', m', l')"
  shows "GetStatus c' cid = Some (cr_primary rep) \<and> re_status (cr_primary rep) = StatusCompromised
    \<and> (\<forall>d. Contains idx d cid \<and> d \<noteq> cid \<longrightarrow>
         (\<exists>e. GetStatus c' d = Some e \<and> re_status e = StatusCascade \<and> ra_proof (re_authority e) = cid))
    \<and> map (\<lambda>e. Key (re_subject e)) (cr_entries rep) = FindDescendants idx cid
    \<and> (\<forall>k. k \<noteq> cid \<and> \<not> Contains idx k cid \<longrightarrow> rc_entries c' k = rc_entries c k)"
  using cache.ExecuteCascade_result [OF assms] by (auto simp: FindDescendants_set)

theorem Cascade_complete_witness:
  "\<exists>rep c' m' l' e. ExecuteCascade demo_crypto 5 ''p''
      (\<lambda>x. Inr (FindDescendants (Register NewMemoryRegistrationIndex ''c'' [''p'', ''c'']) x)) (Revoke demo_crypto)
      (total2 CurrentSeq) (Some Push) None (replicate 64 (CHR ''k'')) (NewMemoryRevocationCache, [], ()) = (Inr rep, c', m', l')
    \<and> GetStatus c' ''c'' = Some e \<and> re_status e = StatusCascade"
proof -
  let ?idx = "Register NewMemoryRegistrationIndex ''c'' [''p'', ''c'']"
  obtain rep c' m' l' where r: "ExecuteCascade demo_crypto 5 ''p'' (\<lambda>x. Inr (FindDescendants ?idx x)) (Revoke demo_crypto)
      (total2 CurrentSeq) (Some Push) None (replicate 64 (CHR ''k'')) (NewMemoryRevocationCache, [], ()) = (Inr rep, c', m', l')"
    using sample_cascade by blast
  have "Contains ?idx ''c'' ''p''" by code_simp
  with Cascade_complete [OF r] have "\<exists>e. GetStatus c' ''c'' = Some e \<and> re_status e = StatusCascade" by blast
  with r show ?thesis by blast
qed

text \<open>The cascade goes through: with the in-memory index and revocation cache, a valid key and
  an audit log that accepts entries, it reports success for every compromised credential whose
  registered descendants have room for one more sequence number.\<close>

theorem Cascade_succeeds:
  assumes "ed25519_ok C" and "length key = PrivateKeySize" and "audit_accepts alog" and "index_inv idx"
    and "\<forall>d \<in> insert cid (set (FindDescendants idx cid)).
      d \<noteq> [] \<and> utf8_valid d \<and> slt (CurrentSeq c d) (CurrentSeq c d + 1)"
  shows "\<exists>rep c' m' l'. ExecuteCascade C now cid (\<lambda>x. Inr (FindDescendants idx x)) (Revoke C) (total2 CurrentSeq)
      (Some Push) alog key (c, m, l) = (Inr rep, c', m', l') \<and> cr_count rep = length (FindDescendants idx cid)"
proof -
  from ExecuteCascade_succeeds [OF assms] obtain rep c' m' l' where
    "ExecuteCascade C now cid (\<lambda>x. Inr (FindDescendants idx x)) (Revoke C) (total2 CurrentSeq)
      (Some Push) alog key (c, m, l) = (Inr rep, c', m', l')" by blast
  with cache.ExecuteCascade_result [OF this] show ?thesis by auto
qed

theorem Cascade_succeeds_witness:
  "\<exists>rep c' m' l'. ExecuteCascade demo_crypto 5 ''p''
      (\<lambda>x. Inr (FindDescendants (Register NewMemoryRegistrationIndex ''c'' [''p'', ''c'']) x)) (Revoke demo_crypto)
      (total2 CurrentSeq) (Some Push) None (replicate 64 (CHR ''k'')) (NewMemoryRevocationCache, [], ()) = (Inr rep, c', m', l')
    \<and> cr_count rep = length (FindDescendants (Register NewMemoryRegistrationIndex ''c'' [''p'', ''c'']) ''p'')"
  by (rule Cascade_succeeds [OF demo_crypto_ok(1) _ _ sample_index(1)])
    (simp_all add: PrivateKeySize_def audit_accepts_def sample_index(2))

text \<open>C29: Reconciliation repairs the index and is idempotent: afterwards the index contains what it
  contained before and, for every listed credential whose chain can be built, each element of that
  chain; a second pass over the same credentials applies no repair and changes nothing.\<close>

theorem Reconcile_repairs:
  assumes "Reconcile C (Inr cids :: unit + string list) get Contains (total3 Register) None (idx, l) = (Inr rep, idx', l')"
  shows "(\<forall>d x. Contains idx' d x \<longleftrightarrow> Contains idx d x
       \<or> (d \<in> set cids \<and> (\<exists>ch. BuildChain C d get HardMaxDepth = Inr ch \<and> x \<in> el_cid ` set (Elements ch))))
    \<and> (\<exists>rep2. Reconcile C (Inr cids :: unit + string list) get Contains (total3 Register) None (idx', l) = (Inr rep2, idx', l)
         \<and> RepairsApplied rep2 = 0)"
proof -
  note res = Reconcile_result [OF assms]
  have all: "\<forall>c \<in> set cids. \<forall>ch. BuildChain C c get HardMaxDepth = Inr ch \<longrightarrow>
      (\<forall>e \<in> set (Elements ch). Contains idx' c (el_cid e))" by (auto simp: res)
  from memory_index.reconcileAll_noop [OF all, of "\<lparr>CredentialsWalked = 0, RepairsApplied = 0, Errors = 0\<rparr>"]
  have "\<exists>rep2. Reconcile C (Inr cids :: unit + string list) get Contains (total3 Register) None (idx', l) = (Inr rep2, idx', l)
         \<and> RepairsApplied rep2 = 0"
    by (auto simp: Reconcile_def appendAudit_def)
  with res show ?thesis by blast
qed

theorem Reconcile_repairs_witness:
  "\<exists>store idx' rep. Reconcile brace_crypto (Inr [ComputeCID brace_crypto ''x''] :: unit + string list) (Get store)
      Contains (total3 Register) None (NewMemoryRegistrationIndex, ()) = (Inr rep, idx', ())
    \<and> Contains idx' (ComputeCID brace_crypto ''x'') (ComputeCID brace_crypto ''x'')"
proof -
  let ?x = "ComputeCID brace_crypto ''x''"
  from sample_root_store obtain u store where s: "u_payload u = sample_payload"
    "proof_path brace_crypto (Get store) ?x [\<lparr>el_body = Token u, el_cid = ?x, el_root = True, el_mode = ModeRoot\<rparr>]"
    (is "proof_path _ _ _ ?es") by blast
  have "sum_list (map elem_weight ?es) \<le> MaxChainCapsCaveats"
    by (simp add: elem_weight_def token_weight_def s(1) sample_payload_def MaxChainCapsCaveats_def)
  with s(2) have ch: "BuildChain brace_crypto ?x (Get store) HardMaxDepth = Inr (chain_of ?es)"
    unfolding BuildChain_iff by force
  obtain rep idx' where r: "Reconcile brace_crypto (Inr [?x] :: unit + string list) (Get store)
      Contains (total3 Register) None (NewMemoryRegistrationIndex, ()) = (Inr rep, idx', ())"
    by (cases "reconcileAll brace_crypto (Get store) Contains (total3 Register) [?x]
      (NewMemoryRegistrationIndex, \<lparr>CredentialsWalked = 0, RepairsApplied = 0, Errors = 0\<rparr>)")
      (simp add: Reconcile_def appendAudit_def)
  from Reconcile_repairs [OF r] ch have "Contains idx' ?x ?x" by (auto simp: chain_of_def)
  with r show ?thesis by blast
qed

end
