(* ===== verification/Verifier_Safety.thy ===== *)
theory Verifier_Safety
  imports Verifier Cascade
begin

text \<open>
  What the verifier guarantees: it decides exactly the specification of an authorized request,
  delegation only ever narrows, revocation and the compromise cascade deny, invocations are used
  once, refusals leave the nonce cache alone, and every verdict is audited.
\<close>

subsection \<open>Attenuation along a chain\<close>

lemma hops_Cons: "es \<noteq> [] \<Longrightarrow> hops (e # es) = (e, hd es) # hops es"
  by (cases es) auto

lemma windows_nested:
  assumes "\<forall>(c, p) \<in> set (hops es). attenuates c p" and "e \<in> set es"
  shows "sint (elemExp (hd es)) \<le> sint (elemExp e) \<and> sint (elemNbf e) \<le> sint (elemNbf (hd es))"
  using assms
proof (induction es)
  case (Cons f es)
  show ?case
  proof (cases "e = f")
    case False
    with Cons.prems have "es \<noteq> []" "e \<in> set es" by auto
    with Cons have "sint (elemExp (hd es)) \<le> sint (elemExp e) \<and> sint (elemNbf e) \<le> sint (elemNbf (hd es))"
      "attenuates f (hd es)" by (auto simp: hops_Cons)
    then show ?thesis by (auto simp: attenuates_def)
  qed simp
qed simp

lemma depth_bounded:
  assumes "\<forall>(c, p) \<in> set (hops es). attenuates c p \<and> (\<exists>b. el_body c = Block b)" and "es \<noteq> []"
    and "elemDelegableDepth (last es) = Some d"
  shows "length es = 1 \<or> int (length es) - 1 \<le> sint d
    \<and> (\<exists>b. el_body (hd es) = Block b \<and> 0 \<le> sint (blk_dl b) \<and> sint (blk_dl b) + int (length es) - 1 \<le> sint d)"
  using assms
proof (induction es)
  case (Cons e es)
  show ?case
  proof (cases es)
    case (Cons f fs)
    with Cons.prems have a: "attenuates e f" and "\<exists>b. el_body e = Block b" by auto
    then obtain b where b: "el_body e = Block b" "0 \<le> sint (blk_dl b)"
      "\<forall>x. elemDelegableDepth f = Some x \<longrightarrow> slt (blk_dl b) x" by (auto simp: attenuates_def)
    have IH: "length es = 1 \<or> int (length es) - 1 \<le> sint d
      \<and> (\<exists>b. el_body (hd es) = Block b \<and> 0 \<le> sint (blk_dl b) \<and> sint (blk_dl b) + int (length es) - 1 \<le> sint d)"
      using Cons.prems Cons by (intro Cons.IH) (auto simp: hops_Cons)
    show ?thesis
    proof (cases fs)
      case Nil
      with Cons.prems Cons b show ?thesis by auto
    next
      case (Cons g gs)
      with IH \<open>es = f # fs\<close> obtain b' where "el_body f = Block b'" "sint (blk_dl b') + int (length es) - 1 \<le> sint d" by auto
      then show ?thesis using b \<open>es = f # fs\<close> by (auto simp: elemDelegableDepth_def)
    qed
  qed simp
qed simp

text \<open>Blocks below a chain's top element add their caveats and nothing else.\<close>

lemma hops_above: "e \<in> set pre \<Longrightarrow> es \<noteq> [] \<Longrightarrow> \<exists>f. (e, f) \<in> set (hops (pre @ es))"
proof (induction pre)
  case (Cons d pre)
  then have "hops ((d # pre) @ es) = (d, hd (pre @ es)) # hops (pre @ es)" by (simp add: hops_Cons)
  with Cons show ?case by auto
qed simp

lemma step8_refusal: "step8Authorization ch ctx = Inl e \<Longrightarrow> e = verr 8 CodeCapInsufficient"
  by (auto simp: step8Authorization_def evaluate_def bindE_Inl_iff dest!: iterE_InlD split: if_splits option.splits)

lemma step8_prefix:
  assumes "\<forall>e \<in> set pre. \<exists>b. el_body e = Block b" and "Elements ch = pre @ es" and "Elements ch' = es"
  shows "step8Authorization ch ctx =
    (if \<forall>e \<in> set pre. \<forall>b. el_body e = Block b \<longrightarrow> (\<forall>c \<in> set (blk_cav b). evaluateConstraint c ctx)
     then step8Authorization ch' ctx else Inl (verr 8 CodeCapInsufficient))"
proof -
  let ?ok = "\<forall>e \<in> set pre. \<forall>b. el_body e = Block b \<longrightarrow> (\<forall>c \<in> set (blk_cav b). evaluateConstraint c ctx)"
  have "first_some (\<lambda>e. case el_body e of Token u \<Rightarrow> Some (pl_att (u_payload u)) | Block _ \<Rightarrow> None) (pre @ es)
    = first_some (\<lambda>e. case el_body e of Token u \<Rightarrow> Some (pl_att (u_payload u)) | Block _ \<Rightarrow> None) es"
    using assms(1) by (induction pre) auto
  then have att: "effectiveAtt ch = effectiveAtt ch'" using assms(2,3) by (simp add: effectiveAtt_def)
  have caveats: "set (chain_caveats (Elements ch)) = set (chain_caveats pre) \<union> set (chain_caveats (Elements ch'))"
    using assms(2,3) by (simp add: chain_caveats_def)
  have ok: "(\<forall>c \<in> set (chain_caveats pre). evaluateConstraint c ctx) \<longleftrightarrow> ?ok"
    using assms(1)
  proof (induction pre)
    case (Cons e pre)
    then obtain b where "el_body e = Block b" by auto
    with Cons show ?case by (simp add: chain_caveats_def ball_Un)
  qed (simp add: chain_caveats_def)
  have same: "step8Authorization ch ctx = Inr cap \<longleftrightarrow> step8Authorization ch' ctx = Inr cap \<and> ?ok" for cap
    unfolding step8_ok att caveats ok [symmetric] by blast
  show ?thesis
  proof (cases "step8Authorization ch ctx")
    case (Inl e)
    with same step8_refusal [OF this] show ?thesis by (cases "step8Authorization ch' ctx") (auto dest: step8_refusal)
  next
    case (Inr cap)
    with same show ?thesis by metis
  qed
qed

text \<open>The wrapped comparisons of step 5 decide the true ones, or refuse.\<close>

lemma in_window_true:
  assumes "in_window now skew e" and "0 \<le> sint now" and "sint now < 2 ^ 62" and "0 \<le> sint skew" and "sint skew < 2 ^ 62"
  shows "sint now \<le> sint (elemExp e) + sint skew \<and> sint (elemNbf e) - sint skew \<le> sint now"
  using assms i64_range [of "elemExp e"] i64_range [of "elemNbf e"]
  by (auto simp: in_window_def i64_add i64_diff Let_def split: if_splits)

lemma clockSkew_pos: "0 < sint (clockSkew cfg)"
  by (simp add: clockSkew_def)

subsection \<open>State changes of a verification\<close>

text \<open>The nonce cache is consulted only for requests that are authorized up to the final checks.\<close>

definition proved_possession ::
    "crypto \<Rightarrow> verifier_config \<Rightarrow> readings \<Rightarrow> ucan option \<Rightarrow> invocation \<Rightarrow> bool" where
  "proved_possession C cfg t token i \<longleftrightarrow> (\<exists>ch cap.
     BuildChain C (run_delegation (inv_run i)) (effectiveStore C cfg token) (MaxChainDepth cfg) = Inr ch
     \<and> valid_chain C cfg (at_temporal t) ch
     \<and> (\<forall>s \<in> subjects (Elements ch). status_allows cfg (run_resource (inv_run i)) s)
     \<and> grants ch (invocation_ctx cfg (at_context t) i) cap
     \<and> checkInvocation C (unix (at_pop t)) i (VerifierDID cfg) (elemAud (Leaf ch)))"

lemma step10_nonces:
  assumes "step10PoP C clk (Some i) holder cfg n = (r, n')" and "n' \<noteq> n"
  shows "checkInvocation C (unix clk) i (VerifierDID cfg) holder
     \<and> CheckAndStore clk n (inv_nonce i) (invocation_ttl (unix clk) i) = (False, n')"
  using assms by (auto simp: step10PoP_def VerifyInvocation_def Let_def memory_check_def CheckAndStore_def
      split: if_splits prod.splits sum.splits bool.splits option.splits)

lemma Verify_nonces:
  "vs_nonces (snd (Verify_request C visit cfg alog t token inv' s)) = vs_nonces s
    \<or> (\<exists>i ch cap x r. inv' = Some i
        \<and> BuildChain C (run_delegation (inv_run i)) (effectiveStore C cfg token) (MaxChainDepth cfg) = Inr ch
        \<and> read_steps C visit cfg t i ch = Inr (cap, x) \<and> step9CrossOrg ch (TrustPolicies cfg) x = Inr ()
        \<and> step10PoP C (at_pop t) (Some i) (elemAud (Leaf ch)) cfg (vs_nonces s)
          = (r, vs_nonces (snd (Verify_request C visit cfg alog t token inv' s))))"
  by (auto simp: Verify_request_def fail_def step1BuildChain_def err_simps split: option.splits sum.splits prod.splits if_splits)

lemma Verify_spends:
  assumes "\<And>xs. set (visit xs) = set xs"
    and "vs_nonces (snd (Verify_request C visit cfg alog t token inv' s)) \<noteq> vs_nonces s"
  shows "\<exists>i. inv' = Some i \<and> proved_possession C cfg t token i
    \<and> CheckAndStore (at_pop t) (vs_nonces s) (inv_nonce i) (invocation_ttl (unix (at_pop t)) i)
      = (False, vs_nonces (snd (Verify_request C visit cfg alog t token inv' s)))"
proof -
  from Verify_nonces [of C visit cfg alog t token inv' s] assms(2) obtain i ch cap x r where r: "inv' = Some i"
    "BuildChain C (run_delegation (inv_run i)) (effectiveStore C cfg token) (MaxChainDepth cfg) = Inr ch"
    "read_steps C visit cfg t i ch = Inr (cap, x)" "step9CrossOrg ch (TrustPolicies cfg) x = Inr ()"
    "step10PoP C (at_pop t) (Some i) (elemAud (Leaf ch)) cfg (vs_nonces s)
          = (r, vs_nonces (snd (Verify_request C visit cfg alog t token inv' s)))" by blast
  with step10_nonces [OF r(5) assms(2)] read_steps_ok [of visit, OF assms(1) r(2)] show ?thesis
    unfolding proved_possession_def by blast
qed

text \<open>Verifications by one verifier, in order, before an instant.\<close>

inductive verifications :: "crypto \<Rightarrow> (string list \<Rightarrow> string list) \<Rightarrow> int \<Rightarrow> 'l verifier_state \<Rightarrow> 'l verifier_state
    \<Rightarrow> bool"
  for C visit bound where
  no_verification: "verifications C visit bound s s"
| one_more: "verifications C visit bound s s1 \<Longrightarrow> at_pop t < bound
    \<Longrightarrow> verifications C visit bound s (snd (Verify_request C visit cfg alog t token inv' s1))"

lemma verifications_calls:
  assumes "verifications C visit bound s s'" and "\<And>xs. set (visit xs) = set xs"
  shows "memory_nonces.calls bound (vs_nonces s) (vs_nonces s')"
  using assms(1)
proof (induction rule: verifications.induct)
  case (one_more s s1 t cfg alog token inv')
  show ?case
  proof (cases "vs_nonces (snd (Verify_request C visit cfg alog t token inv' s1)) = vs_nonces s1")
    case True
    then show ?thesis using one_more.IH by simp
  next
    case False
    from Verify_spends [of visit, OF assms(2) False] one_more show ?thesis
      by (auto intro: memory_nonces.calls_step)
  qed
qed (rule memory_nonces.calls_none)

text \<open>What is written to the audit log.\<close>

definition verdict_entry :: "readings \<Rightarrow> verification_result \<Rightarrow> audit_entry" where
  "verdict_entry t r = (case res_Error r of
       Some e \<Rightarrow> denial t (res_Chain r) e
     | None \<Rightarrow> new_entry EventCapabilityInvoked (elemAud (Leaf (the (res_Chain r)))) (el_cid (Leaf (the (res_Chain r))))
         (at_audit t) (Some [(''result'', JStr ''ALLOW'')]))"

lemma Verify_audited:
  "vs_audit (snd (Verify_request C visit cfg alog t token inv' s))
     = audit_with alog (verdict_entry t (fst (Verify_request C visit cfg alog t token inv' s))) (vs_audit s)
   \<and> (res_OK (fst (Verify_request C visit cfg alog t token inv' s))
      \<longleftrightarrow> res_Error (fst (Verify_request C visit cfg alog t token inv' s)) = None)"
  by (auto simp: Verify_request_def fail_def step12Audit_def verdict_entry_def split: option.splits sum.splits prod.splits if_splits)

lemma verdict_type: "ae_type (verdict_entry t r)
    = (if res_Error r = None then EventCapabilityInvoked else EventCapabilityDenied)"
  by (auto simp: verdict_entry_def denial_def new_entry_def Let_def split: option.splits prod.splits)

lemma BuildChain_leaf_valid:
  assumes "BuildChain C leaf get m = Inr ch"
  shows "utf8_valid (elemAud (Leaf ch))" and "utf8_valid (el_cid (Leaf ch))"
proof -
  from assms obtain es where es: "proof_path C get leaf es" "ch = chain_of es" unfolding BuildChain_iff by blast
  have ne: "es \<noteq> []" using proof_path_nonempty [OF es(1)] by blast
  then have "Leaf ch \<in> set es" using es(2) by (simp add: chain_of_def Leaf_def)
  from proof_path_elems [OF es(1) this] have r: "resolves C get (el_cid (Leaf ch)) (Leaf ch)" .
  then obtain raw where "ComputeCID C raw = el_cid (Leaf ch)" by (auto simp: resolves_def VerifyCID_def)
  then show "utf8_valid (el_cid (Leaf ch))" by (metis utf8_ComputeCID)
  show "utf8_valid (elemAud (Leaf ch))"
    using resolves_block [OF r] resolves_token [OF r] ParseUCAN_aud_valid ParseRestrictBlock_aud_valid
    by (cases "el_root (Leaf ch)") (auto simp: elemAud_def)
qed


lemma Verify_request_chain:
  assumes "res_Chain (fst (Verify_request C visit cfg alog t token (Some i) s)) = Some ch"
  shows "BuildChain C (run_delegation (inv_run i)) (effectiveStore C cfg token) (MaxChainDepth cfg) = Inr ch"
  using assms by (auto simp: Verify_request_def fail_def step1_ok split: sum.splits prod.splits if_splits)

lemma Verify_chain_built:
  assumes "Verify_request C visit cfg alog t token inv' s = (r, s')"
  shows "\<forall>ch. res_Chain r = Some ch \<longrightarrow> Elements ch \<noteq> []"
    and "utf8_valid (case res_Chain r of None \<Rightarrow> [] | Some ch \<Rightarrow> elemAud (Leaf ch))"
    and "utf8_valid (case res_Chain r of None \<Rightarrow> [] | Some ch \<Rightarrow> el_cid (Leaf ch))"
    and "res_Error r = None \<longrightarrow> res_Chain r \<noteq> None"
    and "\<forall>i ch. inv' = Some i \<and> res_Chain r = Some ch \<longrightarrow> el_cid (Leaf ch) = run_delegation (inv_run i)"
proof -
  have none: "inv' = None \<Longrightarrow> res_Chain r = None" using assms by (auto simp: Verify_request_def fail_def)
  have built: "BuildChain C (run_delegation (inv_run i)) (effectiveStore C cfg token) (MaxChainDepth cfg) = Inr ch"
    if "inv' = Some i" "res_Chain r = Some ch" for i ch
    using Verify_request_chain [of C visit cfg alog t token i s ch] assms that by simp
  have some: "\<exists>leaf get m. BuildChain C leaf (get :: string \<Rightarrow> deleg_error + bytes) m = Inr ch" if "res_Chain r = Some ch" for ch
    using none built [OF _ that] that by (cases inv') auto
  show "\<forall>ch. res_Chain r = Some ch \<longrightarrow> Elements ch \<noteq> []" by (blast dest: some BuildChain_shape)
  have leaf: "utf8_valid (elemAud (Leaf ch)) \<and> utf8_valid (el_cid (Leaf ch))" if "res_Chain r = Some ch" for ch
    using some [OF that] by (elim exE) (intro conjI BuildChain_leaf_valid; assumption)
  show "utf8_valid (case res_Chain r of None \<Rightarrow> [] | Some ch \<Rightarrow> elemAud (Leaf ch))"
    "utf8_valid (case res_Chain r of None \<Rightarrow> [] | Some ch \<Rightarrow> el_cid (Leaf ch))"
    by (simp_all add: leaf split: option.split)
  show "res_Error r = None \<longrightarrow> res_Chain r \<noteq> None"
    using assms by (auto simp: Verify_request_def fail_def split: option.splits sum.splits prod.splits if_splits)
  show "\<forall>i ch. inv' = Some i \<and> res_Chain r = Some ch \<longrightarrow> el_cid (Leaf ch) = run_delegation (inv_run i)"
    by (metis built BuildChain_shape)
qed

lemma utf8_code_string: "utf8_valid (code_string c)"
  by (cases c) (simp_all add: byte_def)

subsection \<open>Error codes\<close>

fun step_codes :: "nat \<Rightarrow> error_code set" where
  "step_codes n = (if n = 0 then {CodeMalformed}
     else if n = 1 then {CodeCircular, CodeChainTooDeep, CodeMalformed, CodeBranching, CodeProofCacheMiss,
       CodeChainBroken, CodeCIDMismatch}
     else if n = 2 then {CodeChainBroken, CodeExpiryEscalate, CodeAttenuation}
     else if n = 3 then {CodeUntrustedRoot}
     else if n = 4 then {CodeDIDResolution, CodeSigInvalid}
     else if n = 5 then {CodeExpired, CodeNotYetValid}
     else if n = 6 then {CodeRevoked, CodeSuspended, CodeCompromised, CodeRevocUnavailable}
     else if n = 7 then {CodeChainBroken}
     else if n = 8 then {CodeCapInsufficient}
     else if n = 9 then {CodeCrossOrg}
     else if n = 10 then {CodePoPFailed}
     else if n = 11 then {CodeUnregistered}
     else {})"

declare step_codes.simps [simp del]

definition step_error :: "nat \<Rightarrow> verification_error \<Rightarrow> bool" where
  "step_error n e \<longleftrightarrow> ve_step e = n \<and> ve_code e \<in> step_codes n"

lemma step_errors:
  "step0Structural ch = Inl e \<Longrightarrow> step_error 0 e"
  "step1BuildChain C leaf get m = Inl e \<Longrightarrow> step_error 1 e"
  "step2Linkage ch = Inl e \<Longrightarrow> step_error 2 e"
  "step3RootTrust ch tr ps = Inl e \<Longrightarrow> step_error 3 e"
  "step4Signatures C ch = Inl e \<Longrightarrow> step_error 4 e"
  "step5Temporal ch now skew = Inl e \<Longrightarrow> step_error 5 e"
  "step6Revocation visit ch src tier = Inl e \<Longrightarrow> step_error 6 e"
  "step7Attenuation ch = Inl e \<Longrightarrow> step_error 7 e"
  "step8Authorization ch ctx = Inl e \<Longrightarrow> step_error 8 e"
  "step9CrossOrg ch ps x = Inl e \<Longrightarrow> step_error 9 e"
  "step10PoP C clk inv' holder cfg n = (Inl e, n') \<Longrightarrow> step_error 10 e"
  "step11Registration ch tier reg = Inl e \<Longrightarrow> step_error 11 e"
proof -
  show "step0Structural ch = Inl e \<Longrightarrow> step_error 0 e"
    by (auto simp: step0Structural_def structural_def step_error_def step_codes.simps err_simps
        dest!: iterE_InlD split: if_splits element_body.splits)
  have "step_error 1 (mapChainError x)" for x
    by (cases x) (simp_all add: step_error_def step_codes.simps)
  then show "step1BuildChain C leaf get m = Inl e \<Longrightarrow> step_error 1 e"
    by (auto simp: step1BuildChain_def err_simps)
  show "step2Linkage ch = Inl e \<Longrightarrow> step_error 2 e"
    by (auto simp: step2Linkage_def linkage_def step_error_def step_codes.simps
        dest!: iterE_InlD split: if_splits element_body.splits option.splits)
  show "step3RootTrust ch tr ps = Inl e \<Longrightarrow> step_error 3 e"
    by (auto simp: step3RootTrust_def step_error_def step_codes.simps Let_def split: if_splits)
  show "step4Signatures C ch = Inl e \<Longrightarrow> step_error 4 e"
    by (auto simp: step4Signatures_def signature_def step_error_def step_codes.simps err_simps
        dest!: iterE_InlD split: element_body.splits sum.splits)
  show "step5Temporal ch now skew = Inl e \<Longrightarrow> step_error 5 e"
    by (auto simp: step5Temporal_def temporal_def step_error_def step_codes.simps dest!: iterE_InlD split: if_splits)
  show "step6Revocation visit ch src tier = Inl e \<Longrightarrow> step_error 6 e"
    by (auto simp: step6Revocation_def lookup_status_def statusError_def step_error_def step_codes.simps
        dest!: iterE_InlD split: if_splits option.splits sum.splits)
  show "step7Attenuation ch = Inl e \<Longrightarrow> step_error 7 e"
    by (auto simp: step7Attenuation_def step_error_def step_codes.simps dest!: iterE_InlD split: element_body.splits)
  show "step8Authorization ch ctx = Inl e \<Longrightarrow> step_error 8 e"
    by (auto simp: step8Authorization_def evaluate_def step_error_def step_codes.simps bindE_Inl_iff
        dest!: iterE_InlD split: if_splits option.splits)
  show "step9CrossOrg ch ps x = Inl e \<Longrightarrow> step_error 9 e"
    by (auto simp: step9CrossOrg_def step_error_def step_codes.simps split: if_splits option.splits)
  show "step10PoP C clk inv' holder cfg n = (Inl e, n') \<Longrightarrow> step_error 10 e"
    by (auto simp: step10PoP_def VerifyInvocation_def Let_def step_error_def step_codes.simps
        split: if_splits option.splits prod.splits sum.splits bool.splits)
  show "step11Registration ch tier reg = Inl e \<Longrightarrow> step_error 11 e"
    by (auto simp: step11Registration_def step_error_def step_codes.simps split: if_splits option.splits)
qed

lemma read_steps_error: "read_steps C visit cfg t i ch = Inl e \<Longrightarrow> ve_code e \<in> step_codes (ve_step e) \<and> ve_step e \<le> 8"
  unfolding read_steps_def bindE_Inl_iff by (auto dest!: step_errors simp: step_error_def)

lemma Verify_error:
  assumes "res_Error (fst (Verify_request C visit cfg alog t token inv' s)) = Some e"
  shows "ve_code e \<in> step_codes (ve_step e)"
proof -
  have "ve_code (verr 10 CodePoPFailed) \<in> step_codes (ve_step (verr 10 CodePoPFailed))"
    "ve_code (verr 0 CodeMalformed) \<in> step_codes (ve_step (verr 0 CodeMalformed))"
    by (simp_all add: step_codes.simps)
  then show ?thesis
    using assms by (auto simp: Verify_request_def fail_def step_error_def split: option.splits sum.splits prod.splits if_splits
        dest: step_errors read_steps_error)
qed

subsection \<open>Revocation\<close>

lemma denied_subject:
  assumes "\<And>xs. set (visit xs) = set xs"
    and "BuildChain C (run_delegation (inv_run i)) (effectiveStore C cfg token) (MaxChainDepth cfg) = Inr ch"
    and "x \<in> subjects (Elements ch)" and "\<not> status_allows cfg (run_resource (inv_run i)) x"
  shows "\<not> res_OK (fst (Verify_request C visit cfg alog t token (Some i) s))"
  unfolding Verify_ok_iff_authorized [of visit, OF assms(1)] using assms(2-4) by (auto simp: authorized_def)

lemma GetStatus_not_reinstated: "GetStatus c x = Some e \<Longrightarrow> re_status e \<noteq> StatusReinstated"
  by (auto simp: GetStatus_def split: option.splits if_splits)

lemma denying_active:
  "denying st \<Longrightarrow> st \<noteq> StatusReinstated"
  by (auto simp: denying_def StatusReinstated_def StatusRevoked_def StatusDecommissioned_def StatusSuspended_def
      StatusCompromised_def StatusCascade_def)

subsection \<open>Issued credentials\<close>

text \<open>An issued root token that resolves under its identifier, presented by its holder.\<close>

lemma root_chain:
  assumes "ed25519_ok C" and "payload_ok p" and "CreateUCAN C p priv = Inr tok" and "pl_prf p = []"
    and "pl_iss p = EncodeDID (ed_public C priv)"
    and "length (pl_att p) + sum_list (map (\<lambda>c. length (Constraints c)) (pl_att p)) \<le> MaxChainCapsCaveats"
    and "ParseUCAN tok = Inr u" and got: "get (ComputeCID C tok) = Inr tok"
  shows "BuildChain C (ComputeCID C tok) get m
      = Inr (chain_of [\<lparr>el_body = Token u, el_cid = ComputeCID C tok, el_root = True, el_mode = ModeRoot\<rparr>])"
    and "u_payload u = p"
    and "signed_by_issuer C \<lparr>el_body = Token u, el_cid = ComputeCID C tok, el_root = True, el_mode = ModeRoot\<rparr>"
    and "well_formed \<lparr>el_body = Token u, el_cid = ComputeCID C tok, el_root = True, el_mode = ModeRoot\<rparr>"
proof -
  let ?e = "\<lparr>el_body = Token u, el_cid = ComputeCID C tok, el_root = True, el_mode = ModeRoot\<rparr>"
  from CreateUCAN_parses [OF assms(1-3)] assms(7) have u: "u_payload u = p" "UCAN_Verify C u (ed_public C priv) = Inr ()" by auto
  from issued_root_path [of C p priv tok get "ComputeCID C tok", OF assms(1-4) got refl] obtain u' where
    path: "proof_path C get (ComputeCID C tok)
      [\<lparr>el_body = Token u', el_cid = ComputeCID C tok, el_root = True, el_mode = ModeRoot\<rparr>]" by blast
  from path have "resolves C get (ComputeCID C tok)
      \<lparr>el_body = Token u', el_cid = ComputeCID C tok, el_root = True, el_mode = ModeRoot\<rparr>"
    by cases auto
  then have "ParseUCAN tok = Inr u'"
    using got by (auto simp: resolves_def dest: parseElement_shape)
  with path assms(7) have path: "proof_path C get (ComputeCID C tok) [?e]" by simp
  show "BuildChain C (ComputeCID C tok) get m = Inr (chain_of [?e])"
    unfolding BuildChain_iff using path assms(6) u(1)
    by (intro exI [of _ "[?e]"]) (simp add: elem_weight_def token_weight_def)
  show "u_payload u = p" by (rule u)
  from CreateUCAN_result [OF assms(3,2)] have k: "length priv = PrivateKeySize" and v: "validateForIssuance p = Inr ()"
    by blast+
  have "ResolveDID (elemIss ?e) = Inr (ed_public C priv)"
    using ed25519_verifies [OF assms(1) k] assms(5) u(1)
    by (simp add: ResolveDID_def ParseDID_iff elemIss_def PublicKeySize_def didKeySize_def)
  then show "signed_by_issuer C ?e" using u(2) by (simp add: signed_by_issuer_def)
  show "well_formed ?e"
    using v u(1) by (auto simp: well_formed_def elemExp_def validateForIssuance_def err_simps not_le split: if_splits)
qed

lemma inline_resolves:
  assumes "ed25519_ok C" and "payload_ok p" and "CreateUCAN C p priv = Inr tok" and "ParseUCAN tok = Inr u"
  shows "effectiveStore C cfg (Some u) (ComputeCID C tok) = Inr tok"
proof -
  from CreateUCAN_parses [OF assms(1-3)] assms(4) have "UCAN_String u = tok" "UCAN_CID C u = ComputeCID C tok" by auto
  then show ?thesis by (simp add: effectiveStore_def overlayStore_def Let_def)
qed

lemma inline_root_chain:
  assumes "ed25519_ok C" and "payload_ok p" and "CreateUCAN C p priv = Inr tok" and "pl_prf p = []"
    and "pl_iss p = EncodeDID (ed_public C priv)"
    and "length (pl_att p) + sum_list (map (\<lambda>c. length (Constraints c)) (pl_att p)) \<le> MaxChainCapsCaveats"
    and "ParseUCAN tok = Inr u"
  shows "BuildChain C (ComputeCID C tok) (effectiveStore C cfg (Some u)) m
      = Inr (chain_of [\<lparr>el_body = Token u, el_cid = ComputeCID C tok, el_root = True, el_mode = ModeRoot\<rparr>])"
  by (rule root_chain [where get = "effectiveStore C cfg (Some u)", OF assms inline_resolves [OF assms(1-3,7)]])

lemma root_accepted:
  assumes vis: "\<And>xs. set (visit xs) = set xs"
    and C: "ed25519_ok C" and p: "payload_ok p" "CreateUCAN C p priv = Inr tok" "pl_prf p = []"
    "pl_iss p = EncodeDID (ed_public C priv)"
    "length (pl_att p) + sum_list (map (\<lambda>c. length (Constraints c)) (pl_att p)) \<le> MaxChainCapsCaveats"
    "ParseUCAN tok = Inr u"
    and got: "effectiveStore C cfg token (ComputeCID C tok) = Inr tok"
    and holder: "length key = PrivateKeySize" "pl_aud p = EncodeDID (ed_public C key)"
    and trust: "TrustedRootDIDs cfg (pl_iss p)"
    and live: "sle (at_temporal t) (pl_exp p + clockSkew cfg)" "sle (pl_nbf p - clockSkew cfg) (at_temporal t)"
    and inv: "CreateInvocation C clk nonce (ComputeCID C tok) act res ps key (VerifierDID cfg) cb = Inr i"
    "request_ok (VerifierDID cfg) cb \<lparr>run_delegation = ComputeCID C tok, run_action = act, run_resource = res, run_parameters = ps\<rparr>"
    and clk: "clock_ok clk" "clock_ok (at_pop t)" "\<bar>at_pop t div second - clk div second\<bar> \<le> 60"
    and cfg: "\<not> (slt 0 (StartTime cfg) \<and> slt (unix clk) (StartTime cfg))" "ExpectedChannelBinding cfg \<in> {[], cb}"
    "\<forall>x \<in> {ComputeCID C tok, pl_aud p}. status_allows cfg res x" "registered cfg res (ComputeCID C tok)"
    and grant: "\<not> wildcard_request res" "find (matches (invocation_ctx cfg (at_context t) i)) (pl_att p) = Some cap"
    "\<forall>c \<in> set (Constraints cap). evaluateConstraint c (invocation_ctx cfg (at_context t) i)"
    and fresh: "nc_m (vs_nonces s) (inv_nonce i) = None"
  shows "res_OK (fst (Verify_request C visit cfg alog t token (Some i) s))
    \<and> res_Capability (fst (Verify_request C visit cfg alog t token (Some i) s)) = Some cap"
proof -
  let ?e = "\<lparr>el_body = Token u, el_cid = ComputeCID C tok, el_root = True, el_mode = ModeRoot\<rparr>"
  note ch = root_chain [where get = "effectiveStore C cfg token", OF C p got]
  from CreateInvocation_signed [OF C holder(1) inv(2), of clk nonce] inv(1) have
    run: "inv_run i = \<lparr>run_delegation = ComputeCID C tok, run_action = act, run_resource = res, run_parameters = ps\<rparr>"
    and cb: "inv_cb i = cb" and iat: "inv_iat i = unix clk" by auto
  obtain c' where "VerifyInvocation C (at_pop t) i (VerifierDID cfg) (EncodeDID (ed_public C key))
      (memory_check (at_pop t)) (vs_nonces s) = (Inr (), c')"
    using created_accepted [OF C holder(1) inv(2) clk inv(1) fresh] by blast
  then have chk: "checkInvocation C (unix (at_pop t)) i (VerifierDID cfg) (pl_aud p)"
    "CheckAndStore (at_pop t) (vs_nonces s) (inv_nonce i) (invocation_ttl (unix (at_pop t)) i) = (False, c')"
    by (simp_all add: VerifyInvocation_ok holder(2))
  have "valid_chain C cfg (at_temporal t) (chain_of [?e])"
    using ch trust live by (simp add: valid_chain_def chain_of_def trusted_root_def Root_def in_window_def
        elemIss_def elemExp_def elemNbf_def)
  moreover have "grants (chain_of [?e]) (invocation_ctx cfg (at_context t) i) cap"
    using grant ch(2) run by (simp add: grants_def chain_of_def effectiveAtt_def chain_caveats_def invocation_ctx_def)
  moreover have "presented C cfg (at_pop t) i (elemAud (Leaf (chain_of [?e])))"
    using chk cfg(1,2) cb iat ch(2) by (auto simp: presented_def chain_of_def Leaf_def elemAud_def)
  moreover have "\<forall>x \<in> subjects (Elements (chain_of [?e])). status_allows cfg res x"
    using cfg(3) ch(2) by (simp add: subjects_def chain_of_def elemAud_def)
  ultimately have "authorized C cfg t token i (chain_of [?e]) cap"
    using ch(1) cfg(4) run by (simp add: authorized_def chain_of_def Leaf_def)
  from Verify_accepts [of visit, OF vis this chk(2)] show ?thesis by simp
qed

lemma inline_root_accepted:
  assumes vis: "\<And>xs. set (visit xs) = set xs"
    and C: "ed25519_ok C" and p: "payload_ok p" "CreateUCAN C p priv = Inr tok" "pl_prf p = []"
    "pl_iss p = EncodeDID (ed_public C priv)"
    "length (pl_att p) + sum_list (map (\<lambda>c. length (Constraints c)) (pl_att p)) \<le> MaxChainCapsCaveats"
    "ParseUCAN tok = Inr u"
    and holder: "length key = PrivateKeySize" "pl_aud p = EncodeDID (ed_public C key)"
    and trust: "TrustedRootDIDs cfg (pl_iss p)"
    and live: "sle (at_temporal t) (pl_exp p + clockSkew cfg)" "sle (pl_nbf p - clockSkew cfg) (at_temporal t)"
    and inv: "CreateInvocation C clk nonce (ComputeCID C tok) act res ps key (VerifierDID cfg) cb = Inr i"
    "request_ok (VerifierDID cfg) cb \<lparr>run_delegation = ComputeCID C tok, run_action = act, run_resource = res, run_parameters = ps\<rparr>"
    and clk: "clock_ok clk" "clock_ok (at_pop t)" "\<bar>at_pop t div second - clk div second\<bar> \<le> 60"
    and cfg: "StartTime cfg = 0" "ExpectedChannelBinding cfg \<in> {[], cb}"
    "\<forall>x \<in> {ComputeCID C tok, pl_aud p}. status_allows cfg res x" "registered cfg res (ComputeCID C tok)"
    and grant: "\<not> wildcard_request res" "find (matches (invocation_ctx cfg (at_context t) i)) (pl_att p) = Some cap"
    "\<forall>c \<in> set (Constraints cap). evaluateConstraint c (invocation_ctx cfg (at_context t) i)"
    and fresh: "nc_m (vs_nonces s) (inv_nonce i) = None"
  shows "res_OK (fst (Verify_request C visit cfg alog t (Some u) (Some i) s))
    \<and> res_Capability (fst (Verify_request C visit cfg alog t (Some u) (Some i) s)) = Some cap"
  by (rule root_accepted [OF vis C p inline_resolves [OF C p(1,2,6)] holder trust live inv clk _ cfg(2-4) grant fresh])
    (simp add: cfg(1))

text \<open>A grant, its root's key, a verifier and the readings of its clocks, for evaluation.\<close>

definition sample_root_key :: bytes where "sample_root_key = replicate 64 (CHR 0x09)"

definition sample_grant :: ucan_payload where
  "sample_grant = \<lparr>pl_iss = EncodeDID (ed_public demo_crypto sample_root_key),
     pl_aud = EncodeDID (ed_public demo_crypto sample_key),
     pl_att = [\<lparr>Can = CanToolInvoke, With = ''tool://acme/a'', Constraints = []\<rparr>],
     pl_prf = [], pl_exp = 5000, pl_nbf = 0, pl_iat = 0\<rparr>"

definition sample_config :: verifier_config where
  "sample_config = \<lparr>VerifierDID = sample_aud, TrustedRootDIDs = (\<lambda>d. d = EncodeDID (ed_public demo_crypto sample_root_key)),
     MaxChainDepth = 0, ClockSkewSeconds = 0, RiskTierFn = None, ProofStore = None, RevocationSource = None,
     RegistrationStore = None, TrustPolicies = [], ExpectedChannelBinding = [], StartTime = 0, MeteringEnabled = False\<rparr>"

definition sample_readings :: readings where
  "sample_readings = \<lparr>at_temporal = 1000, at_context = 1000, at_pop = 1000 * second, at_audit = 1000\<rparr>"

abbreviation sample_audit :: "audit_log audit_append option" where
  "sample_audit \<equiv> Some (Append demo_crypto 1000)"

definition sample_state :: "audit_log verifier_state" where
  "sample_state = \<lparr>vs_nonces = NewMemoryNonceCache [], vs_audit = NewMemoryAuditLog\<rparr>"

lemma EncodeDID_nonempty [simp]: "EncodeDID pub \<noteq> []"
  by (simp add: EncodeDID_def didKeyPrefix_def)

lemma sample_grant_issued:
  "payload_ok sample_grant" "\<exists>tok u. CreateUCAN demo_crypto sample_grant sample_root_key = Inr tok \<and> ParseUCAN tok = Inr u"
proof -
  have "utf8_valid CanToolInvoke \<and> utf8_valid ''tool://acme/a''" by code_simp
  then show ok: "payload_ok sample_grant"
    by (simp add: payload_ok_def sample_grant_def utf8_EncodeDID capability_ok_def)
  have "Capability_Validate \<lparr>Can = CanToolInvoke, With = ''tool://acme/a'', Constraints = []\<rparr> = Inr ()" by code_simp
  then have "validateForIssuance sample_grant = Inr ()"
    by (simp add: validateForIssuance_def sample_grant_def MaxCapabilities_def)
  from CreateUCAN_succeeds [OF ok this, of sample_root_key demo_crypto] obtain tok where
    "CreateUCAN demo_crypto sample_grant sample_root_key = Inr tok"
    by (auto simp: sample_root_key_def PrivateKeySize_def)
  with CreateUCAN_parses [OF demo_crypto_ok(1) ok] show
    "\<exists>tok u. CreateUCAN demo_crypto sample_grant sample_root_key = Inr tok \<and> ParseUCAN tok = Inr u" by blast
qed

lemma sample_request:
  "request_ok (VerifierDID sample_config) [] \<lparr>run_delegation = ComputeCID demo_crypto tok, run_action = CanToolInvoke,
     run_resource = ''tool://acme/a'', run_parameters = None\<rparr>"
proof -
  have "utf8_valid sample_aud" "utf8_valid CanToolInvoke" "utf8_valid ''tool://acme/a''"
    "utf8_valid ''delegation'' \<and> utf8_valid ''action'' \<and> utf8_valid ''resource'' \<and> utf8_valid ''parameters''" by code_simp+
  then show ?thesis using utf8_ComputeCID by (simp add: request_ok_def run_json_def sample_config_def)
qed

lemma sample_clocks: "clock_ok (1000 * second)" "clock_ok (at_pop sample_readings)"
  "\<bar>at_pop sample_readings div second - 1000 * second div second\<bar> \<le> 60"
  by (simp_all add: clock_ok_def second_def sample_readings_def)

lemma sample_checks:
  assumes "CreateInvocation demo_crypto (1000 * second) ''n'' (ComputeCID demo_crypto tok) CanToolInvoke ''tool://acme/a'' None
      sample_key (VerifierDID sample_config) [] = Inr i"
  shows "find (matches (invocation_ctx sample_config (at_context sample_readings) i)) (pl_att sample_grant)
      = Some \<lparr>Can = CanToolInvoke, With = ''tool://acme/a'', Constraints = []\<rparr>"
    and "\<not> wildcard_request ''tool://acme/a''"
    and "sle (at_temporal sample_readings) (pl_exp sample_grant + clockSkew sample_config)"
    and "sle (pl_nbf sample_grant - clockSkew sample_config) (at_temporal sample_readings)"
proof -
  from CreateInvocation_signed [OF demo_crypto_ok(1) sample_lengths sample_request, of "1000 * second" "''n''" tok] assms
  have "run_action (inv_run i) = CanToolInvoke" "run_resource (inv_run i) = ''tool://acme/a''" by auto
  moreover have "uriCovers ''tool://acme/a'' ''tool://acme/a''" by code_simp
  ultimately show "find (matches (invocation_ctx sample_config (at_context sample_readings) i)) (pl_att sample_grant)
      = Some \<lparr>Can = CanToolInvoke, With = ''tool://acme/a'', Constraints = []\<rparr>"
    by (simp add: sample_grant_def matches_def invocation_ctx_def)
  show "\<not> wildcard_request ''tool://acme/a''" by code_simp
  show "sle (at_temporal sample_readings) (pl_exp sample_grant + clockSkew sample_config)"
    "sle (pl_nbf sample_grant - clockSkew sample_config) (at_temporal sample_readings)"
    by (simp_all add: sample_readings_def sample_grant_def clockSkew_def sample_config_def)
qed

text \<open>A request that is accepted.\<close>

lemma sample_accepted:
  "\<exists>u i. res_OK (fst (Verify_request demo_crypto id sample_config sample_audit sample_readings (Some u) (Some i) sample_state))
    \<and> sint (inv_iat i) + 60 < sint (inv_exp i)"
proof -
  from sample_grant_issued(2) obtain tok u where tok: "CreateUCAN demo_crypto sample_grant sample_root_key = Inr tok"
    "ParseUCAN tok = Inr u" by blast
  from CreateInvocation_signed [OF demo_crypto_ok(1) sample_lengths sample_request, of "1000 * second" "''n''" tok] obtain i where
    i: "CreateInvocation demo_crypto (1000 * second) ''n'' (ComputeCID demo_crypto tok) CanToolInvoke ''tool://acme/a'' None
      sample_key (VerifierDID sample_config) [] = Inr i"
    "inv_iat i = unix (1000 * second)" "inv_exp i = unix (1000 * second) + invocationLifetime" by auto
  note ok = sample_checks [OF i(1)]
  have "res_OK (fst (Verify_request demo_crypto id sample_config sample_audit sample_readings (Some u) (Some i) sample_state))"
    by (rule inline_root_accepted [OF _ demo_crypto_ok(1) sample_grant_issued(1) tok(1) _ _ _ tok(2) sample_lengths _ _ ok(3,4)
        i(1) sample_request sample_clocks _ _ _ _ ok(2,1), THEN conjunct1])
      (simp_all add: sample_grant_def sample_config_def sample_state_def status_allows_def registered_def MaxChainCapsCaveats_def)
  moreover have "sint (inv_iat i) + 60 < sint (inv_exp i)"
    by (simp add: i(2,3) unix_def second_def invocationLifetime_def)
  ultimately show ?thesis by blast
qed

subsection \<open>Properties\<close>

text \<open>C23: A root grant that was issued under a trusted key, presented inline by its holder with a
  fresh invocation for a covered request, is accepted under the capability it grants.\<close>

theorem Verify_accepts_issued:
  assumes vis: "\<And>xs. set (visit xs) = set xs"
    and C: "ed25519_ok C" and p: "payload_ok p" "CreateUCAN C p priv = Inr tok" "pl_prf p = []"
    "pl_iss p = EncodeDID (ed_public C priv)"
    "length (pl_att p) + sum_list (map (\<lambda>c. length (Constraints c)) (pl_att p)) \<le> MaxChainCapsCaveats"
    "ParseUCAN tok = Inr u"
    and holder: "length key = PrivateKeySize" "pl_aud p = EncodeDID (ed_public C key)"
    and trust: "TrustedRootDIDs cfg (pl_iss p)"
    and live: "sle (at_temporal t) (pl_exp p + clockSkew cfg)" "sle (pl_nbf p - clockSkew cfg) (at_temporal t)"
    and inv: "CreateInvocation C clk nonce (ComputeCID C tok) act res ps key (VerifierDID cfg) cb = Inr i"
    "request_ok (VerifierDID cfg) cb \<lparr>run_delegation = ComputeCID C tok, run_action = act, run_resource = res, run_parameters = ps\<rparr>"
    and clk: "clock_ok clk" "clock_ok (at_pop t)" "\<bar>at_pop t div second - clk div second\<bar> \<le> 60"
    and cfg: "StartTime cfg = 0" "ExpectedChannelBinding cfg \<in> {[], cb}"
    "\<forall>x \<in> {ComputeCID C tok, pl_aud p}. status_allows cfg res x" "registered cfg res (ComputeCID C tok)"
    and grant: "\<not> wildcard_request res" "find (matches (invocation_ctx cfg (at_context t) i)) (pl_att p) = Some cap"
    "\<forall>c \<in> set (Constraints cap). evaluateConstraint c (invocation_ctx cfg (at_context t) i)"
    and fresh: "nc_m (vs_nonces s) (inv_nonce i) = None"
  shows "res_OK (fst (Verify_request C visit cfg alog t (Some u) (Some i) s))
    \<and> res_Capability (fst (Verify_request C visit cfg alog t (Some u) (Some i) s)) = Some cap"
  using assms by (rule inline_root_accepted)

theorem Verify_accepts_issued_witness:
  "\<exists>u i. res_OK (fst (Verify_request demo_crypto id sample_config sample_audit sample_readings (Some u) (Some i) sample_state))
    \<and> inv_iss i = pl_aud sample_grant \<and> u_payload u = sample_grant"
proof -
  from sample_grant_issued(2) obtain tok u where tok: "CreateUCAN demo_crypto sample_grant sample_root_key = Inr tok"
    "ParseUCAN tok = Inr u" by blast
  from CreateInvocation_signed [OF demo_crypto_ok(1) sample_lengths sample_request, of "1000 * second" "''n''" tok] obtain i where
    i: "CreateInvocation demo_crypto (1000 * second) ''n'' (ComputeCID demo_crypto tok) CanToolInvoke ''tool://acme/a'' None
      sample_key (VerifierDID sample_config) [] = Inr i" "inv_iss i = pl_aud sample_grant"
    by (auto simp: sample_grant_def)
  note ok = sample_checks [OF i(1)]
  have "res_OK (fst (Verify_request demo_crypto id sample_config sample_audit sample_readings (Some u) (Some i) sample_state))"
    by (rule Verify_accepts_issued [OF _ demo_crypto_ok(1) sample_grant_issued(1) tok(1) _ _ _ tok(2) sample_lengths _ _ ok(3,4)
        i(1) sample_request sample_clocks _ _ _ _ ok(2,1), THEN conjunct1])
      (simp_all add: sample_grant_def sample_config_def sample_state_def status_allows_def registered_def MaxChainCapsCaveats_def)
  moreover from CreateUCAN_parses [OF demo_crypto_ok(1) sample_grant_issued(1) tok(1)] tok(2) have "u_payload u = sample_grant" by auto
  ultimately show ?thesis using i(2) by blast
qed

text \<open>C1: The verifier decides its specification: a request is accepted exactly when it carries an
  invocation whose leaf resolves, within the caps, to a chain of well-formed, signed, currently valid and
  linked credentials under a trusted root, none of whose subjects has a denying status, whose root grants a
  capability that covers the request with every constraint and caveat satisfied, which is presented by the
  leaf's holder with an unspent nonce, and whose leaf is registered where the tier demands it.\<close>

theorem Verify_authorizes:
  assumes "\<And>xs. set (visit xs) = set xs"
  shows "res_OK (fst (Verify_request C visit cfg alog t token inv' s)) \<longleftrightarrow>
    (\<exists>i ch cap. inv' = Some i \<and> authorized C cfg t token i ch cap
       \<and> nonce_unspent (at_pop t) (vs_nonces s) (inv_nonce i))"
  by (rule Verify_ok_iff_authorized [OF assms])

theorem Verify_authorizes_witness:
  "\<exists>u i ch cap. authorized demo_crypto sample_config sample_readings (Some u) i ch cap
     \<and> nonce_unspent (at_pop sample_readings) (vs_nonces sample_state) (inv_nonce i)"
proof -
  from sample_accepted obtain u i where
    a: "res_OK (fst (Verify_request demo_crypto id sample_config sample_audit sample_readings (Some u) (Some i) sample_state))" by blast
  have "set (id xs) = set xs" for xs :: "string list" by simp
  from Verify_authorizes [of id demo_crypto sample_config sample_audit sample_readings, OF this] a show ?thesis by blast
qed

lemma accepted_chain_narrows:
  assumes "\<And>xs. set (visit xs) = set xs" and "0 \<le> sint (at_temporal t)" and "sint (at_temporal t) < 2 ^ 62"
    and "sint (clockSkew cfg) < 2 ^ 62"
    and "res_OK (fst (Verify_request C visit cfg alog t token inv' s))"
    and "res_Chain (fst (Verify_request C visit cfg alog t token inv' s)) = Some ch"
  shows "\<forall>e \<in> set (Elements ch).
      sint (elemNbf e) \<le> sint (elemNbf (Leaf ch)) \<and> sint (elemExp (Leaf ch)) \<le> sint (elemExp e)
      \<and> sint (elemNbf e) - sint (clockSkew cfg) \<le> sint (at_temporal t)
      \<and> sint (at_temporal t) \<le> sint (elemExp e) + sint (clockSkew cfg)"
    and "elemDelegableDepth (Root ch) = Some d \<Longrightarrow> Depth ch = 0 \<or> int (Depth ch) \<le> sint d"
proof -
  from Verify_accepted [of visit, OF assms(1,5)] assms(6) obtain i cap where
    a: "authorized C cfg t token i ch cap" by auto
  then have b: "BuildChain C (run_delegation (inv_run i)) (effectiveStore C cfg token) (MaxChainDepth cfg) = Inr ch"
    and v: "valid_chain C cfg (at_temporal t) ch" by (simp_all add: authorized_def)
  have link: "\<forall>(c, p) \<in> set (hops (Elements ch)). attenuates c p \<and> (\<exists>b. el_body c = Block b)"
    using v chain_blocks_then_token(2) [OF b] by (fastforce simp: valid_chain_def)
  note shape = BuildChain_shape [OF b]
  show "\<forall>e \<in> set (Elements ch).
      sint (elemNbf e) \<le> sint (elemNbf (Leaf ch)) \<and> sint (elemExp (Leaf ch)) \<le> sint (elemExp e)
      \<and> sint (elemNbf e) - sint (clockSkew cfg) \<le> sint (at_temporal t)
      \<and> sint (at_temporal t) \<le> sint (elemExp e) + sint (clockSkew cfg)"
  proof
    fix e assume e: "e \<in> set (Elements ch)"
    have "in_window (at_temporal t) (clockSkew cfg) e" using v e by (simp add: valid_chain_def)
    moreover have "\<forall>(c, p) \<in> set (hops (Elements ch)). attenuates c p" using link by auto
    ultimately show "sint (elemNbf e) \<le> sint (elemNbf (Leaf ch)) \<and> sint (elemExp (Leaf ch)) \<le> sint (elemExp e)
      \<and> sint (elemNbf e) - sint (clockSkew cfg) \<le> sint (at_temporal t)
      \<and> sint (at_temporal t) \<le> sint (elemExp e) + sint (clockSkew cfg)"
      using windows_nested [OF _ e] in_window_true [of "at_temporal t" "clockSkew cfg" e] assms(2-4) clockSkew_pos [of cfg]
      unfolding Leaf_def by linarith
  qed
  show "Depth ch = 0 \<or> int (Depth ch) \<le> sint d" if "elemDelegableDepth (Root ch) = Some d"
    using depth_bounded [OF link] shape that by (auto simp: Root_def)
qed

text \<open>C18: An accepted chain only narrows from root to leaf: the leaf's validity window lies inside every
  ancestor's, the clock lies (as true integers, up to the skew) inside all of them, and a root that limits
  the delegation depth has no more hops below it than it allows.\<close>

theorem Verify_attenuation:
  assumes "\<And>xs. set (visit xs) = set xs" and "0 \<le> sint (at_temporal t)" and "sint (at_temporal t) < 2 ^ 62"
    and "sint (clockSkew cfg) < 2 ^ 62"
    and "res_OK (fst (Verify_request C visit cfg alog t token inv' s))"
    and "res_Chain (fst (Verify_request C visit cfg alog t token inv' s)) = Some ch"
  shows "(\<forall>e \<in> set (Elements ch).
      sint (elemNbf e) \<le> sint (elemNbf (Leaf ch)) \<and> sint (elemExp (Leaf ch)) \<le> sint (elemExp e)
      \<and> sint (elemNbf e) - sint (clockSkew cfg) \<le> sint (at_temporal t)
      \<and> sint (at_temporal t) \<le> sint (elemExp e) + sint (clockSkew cfg))
    \<and> (\<forall>d. elemDelegableDepth (Root ch) = Some d \<longrightarrow> Depth ch = 0 \<or> int (Depth ch) \<le> sint d)"
  using accepted_chain_narrows [of visit, OF assms] by blast

theorem Verify_attenuation_witness:
  "\<exists>u i ch. res_Chain (fst (Verify_request demo_crypto id sample_config sample_audit sample_readings (Some u) (Some i) sample_state)) = Some ch
     \<and> sint (at_temporal sample_readings) \<le> sint (elemExp (Leaf ch)) + sint (clockSkew sample_config)"
proof -
  from sample_accepted obtain u i where
    a: "res_OK (fst (Verify_request demo_crypto id sample_config sample_audit sample_readings (Some u) (Some i) sample_state))" by blast
  have id: "set (id xs) = set xs" for xs :: "string list" by simp
  from Verify_accepted [of id, OF id a] obtain ch where
    ch: "res_Chain (fst (Verify_request demo_crypto id sample_config sample_audit sample_readings (Some u) (Some i) sample_state)) = Some ch"
    "BuildChain demo_crypto (run_delegation (inv_run i)) (effectiveStore demo_crypto sample_config (Some u))
      (MaxChainDepth sample_config) = Inr ch"
    by (auto simp: authorized_def)
  have t: "0 \<le> sint (at_temporal sample_readings)" "sint (at_temporal sample_readings) < 2 ^ 62"
    "sint (clockSkew sample_config) < 2 ^ 62"
    by (simp_all add: sample_readings_def clockSkew_def sample_config_def)
  have "Leaf ch \<in> set (Elements ch)" using BuildChain_shape [OF ch(2)] by (simp add: Leaf_def)
  with Verify_attenuation [of id, OF id t a ch(1)] ch(1) show ?thesis by blast
qed

text \<open>C19: Delegation never widens authority, and a hop narrows it by exactly its caveats: for a chain that is built
  from the store, let some credential on it be given, and the RESTRICT blocks below it.  The given credential
  has a chain of its own, and what step 8 answers for the whole chain is what it answers for that one when every
  caveat of every block in between is satisfied, the same capability or the same refusal, and is
  a refusal for insufficient capability otherwise.\<close>

theorem Delegation_narrows:
  assumes "BuildChain C leaf get m = Inr ch" and "Elements ch = pre @ es" and "es \<noteq> []"
  shows "\<exists>ch'. BuildChain C (el_cid (hd es)) get m = Inr ch' \<and> Elements ch' = es
    \<and> (\<forall>e \<in> set pre. \<exists>b. el_body e = Block b)
    \<and> step8Authorization ch ctx =
        (if \<forall>e \<in> set pre. \<forall>b. el_body e = Block b \<longrightarrow> (\<forall>c \<in> set (blk_cav b). evaluateConstraint c ctx)
         then step8Authorization ch' ctx else Inl (verr 8 CodeCapInsufficient))"
proof -
  have blocks: "\<forall>e \<in> set pre. \<exists>b. el_body e = Block b"
    using chain_blocks_then_token(2) [OF assms(1)] assms(2,3) by (metis hops_above)
  with BuildChain_suffix [OF assms] step8_prefix [OF blocks, of ch es "chain_of es"] assms(2) show ?thesis
    by (intro exI [of _ "chain_of es"]) (simp add: chain_of_def)
qed

theorem Delegation_narrows_witness:
  "\<exists>store ch ch' ctx cap. BuildChain brace_crypto (ComputeCID brace_crypto ''{'') (Get store) 0 = Inr ch
    \<and> step8Authorization ch ctx = Inl (verr 8 CodeCapInsufficient)
    \<and> BuildChain brace_crypto (ComputeCID brace_crypto ''x'') (Get store) 0 = Inr ch' \<and> step8Authorization ch' ctx = Inr cap"
proof -
  let ?c = "ActionRestrictConstraint ConstraintActionRestrict [CanToolInvoke]"
  let ?ctx = "\<lparr>ctx_Action = CanAgentDelegate, ctx_Resource = ''tool://x/a'', ctx_Parameters = None, ctx_Now = 0,
    ctx_MeteringEnabled = False\<rparr>"
  have "caveat_ok ?c" by code_simp
  then obtain store b store' u where ch: "BuildChain brace_crypto (ComputeCID brace_crypto ''{'') (Get store') 0 = Inr (chain_of
      [\<lparr>el_body = Block b, el_cid = ComputeCID brace_crypto ''{'', el_root = False, el_mode = ModeRestrict\<rparr>,
       \<lparr>el_body = Token u, el_cid = ComputeCID brace_crypto ''x'', el_root = True, el_mode = ModeRoot\<rparr>])"
    (is "_ = Inr (chain_of [?b, ?e])") and b: "blk_cav b = [?c]" and u: "u_payload u = sample_payload"
    by (rule sample_hop)
  have "Elements (chain_of [?b, ?e]) = [?b] @ [?e]" by (simp add: chain_of_def)
  from Delegation_narrows [OF ch this, of ?ctx] obtain ch' where
    ch': "BuildChain brace_crypto (ComputeCID brace_crypto ''x'') (Get store') 0 = Inr ch'" "Elements ch' = [?e]"
    and narrow: "step8Authorization (chain_of [?b, ?e]) ?ctx =
      (if \<forall>c \<in> set (blk_cav b). evaluateConstraint c ?ctx then step8Authorization ch' ?ctx else Inl (verr 8 CodeCapInsufficient))"
    by auto
  have "\<not> wildcard_request ''tool://x/a'' \<and> uriCovers ''tool://x/a'' ''tool://x/a'' \<and> CanToolInvoke \<noteq> CanAgentDelegate" by code_simp
  moreover from this have "step8Authorization ch' ?ctx = Inr \<lparr>Can = CanAgentDelegate, With = ''tool://x/a'', Constraints = [sample_caveat]\<rparr>"
    by (simp add: step8_ok effectiveAtt_def ch'(2) u sample_payload_def matches_def chain_caveats_def sample_caveat_def)
  moreover from calculation have "step8Authorization (chain_of [?b, ?e]) ?ctx = Inl (verr 8 CodeCapInsufficient)"
    by (simp add: narrow b Permits_def)
  ultimately show ?thesis using ch ch'(1) by blast
qed

text \<open>C20: No invocation that outlives the freshness window is accepted twice by a verifier, whatever
  requests it handles in between.\<close>

theorem Verify_single_use:
  assumes vis: "\<And>xs. set (visit xs) = set xs"
    and ok: "res_OK (fst (Verify_request C visit cfg alog t token (Some i) s))"
    and run: "verifications C visit (at_pop t2 + 1) (snd (Verify_request C visit cfg alog t token (Some i) s)) s2"
    and clk: "clock_ok (at_pop t)" "clock_ok (at_pop t2)" "at_pop t \<le> at_pop t2"
    and long: "sint (inv_iat i) + 60 < sint (inv_exp i)"
  shows "\<not> res_OK (fst (Verify_request C visit cfg2 alog2 t2 token2 (Some i) s2))"
proof
  assume "res_OK (fst (Verify_request C visit cfg2 alog2 t2 token2 (Some i) s2))"
  from Verify_accepted [of visit, OF vis this] obtain ch2 n2 where two:
    "presented C cfg2 (at_pop t2) i (elemAud (Leaf ch2))"
    "CheckAndStore (at_pop t2) (vs_nonces s2) (inv_nonce i) (invocation_ttl (unix (at_pop t2)) i) = (False, n2)"
    by (auto simp: authorized_def)
  from Verify_accepted [of visit, OF vis ok] obtain ch where one:
    "presented C cfg (at_pop t) i (elemAud (Leaf ch))"
    "CheckAndStore (at_pop t) (vs_nonces s) (inv_nonce i) (invocation_ttl (unix (at_pop t)) i)
      = (False, vs_nonces (snd (Verify_request C visit cfg alog t token (Some i) s)))"
    by (auto simp: authorized_def)
  have "VerifyInvocation C (at_pop t) i (VerifierDID cfg) (elemAud (Leaf ch)) (memory_check (at_pop t)) (vs_nonces s)
      = (Inr (), vs_nonces (snd (Verify_request C visit cfg alog t token (Some i) s)))"
    using one by (simp add: VerifyInvocation_ok presented_def)
  from single_use [OF clk this verifications_calls [of C visit, OF run vis] long]
  have "VerifyInvocation C (at_pop t2) i (VerifierDID cfg2) (elemAud (Leaf ch2)) (memory_check (at_pop t2)) (vs_nonces s2)
      \<noteq> (Inr (), n2)" .
  then show False using two by (simp add: VerifyInvocation_ok presented_def)
qed

theorem Verify_single_use_witness:
  "\<exists>u i. res_OK (fst (Verify_request demo_crypto id sample_config sample_audit sample_readings (Some u) (Some i) sample_state))
    \<and> \<not> res_OK (fst (Verify_request demo_crypto id sample_config sample_audit sample_readings (Some u) (Some i)
          (snd (Verify_request demo_crypto id sample_config sample_audit sample_readings (Some u) (Some i) sample_state))))"
proof -
  from sample_accepted obtain u i where
    a: "res_OK (fst (Verify_request demo_crypto id sample_config sample_audit sample_readings (Some u) (Some i) sample_state))"
    and l: "sint (inv_iat i) + 60 < sint (inv_exp i)" by blast
  have id: "set (id xs) = set xs" for xs :: "string list" by simp
  from Verify_single_use [of id, OF id a no_verification sample_clocks(2,2) order_refl l] a show ?thesis by blast
qed

text \<open>C24: A request spends a nonce only when everything short of the channel binding and the registration
  has been established: the chain is valid and grants the request, no subject is revoked, and the
  invocation is signed by the leaf's holder; so requests without the holder's key leave the cache as it was.\<close>

theorem Verify_nonce_protected:
  assumes "\<And>xs. set (visit xs) = set xs"
    and "vs_nonces (snd (Verify_request C visit cfg alog t token inv' s)) \<noteq> vs_nonces s"
  shows "\<exists>i. inv' = Some i \<and> proved_possession C cfg t token i
    \<and> CheckAndStore (at_pop t) (vs_nonces s) (inv_nonce i) (invocation_ttl (unix (at_pop t)) i)
      = (False, vs_nonces (snd (Verify_request C visit cfg alog t token inv' s)))"
  by (rule Verify_spends [of visit, OF assms])

theorem Verify_nonce_protected_witness:
  "\<exists>u i. proved_possession demo_crypto sample_config sample_readings (Some u) i"
proof -
  from sample_accepted obtain u i where
    a: "res_OK (fst (Verify_request demo_crypto id sample_config sample_audit sample_readings (Some u) (Some i) sample_state))" by blast
  have id: "set (id xs) = set xs" for xs :: "string list" by simp
  from Verify_accepted [of id, OF id a] obtain n where
    n: "CheckAndStore (at_pop sample_readings) (vs_nonces sample_state) (inv_nonce i)
         (invocation_ttl (unix (at_pop sample_readings)) i) = (False, n)"
    "vs_nonces (snd (Verify_request demo_crypto id sample_config sample_audit sample_readings (Some u) (Some i) sample_state)) = n" by auto
  from memory_nonces.fresh_recorded [OF n(1)] have "n \<noteq> vs_nonces sample_state" by (auto simp: sample_state_def)
  with n(2) Verify_nonce_protected [of id, OF id] show ?thesis by blast
qed



end
