(* ===== verification/Verifier_Denial.thy ===== *)
theory Verifier_Denial
  imports Verifier_Safety
begin

text \<open>
  What the verifier refuses: revoked subjects, everything under a compromised credential once the
  cascade has run, and how refusals are reported.  Also the one link it does not refuse: a hop below a
  root that grants no delegation.
\<close>

lemma denied_by_cache:
  assumes "\<And>xs. set (visit xs) = set xs"
    and "BuildChain C (run_delegation (inv_run i)) (effectiveStore C cfg token) (MaxChainDepth cfg) = Inr ch"
    and "RevocationSource cfg = Some (\<lambda>x. Inr (GetStatus c x))" and "k \<in> subjects (Elements ch)"
    and "GetStatus c k = Some e" and "denying (re_status e)"
  shows "\<not> res_OK (fst (Verify_request C visit cfg alog t token (Some i) s))"
  by (rule denied_subject [of visit, OF assms(1,2,4)]) (use assms in \<open>simp add: status_allows_def\<close>)

text \<open>The chain of an issued root grant, for evaluation.\<close>

lemma sample_root_chain:
  "\<exists>tok u (i :: invocation). CreateUCAN demo_crypto sample_grant sample_root_key = Inr tok
    \<and> run_delegation (inv_run i) = ComputeCID demo_crypto tok \<and> utf8_valid (ComputeCID demo_crypto tok)
    \<and> ComputeCID demo_crypto tok \<noteq> []
    \<and> (\<forall>cfg m. BuildChain demo_crypto (run_delegation (inv_run i)) (effectiveStore demo_crypto cfg (Some u)) m
      = Inr (chain_of [\<lparr>el_body = Token u, el_cid = ComputeCID demo_crypto tok, el_root = True, el_mode = ModeRoot\<rparr>]))"
proof -
  from sample_grant_issued(2) obtain tok u where tok: "CreateUCAN demo_crypto sample_grant sample_root_key = Inr tok"
    "ParseUCAN tok = Inr u" by blast
  define i :: invocation where "i = (sample_invocation 0)\<lparr>inv_run := \<lparr>run_delegation = ComputeCID demo_crypto tok,
    run_action = [], run_resource = [], run_parameters = None\<rparr>\<rparr>"
  then have i: "run_delegation (inv_run i) = ComputeCID demo_crypto tok" by simp
  have g: "pl_prf sample_grant = []" "pl_iss sample_grant = EncodeDID (ed_public demo_crypto sample_root_key)"
    "length (pl_att sample_grant) + sum_list (map (\<lambda>c. length (Constraints c)) (pl_att sample_grant)) \<le> MaxChainCapsCaveats"
    by (simp_all add: sample_grant_def MaxChainCapsCaveats_def)
  note b = inline_root_chain [OF demo_crypto_ok(1) sample_grant_issued(1) tok(1) g tok(2)]
  moreover have "ComputeCID demo_crypto tok \<noteq> []" using BuildChain_cid [OF b] .
  ultimately show ?thesis using tok(1) i utf8_ComputeCID by (intro exI [of _ tok] exI [of _ u] exI [of _ i]) simp
qed

subsection \<open>Properties\<close>

text \<open>C22: Revocation is enforced: once an entry with a denying status for a credential or a principal of a
  chain has been accepted by the cache the verifier consults, no request over that chain is accepted, whatever
  the cache takes in afterwards, unless that brings an entry with a higher sequence number for the subject.\<close>

theorem Revoked_denied:
  assumes "\<And>xs. set (visit xs) = set xs"
    and "BuildChain C (run_delegation (inv_run i)) (effectiveStore C cfg token) (MaxChainDepth cfg) = Inr ch"
    and "Revoke C c0 e = Inr c1" and "cache_run C c1 c" and "denying (re_status e)"
    and "RevocationSource cfg = Some (\<lambda>x. Inr (GetStatus c x))" and "Key (re_subject e) \<in> subjects (Elements ch)"
  shows "\<not> res_OK (fst (Verify_request C visit cfg alog t token (Some i) s))
    \<or> (\<exists>y. rc_entries c (Key (re_subject e)) = Some y \<and> slt (re_seq e) (re_seq y))"
proof -
  have "rc_entries c1 (Key (re_subject e)) = Some e"
    using cache.revoke_latest [OF assms(3)] by simp
  with cache_run_superseded [OF assms(4)] obtain y where
    y: "rc_entries c (Key (re_subject e)) = Some y" "y = e \<or> slt (re_seq e) (re_seq y)"
    unfolding superseded_def by blast
  show ?thesis
  proof (cases "y = e")
    case True
    then have "GetStatus c (Key (re_subject e)) = Some e"
      using y(1) denying_active [OF assms(5)] by (simp add: GetStatus_def)
    from denied_by_cache [of visit, OF assms(1,2,6,7) this assms(5)] show ?thesis by blast
  next
    case False
    with y show ?thesis by blast
  qed
qed

theorem Revoked_denied_witness:
  "\<exists>u i e c. Revoke demo_crypto NewMemoryRevocationCache e = Inr c \<and> re_status e = StatusRevoked
    \<and> \<not> res_OK (fst (Verify_request demo_crypto id
          (sample_config\<lparr>RevocationSource := Some (\<lambda>x. Inr (GetStatus c x))\<rparr>) sample_audit sample_readings (Some u) (Some i) sample_state))"
proof -
  from sample_root_chain obtain tok u and i :: invocation where tok: "utf8_valid (ComputeCID demo_crypto tok)" "ComputeCID demo_crypto tok \<noteq> []"
    and b: "\<And>cfg m. BuildChain demo_crypto (run_delegation (inv_run i)) (effectiveStore demo_crypto cfg (Some u)) m
      = Inr (chain_of [\<lparr>el_body = Token u, el_cid = ComputeCID demo_crypto tok, el_root = True, el_mode = ModeRoot\<rparr>])"
    by blast
  let ?a = "\<lparr>ra_did = EncodeDID (ed_public demo_crypto sample_key), ra_basis = AuthPlatform, ra_proof = []\<rparr>"
  let ?s = "\<lparr>sub_cid = ComputeCID demo_crypto tok, sub_did = []\<rparr>"
  have u: "utf8_valid AuthPlatform \<and> utf8_valid ScopeCredential \<and> utf8_valid StatusRevoked \<and> utf8_valid RevocationEntryTyp" by code_simp
  have v: "ValidateAuthority AuthPlatform StatusRevoked ScopeCredential = Inr ()" by code_simp
  have "\<exists>e. CreateRevocationEntry demo_crypto 7 ?s ScopeCredential StatusRevoked ?a 1 [] sample_key = Inr e
      \<and> signed_entry demo_crypto 7 ?s ScopeCredential StatusRevoked ?a 1 [] sample_key e"
    by (rule CreateRevocationEntry_signed [OF demo_crypto_ok(1) sample_lengths])
      (use tok u v utf8_EncodeDID in \<open>auto simp: Key_def rev_entry_ok_def\<close>)
  then obtain e where e: "signed_entry demo_crypto 7 ?s ScopeCredential StatusRevoked ?a 1 [] sample_key e" by blast
  then obtain c where c: "Revoke demo_crypto NewMemoryRevocationCache e = Inr c" "rc_entries c (Key (re_subject e)) = Some e"
    using tok(2) by (auto simp: Revoke_def signed_entry_def stale_def NewMemoryRevocationCache_def Key_def)
  let ?cfg = "sample_config\<lparr>RevocationSource := Some (\<lambda>x. Inr (GetStatus c x))\<rparr>"
  have st: "re_status e = StatusRevoked" "denying (re_status e)" "Key (re_subject e) = ComputeCID demo_crypto tok"
    using e tok(2) by (simp_all add: signed_entry_def denying_def Key_def)
  then have k: "Key (re_subject e) \<in> subjects (Elements (chain_of
      [\<lparr>el_body = Token u, el_cid = ComputeCID demo_crypto tok, el_root = True, el_mode = ModeRoot\<rparr>]))"
    by (simp add: subjects_def chain_of_def)
  have id: "set (id xs) = set xs" for xs :: "string list" by simp
  have src: "RevocationSource ?cfg = Some (\<lambda>x. Inr (GetStatus c x))" by simp
  from Revoked_denied [of id, OF id b c(1) cache_refl st(2) src k, of sample_audit sample_readings sample_state] c st(1)
  show ?thesis by auto
qed

text \<open>C21: The compromise cascade closes the subtree: after a cascade that reports success, no request is
  accepted whose chain contains the compromised credential, or whose leaf the registration index records
  under it.\<close>

theorem Cascade_denies:
  assumes "\<And>xs. set (visit xs) = set xs"
    and "BuildChain C (run_delegation (inv_run i)) (effectiveStore C cfg token) (MaxChainDepth cfg) = Inr ch"
    and "ExecuteCascade C now cid (\<lambda>x. Inr (FindDescendants idx x)) (Revoke C) (total2 CurrentSeq)
      emergency clog key (c, m, l) = (Inr rep, c', m', l')"
    and "RevocationSource cfg = Some (\<lambda>x. Inr (GetStatus c' x))"
    and "cid \<in> el_cid ` set (Elements ch) \<or> Contains idx (el_cid (Leaf ch)) cid"
  shows "\<not> res_OK (fst (Verify_request C visit cfg alog t token (Some i) s))"
proof -
  have "(\<exists>e. GetStatus c' cid = Some e \<and> re_status e = StatusCompromised)
      \<and> (\<forall>d. Contains idx d cid \<and> d \<noteq> cid \<longrightarrow> (\<exists>e. GetStatus c' d = Some e \<and> re_status e = StatusCascade))"
    using cache.ExecuteCascade_result [OF assms(3)] by (auto simp: FindDescendants_set)
  then have st: "\<exists>e. GetStatus c' d = Some e \<and> denying (re_status e)" if "d = cid \<or> Contains idx d cid" for d
    using that by (cases "d = cid") (fastforce simp: denying_def)+
  have "Leaf ch \<in> set (Elements ch)" using BuildChain_shape [OF assms(2)] by (simp add: Leaf_def)
  with assms(5) have "\<exists>d. d \<in> subjects (Elements ch) \<and> (d = cid \<or> Contains idx d cid)" by (auto simp: subjects_def)
  with st denied_by_cache [of visit, OF assms(1,2,4)] show ?thesis by blast
qed

theorem Cascade_denies_witness:
  "\<exists>cid u i rep c' m' l'. ExecuteCascade demo_crypto 5 cid (\<lambda>x. Inr (FindDescendants NewMemoryRegistrationIndex x))
      (Revoke demo_crypto) (total2 CurrentSeq) (Some Push) None sample_key (NewMemoryRevocationCache, [], ()) = (Inr rep, c', m', l')
    \<and> \<not> res_OK (fst (Verify_request demo_crypto id
          (sample_config\<lparr>RevocationSource := Some (\<lambda>x. Inr (GetStatus c' x))\<rparr>) sample_audit sample_readings (Some u) (Some i) sample_state))"
proof -
  from sample_root_chain obtain tok u and i :: invocation where tok: "utf8_valid (ComputeCID demo_crypto tok)" "ComputeCID demo_crypto tok \<noteq> []"
    and b: "\<And>cfg m. BuildChain demo_crypto (run_delegation (inv_run i)) (effectiveStore demo_crypto cfg (Some u)) m
      = Inr (chain_of [\<lparr>el_body = Token u, el_cid = ComputeCID demo_crypto tok, el_root = True, el_mode = ModeRoot\<rparr>])"
    by blast
  have idx: "index_inv NewMemoryRegistrationIndex" "FindDescendants NewMemoryRegistrationIndex x = []" for x
    by (simp_all add: index_inv_def NewMemoryRegistrationIndex_def index_set_def FindDescendants_def sort_by_def)
  have "\<forall>d \<in> insert (ComputeCID demo_crypto tok) (set (FindDescendants NewMemoryRegistrationIndex (ComputeCID demo_crypto tok))).
      d \<noteq> [] \<and> utf8_valid d \<and> slt (CurrentSeq NewMemoryRevocationCache d) (CurrentSeq NewMemoryRevocationCache d + 1)"
    using tok by (simp add: idx CurrentSeq_def NewMemoryRevocationCache_def)
  from ExecuteCascade_succeeds [OF demo_crypto_ok(1) sample_lengths _ idx(1) this, of None 5 "[]" "()"]
  obtain rep c' m' l' where x: "ExecuteCascade demo_crypto 5 (ComputeCID demo_crypto tok)
      (\<lambda>x. Inr (FindDescendants NewMemoryRegistrationIndex x)) (Revoke demo_crypto) (total2 CurrentSeq) (Some Push) None
      sample_key (NewMemoryRevocationCache, [], ()) = (Inr rep, c', m', l')"
    by (auto simp: audit_accepts_def)
  let ?cfg = "sample_config\<lparr>RevocationSource := Some (\<lambda>x. Inr (GetStatus c' x))\<rparr>"
  have id: "set (id xs) = set xs" for xs :: "string list" by simp
  have src: "RevocationSource ?cfg = Some (\<lambda>x. Inr (GetStatus c' x))" by simp
  from Cascade_denies [of id, OF id b x src] x show ?thesis by (force simp: chain_of_def)
qed

text \<open>C26: Every refusal carries a code that belongs to the step it names, and its external form leaks no
  more than its kind: only step 6 answers \<open>ADTP_REVOKED\<close>, and only a step that depends on a lookup asks
  the caller to retry.\<close>

theorem Verify_error_codes:
  assumes "res_Error (fst (Verify_request C visit cfg alog t token inv' s)) = Some e"
  shows "ve_code e \<in> step_codes (ve_step e) \<and> (External e = ExtRevoked \<longrightarrow> ve_step e = 6)
    \<and> (External e = ExtRetry \<longrightarrow> ve_step e \<in> {1, 4, 6})"
proof -
  have c: "ve_code e \<in> step_codes (ve_step e)" by (rule Verify_error [OF assms])
  have d: "ExtRevoked \<noteq> ExtMalformed" "ExtRevoked \<noteq> ExtDenied" "ExtRevoked \<noteq> ExtRetry"
    "ExtRetry \<noteq> ExtMalformed" "ExtRetry \<noteq> ExtDenied"
    by (simp_all add: ExtRevoked_def ExtMalformed_def ExtDenied_def ExtRetry_def)
  have "External e = ExtRevoked \<longrightarrow> ve_step e = 6" "External e = ExtRetry \<longrightarrow> ve_step e \<in> {1, 4, 6}"
    using c d by (auto simp: External_def step_codes.simps split: if_splits)
  with c show ?thesis by blast
qed

theorem Verify_error_codes_witness:
  "CodePoPFailed \<in> step_codes 10"
proof -
  have "res_Error (fst (Verify_request demo_crypto id sample_config sample_audit sample_readings None None sample_state))
      = Some (verr 10 CodePoPFailed)"
    by (simp add: Verify_request_def fail_def)
  from Verify_error_codes [OF this] show ?thesis by simp
qed

text \<open>The linkage step lets a root that grants no delegation be delegated from: issuing refuses such
  a parent, but a block signed by the root's holder passes the step at any depth that is not negative.\<close>

theorem Undelegable_root_linked:
  assumes "ParentFromUCAN u cid = Inl ErrCannotDelegate" and "el_body parent = Token u" and "el_body child = Block b"
    and "elemIss child = elemAud parent" and "elemParentCID child = el_cid parent"
    and "sle (elemExp child) (elemExp parent)" and "sle (elemNbf parent) (elemNbf child)" and "sle 0 (blk_dl b)"
  shows "step2Linkage (chain_of [child, parent]) = Inr ()"
proof -
  have "elemDelegableDepth parent = None"
    using assms(1,2) by (auto simp: ParentFromUCAN_def delegableDepth_def elemDelegableDepth_def split: option.splits)
  then show ?thesis using assms(3-8) by (simp add: step2_ok chain_of_def attenuates_def)
qed

theorem Undelegable_root_linked_witness:
  "\<exists>u b parent child. u_payload u = sample_grant \<and> ParentFromUCAN u ''r'' = Inl ErrCannotDelegate
    \<and> el_body parent = Token u \<and> el_body child = Block b \<and> blk_dl b = 100
    \<and> step2Linkage (chain_of [child, parent]) = Inr ()"
proof -
  let ?u = "\<lparr>u_header = issued_header, u_payload = sample_grant, u_signature = [], u_signingInput = [], u_raw = []\<rparr>"
  let ?b = "\<lparr>blk_typ = [], blk_iss = pl_aud sample_grant, blk_aud = [], blk_prf = ''r'', blk_nbf = 0, blk_exp = 9, blk_dl = 100,
    blk_cav = [], blk_crit = [], blk_sig = []\<rparr>"
  let ?p = "\<lparr>el_body = Token ?u, el_cid = ''r'', el_root = True, el_mode = ModeRoot\<rparr>"
  let ?c = "\<lparr>el_body = Block ?b, el_cid = ''c'', el_root = False, el_mode = ModeRestrict\<rparr>"
  have "CanToolInvoke \<noteq> CanAgentDelegate" by (simp add: CanToolInvoke_def CanAgentDelegate_def)
  then have "ParentFromUCAN ?u ''r'' = Inl ErrCannotDelegate"
    by (simp add: ParentFromUCAN_def delegableDepth_def sample_grant_def)
  moreover from Undelegable_root_linked [OF this, of ?p ?c ?b] have "step2Linkage (chain_of [?c, ?p]) = Inr ()"
    by (simp add: elemIss_def elemAud_def elemParentCID_def elemExp_def elemNbf_def sample_grant_def)
  ultimately show ?thesis
    by (intro exI [of _ ?u] exI [of _ ?b] exI [of _ ?p] exI [of _ ?c]) simp
qed

end
