(* ===== verification/Siem_Export.thy ===== *)
theory Siem_Export
  imports Audit_Log Go_Int "HOL-Library.Sublist"
begin

text \<open>
  \<open>internal/siem/siem.go\<close>: the exporter's buffer.  A slice expression whose lower bound exceeds
  the length panics; such an operation returns \<open>None\<close>.  Posting a batch over HTTP is an outcome,
  the pending signal of the channel \<open>flushNow\<close> a flag.  Each locked region is one step.
\<close>

subsection \<open>\<open>os.Expand\<close>\<close>

text \<open>The name after a dollar sign and how many bytes it takes; an empty name that takes some is a syntax error
  whose bytes are dropped, an empty name that takes none leaves the dollar sign.\<close>

definition isShellSpecialVar :: "char \<Rightarrow> bool" where
  "isShellSpecialVar c \<longleftrightarrow> c \<in> set ''*#$@!?-'' \<or> is_digit c"

definition isAlphaNum :: "char \<Rightarrow> bool" where
  "isAlphaNum c \<longleftrightarrow> c = CHR ''_'' \<or> is_digit c \<or> is_lower c \<or> is_upper c"

definition getShellName :: "string \<Rightarrow> string \<times> nat" where
  "getShellName s =
     (case s of
        [] \<Rightarrow> ([], 0)
      | c # r \<Rightarrow>
          if c = CHR 0x7B then
            (if length s > 2 \<and> isShellSpecialVar (hd r) \<and> r ! 1 = CHR 0x7D then ([hd r], 3)
             else case index_byte r (CHR 0x7D) of
               Some i \<Rightarrow> (take i r, i + 2)
             | None \<Rightarrow> ([], 1))
          else if isShellSpecialVar c then ([c], 1)
          else let name = takeWhile isAlphaNum s in (name, length name))"

function expand :: "(string \<Rightarrow> string) \<Rightarrow> string \<Rightarrow> string" where
  "expand mapping [] = []"
| "expand mapping (c # r) =
     (if c = CHR ''$'' \<and> r \<noteq> [] then
        (case getShellName r of (name, w) \<Rightarrow>
           (if name \<noteq> [] then mapping name else if w = 0 then [c] else []) @ expand mapping (drop w r))
      else c # expand mapping r)"
  by pat_completeness auto
termination
  by (relation "measure (\<lambda>(m, s). length s)") auto

declare expand.simps [simp del]

definition expandEnv :: "(string \<Rightarrow> string) \<Rightarrow> string \<Rightarrow> string" where
  "expandEnv getenv v = expand getenv v"

subsection \<open>The exporter\<close>

record siem_config =
  cfg_URL :: string
  cfg_Headers :: "(string \<times> string) list"
  cfg_BatchSize :: i64
  cfg_FlushInterval :: i64

definition defaultBatchSize :: i64 where "defaultBatchSize = 100"
definition defaultFlushInterval :: i64 where "defaultFlushInterval = 10000000000"
definition maxBufferedFactor :: i64 where "maxBufferedFactor = 10"

record exporter =
  ex_url :: string
  ex_headers :: "(string \<times> string) list"
  ex_batchSize :: i64
  ex_flushInterval :: i64
  ex_maxBuffered :: i64
  ex_buf :: "audit_entry list"
  ex_flushNow :: bool

definition NewExporter :: "(string \<Rightarrow> string) \<Rightarrow> siem_config \<Rightarrow> exporter" where
  "NewExporter getenv cfg =
     (let batchSize = (if sle (cfg_BatchSize cfg) 0 then defaultBatchSize else cfg_BatchSize cfg);
          interval = (if sle (cfg_FlushInterval cfg) 0 then defaultFlushInterval else cfg_FlushInterval cfg)
      in \<lparr>ex_url = cfg_URL cfg, ex_headers = map (\<lambda>(k, v). (k, expandEnv getenv v)) (cfg_Headers cfg), ex_batchSize = batchSize, ex_flushInterval = interval,
          ex_maxBuffered = batchSize * maxBufferedFactor, ex_buf = [], ex_flushNow = False\<rparr>)"

text \<open>Dropping the oldest entries over the cap.\<close>

definition cap_buffer :: "i64 \<Rightarrow> audit_entry list \<Rightarrow> audit_entry list option" where
  "cap_buffer maxBuffered buf =
     (if sint maxBuffered < int (length buf) then
        (let excess = int (length buf) - sint maxBuffered in
         if int (length buf) < excess then None else Some (drop (nat excess) buf))
      else Some buf)"

definition Enqueue :: "exporter \<Rightarrow> audit_entry \<Rightarrow> exporter option" where
  "Enqueue e entry =
     (case cap_buffer (ex_maxBuffered e) (ex_buf e @ [entry]) of
        None \<Rightarrow> None
      | Some buf \<Rightarrow> Some (e\<lparr>ex_buf := buf,
          ex_flushNow := ex_flushNow e \<or> sint (ex_batchSize e) \<le> int (length buf)\<rparr>))"

text \<open>\<open>Flush\<close> takes the buffer in one locked region and, when the post failed, puts the batch
  back in front of what arrived meanwhile in another.\<close>

definition takeBatch :: "exporter \<Rightarrow> (audit_entry list \<times> exporter) option" where
  "takeBatch e = (if ex_buf e = [] then None else Some (ex_buf e, e\<lparr>ex_buf := []\<rparr>))"

definition requeue :: "exporter \<Rightarrow> audit_entry list \<Rightarrow> exporter option" where
  "requeue e batch =
     (case cap_buffer (ex_maxBuffered e) (batch @ ex_buf e) of
        None \<Rightarrow> None
      | Some buf \<Rightarrow> Some (e\<lparr>ex_buf := buf\<rparr>))"

text \<open>A flush during which the sink accepts or refuses and no other operation runs.\<close>

definition Flush :: "bool \<Rightarrow> exporter \<Rightarrow> exporter option" where
  "Flush accepted e =
     (case takeBatch e of
        None \<Rightarrow> Some e
      | Some (batch, e') \<Rightarrow> if accepted then Some e' else requeue e' batch)"

definition Buffered :: "exporter \<Rightarrow> nat" where
  "Buffered e = length (ex_buf e)"

subsection \<open>The export as a state machine\<close>

text \<open>One flusher runs beside any number of enqueuing requests, and may take the pending signal.  The
  machine also records what was enqueued and what the sink has accepted.\<close>

record export_state =
  xs_exporter :: exporter
  xs_inflight :: "audit_entry list"
  xs_enqueued :: "audit_entry list"
  xs_accepted :: "audit_entry list"

definition export_init :: "(string \<Rightarrow> string) \<Rightarrow> siem_config \<Rightarrow> export_state" where
  "export_init getenv cfg = \<lparr>xs_exporter = NewExporter getenv cfg, xs_inflight = [], xs_enqueued = [], xs_accepted = []\<rparr>"

inductive export_step :: "export_state \<Rightarrow> export_state \<Rightarrow> bool" where
  step_enqueue: "Enqueue (xs_exporter s) entry = Some e
    \<Longrightarrow> export_step s (s\<lparr>xs_exporter := e, xs_enqueued := xs_enqueued s @ [entry]\<rparr>)"
| step_take: "xs_inflight s = [] \<Longrightarrow> takeBatch (xs_exporter s) = Some (batch, e)
    \<Longrightarrow> export_step s (s\<lparr>xs_exporter := e, xs_inflight := batch\<rparr>)"
| step_accepted: "xs_inflight s \<noteq> []
    \<Longrightarrow> export_step s (s\<lparr>xs_inflight := [], xs_accepted := xs_accepted s @ xs_inflight s\<rparr>)"
| step_refused: "xs_inflight s \<noteq> [] \<Longrightarrow> requeue (xs_exporter s) (xs_inflight s) = Some e
    \<Longrightarrow> export_step s (s\<lparr>xs_exporter := e, xs_inflight := []\<rparr>)"
| step_signal: "export_step s (s\<lparr>xs_exporter := (xs_exporter s)\<lparr>ex_flushNow := False\<rparr>\<rparr>)"

inductive export_run :: "(string \<Rightarrow> string) \<Rightarrow> siem_config \<Rightarrow> export_state \<Rightarrow> bool" for getenv cfg where
  export_start: "export_run getenv cfg (export_init getenv cfg)"
| export_more: "export_run getenv cfg s \<Longrightarrow> export_step s s' \<Longrightarrow> export_run getenv cfg s'"

inductive_cases export_stepE: "export_step s s'"

definition batch_ok :: "siem_config \<Rightarrow> bool" where
  "batch_ok cfg \<longleftrightarrow> sint (cfg_BatchSize cfg) \<le> 2 ^ 59"

lemma maxBuffered_value:
  assumes "batch_ok cfg"
  shows "0 < sint (ex_batchSize (NewExporter getenv cfg))"
    and "sint (ex_maxBuffered (NewExporter getenv cfg)) = 10 * sint (ex_batchSize (NewExporter getenv cfg))"
proof -
  let ?b = "ex_batchSize (NewExporter getenv cfg)"
  have b: "0 < sint ?b" "sint ?b \<le> 2 ^ 59"
    using assms by (auto simp: NewExporter_def Let_def batch_ok_def defaultBatchSize_def)
  have "?b * maxBufferedFactor = word_of_int (sint ?b * 10)"
    by (simp add: wi_hom_mult [symmetric] maxBufferedFactor_def)
  moreover have "ex_maxBuffered (NewExporter getenv cfg) = ?b * maxBufferedFactor" by (simp add: NewExporter_def Let_def)
  ultimately show "sint (ex_maxBuffered (NewExporter getenv cfg)) = 10 * sint ?b"
    using b i64_of_int [of "sint ?b * 10"] by simp
  show "0 < sint ?b" by (rule b)
qed

lemma cap_buffer_some:
  assumes "0 \<le> sint m"
  shows "\<exists>d b. cap_buffer m buf = Some b \<and> b = drop d buf \<and> int (length b) \<le> sint m
    \<and> (int (length buf) \<le> sint m \<longrightarrow> b = buf)"
proof (cases "sint m < int (length buf)")
  case True
  let ?d = "nat (int (length buf) - sint m)"
  have "cap_buffer m buf = Some (drop ?d buf)" "int (length (drop ?d buf)) \<le> sint m"
    using True assms by (auto simp: cap_buffer_def Let_def)
  then show ?thesis using True by (intro exI [of _ ?d] exI [of _ "drop ?d buf"]) auto
next
  case False
  then show ?thesis by (intro exI [of _ 0] exI [of _ buf]) (simp add: cap_buffer_def)
qed

lemma subseq_drop: "subseq (xs @ drop n ys) (xs @ ys)"
  by (rule list_emb_append_mono) (auto intro: suffix_imp_subseq suffix_drop)

definition export_inv :: "(string \<Rightarrow> string) \<Rightarrow> siem_config \<Rightarrow> export_state \<Rightarrow> bool" where
  "export_inv getenv cfg s \<longleftrightarrow> ex_maxBuffered (xs_exporter s) = ex_maxBuffered (NewExporter getenv cfg)
     \<and> ex_batchSize (xs_exporter s) = ex_batchSize (NewExporter getenv cfg)
     \<and> int (length (ex_buf (xs_exporter s))) \<le> sint (ex_maxBuffered (NewExporter getenv cfg))
     \<and> int (length (xs_inflight s)) \<le> sint (ex_maxBuffered (NewExporter getenv cfg))
     \<and> subseq (xs_accepted s @ xs_inflight s @ ex_buf (xs_exporter s)) (xs_enqueued s)"

lemma export_step_inv:
  assumes "batch_ok cfg" and "export_inv getenv cfg s" and "export_step s s'"
  shows "export_inv getenv cfg s'"
proof -
  let ?m = "ex_maxBuffered (NewExporter getenv cfg)"
  have m: "0 \<le> sint ?m" using maxBuffered_value [OF assms(1), of getenv] by simp
  from assms(3) show ?thesis
  proof cases
    case (step_enqueue entry e)
    let ?b = "ex_buf (xs_exporter s)"
    from cap_buffer_some [OF m, of "?b @ [entry]"] obtain d b where
      b: "cap_buffer ?m (?b @ [entry]) = Some b" "b = drop d (?b @ [entry])" "int (length b) \<le> sint ?m" by blast
    have "subseq (xs_accepted s @ xs_inflight s @ b) (xs_accepted s @ xs_inflight s @ ?b @ [entry])"
      using subseq_drop [of "xs_accepted s @ xs_inflight s" d "?b @ [entry]"] by (simp add: b(2))
    also have "subseq \<dots> (xs_enqueued s @ [entry])"
      using assms(2) list_emb_append_mono [of _ "xs_accepted s @ xs_inflight s @ ?b" "xs_enqueued s" "[entry]" "[entry]"]
      by (simp add: export_inv_def)
    finally show ?thesis using step_enqueue b assms(2)
      by (auto simp: export_inv_def Enqueue_def)
  next
    case (step_take batch e)
    then show ?thesis using assms(2) m by (auto simp: export_inv_def takeBatch_def split: if_splits)
  next
    case step_accepted
    then show ?thesis using assms(2) m by (auto simp: export_inv_def)
  next
    case (step_refused e)
    let ?b = "xs_inflight s @ ex_buf (xs_exporter s)"
    from cap_buffer_some [OF m, of ?b] obtain d b where
      b: "cap_buffer ?m ?b = Some b" "b = drop d ?b" "int (length b) \<le> sint ?m" by blast
    have "subseq (xs_accepted s @ b) (xs_accepted s @ ?b)"
      unfolding b(2) by (rule subseq_drop)
    then have "subseq (xs_accepted s @ b) (xs_enqueued s)"
      using assms(2) by (auto simp: export_inv_def intro: subseq_order.order_trans)
    then show ?thesis using step_refused b assms(2) m by (auto simp: export_inv_def requeue_def)
  next
    case step_signal
    then show ?thesis using assms(2) by (simp add: export_inv_def)
  qed
qed

lemma export_run_inv:
  assumes "batch_ok cfg" and "export_run getenv cfg s"
  shows "export_inv getenv cfg s"
  using assms(2)
proof (induction rule: export_run.induct)
  case export_start
  then show ?case using maxBuffered_value [OF assms(1), of getenv] by (simp add: export_inv_def export_init_def NewExporter_def Let_def)
next
  case (export_more s s')
  then show ?case using export_step_inv [OF assms(1)] by blast
qed

text \<open>No operation panics.\<close>

lemma export_progress:
  assumes "batch_ok cfg" and "export_inv getenv cfg s"
  shows "\<exists>e. Enqueue (xs_exporter s) entry = Some e" and "\<exists>e. requeue (xs_exporter s) batch = Some e"
    and "\<exists>e. Flush accepted (xs_exporter s) = Some e"
proof -
  have m: "0 \<le> sint (ex_maxBuffered (xs_exporter s))"
    using maxBuffered_value [OF assms(1), of getenv] assms(2) by (simp add: export_inv_def)
  show "\<exists>e. Enqueue (xs_exporter s) entry = Some e"
    using cap_buffer_some [OF m, of "ex_buf (xs_exporter s) @ [entry]"] by (auto simp: Enqueue_def)
  show "\<exists>e. requeue (xs_exporter s) batch = Some e"
    using cap_buffer_some [OF m, of "batch @ ex_buf (xs_exporter s)"] by (auto simp: requeue_def)
  show "\<exists>e. Flush accepted (xs_exporter s) = Some e"
    using cap_buffer_some [OF m, of "ex_buf (xs_exporter s)"]
    by (auto simp: Flush_def takeBatch_def requeue_def split: option.splits)
qed

text \<open>The buffer holds at most ten batches, and what the sink has accepted, then the batch in flight, then the
  buffer, is a subsequence of what was enqueued.\<close>

lemma export_bounded:
  assumes "batch_ok cfg" and "export_run getenv cfg s"
  shows "int (Buffered (xs_exporter s)) \<le> 10 * sint (ex_batchSize (xs_exporter s))"
    and "subseq (xs_accepted s @ xs_inflight s @ ex_buf (xs_exporter s)) (xs_enqueued s)"
    and "Enqueue (xs_exporter s) entry \<noteq> None" and "Flush accepted (xs_exporter s) \<noteq> None"
  using export_run_inv [OF assms] maxBuffered_value(2) [OF assms(1), of getenv] export_progress [OF assms(1) export_run_inv [OF assms]]
  by (auto simp: export_inv_def Buffered_def)

end
