(* ===== verification/Siem_Loop.thy ===== *)
theory Siem_Loop
  imports Siem_Export
begin

text \<open>
  The rest of \<open>internal/siem/siem.go\<close>: the request a batch is posted with, and the flush loop of \<open>Start\<close> as a
  state machine beside any number of enqueuing callers.  The loop is a refinement of the buffer's machine of
  \<open>Siem_Export\<close>.  The body of a request is the JSON value it encodes; what becomes of a request is an outcome.
\<close>

subsection \<open>Posting a batch\<close>

definition exported_json :: "audit_entry \<Rightarrow> json" where
  "exported_json e =
     JObj ([(''entry_id'', JStr (ae_id e)), (''seq'', json_int (ae_seq e)), (''ts'', json_int (ae_ts e)),
        (''event_type'', JStr (ae_type e)), (''agent_id'', JStr (ae_agent e))]
      @ (if ae_cred e = [] then [] else [(''cred_cid'', JStr (ae_cred e))])
      @ (if ae_chain e = [] then [] else [(''chain_hash'', JStr (ae_chain e))])
      @ [(''payload'', case ae_payload e of None \<Rightarrow> JNull | Some ms \<Rightarrow> JObj ms),
        (''prev_hash'', JStr (ae_prev e)), (''entry_hash'', JStr (ae_hash e))])"

record post_request =
  po_url :: string
  po_headers :: "(string \<times> string) list"
  po_body :: json

datatype sink_outcome = BadRequest | NoAnswer | Answered int

definition request_of :: "exporter \<Rightarrow> audit_entry list \<Rightarrow> post_request" where
  "request_of e batch =
     \<lparr>po_url = ex_url e, po_headers = (''Content-Type'', ''application/json'') # ex_headers e,
      po_body = JArr (map exported_json batch)\<rparr>"

definition post :: "(post_request \<Rightarrow> sink_outcome) \<Rightarrow> exporter \<Rightarrow> audit_entry list \<Rightarrow> bool" where
  "post sink e batch =
     (case sink (request_of e batch) of
        BadRequest \<Rightarrow> False
      | NoAnswer \<Rightarrow> False
      | Answered status \<Rightarrow> \<not> 300 \<le> status)"

subsection \<open>The loop of \<open>Start\<close>\<close>

text \<open>The loop selects among the ticker, the channel \<open>flushNow\<close> and the context; then it is inside \<open>post\<close>, for
  the last time when the context was done; then it has returned.  The state also records what was enqueued, what
  the sink has accepted and whether the last flush failed.\<close>

datatype phase = Selecting | Posting bool "audit_entry list" | Ended

record loop_state =
  lp_exporter :: exporter
  lp_phase :: phase
  lp_cancelled :: bool
  lp_enqueued :: "audit_entry list"
  lp_accepted :: "audit_entry list"
  lp_refused :: bool

definition loop_init :: "(string \<Rightarrow> string) \<Rightarrow> siem_config \<Rightarrow> loop_state" where
  "loop_init getenv cfg = \<lparr>lp_exporter = NewExporter getenv cfg, lp_phase = Selecting, lp_cancelled = False,
     lp_enqueued = [], lp_accepted = [], lp_refused = False\<rparr>"

definition after_flush :: "bool \<Rightarrow> phase" where
  "after_flush final = (if final then Ended else Selecting)"

text \<open>The first locked region of \<open>Flush\<close>, and what follows \<open>post\<close>.\<close>

definition begin_flush :: "bool \<Rightarrow> loop_state \<Rightarrow> loop_state" where
  "begin_flush final s =
     (case takeBatch (lp_exporter s) of
        None \<Rightarrow> s\<lparr>lp_phase := after_flush final, lp_refused := False\<rparr>
      | Some (batch, e) \<Rightarrow> s\<lparr>lp_exporter := e, lp_phase := Posting final batch\<rparr>)"

definition end_flush :: "bool \<Rightarrow> bool \<Rightarrow> audit_entry list \<Rightarrow> loop_state \<Rightarrow> loop_state option" where
  "end_flush ok final batch s =
     (if ok then Some (s\<lparr>lp_phase := after_flush final, lp_accepted := lp_accepted s @ batch, lp_refused := False\<rparr>)
      else map_option (\<lambda>e. s\<lparr>lp_exporter := e, lp_phase := after_flush final, lp_refused := True\<rparr>)
        (requeue (lp_exporter s) batch))"

inductive loop_step :: "loop_state \<Rightarrow> loop_state \<Rightarrow> bool" where
  loop_enqueue: "Enqueue (lp_exporter s) entry = Some e
    \<Longrightarrow> loop_step s (s\<lparr>lp_exporter := e, lp_enqueued := lp_enqueued s @ [entry]\<rparr>)"
| loop_cancel: "loop_step s (s\<lparr>lp_cancelled := True\<rparr>)"
| loop_tick: "lp_phase s = Selecting \<Longrightarrow> loop_step s (begin_flush False s)"
| loop_signal: "lp_phase s = Selecting \<Longrightarrow> ex_flushNow (lp_exporter s)
    \<Longrightarrow> loop_step s (begin_flush False (s\<lparr>lp_exporter := (lp_exporter s)\<lparr>ex_flushNow := False\<rparr>\<rparr>))"
| loop_done: "lp_phase s = Selecting \<Longrightarrow> lp_cancelled s \<Longrightarrow> loop_step s (begin_flush True s)"
| loop_posted: "lp_phase s = Posting final batch \<Longrightarrow> end_flush (post sink (lp_exporter s) batch) final batch s = Some s'
    \<Longrightarrow> loop_step s s'"

inductive_cases loop_stepE: "loop_step s s'"

abbreviation loop_reachable :: "(string \<Rightarrow> string) \<Rightarrow> siem_config \<Rightarrow> loop_state \<Rightarrow> bool" where
  "loop_reachable getenv cfg \<equiv> loop_step\<^sup>*\<^sup>* (loop_init getenv cfg)"

subsection \<open>The loop refines the buffer's machine\<close>

fun inflight :: "phase \<Rightarrow> audit_entry list" where
  "inflight (Posting final batch) = batch"
| "inflight _ = []"

definition buffer_view :: "loop_state \<Rightarrow> export_state" where
  "buffer_view s = \<lparr>xs_exporter = lp_exporter s, xs_inflight = inflight (lp_phase s), xs_enqueued = lp_enqueued s,
     xs_accepted = lp_accepted s\<rparr>"

definition posting_ok :: "loop_state \<Rightarrow> bool" where
  "posting_ok s \<longleftrightarrow> (\<forall>final. lp_phase s \<noteq> Posting final []) \<and> (lp_phase s = Ended \<longrightarrow> lp_cancelled s)
     \<and> (\<forall>batch. lp_phase s = Posting True batch \<longrightarrow> lp_cancelled s)"

lemma inflight_after [simp]: "inflight (after_flush final) = []"
  by (simp add: after_flush_def)

lemma begin_flush_sim:
  assumes "export_run getenv cfg (buffer_view s)" and "lp_phase s = Selecting"
  shows "export_run getenv cfg (buffer_view (begin_flush final s))"
proof (cases "takeBatch (lp_exporter s)")
  case None
  with assms show ?thesis by (simp add: begin_flush_def buffer_view_def)
next
  case (Some p)
  then obtain batch e where p: "takeBatch (lp_exporter s) = Some (batch, e)" by (cases p) auto
  have "export_step (buffer_view s) ((buffer_view s)\<lparr>xs_exporter := e, xs_inflight := batch\<rparr>)"
    by (rule step_take) (simp_all add: buffer_view_def assms(2) p)
  from export_more [OF assms(1) this] show ?thesis by (simp add: begin_flush_def p buffer_view_def)
qed

lemma end_flush_sim:
  assumes "export_run getenv cfg (buffer_view s)" and "lp_phase s = Posting final batch" and "batch \<noteq> []"
    and "end_flush ok final batch s = Some s'"
  shows "export_run getenv cfg (buffer_view s')"
proof (cases ok)
  case True
  have "export_step (buffer_view s) ((buffer_view s)\<lparr>xs_inflight := [], xs_accepted := xs_accepted (buffer_view s) @ xs_inflight (buffer_view s)\<rparr>)"
    by (rule step_accepted) (simp add: buffer_view_def assms(2,3))
  from export_more [OF assms(1) this] True assms(2,4) show ?thesis by (auto simp: end_flush_def buffer_view_def)
next
  case False
  with assms(4) obtain e where e: "requeue (lp_exporter s) batch = Some e" "s' = s\<lparr>lp_exporter := e, lp_phase := after_flush final, lp_refused := True\<rparr>"
    by (auto simp: end_flush_def)
  have "export_step (buffer_view s) ((buffer_view s)\<lparr>xs_exporter := e, xs_inflight := []\<rparr>)"
    by (rule step_refused) (simp_all add: buffer_view_def assms(2,3) e(1))
  from export_more [OF assms(1) this] show ?thesis by (simp add: buffer_view_def e(2))
qed

lemma posting_ok_begin: "posting_ok s \<Longrightarrow> (final \<longrightarrow> lp_cancelled s) \<Longrightarrow> posting_ok (begin_flush final s)"
  by (auto simp: posting_ok_def begin_flush_def takeBatch_def after_flush_def split: option.splits if_splits)

lemma posting_ok_end:
  "posting_ok s \<Longrightarrow> lp_phase s = Posting final batch \<Longrightarrow> end_flush ok final batch s = Some s' \<Longrightarrow> posting_ok s'"
  by (auto simp: posting_ok_def end_flush_def after_flush_def split: if_splits)

text \<open>Every step of the loop is a step of the buffer's machine, or none, or two.\<close>

lemma loop_step_sim:
  assumes "loop_step s s'" and "export_run getenv cfg (buffer_view s)" and "posting_ok s"
  shows "export_run getenv cfg (buffer_view s') \<and> posting_ok s'"
  using assms(1)
proof cases
  case (loop_enqueue entry e)
  have "export_step (buffer_view s) ((buffer_view s)\<lparr>xs_exporter := e, xs_enqueued := xs_enqueued (buffer_view s) @ [entry]\<rparr>)"
    by (rule step_enqueue) (simp add: buffer_view_def loop_enqueue)
  from export_more [OF assms(2) this] assms(3) loop_enqueue(1) show ?thesis by (simp add: buffer_view_def posting_ok_def)
next
  case loop_cancel
  with assms(2,3) show ?thesis by (auto simp: buffer_view_def posting_ok_def)
next
  case loop_tick
  with begin_flush_sim [OF assms(2)] posting_ok_begin [OF assms(3), of False] show ?thesis by simp
next
  case loop_signal
  let ?t = "s\<lparr>lp_exporter := (lp_exporter s)\<lparr>ex_flushNow := False\<rparr>\<rparr>"
  have "export_step (buffer_view s) (buffer_view ?t)"
    using step_signal [of "buffer_view s"] by (simp add: buffer_view_def)
  from export_more [OF assms(2) this] begin_flush_sim [of getenv cfg ?t] posting_ok_begin [of ?t False] loop_signal assms(3)
  show ?thesis by (simp add: posting_ok_def)
next
  case loop_done
  with begin_flush_sim [OF assms(2)] posting_ok_begin [OF assms(3), of True] show ?thesis by simp
next
  case (loop_posted final batch sink)
  with assms(3) have "batch \<noteq> []" by (auto simp: posting_ok_def)
  with end_flush_sim [OF assms(2) loop_posted(1) _ loop_posted(2)] posting_ok_end [OF assms(3) loop_posted] show ?thesis by blast
qed

lemma loop_refines:
  assumes "loop_reachable getenv cfg s"
  shows "export_run getenv cfg (buffer_view s) \<and> posting_ok s"
  using assms
proof (induction rule: rtranclp_induct)
  case base
  have "buffer_view (loop_init getenv cfg) = export_init getenv cfg"
    by (simp add: buffer_view_def loop_init_def export_init_def)
  then show ?case using export_start [of getenv cfg] by (simp add: posting_ok_def loop_init_def)
next
  case (step t u)
  then show ?case using loop_step_sim by blast
qed

subsection \<open>Shutting down\<close>

text \<open>What the exporter owes: all that has been accepted, the batch being posted and the buffer, in order.\<close>

definition owed :: "loop_state \<Rightarrow> audit_entry list" where
  "owed s = lp_accepted s @ inflight (lp_phase s) @ ex_buf (lp_exporter s)"

text \<open>The buffer's cap leaves room for what is pending and for the entries that are still to come.\<close>

definition room :: "loop_state \<Rightarrow> audit_entry list \<Rightarrow> bool" where
  "room s new \<longleftrightarrow> int (length (inflight (lp_phase s) @ ex_buf (lp_exporter s) @ new)) \<le> sint (ex_maxBuffered (lp_exporter s))"

text \<open>From every reachable state the loop ends once its context is done, and when the sink takes what it is then
  sent, nothing that was still buffered is lost.\<close>

lemma flush_accepted:
  assumes "lp_phase s = Posting final batch"
  shows "loop_step s (s\<lparr>lp_phase := after_flush final, lp_accepted := lp_accepted s @ batch, lp_refused := False\<rparr>)"
  using loop_posted [OF assms, of "\<lambda>_. Answered 200"] by (simp add: end_flush_def post_def)

lemma select_ends:
  assumes "lp_phase t = Selecting" and "lp_cancelled t"
  shows "\<exists>s'. loop_step\<^sup>*\<^sup>* t s' \<and> lp_phase s' = Ended \<and> \<not> lp_refused s' \<and> ex_buf (lp_exporter s') = []
    \<and> lp_enqueued s' = lp_enqueued t \<and> lp_accepted s' = owed t"
proof (cases "ex_buf (lp_exporter t) = []")
  case True
  with loop_done [OF assms] assms(1) show ?thesis
    by (intro exI [of _ "begin_flush True t"]) (auto simp: begin_flush_def takeBatch_def after_flush_def owed_def)
next
  case False
  let ?u = "begin_flush True t"
  have u: "lp_phase ?u = Posting True (ex_buf (lp_exporter t))" "ex_buf (lp_exporter ?u) = []" "lp_accepted ?u = lp_accepted t"
    "lp_enqueued ?u = lp_enqueued t"
    using False by (simp_all add: begin_flush_def takeBatch_def)
  let ?v = "?u\<lparr>lp_phase := after_flush True, lp_accepted := lp_accepted ?u @ ex_buf (lp_exporter t), lp_refused := False\<rparr>"
  from loop_done [OF assms] flush_accepted [OF u(1)] have "loop_step\<^sup>*\<^sup>* t ?v" by auto
  with u assms(1) show ?thesis by (intro exI [of _ ?v]) (simp add: after_flush_def owed_def)
qed

lemma loop_ends:
  assumes "lp_phase s \<noteq> Ended" and "lp_cancelled s" and "\<forall>batch. lp_phase s \<noteq> Posting True batch"
  shows "\<exists>s'. loop_step\<^sup>*\<^sup>* s s' \<and> lp_phase s' = Ended \<and> \<not> lp_refused s' \<and> ex_buf (lp_exporter s') = []
    \<and> lp_enqueued s' = lp_enqueued s \<and> lp_accepted s' = owed s"
proof (cases "lp_phase s")
  case Selecting
  then show ?thesis using select_ends assms(2) by blast
next
  case (Posting final batch)
  with assms(3) have p: "lp_phase s = Posting False batch" by (cases final) auto
  let ?t = "s\<lparr>lp_phase := after_flush False, lp_accepted := lp_accepted s @ batch, lp_refused := False\<rparr>"
  have "owed ?t = owed s" using p by (simp add: owed_def after_flush_def)
  with select_ends [of ?t] assms(2) obtain s' where "loop_step\<^sup>*\<^sup>* ?t s'" "lp_phase s' = Ended" "\<not> lp_refused s'"
    "ex_buf (lp_exporter s') = []" "lp_enqueued s' = lp_enqueued s" "lp_accepted s' = owed s"
    by (auto simp: after_flush_def)
  with flush_accepted [OF p] show ?thesis by (meson converse_rtranclp_into_rtranclp)
qed (use assms(1) in simp)

text \<open>However the loop goes on: while the cap leaves room, what is owed only grows by what is enqueued, and the last
  flush starts with everything that was pending.\<close>

definition draining :: "loop_state \<Rightarrow> audit_entry list \<Rightarrow> loop_state \<Rightarrow> bool" where
  "draining s new t \<longleftrightarrow> owed t = owed s @ new \<and> prefix (lp_accepted s) (lp_accepted t)
     \<and> (\<forall>b. lp_phase t = Posting True b \<longrightarrow> prefix (owed s) (lp_accepted t @ b))
     \<and> (lp_phase t = Ended \<and> \<not> lp_refused t \<longrightarrow> prefix (owed s) (lp_accepted t))"

definition kept :: "loop_state \<Rightarrow> loop_state \<Rightarrow> bool" where
  "kept s t \<longleftrightarrow> ex_maxBuffered (lp_exporter t) = ex_maxBuffered (lp_exporter s)
     \<and> (\<exists>new. lp_enqueued t = lp_enqueued s @ new \<and> (room s new \<longrightarrow> draining s new t))"

lemma room_pending:
  assumes "draining s new t" and "room s new'" and "length new \<le> length new'"
    and "ex_maxBuffered (lp_exporter t) = ex_maxBuffered (lp_exporter s)"
  shows "int (length (inflight (lp_phase t) @ ex_buf (lp_exporter t)) + (length new' - length new)) \<le> sint (ex_maxBuffered (lp_exporter t))"
proof -
  from assms(1) obtain more where "lp_accepted t = lp_accepted s @ more" by (auto simp: draining_def prefix_def)
  with assms(1) have "more @ inflight (lp_phase t) @ ex_buf (lp_exporter t) = inflight (lp_phase s) @ ex_buf (lp_exporter s) @ new"
    by (simp add: draining_def owed_def)
  from arg_cong [OF this, of length] assms(2-4) show ?thesis by (simp add: room_def)
qed

lemma begin_flush_kept:
  assumes "kept s t" and "lp_phase t = Selecting"
  shows "kept s (begin_flush final t)"
proof -
  have "draining s new (begin_flush final t)" if "draining s new t" for new
    using that assms(2) by (auto simp: draining_def begin_flush_def takeBatch_def after_flush_def owed_def split: option.splits if_splits)
  moreover have "lp_enqueued (begin_flush final t) = lp_enqueued t"
    "ex_maxBuffered (lp_exporter (begin_flush final t)) = ex_maxBuffered (lp_exporter t)"
    by (auto simp: begin_flush_def takeBatch_def split: option.splits if_splits)
  ultimately show ?thesis using assms(1) by (auto simp: kept_def)
qed

lemma end_flush_kept:
  assumes "kept s t" and "lp_phase t = Posting final batch" and "end_flush ok final batch t = Some u"
  shows "kept s u"
proof -
  from assms(1) obtain new where new: "lp_enqueued t = lp_enqueued s @ new" "room s new \<Longrightarrow> draining s new t"
    and m: "ex_maxBuffered (lp_exporter t) = ex_maxBuffered (lp_exporter s)" by (auto simp: kept_def)
  have "draining s new u" if r: "room s new"
  proof (cases ok)
    case True
    with assms(2,3) new(2) [OF r] show ?thesis
      by (auto simp: draining_def end_flush_def after_flush_def owed_def prefix_order.order_trans split: if_splits)
  next
    case False
    have "cap_buffer (ex_maxBuffered (lp_exporter t)) (batch @ ex_buf (lp_exporter t)) = Some (batch @ ex_buf (lp_exporter t))"
      using room_pending [OF new(2) [OF r] r order_refl m] assms(2) by (simp add: cap_buffer_def)
    with False assms(2,3) new(2) [OF r] show ?thesis
      by (auto simp: draining_def end_flush_def after_flush_def owed_def requeue_def split: if_splits)
  qed
  moreover have "lp_enqueued u = lp_enqueued t" "ex_maxBuffered (lp_exporter u) = ex_maxBuffered (lp_exporter t)"
    using assms(3) by (auto simp: end_flush_def requeue_def split: if_splits option.splits)
  ultimately show ?thesis using new(1) m by (auto simp: kept_def)
qed

lemma enqueue_kept:
  assumes "kept s t" and "Enqueue (lp_exporter t) entry = Some e"
  shows "kept s (t\<lparr>lp_exporter := e, lp_enqueued := lp_enqueued t @ [entry]\<rparr>)"
proof -
  from assms(1) obtain new where new: "lp_enqueued t = lp_enqueued s @ new" "room s new \<Longrightarrow> draining s new t"
    and m: "ex_maxBuffered (lp_exporter t) = ex_maxBuffered (lp_exporter s)" by (auto simp: kept_def)
  have "draining s (new @ [entry]) (t\<lparr>lp_exporter := e, lp_enqueued := lp_enqueued t @ [entry]\<rparr>)" if r: "room s (new @ [entry])"
  proof -
    have d: "draining s new t" using new(2) r by (simp add: room_def)
    have "ex_buf e = ex_buf (lp_exporter t) @ [entry]"
      using room_pending [OF d r _ m] assms(2) by (auto simp: Enqueue_def cap_buffer_def)
    with d show ?thesis by (auto simp: draining_def owed_def)
  qed
  moreover have "ex_maxBuffered e = ex_maxBuffered (lp_exporter t)" using assms(2) by (auto simp: Enqueue_def split: option.splits)
  ultimately show ?thesis using new(1) m by (auto simp: kept_def)
qed

lemma signal_kept: "kept s t \<Longrightarrow> kept s (t\<lparr>lp_exporter := (lp_exporter t)\<lparr>ex_flushNow := b\<rparr>\<rparr>)"
  by (auto simp: kept_def draining_def owed_def)

lemma loop_step_kept:
  assumes "loop_step t u" and "kept s t"
  shows "kept s u"
  using assms(1)
proof cases
  case loop_enqueue
  then show ?thesis using enqueue_kept [OF assms(2)] by simp
next
  case loop_cancel
  then show ?thesis using assms(2) by (auto simp: kept_def draining_def owed_def)
next
  case loop_signal
  then show ?thesis using begin_flush_kept [OF signal_kept [OF assms(2)]] by simp
next
  case (loop_posted final batch sink)
  then show ?thesis using end_flush_kept [OF assms(2)] by blast
qed (use begin_flush_kept [OF assms(2)] in simp_all)

lemma loop_kept:
  assumes "loop_step\<^sup>*\<^sup>* s t" and "lp_phase s \<noteq> Ended" and "\<forall>batch. lp_phase s \<noteq> Posting True batch"
  shows "kept s t"
  using assms(1)
proof (induction rule: rtranclp_induct)
  case base
  then show ?case using assms(2,3) by (simp add: kept_def draining_def)
next
  case (step t u)
  then show ?case using loop_step_kept by blast
qed

subsection \<open>Properties\<close>

text \<open>C38: Export is bounded, in order and without duplicates: whatever callers enqueue and whatever the sink answers,
  the buffer holds at most ten batches, and what the sink has accepted, then the batch being posted, then the
  buffer, is a subsequence of what was enqueued; no operation panics for batch sizes up to \<open>2 ^ 59\<close>.\<close>

theorem Siem_export_bounded:
  assumes "batch_ok cfg" and "loop_reachable getenv cfg s"
  shows "int (Buffered (lp_exporter s)) \<le> 10 * sint (ex_batchSize (lp_exporter s))
    \<and> subseq (lp_accepted s @ inflight (lp_phase s) @ ex_buf (lp_exporter s)) (lp_enqueued s)
    \<and> Enqueue (lp_exporter s) entry \<noteq> None \<and> end_flush ok final (inflight (lp_phase s)) s \<noteq> None"
proof -
  have run: "export_run getenv cfg (buffer_view s)" using loop_refines [OF assms(2)] by blast
  have "end_flush ok final (inflight (lp_phase s)) s \<noteq> None"
    using export_progress(2) [OF assms(1) export_run_inv [OF assms(1) run]] by (auto simp: end_flush_def buffer_view_def)
  with export_bounded [OF assms(1) run] show ?thesis by (simp add: buffer_view_def)
qed

definition sample_siem :: siem_config where
  "sample_siem = \<lparr>cfg_URL = ''https://sink'', cfg_Headers = [(''Authorization'', ''Bearer ${TOKEN}'')], cfg_BatchSize = 2,
     cfg_FlushInterval = 0\<rparr>"

lemma sample_headers:
  "ex_headers (NewExporter (\<lambda>v. if v = ''TOKEN'' then ''s3'' else []) sample_siem) = [(''Authorization'', ''Bearer s3'')]"
proof -
  have "expandEnv (\<lambda>v. if v = ''TOKEN'' then ''s3'' else []) ''Bearer ${TOKEN}'' = ''Bearer s3''" by code_simp
  then show ?thesis by (simp add: NewExporter_def sample_siem_def)
qed

theorem Siem_export_bounded_witness:
  "int (Buffered (NewExporter (\<lambda>_. []) sample_siem)) \<le> 20"
proof -
  have "batch_ok sample_siem" by (simp add: batch_ok_def sample_siem_def)
  from Siem_export_bounded [OF this rtranclp.rtrancl_refl, of "\<lambda>_. []"] show ?thesis
    by (simp add: loop_init_def NewExporter_def sample_siem_def)
qed

text \<open>C39: Shutting down exports what is left.  From every state the loop can be in when its context is done, unless it
  is already in its last flush, it can go on to its end with everything that was being posted or buffered
  accepted, in order.  And however it gets to its end, with whatever flushes, refusals and enqueued entries in
  between, as long as the cap leaves room for them: nothing has been lost or reordered, and unless the last flush
  failed, everything that was being posted or buffered has been accepted.\<close>

theorem Siem_shutdown_drains:
  assumes "loop_reachable getenv cfg s" and "lp_cancelled s" and "lp_phase s \<noteq> Ended" and "\<forall>batch. lp_phase s \<noteq> Posting True batch"
  shows "(\<exists>s'. loop_step\<^sup>*\<^sup>* s s' \<and> lp_phase s' = Ended \<and> \<not> lp_refused s' \<and> ex_buf (lp_exporter s') = []
      \<and> lp_enqueued s' = lp_enqueued s \<and> lp_accepted s' = lp_accepted s @ inflight (lp_phase s) @ ex_buf (lp_exporter s))
    \<and> (\<forall>s' new. loop_step\<^sup>*\<^sup>* s s' \<and> lp_phase s' = Ended \<and> lp_enqueued s' = lp_enqueued s @ new \<and> room s new \<longrightarrow>
        lp_accepted s' @ ex_buf (lp_exporter s') = lp_accepted s @ inflight (lp_phase s) @ ex_buf (lp_exporter s) @ new
        \<and> (\<not> lp_refused s' \<longrightarrow> prefix (lp_accepted s @ inflight (lp_phase s) @ ex_buf (lp_exporter s)) (lp_accepted s')))"
proof (intro conjI allI impI)
  show "\<exists>s'. loop_step\<^sup>*\<^sup>* s s' \<and> lp_phase s' = Ended \<and> \<not> lp_refused s' \<and> ex_buf (lp_exporter s') = []
      \<and> lp_enqueued s' = lp_enqueued s \<and> lp_accepted s' = lp_accepted s @ inflight (lp_phase s) @ ex_buf (lp_exporter s)"
    using loop_ends [OF assms(3,2,4)] by (simp add: owed_def)
next
  fix s' new
  assume a: "loop_step\<^sup>*\<^sup>* s s' \<and> lp_phase s' = Ended \<and> lp_enqueued s' = lp_enqueued s @ new \<and> room s new"
  then have "draining s new s'" using loop_kept [OF _ assms(3,4), of s'] by (auto simp: kept_def)
  with a show "lp_accepted s' @ ex_buf (lp_exporter s') = lp_accepted s @ inflight (lp_phase s) @ ex_buf (lp_exporter s) @ new"
    and "\<not> lp_refused s' \<Longrightarrow> prefix (lp_accepted s @ inflight (lp_phase s) @ ex_buf (lp_exporter s)) (lp_accepted s')"
    by (simp_all add: draining_def owed_def)
qed

theorem Siem_shutdown_drains_witness:
  "\<exists>t. loop_reachable (\<lambda>_. []) sample_siem t \<and> lp_cancelled t \<and> lp_enqueued t = [new_entry EventAgentRegistered ''d'' [] 0 None]
    \<and> (\<exists>s'. loop_step\<^sup>*\<^sup>* t s' \<and> lp_phase s' = Ended \<and> \<not> lp_refused s' \<and> lp_enqueued s' = lp_enqueued t)
    \<and> (\<forall>s'. loop_step\<^sup>*\<^sup>* t s' \<and> lp_phase s' = Ended \<and> \<not> lp_refused s' \<and> lp_enqueued s' = lp_enqueued t
        \<longrightarrow> lp_accepted s' = [new_entry EventAgentRegistered ''d'' [] 0 None])"
proof -
  let ?e = "new_entry EventAgentRegistered ''d'' [] 0 None" and ?i = "loop_init (\<lambda>_. []) sample_siem"
  obtain x where x: "Enqueue (lp_exporter ?i) ?e = Some x" "ex_buf x = [?e]"
    by (simp add: Enqueue_def cap_buffer_def loop_init_def NewExporter_def sample_siem_def maxBufferedFactor_def)
  let ?s = "?i\<lparr>lp_exporter := x, lp_enqueued := lp_enqueued ?i @ [?e]\<rparr>"
  let ?t = "?s\<lparr>lp_cancelled := True\<rparr>"
  have "loop_step ?i ?s" "loop_step ?s ?t" using loop_enqueue [OF x(1)] loop_cancel [of ?s] by simp_all
  then have r: "loop_reachable (\<lambda>_. []) sample_siem ?t" by auto
  have m: "ex_maxBuffered x = 20" "ex_buf (lp_exporter ?i) = []"
    using x(1) by (auto simp: Enqueue_def cap_buffer_def loop_init_def NewExporter_def sample_siem_def maxBufferedFactor_def split: if_splits)
  note both = Siem_shutdown_drains [OF r]
  have run: "\<exists>s'. loop_step\<^sup>*\<^sup>* ?t s' \<and> lp_phase s' = Ended \<and> \<not> lp_refused s' \<and> lp_enqueued s' = lp_enqueued ?t"
    using both [THEN conjunct1] by (auto simp: loop_init_def)
  have all: "lp_accepted s' = [?e]"
    if "loop_step\<^sup>*\<^sup>* ?t s'" "lp_phase s' = Ended" "\<not> lp_refused s'" "lp_enqueued s' = lp_enqueued ?t" for s'
    using both [THEN conjunct2, rule_format, of s' "[]"] that x(2) m
    by (auto simp: loop_init_def room_def prefix_def)
  have "lp_enqueued ?t = [?e]" by (simp add: loop_init_def)
  with r run all show ?thesis by (intro exI [of _ ?t]) auto
qed

end
