(* ===== verification/Lifecycle.thy ===== *)
theory Lifecycle
  imports ADTP_Errors
begin

text \<open>
  \<open>internal/lifecycle/lifecycle.go\<close>: the agent state machine.  \<open>AgentState\<close> is a string type;
  the six named states are constructors and any other string is \<open>OtherState\<close>.  The wall clock
  is the argument \<open>now\<close>.
\<close>

datatype agent_state =
    StateRegistered | StateActive | StateSuspended | StateCompromised | StateExpired
  | StateDecommissioned | OtherState string

datatype lifecycle_error = ErrInvalidTransition | ErrTerminalState

record state_transition =
  tr_from :: agent_state
  tr_to :: agent_state
  tr_at :: i64
  tr_by :: string
  tr_reason :: string

record agent =
  ag_did :: string
  ag_sponsor :: string
  ag_state :: agent_state
  ag_registeredAt :: i64
  ag_activatedAt :: i64
  ag_history :: "state_transition list"

definition NewAgent :: "i64 \<Rightarrow> string \<Rightarrow> string \<Rightarrow> agent" where
  "NewAgent now did sponsorDID =
     \<lparr>ag_did = did, ag_sponsor = sponsorDID, ag_state = StateRegistered, ag_registeredAt = now,
      ag_activatedAt = 0, ag_history = []\<rparr>"

fun validTransitions :: "agent_state \<Rightarrow> agent_state list option" where
  "validTransitions StateRegistered = Some [StateActive]"
| "validTransitions StateActive =
     Some [StateSuspended, StateCompromised, StateExpired, StateDecommissioned]"
| "validTransitions StateSuspended = Some [StateActive, StateDecommissioned]"
| "validTransitions StateExpired = Some [StateActive, StateDecommissioned]"
| "validTransitions StateCompromised = Some [StateDecommissioned]"
| "validTransitions StateDecommissioned = Some []"
| "validTransitions (OtherState _) = None"

definition Terminal :: "agent_state \<Rightarrow> bool" where
  "Terminal state \<longleftrightarrow> state = StateCompromised \<or> state = StateDecommissioned"

definition CanTransition :: "agent_state \<Rightarrow> agent_state \<Rightarrow> bool" where
  "CanTransition from to =
     (case validTransitions from of None \<Rightarrow> False | Some allowed \<Rightarrow> List.member allowed to)"

definition Transition :: "i64 \<Rightarrow> agent \<Rightarrow> agent_state \<Rightarrow> string \<Rightarrow> string \<Rightarrow> lifecycle_error + agent" where
  "Transition now agent toState byDID reason =
     (case validTransitions (ag_state agent) of
        None \<Rightarrow> Inl ErrInvalidTransition
      | Some allowed \<Rightarrow>
          if length allowed = 0 then Inl ErrTerminalState
          else if \<not> List.member allowed toState then Inl ErrInvalidTransition
          else Inr (agent\<lparr>
            ag_history := ag_history agent @ [\<lparr>tr_from = ag_state agent, tr_to = toState, tr_at = now,
              tr_by = byDID, tr_reason = reason\<rparr>],
            ag_activatedAt := (if toState = StateActive \<and> ag_activatedAt agent = 0 then now
                               else ag_activatedAt agent),
            ag_state := toState\<rparr>))"

subsection \<open>The state machine\<close>

text \<open>One accepted transition, and the agents a registration can lead to.\<close>

inductive agent_step :: "agent \<Rightarrow> agent \<Rightarrow> bool" where
  "Transition now a s by reason = Inr b \<Longrightarrow> agent_step a b"

inductive agent_run :: "agent \<Rightarrow> agent \<Rightarrow> bool" where
  run_refl: "agent_run a a"
| run_step: "agent_run a b \<Longrightarrow> agent_step b c \<Longrightarrow> agent_run a c"

inductive_cases agent_stepE: "agent_step a b"

lemma Transition_ok:
  "Transition now a s by reason = Inr b \<longleftrightarrow> CanTransition (ag_state a) s
     \<and> b = a\<lparr>ag_history := ag_history a @ [\<lparr>tr_from = ag_state a, tr_to = s, tr_at = now, tr_by = by, tr_reason = reason\<rparr>],
             ag_activatedAt := (if s = StateActive \<and> ag_activatedAt a = 0 then now else ag_activatedAt a),
             ag_state := s\<rparr>"
  by (auto simp: Transition_def CanTransition_def split: option.splits)

lemma agent_step_can: "agent_step a b \<Longrightarrow> CanTransition (ag_state a) (ag_state b)
    \<and> (\<exists>t. ag_history b = ag_history a @ [t] \<and> tr_from t = ag_state a \<and> tr_to t = ag_state b)
    \<and> ag_did b = ag_did a \<and> ag_sponsor b = ag_sponsor a"
  by (elim agent_stepE) (auto simp: Transition_ok)

lemma CanTransition_simps [simp]:
  "CanTransition StateCompromised s \<longleftrightarrow> s = StateDecommissioned"
  "\<not> CanTransition StateDecommissioned s" "\<not> CanTransition (OtherState x) s"
  "CanTransition StateRegistered s \<longleftrightarrow> s = StateActive"
  by (auto simp: CanTransition_def)

text \<open>The history is a path of the machine from \<open>REGISTERED\<close> to the current state.\<close>

fun history_path :: "agent_state \<Rightarrow> state_transition list \<Rightarrow> agent_state \<Rightarrow> bool" where
  "history_path s [] t = (s = t)"
| "history_path s (x # xs) t = (tr_from x = s \<and> CanTransition s (tr_to x) \<and> history_path (tr_to x) xs t)"

lemma history_path_snoc:
  "history_path s (xs @ [x]) t \<longleftrightarrow> history_path s xs (tr_from x) \<and> CanTransition (tr_from x) (tr_to x) \<and> tr_to x = t"
  by (induction xs arbitrary: s) auto

lemma agent_run_history:
  "agent_run a b \<Longrightarrow> history_path StateRegistered (ag_history a) (ag_state a)
    \<Longrightarrow> history_path StateRegistered (ag_history b) (ag_state b) \<and> (\<exists>t. ag_history b = ag_history a @ t)"
proof (induction rule: agent_run.induct)
  case (run_step a b c)
  from agent_step_can [OF run_step.hyps(2)] obtain t where t: "ag_history c = ag_history b @ [t]"
    "tr_from t = ag_state b" "tr_to t = ag_state c" "CanTransition (ag_state b) (ag_state c)" by blast
  with run_step have "history_path StateRegistered (ag_history c) (ag_state c)"
    by (simp add: history_path_snoc)
  with run_step t(1) show ?case by auto
qed simp

lemma agent_run_terminal:
  "agent_run a b \<Longrightarrow> Terminal (ag_state a) \<Longrightarrow> Terminal (ag_state b)"
proof (induction rule: agent_run.induct)
  case (run_step a b c)
  from agent_step_can [OF run_step.hyps(2)] run_step show ?case by (auto simp: Terminal_def)
qed simp

subsection \<open>Properties\<close>

text \<open>C40: No agent comes back from compromise: whatever transitions are requested, an agent that
  is \<open>COMPROMISED\<close> or \<open>DECOMMISSIONED\<close> never becomes \<open>ACTIVE\<close> or \<open>SUSPENDED\<close> again, and a
  decommissioned agent accepts no transition at all.\<close>

theorem Lifecycle_terminal_safe:
  assumes "agent_run a b" and "Terminal (ag_state a)"
  shows "ag_state b \<in> {StateCompromised, StateDecommissioned}
    \<and> (ag_state a = StateDecommissioned \<longrightarrow> b = a \<and> Transition now a s by reason = Inl ErrTerminalState)"
proof -
  have "b = a" if "ag_state a = StateDecommissioned"
    using assms(1) that
  proof (induction rule: agent_run.induct)
    case (run_step a b c)
    then show ?case using agent_step_can [OF run_step.hyps(2)] by simp
  qed simp
  then show ?thesis using agent_run_terminal [OF assms] by (auto simp: Terminal_def Transition_def)
qed

theorem Lifecycle_terminal_safe_witness:
  "\<exists>b. agent_run ((NewAgent 1 ''d'' ''s'')\<lparr>ag_state := StateCompromised\<rparr>) b \<and> ag_state b = StateDecommissioned
    \<and> ag_state b \<in> {StateCompromised, StateDecommissioned}"
proof -
  let ?a = "(NewAgent 1 ''d'' ''s'')\<lparr>ag_state := StateCompromised\<rparr>"
  obtain b where t: "Transition 2 ?a StateDecommissioned ''p'' [] = Inr b" "ag_state b = StateDecommissioned"
    by (simp add: Transition_ok)
  then have "agent_run ?a b" by (intro run_step [OF run_refl] agent_step.intros)
  moreover have "Terminal (ag_state ?a)" by (simp add: Terminal_def)
  ultimately show ?thesis using Lifecycle_terminal_safe [of ?a b] t(2) by blast
qed

text \<open>The recorded history is faithful: for every agent reached from registration it is a
  path of permitted transitions from \<open>REGISTERED\<close> to the current state, and later transitions
  only append to it.\<close>

theorem Lifecycle_history_path:
  assumes "agent_run (NewAgent now did sponsor) a" and "agent_run a b"
  shows "history_path StateRegistered (ag_history b) (ag_state b) \<and> (\<exists>t. ag_history b = ag_history a @ t)"
proof -
  have "history_path StateRegistered (ag_history (NewAgent now did sponsor)) (ag_state (NewAgent now did sponsor))"
    by (simp add: NewAgent_def)
  then show ?thesis using agent_run_history [OF assms(1)] agent_run_history [OF assms(2)] by blast
qed

theorem Lifecycle_history_path_witness:
  "\<exists>a. agent_run (NewAgent 1 ''d'' ''s'') a \<and> ag_state a = StateActive
    \<and> history_path StateRegistered (ag_history a) StateActive"
proof -
  obtain a where t: "Transition 2 (NewAgent 1 ''d'' ''s'') StateActive ''p'' [] = Inr a" "ag_state a = StateActive"
    by (simp add: Transition_ok NewAgent_def)
  then have "agent_run (NewAgent 1 ''d'' ''s'') a" by (intro run_step [OF run_refl] agent_step.intros)
  with Lifecycle_history_path [OF this run_refl] t(2) show ?thesis by auto
qed

end
