(* ===== verification/Store.thy ===== *)
theory Store
  imports Cascade Lifecycle
begin

text \<open>
  \<open>store/store.go\<close>: the storage backend the daemon depends on, a Go interface value modelled as the
  record of its methods.  \<open>Audit()\<close> hands out a log that is an object of its own, so the log is not
  part of the backend's state here.  \<open>RevocationEntries\<close> may range over a Go map: the order is its
  first argument.  \<open>PutCredential\<close> takes the wall clock, which a backend may record.
\<close>

datatype store_error =
    ErrInvalidAgent | ErrAgentNotFound | ErrCredentialNotFound | ErrParseCredential cred_error
  | ErrSchemaVersion | ErrStoreBackend

record 's store =
  st_ListCredentials :: "'s \<Rightarrow> store_error + string list"
  st_Get :: "'s \<Rightarrow> string \<Rightarrow> store_error + bytes"
  st_FindDescendants :: "'s \<Rightarrow> string \<Rightarrow> store_error + string list"
  st_Register :: "'s \<Rightarrow> string \<Rightarrow> string list \<Rightarrow> store_error + 's"
  st_Contains :: "'s \<Rightarrow> string \<Rightarrow> string \<Rightarrow> bool"
  st_Revoke :: "'s \<Rightarrow> rev_entry \<Rightarrow> rev_error + 's"
  st_CurrentSeq :: "'s \<Rightarrow> string \<Rightarrow> store_error + i64"
  st_PutAgent :: "'s \<Rightarrow> agent option \<Rightarrow> store_error + 's"
  st_GetAgent :: "'s \<Rightarrow> string \<Rightarrow> store_error + agent"
  st_PutCredential :: "i64 \<Rightarrow> 's \<Rightarrow> bytes \<Rightarrow> store_error + (string \<times> 's)"
  st_GetStatus :: "'s \<Rightarrow> string \<Rightarrow> rev_error + rev_entry option"
  st_RevocationEntries :: "(rev_entry set \<Rightarrow> rev_entry list) \<Rightarrow> 's \<Rightarrow> store_error + rev_entry list"

text \<open>What can be read of an agent through the daemon: all but its history.  Putting an agent over another one may keep
  the sponsor and the registration time of the old one.\<close>

definition agent_view :: "agent \<Rightarrow> string \<times> string \<times> agent_state \<times> i64 \<times> i64" where
  "agent_view a = (ag_did a, ag_sponsor a, ag_state a, ag_registeredAt a, ag_activatedAt a)"

definition with_origin :: "agent \<Rightarrow> agent \<Rightarrow> agent" where
  "with_origin old a = a\<lparr>ag_sponsor := ag_sponsor old, ag_registeredAt := ag_registeredAt old\<rparr>"

text \<open>What the daemon relies on.  A credential is found under the identifier of its bytes and stays
  found; registering adds exactly the stated memberships; a revocation that follows the current sequence
  number becomes the status of its subject and leaves the other subjects alone; and an operation touches
  its own part of the backend only.  The laws of a revocation are for subjects a backend calls proper.\<close>

locale store_contract =
  fixes S :: "'s store" and C :: crypto and inv :: "'s \<Rightarrow> bool" and latest :: "'s \<Rightarrow> string \<Rightarrow> rev_entry option"
    and proper :: "rev_subject \<Rightarrow> bool"
  assumes put_inv: "inv s \<Longrightarrow> st_PutCredential S now s raw = Inr (cid, s') \<Longrightarrow> inv s'"
    and register_inv: "inv s \<Longrightarrow> st_Register S s c ch = Inr s' \<Longrightarrow> inv s'"
    and revoke_inv: "inv s \<Longrightarrow> st_Revoke S s e = Inr s' \<Longrightarrow> proper (re_subject e) \<Longrightarrow>
      st_CurrentSeq S s (Key (re_subject e)) = Inr q \<Longrightarrow> re_seq e = q + 1 \<Longrightarrow> inv s'"
    and agent_inv: "inv s \<Longrightarrow> st_PutAgent S s oa = Inr s' \<Longrightarrow> inv s'"
    and put_cid: "inv s \<Longrightarrow> st_PutCredential S now s raw = Inr (cid, s') \<Longrightarrow> cid = ComputeCID C raw"
    and put_get: "inv s \<Longrightarrow> st_PutCredential S now s raw = Inr (cid, s') \<Longrightarrow>
      (\<exists>r. st_Get S s' cid = Inr r \<and> (r = raw \<or> st_Get S s cid = Inr r)) \<and> (\<forall>c. c \<noteq> cid \<longrightarrow> st_Get S s' c = st_Get S s c)"
    and get_content: "inv s \<Longrightarrow> st_Get S s c = Inr r \<Longrightarrow> ComputeCID C r = c"
    and put_frame: "inv s \<Longrightarrow> st_PutCredential S now s raw = Inr (cid, s') \<Longrightarrow>
      st_Contains S s' = st_Contains S s \<and> latest s' = latest s \<and> st_GetAgent S s' = st_GetAgent S s"
    and register_contains: "inv s \<Longrightarrow> st_Register S s c ch = Inr s' \<Longrightarrow>
      st_Contains S s' d y \<longleftrightarrow> st_Contains S s d y \<or> (d = c \<and> y \<in> set ch)"
    and register_frame: "inv s \<Longrightarrow> st_Register S s c ch = Inr s' \<Longrightarrow>
      st_Get S s' = st_Get S s \<and> latest s' = latest s \<and> st_GetAgent S s' = st_GetAgent S s"
    and find_contains: "inv s \<Longrightarrow> st_FindDescendants S s y = Inr ds \<Longrightarrow> set ds = {d. st_Contains S s d y \<and> d \<noteq> y}"
    and revoke_latest: "inv s \<Longrightarrow> st_Revoke S s e = Inr s' \<Longrightarrow> proper (re_subject e) \<Longrightarrow>
      st_CurrentSeq S s (Key (re_subject e)) = Inr q \<Longrightarrow> re_seq e = q + 1 \<Longrightarrow> k \<noteq> [] \<Longrightarrow>
      latest s' k = (if k = Key (re_subject e) then Some e else latest s k)"
    and revoke_subject: "inv s \<Longrightarrow> st_Revoke S s e = Inr s' \<Longrightarrow> Key (re_subject e) \<noteq> []"
    and cid_proper: "proper \<lparr>sub_cid = d, sub_did = []\<rparr>"
    and revoke_frame: "inv s \<Longrightarrow> st_Revoke S s e = Inr s' \<Longrightarrow>
      st_Get S s' = st_Get S s \<and> st_Contains S s' = st_Contains S s \<and> st_GetAgent S s' = st_GetAgent S s"
    and seq_latest: "inv s \<Longrightarrow> k \<noteq> [] \<Longrightarrow> st_CurrentSeq S s k = Inr q \<Longrightarrow> q = (case latest s k of None \<Rightarrow> 0 | Some e \<Rightarrow> re_seq e)"
    and status_latest: "inv s \<Longrightarrow> k \<noteq> [] \<Longrightarrow> st_GetStatus S s k = Inr x \<Longrightarrow> x = (case latest s k of None \<Rightarrow> None
      | Some e \<Rightarrow> if re_status e = StatusReinstated then None else Some e)"
    and agent_get: "inv s \<Longrightarrow> st_PutAgent S s (Some a) = Inr s' \<Longrightarrow> (\<exists>b. st_GetAgent S s' (ag_did a) = Inr b
        \<and> (agent_view b = agent_view a \<or> (\<exists>c. st_GetAgent S s (ag_did a) = Inr c \<and> agent_view b = agent_view (with_origin c a))))
        \<and> (\<forall>d. d \<noteq> ag_did a \<longrightarrow> st_GetAgent S s' d = st_GetAgent S s d)"
    and agent_frame: "inv s \<Longrightarrow> st_PutAgent S s oa = Inr s' \<Longrightarrow>
      st_Get S s' = st_Get S s \<and> st_Contains S s' = st_Contains S s \<and> latest s' = latest s"
begin

text \<open>A reference that resolves keeps its meaning, unless two byte strings share an identifier.\<close>

lemma put_keeps:
  assumes "inv s" and "st_PutCredential S now s raw = Inr (cid, s')" and "st_Get S s c = Inr r"
  shows "st_Get S s' c = Inr r \<or> (raw \<noteq> r \<and> ComputeCID C raw = ComputeCID C r)"
proof (cases "c = cid")
  case True
  then have "ComputeCID C r = ComputeCID C raw" using get_content [OF assms(1,3)] put_cid [OF assms(1,2)] by simp
  with put_get [OF assms(1,2)] True assms(3) show ?thesis by auto
next
  case False
  with put_get [OF assms(1,2)] assms(3) show ?thesis by simp
qed

lemma registered_found:
  assumes "inv s" and "st_Register S s d ch = Inr s'" and "st_FindDescendants S s' x = Inr ds" and "x \<in> set ch" and "d \<noteq> x"
  shows "d \<in> set ds"
  using find_contains [OF register_inv [OF assms(1,2)] assms(3)] register_contains [OF assms(1,2)] assms(4,5) by simp

lemma revoke_status:
  assumes "inv s" and "st_Revoke S s e = Inr s'" and "proper (re_subject e)"
    and "st_CurrentSeq S s (Key (re_subject e)) = Inr q" and "re_seq e = q + 1"
    and "re_status e \<noteq> StatusReinstated" and "st_GetStatus S s' (Key (re_subject e)) = Inr r"
  shows "r = Some e"
  using status_latest [OF revoke_inv [OF assms(1-5)] _ assms(7)] revoke_latest [OF assms(1-5)]
    revoke_subject [OF assms(1,2)] assms(6) by simp

end

end
