(* ===== verification/API_Contract.thy ===== *)
theory API_Contract
  imports Verifier
begin

text \<open>
  \<open>pkg/adtp\<close>: the public contract of the daemon.  Requests and responses are records and constructors
  with the fields of the Go structs; error messages are dropped, and \<open>Parameters\<close> keeps decoded values.
\<close>

subsection \<open>External error codes (\<open>errors.go\<close>)\<close>

definition adtp_CodeMalformed :: string where "adtp_CodeMalformed = ''ADTP_MALFORMED''"
definition adtp_CodeDenied :: string where "adtp_CodeDenied = ''ADTP_DENIED''"
definition adtp_CodeRevoked :: string where "adtp_CodeRevoked = ''ADTP_REVOKED''"
definition adtp_CodeRetry :: string where "adtp_CodeRetry = ''ADTP_RETRY''"
definition adtp_CodeRateLimited :: string where "adtp_CodeRateLimited = ''ADTP_RATE_LIMITED''"

definition ExternalCode :: "verification_error option \<Rightarrow> string" where
  "ExternalCode err = (case err of
       None \<Rightarrow> []
     | Some e \<Rightarrow>
         if External e = ExtMalformed then adtp_CodeMalformed
         else if External e = ExtRevoked then adtp_CodeRevoked
         else if External e = ExtRetry then adtp_CodeRetry
         else adtp_CodeDenied)"

subsection \<open>Requests and responses (\<open>types.go\<close>)\<close>

record register_request =
  rr_SponsorDID :: string
  rr_Metadata :: payload

record issue_request =
  ir_AgentDID :: string
  ir_Capabilities :: "capability list"
  ir_ExpSeconds :: i64

record delegate_request =
  dr_ParentCID :: string
  dr_AudienceDID :: string
  dr_Caveats :: "constraint list"
  dr_DepthLeft :: i64
  dr_ExpSeconds :: i64

text \<open>The \<open>json.RawMessage\<close> of an invocation: empty, not an invocation, or one.\<close>

datatype raw_invocation = NoInvocation | InvalidInvocation | Invocation invocation

record verify_request =
  vr_ChainCIDs :: "string list"
  vr_Invocation :: raw_invocation
  vr_Action :: string
  vr_Resource :: string
  vr_Parameters :: "(string \<times> param_value) list option"

record revoke_request =
  vk_SubjectCID :: string
  vk_SubjectDID :: string
  vk_Scope :: string
  vk_Status :: string
  vk_Reason :: string

datatype response =
    ErrorResponse nat string
  | RegisterAgentResponse string string string
  | IssueCredentialResponse string string
  | DelegateResponse string string
  | VerifyResponse bool nat string string
  | RevokeResponse i64 string nat
  | RevocationListResponse rev_list
  | StatusResponse string bool string i64
  | AgentResponse string string string i64 i64
  | HealthResponse string string
  | ReconcileResponse nat nat nat

fun status_code :: "response \<Rightarrow> nat" where
  "status_code (ErrorResponse st _) = st"
| "status_code (RegisterAgentResponse _ _ _) = 201"
| "status_code (IssueCredentialResponse _ _) = 201"
| "status_code (DelegateResponse _ _) = 201"
| "status_code _ = 200"

end
