(* ===== verification/Service.thy ===== *)
theory Service
  imports Store API_Contract
begin

text \<open>
  \<open>api/v1/handlers.go\<close>: the HTTP handlers of the daemon, from the
  decoded body of a request to the response and the new state.  What a service is wired with and never
  changes is \<open>service_env\<close>, what its handlers change is \<open>service_state\<close>; the storage backend, the key store,
  the audit log and the SIEM exporter are interface values, so their states are type variables.  Every
  value a request reads from outside (clocks, random bytes, the order of a map range) is a field of
  \<open>inputs\<close>.  Of a JSON body the outcome of decoding is modelled; log lines and messages are dropped.
\<close>

subsection \<open>Decoding a body\<close>

text \<open>The outcome of decoding a request body of at most \<open>maxBodyBytes\<close>.\<close>

datatype 'a body = BodyTooLarge | BodyMalformed | Body 'a

fun readJSON :: "'a body \<Rightarrow> response + 'a" where
  "readJSON BodyTooLarge = Inl (ErrorResponse 413 adtp_CodeMalformed)"
| "readJSON BodyMalformed = Inl (ErrorResponse 400 adtp_CodeMalformed)"
| "readJSON (Body req) = Inr req"

fun state_string :: "agent_state \<Rightarrow> string" where
  "state_string StateRegistered = ''REGISTERED''"
| "state_string StateActive = ''ACTIVE''"
| "state_string StateSuspended = ''SUSPENDED''"
| "state_string StateCompromised = ''COMPROMISED''"
| "state_string StateExpired = ''EXPIRED''"
| "state_string StateDecommissioned = ''DECOMMISSIONED''"
| "state_string (OtherState s) = s"

subsection \<open>The service\<close>

record 'k keys =
  ks_Store :: "'k \<Rightarrow> string \<Rightarrow> bytes \<Rightarrow> id_error + 'k"
  ks_Load :: "'k \<Rightarrow> string \<Rightarrow> id_error + bytes"

record ('s, 'l, 'k, 'x) service_env =
  env_Store :: "'s store"
  env_Append :: "i64 \<Rightarrow> 'l audit_append"
  env_Keys :: "'k keys"
  env_SIEM :: "('x \<Rightarrow> audit_entry \<Rightarrow> 'x) option"
  env_PlatformKey :: bytes
  env_PlatformDID :: string
  env_MaxChainDepth :: i64
  env_ClockSkewSeconds :: i64
  env_DefaultRiskTier :: string
  env_AllowCustodialInvocation :: bool
  env_StartTime :: i64

record ('s, 'l, 'k, 'x) service_state =
  svc_Store :: 's
  svc_Audit :: 'l
  svc_Keys :: 'k
  svc_SIEM :: 'x
  svc_NonceCache :: nonce_cache
  svc_listSeq :: i64

record inputs =
  in_now :: i64
  in_later :: i64
  in_log :: i64
  in_mint :: int
  in_readings :: readings
  in_key :: "bytes option"
  in_nonce :: bytes
  in_visit :: "string list \<Rightarrow> string list"
  in_order :: "rev_entry set \<Rightarrow> rev_entry list"

text \<open>\<open>identity.GenerateDID\<close>: the private key is drawn from \<open>crypto/rand\<close>, which may fail.\<close>

definition GenerateDID :: "crypto \<Rightarrow> bytes option \<Rightarrow> (string \<times> bytes) option" where
  "GenerateDID C drawn = (case drawn of None \<Rightarrow> None | Some priv \<Rightarrow> Some (EncodeDID (ed_public C priv), priv))"

text \<open>The tee: the primary log's outcome, and a copy of the entry to the exporter either way.\<close>

definition siem_Append :: "'l audit_append \<Rightarrow> ('x \<Rightarrow> audit_entry \<Rightarrow> 'x) \<Rightarrow> ('l \<times> 'x) audit_append" where
  "siem_Append primary enqueue lx e =
     (let (r, l) = primary (fst lx) e in (r, (l, enqueue (snd lx) e)))"

definition auditLog :: "('s, 'l, 'k, 'x) service_env \<Rightarrow> i64 \<Rightarrow> ('l \<times> 'x) audit_append" where
  "auditLog env now = (case env_SIEM env of
       Some enqueue \<Rightarrow> siem_Append (env_Append env now) enqueue
     | None \<Rightarrow> (\<lambda>lx e. let (r, l) = env_Append env now (fst lx) e in (r, (l, snd lx))))"

definition append_audit ::
    "('s, 'l, 'k, 'x) service_env \<Rightarrow> i64 \<Rightarrow> audit_entry \<Rightarrow> ('s, 'l, 'k, 'x) service_state
      \<Rightarrow> ('s, 'l, 'k, 'x) service_state" where
  "append_audit env now e s =
     (let (_, lx) = auditLog env now (svc_Audit s, svc_SIEM s) e
      in s\<lparr>svc_Audit := fst lx, svc_SIEM := snd lx\<rparr>)"

subsection \<open>Helpers of the handlers\<close>

definition parseTier :: "string \<Rightarrow> risk_tier" where
  "parseTier s = (if s = ''HIGH'' then TierHigh else if s = ''LOW'' then TierLow
     else if s = ''ANALYTICS'' then TierAnalytics else TierMedium)"

fun isBlock :: "bytes \<Rightarrow> bool" where
  "isBlock [] = False"
| "isBlock (b # bs) =
     (if b \<in> {CHR '' '', CHR 0x09, CHR 0x0A, CHR 0x0D} then isBlock bs else b = CHR 0x7B)"

definition parentRef :: "bytes \<Rightarrow> string \<Rightarrow> deleg_error + (delegation_parent \<times> string)" where
  "parentRef raw' cid =
     (if isBlock raw' then
        bindE (mapErr ErrCredential (ParseRestrictBlock raw')) (\<lambda>b. Inr (ParentFromBlock b cid, blk_aud b))
      else
        bindE (mapErr ErrCredential (ParseUCAN raw')) (\<lambda>u.
        bindE (ParentFromUCAN u cid) (\<lambda>parent. Inr (parent, pl_aud (u_payload u)))))"

definition audienceOf :: "bytes \<Rightarrow> cred_error + string" where
  "audienceOf raw' =
     (if isBlock raw' then bindE (ParseRestrictBlock raw') (\<lambda>b. Inr (blk_aud b))
      else bindE (ParseUCAN raw') (\<lambda>u. Inr (pl_aud (u_payload u))))"

text \<open>The segments of \<open>strings.Split(resource, "/")\<close>.\<close>

definition rejectWildcardResource :: "string \<Rightarrow> bool" where
  "rejectWildcardResource resource \<longleftrightarrow> list_ex (\<lambda>seg. seg = ''*'' \<or> seg = ''**'') (split_on (CHR ''/'') resource)"

definition verifierConfig :: "('s, 'l, 'k, 'x) service_env \<Rightarrow> 's \<Rightarrow> verifier_config" where
  "verifierConfig env st =
     \<lparr>VerifierDID = env_PlatformDID env, TrustedRootDIDs = (\<lambda>d. d = env_PlatformDID env),
      MaxChainDepth = env_MaxChainDepth env, ClockSkewSeconds = env_ClockSkewSeconds env,
      RiskTierFn = Some (\<lambda>_. parseTier (env_DefaultRiskTier env)),
      ProofStore = Some (\<lambda>cid. mapErr (\<lambda>_. ErrProofNotFound) (st_Get (env_Store env) st cid)),
      RevocationSource = Some (st_GetStatus (env_Store env) st),
      RegistrationStore = Some (st_Contains (env_Store env) st),
      TrustPolicies = [], ExpectedChannelBinding = [], StartTime = env_StartTime env, MeteringEnabled = False\<rparr>"

subsection \<open>Registration and issuing\<close>

definition handleRegisterAgent ::
    "crypto \<Rightarrow> ('s, 'l, 'k, 'x) service_env \<Rightarrow> inputs \<Rightarrow> string option \<Rightarrow> register_request body
      \<Rightarrow> ('s, 'l, 'k, 'x) service_state \<Rightarrow> response \<times> ('s, 'l, 'k, 'x) service_state" where
  "handleRegisterAgent C env inp oidc_sub rbody s =
     (case readJSON rbody of
        Inl r \<Rightarrow> (r, s)
      | Inr req \<Rightarrow>
          (let sponsor = (case oidc_sub of Some p \<Rightarrow> if p \<noteq> [] then p else rr_SponsorDID req | None \<Rightarrow> rr_SponsorDID req) in
           if sponsor = [] then (ErrorResponse 400 adtp_CodeMalformed, s)
           else case GenerateDID C (in_key inp) of
             None \<Rightarrow> (ErrorResponse 500 [], s)
           | Some (did, key) \<Rightarrow>
               (case ks_Store (env_Keys env) (svc_Keys s) did key of
                  Inl _ \<Rightarrow> (ErrorResponse 500 [], s)
                | Inr ks \<Rightarrow>
                    (let s = s\<lparr>svc_Keys := ks\<rparr> in
                     case Transition (in_later inp) (NewAgent (in_now inp) did sponsor) StateActive
                            (env_PlatformDID env) ''agent registered'' of
                       Inl _ \<Rightarrow> (ErrorResponse 500 [], s)
                     | Inr agent \<Rightarrow>
                         (case st_PutAgent (env_Store env) (svc_Store s) (Some agent) of
                            Inl _ \<Rightarrow> (ErrorResponse 500 [], s)
                          | Inr st \<Rightarrow>
                              (RegisterAgentResponse did sponsor (state_string (ag_state agent)),
                               append_audit env (in_log inp) (new_entry EventAgentRegistered did [] 0 None)
                                 (s\<lparr>svc_Store := st\<rparr>)))))))"

definition root_payload :: "('s, 'l, 'k, 'x) service_env \<Rightarrow> i64 \<Rightarrow> issue_request \<Rightarrow> ucan_payload" where
  "root_payload env now req =
     \<lparr>pl_iss = env_PlatformDID env, pl_aud = ir_AgentDID req, pl_att = ir_Capabilities req, pl_prf = [],
      pl_exp = now + ir_ExpSeconds req, pl_nbf = now, pl_iat = now\<rparr>"

definition handleIssueCredential ::
    "crypto \<Rightarrow> ('s, 'l, 'k, 'x) service_env \<Rightarrow> inputs \<Rightarrow> issue_request body
      \<Rightarrow> ('s, 'l, 'k, 'x) service_state \<Rightarrow> response \<times> ('s, 'l, 'k, 'x) service_state" where
  "handleIssueCredential C env inp rbody s =
     (case readJSON rbody of
        Inl r \<Rightarrow> (r, s)
      | Inr req \<Rightarrow>
          if \<not> is_ok (ParseDID (ir_AgentDID req)) then (ErrorResponse 400 adtp_CodeMalformed, s)
          else if ir_Capabilities req = [] \<or> sle (ir_ExpSeconds req) 0 then (ErrorResponse 400 adtp_CodeMalformed, s)
          else if \<not> is_ok (st_GetAgent (env_Store env) (svc_Store s) (ir_AgentDID req)) then (ErrorResponse 404 [], s)
          else case CreateUCAN C (root_payload env (in_now inp) req) (env_PlatformKey env) of
            Inl _ \<Rightarrow> (ErrorResponse 400 adtp_CodeMalformed, s)
          | Inr token \<Rightarrow>
              (case st_PutCredential (env_Store env) (in_later inp) (svc_Store s) token of
                 Inl _ \<Rightarrow> (ErrorResponse 500 [], s)
               | Inr (cid, st) \<Rightarrow>
                   (let s = s\<lparr>svc_Store := st\<rparr> in
                    case st_Register (env_Store env) (svc_Store s) cid [cid] of
                      Inl _ \<Rightarrow> (ErrorResponse 500 [], s)
                    | Inr st' \<Rightarrow>
                        (IssueCredentialResponse cid token,
                         append_audit env (in_log inp) (new_entry EventDelegationIssued (ir_AgentDID req) cid 0 None)
                           (s\<lparr>svc_Store := st'\<rparr>)))))"

subsection \<open>Delegation\<close>

definition storeAndRegister ::
    "crypto \<Rightarrow> ('s, 'l, 'k, 'x) service_env \<Rightarrow> inputs \<Rightarrow> bytes \<Rightarrow> ('s, 'l, 'k, 'x) service_state
      \<Rightarrow> (response + string) \<times> ('s, 'l, 'k, 'x) service_state" where
  "storeAndRegister C env inp raw' s =
     (case st_PutCredential (env_Store env) (in_later inp) (svc_Store s) raw' of
        Inl _ \<Rightarrow> (Inl (ErrorResponse 500 []), s)
      | Inr (cid, st) \<Rightarrow>
          (let s = s\<lparr>svc_Store := st\<rparr> in
           case BuildChain C cid (st_Get (env_Store env) (svc_Store s)) (env_MaxChainDepth env) of
             Inl _ \<Rightarrow> (Inl (ErrorResponse 400 adtp_CodeMalformed), s)
           | Inr chain \<Rightarrow>
               (case st_Register (env_Store env) (svc_Store s) cid (map el_cid (Elements chain)) of
                  Inl _ \<Rightarrow> (Inl (ErrorResponse 500 []), s)
                | Inr st' \<Rightarrow>
                    (Inr cid,
                     append_audit env (in_log inp) (new_entry EventDelegationIssued [] cid 0 None)
                       (s\<lparr>svc_Store := st'\<rparr>)))))"

definition delegateRestrict ::
    "crypto \<Rightarrow> ('s, 'l, 'k, 'x) service_env \<Rightarrow> inputs \<Rightarrow> delegate_request \<Rightarrow> bytes
      \<Rightarrow> ('s, 'l, 'k, 'x) service_state \<Rightarrow> response \<times> ('s, 'l, 'k, 'x) service_state" where
  "delegateRestrict C env inp req parentRaw s =
     (case parentRef parentRaw (dr_ParentCID req) of
        Inl _ \<Rightarrow> (ErrorResponse 400 adtp_CodeDenied, s)
      | Inr (parent, delegatorDID) \<Rightarrow>
          (case ks_Load (env_Keys env) (svc_Keys s) delegatorDID of
             Inl _ \<Rightarrow> (ErrorResponse 403 adtp_CodeDenied, s)
           | Inr key \<Rightarrow>
               (case CreateRestrictBlock C parent (dr_AudienceDID req) (dr_DepthLeft req) (dr_Caveats req) key of
                  Inl _ \<Rightarrow> (ErrorResponse 400 adtp_CodeMalformed, s)
                | Inr (block, raw') \<Rightarrow>
                    (case storeAndRegister C env inp raw' s of
                       (Inl r, s') \<Rightarrow> (r, s')
                     | (Inr cid, s') \<Rightarrow> (DelegateResponse cid (b64_encode raw'), s')))))"

definition handleDelegate ::
    "crypto \<Rightarrow> ('s, 'l, 'k, 'x) service_env \<Rightarrow> inputs \<Rightarrow> delegate_request body
      \<Rightarrow> ('s, 'l, 'k, 'x) service_state \<Rightarrow> response \<times> ('s, 'l, 'k, 'x) service_state" where
  "handleDelegate C env inp rbody s =
     (case readJSON rbody of
        Inl r \<Rightarrow> (r, s)
      | Inr req \<Rightarrow>
          if dr_ParentCID req = [] \<or> dr_AudienceDID req = [] then (ErrorResponse 400 adtp_CodeMalformed, s)
          else case st_Get (env_Store env) (svc_Store s) (dr_ParentCID req) of
            Inl _ \<Rightarrow> (ErrorResponse 404 [], s)
          | Inr parentRaw \<Rightarrow> delegateRestrict C env inp req parentRaw s)"

subsection \<open>Verification\<close>

datatype api_error =
    ErrInvocationDecode | ErrNoInvocation | ErrLeafNotFound | ErrLeafAudience | ErrLeafKey | ErrMint inv_error

definition invocationFor ::
    "crypto \<Rightarrow> ('s, 'l, 'k, 'x) service_env \<Rightarrow> inputs \<Rightarrow> verify_request \<Rightarrow> string
      \<Rightarrow> ('s, 'l, 'k, 'x) service_state \<Rightarrow> api_error + invocation" where
  "invocationFor C env inp req leafCID s =
     (case vr_Invocation req of
        InvalidInvocation \<Rightarrow> Inl ErrInvocationDecode
      | Invocation i \<Rightarrow> Inr i
      | NoInvocation \<Rightarrow>
          if \<not> env_AllowCustodialInvocation env then Inl ErrNoInvocation
          else case st_Get (env_Store env) (svc_Store s) leafCID of
            Inl _ \<Rightarrow> Inl ErrLeafNotFound
          | Inr raw' \<Rightarrow>
              (case audienceOf raw' of
                 Inl _ \<Rightarrow> Inl ErrLeafAudience
               | Inr leafAud \<Rightarrow>
                   (case ks_Load (env_Keys env) (svc_Keys s) leafAud of
                      Inl _ \<Rightarrow> Inl ErrLeafKey
                    | Inr key \<Rightarrow>
                        mapErr ErrMint (CreateInvocation C (in_mint inp) (in_nonce inp) leafCID (vr_Action req)
                          (vr_Resource req) (vr_Parameters req) key (env_PlatformDID env) []))))"

definition verify_response :: "verifier_config \<Rightarrow> string \<Rightarrow> verification_result \<Rightarrow> response" where
  "verify_response cfg resource res =
     VerifyResponse (res_OK res)
       (case res_Chain res of None \<Rightarrow> 0 | Some ch \<Rightarrow> length (Elements ch))
       (tier_String (tierFor cfg resource))
       (if \<not> res_OK res \<and> res_Error res \<noteq> None then ExternalCode (res_Error res) else [])"

text \<open>The verifier appends to the store's log, teed to the exporter, and spends nonces of the service's cache.\<close>

definition run_verifier ::
    "crypto \<Rightarrow> ('s, 'l, 'k, 'x) service_env \<Rightarrow> inputs \<Rightarrow> invocation \<Rightarrow> ('s, 'l, 'k, 'x) service_state
      \<Rightarrow> verification_result \<times> ('s, 'l, 'k, 'x) service_state" where
  "run_verifier C env inp i s =
     (let (res, v) = Verify_request C (in_visit inp) (verifierConfig env (svc_Store s))
            (Some (auditLog env (in_log inp))) (in_readings inp) None (Some i)
            \<lparr>vs_nonces = svc_NonceCache s, vs_audit = (svc_Audit s, svc_SIEM s)\<rparr>
      in (res, s\<lparr>svc_NonceCache := vs_nonces v, svc_Audit := fst (vs_audit v), svc_SIEM := snd (vs_audit v)\<rparr>))"

definition handleVerify ::
    "crypto \<Rightarrow> ('s, 'l, 'k, 'x) service_env \<Rightarrow> inputs \<Rightarrow> verify_request body
      \<Rightarrow> ('s, 'l, 'k, 'x) service_state \<Rightarrow> response \<times> ('s, 'l, 'k, 'x) service_state" where
  "handleVerify C env inp rbody s =
     (case readJSON rbody of
        Inl r \<Rightarrow> (r, s)
      | Inr req \<Rightarrow>
          if vr_ChainCIDs req = [] \<or> vr_Action req = [] \<or> vr_Resource req = [] then (ErrorResponse 400 adtp_CodeMalformed, s)
          else if length (vr_ChainCIDs req) > 1 then (ErrorResponse 400 adtp_CodeMalformed, s)
          else if rejectWildcardResource (vr_Resource req) then (ErrorResponse 400 adtp_CodeMalformed, s)
          else case invocationFor C env inp req (hd (vr_ChainCIDs req)) s of
            Inl _ \<Rightarrow> (ErrorResponse 400 adtp_CodeMalformed, s)
          | Inr i \<Rightarrow>
              (let (res, s') = run_verifier C env inp i s
               in (verify_response (verifierConfig env (svc_Store s)) (vr_Resource req) res, s')))"

subsection \<open>Revocation\<close>

definition handleRevoke ::
    "crypto \<Rightarrow> ('s, 'l, 'k, 'x) service_env \<Rightarrow> inputs \<Rightarrow> revoke_request body
      \<Rightarrow> ('s, 'l, 'k, 'x) service_state \<Rightarrow> response \<times> ('s, 'l, 'k, 'x) service_state" where
  "handleRevoke C env inp rbody s =
     (case readJSON rbody of
        Inl r \<Rightarrow> (r, s)
      | Inr req \<Rightarrow>
          if vk_SubjectCID req = [] \<and> vk_SubjectDID req = [] then (ErrorResponse 400 adtp_CodeMalformed, s)
          else if \<not> is_ok (ValidateAuthority AuthPlatform (vk_Status req) (vk_Scope req))
          then (ErrorResponse 403 adtp_CodeDenied, s)
          else if vk_Status req = StatusCompromised \<and> vk_SubjectCID req \<noteq> [] then
            (case ExecuteCascade C (in_now inp) (vk_SubjectCID req) (st_FindDescendants (env_Store env) (svc_Store s))
                    (st_Revoke (env_Store env)) (st_CurrentSeq (env_Store env))
                    (None :: (unit \<Rightarrow> rev_entry list \<Rightarrow> store_error + unit) option)
                    (Some (auditLog env (in_log inp))) (env_PlatformKey env)
                    (svc_Store s, (), (svc_Audit s, svc_SIEM s)) of
               (r, st, _, lx) \<Rightarrow>
                 (let s' = s\<lparr>svc_Store := st, svc_Audit := fst lx, svc_SIEM := snd lx\<rparr> in
                  case r of
                    Inl _ \<Rightarrow> (ErrorResponse 500 [], s')
                  | Inr report \<Rightarrow> (RevokeResponse (re_seq (cr_primary report)) (vk_Status req) (cr_count report), s')))
          else
            (let subject = (if vk_SubjectCID req = [] then vk_SubjectDID req else vk_SubjectCID req) in
             case st_CurrentSeq (env_Store env) (svc_Store s) subject of
               Inl _ \<Rightarrow> (ErrorResponse 500 [], s)
             | Inr sq \<Rightarrow>
                 (case CreateRevocationEntry C (in_now inp) \<lparr>sub_cid = vk_SubjectCID req, sub_did = vk_SubjectDID req\<rparr>
                         (vk_Scope req) (vk_Status req)
                         \<lparr>ra_did = env_PlatformDID env, ra_basis = AuthPlatform, ra_proof = subject\<rparr>
                         (sq + 1) [] (env_PlatformKey env) of
                    Inl _ \<Rightarrow> (ErrorResponse 403 adtp_CodeDenied, s)
                  | Inr entry \<Rightarrow>
                      (case st_Revoke (env_Store env) (svc_Store s) entry of
                         Inl _ \<Rightarrow> (ErrorResponse 409 [], s)
                       | Inr st \<Rightarrow>
                           (RevokeResponse (sq + 1) (vk_Status req) 0,
                            append_audit env (in_log inp)
                              (new_entry EventRevocationPosted [] (vk_SubjectCID req) 0 (Some [(''status'', JStr (vk_Status req))]))
                              (s\<lparr>svc_Store := st\<rparr>))))))"

definition handleGetRevocationList ::
    "crypto \<Rightarrow> ('s, 'l, 'k, 'x) service_env \<Rightarrow> inputs \<Rightarrow> ('s, 'l, 'k, 'x) service_state
      \<Rightarrow> response \<times> ('s, 'l, 'k, 'x) service_state" where
  "handleGetRevocationList C env inp s =
     (case st_RevocationEntries (env_Store env) (in_order inp) (svc_Store s) of
        Inl _ \<Rightarrow> (ErrorResponse 500 [], s)
      | Inr entries \<Rightarrow>
          (let s = s\<lparr>svc_listSeq := svc_listSeq s + 1\<rparr> in
           case CreateRevocationList C (in_now inp) entries (env_PlatformDID env) [] (svc_listSeq s) (env_PlatformKey env) of
             Inl _ \<Rightarrow> (ErrorResponse 500 [], s)
           | Inr l \<Rightarrow> (RevocationListResponse l, s)))"

subsection \<open>Lookups and maintenance\<close>

definition handleGetStatus ::
    "('s, 'l, 'k, 'x) service_env \<Rightarrow> string \<Rightarrow> ('s, 'l, 'k, 'x) service_state \<Rightarrow> response" where
  "handleGetStatus env cid s =
     (case st_GetStatus (env_Store env) (svc_Store s) cid of
        Inl _ \<Rightarrow> ErrorResponse 500 []
      | Inr None \<Rightarrow> StatusResponse cid False [] 0
      | Inr (Some entry) \<Rightarrow> StatusResponse cid True (re_status entry) (re_seq entry))"

definition handleGetAgent ::
    "('s, 'l, 'k, 'x) service_env \<Rightarrow> string \<Rightarrow> ('s, 'l, 'k, 'x) service_state \<Rightarrow> response" where
  "handleGetAgent env did s =
     (case st_GetAgent (env_Store env) (svc_Store s) did of
        Inl _ \<Rightarrow> ErrorResponse 404 []
      | Inr a \<Rightarrow> AgentResponse (ag_did a) (ag_sponsor a) (state_string (ag_state a)) (ag_registeredAt a) (ag_activatedAt a))"

definition handleHealth :: "('s, 'l, 'k, 'x) service_env \<Rightarrow> response" where
  "handleHealth env = HealthResponse ''ok'' (env_PlatformDID env)"

definition handleReconcile ::
    "crypto \<Rightarrow> ('s, 'l, 'k, 'x) service_env \<Rightarrow> inputs \<Rightarrow> ('s, 'l, 'k, 'x) service_state
      \<Rightarrow> response \<times> ('s, 'l, 'k, 'x) service_state" where
  "handleReconcile C env inp s =
     (case Reconcile C (st_ListCredentials (env_Store env) (svc_Store s)) (st_Get (env_Store env) (svc_Store s))
             (st_Contains (env_Store env)) (st_Register (env_Store env)) (Some (auditLog env (in_log inp)))
             (svc_Store s, (svc_Audit s, svc_SIEM s)) of
        (r, st, lx) \<Rightarrow>
          (let s' = s\<lparr>svc_Store := st, svc_Audit := fst lx, svc_SIEM := snd lx\<rparr> in
           case r of
             Inl _ \<Rightarrow> (ErrorResponse 500 [], s')
           | Inr rep \<Rightarrow> (ReconcileResponse (CredentialsWalked rep) (RepairsApplied rep) (Errors rep), s')))"

end
