(* ===== verification/Router.thy ===== *)
theory Router
  imports Service
begin

text \<open>
  \<open>api/v1/api.go\<close> and \<open>api/v1/middleware.go\<close>: the routes of the daemon, authentication and rate limiting.
  A request carries the decoded segments of its escaped path, which \<open>http.ServeMux\<close> matches one by one
  and which \<open>URL.Path\<close> joins again; its body is given as what the decoder of the addressed handler makes
  of it.  The token bucket (\<open>golang.org/x/time/rate\<close>) and the validation of OIDC tokens are functions of the
  request's environment.
\<close>

subsection \<open>Routes\<close>

datatype endpoint =
    EpRegisterAgent | EpIssueCredential | EpDelegate | EpVerify | EpRevoke | EpRevocationList
  | EpStatus string | EpAgent string | EpHealth | EpReconcile

record http_request =
  rq_method :: string
  rq_segments :: "string list"
  rq_authorization :: string
  rq_register :: "register_request body"
  rq_issue :: "issue_request body"
  rq_delegate :: "delegate_request body"
  rq_verify :: "verify_request body"
  rq_revoke :: "revoke_request body"

definition URL_Path :: "http_request \<Rightarrow> string" where
  "URL_Path r = concat (map (\<lambda>seg. CHR ''/'' # seg) (rq_segments r))"

text \<open>A \<open>GET\<close> pattern also matches \<open>HEAD\<close>.  What matches no pattern never reaches a handler: it is answered 405 when
  the path matches a pattern of another method, and 404 otherwise.\<close>

definition gets :: "string \<Rightarrow> bool" where
  "gets m \<longleftrightarrow> m = ''GET'' \<or> m = ''HEAD''"

definition route :: "string \<Rightarrow> string list \<Rightarrow> endpoint option" where
  "route m segs =
     (if m = ''POST'' \<and> segs = [''v1'', ''agents''] then Some EpRegisterAgent
      else if m = ''POST'' \<and> segs = [''v1'', ''credentials''] then Some EpIssueCredential
      else if m = ''POST'' \<and> segs = [''v1'', ''delegations''] then Some EpDelegate
      else if m = ''POST'' \<and> segs = [''v1'', ''verify''] then Some EpVerify
      else if m = ''POST'' \<and> segs = [''v1'', ''revoke''] then Some EpRevoke
      else if gets m \<and> segs = [''v1'', ''revocation'', ''list''] then Some EpRevocationList
      else if gets m \<and> segs = [''health''] then Some EpHealth
      else if m = ''POST'' \<and> segs = [''v1'', ''admin'', ''reconcile''] then Some EpReconcile
      else case segs of
        [v, kind, x] \<Rightarrow>
          if gets m \<and> v = ''v1'' \<and> kind = ''status'' \<and> x \<noteq> [] then Some (EpStatus x)
          else if gets m \<and> v = ''v1'' \<and> kind = ''agents'' \<and> x \<noteq> [] then Some (EpAgent x)
          else None
      | _ \<Rightarrow> None)"

definition known_path :: "string list \<Rightarrow> bool" where
  "known_path segs \<longleftrightarrow> route ''GET'' segs \<noteq> None \<or> route ''POST'' segs \<noteq> None"

definition dispatch ::
    "crypto \<Rightarrow> ('s, 'l, 'k, 'x) service_env \<Rightarrow> inputs \<Rightarrow> string option \<Rightarrow> endpoint \<Rightarrow> http_request
      \<Rightarrow> ('s, 'l, 'k, 'x) service_state \<Rightarrow> response \<times> ('s, 'l, 'k, 'x) service_state" where
  "dispatch C env inp oidc_sub ep r s =
     (case ep of
        EpRegisterAgent \<Rightarrow> handleRegisterAgent C env inp oidc_sub (rq_register r) s
      | EpIssueCredential \<Rightarrow> handleIssueCredential C env inp (rq_issue r) s
      | EpDelegate \<Rightarrow> handleDelegate C env inp (rq_delegate r) s
      | EpVerify \<Rightarrow> handleVerify C env inp (rq_verify r) s
      | EpRevoke \<Rightarrow> handleRevoke C env inp (rq_revoke r) s
      | EpRevocationList \<Rightarrow> handleGetRevocationList C env inp s
      | EpStatus cid \<Rightarrow> (handleGetStatus env cid s, s)
      | EpAgent did \<Rightarrow> (handleGetAgent env did s, s)
      | EpHealth \<Rightarrow> (handleHealth env, s)
      | EpReconcile \<Rightarrow> handleReconcile C env inp s)"

definition mux ::
    "crypto \<Rightarrow> ('s, 'l, 'k, 'x) service_env \<Rightarrow> inputs \<Rightarrow> string option \<Rightarrow> http_request
      \<Rightarrow> ('s, 'l, 'k, 'x) service_state \<Rightarrow> response \<times> ('s, 'l, 'k, 'x) service_state" where
  "mux C env inp oidc_sub r s =
     (case route (rq_method r) (rq_segments r) of
        None \<Rightarrow> (ErrorResponse (if known_path (rq_segments r) then 405 else 404) [], s)
      | Some ep \<Rightarrow> dispatch C env inp oidc_sub ep r s)"

subsection \<open>Authentication\<close>

definition bearerPrefix :: string where "bearerPrefix = ''Bearer ''"

definition authBypass :: "http_request \<Rightarrow> bool" where
  "authBypass r \<longleftrightarrow> URL_Path r = ''/health'' \<or> URL_Path r = ''/v1/revocation/list''"

text \<open>\<open>subtle.ConstantTimeCompare\<close> on every key; the loop keeps the match of any of them.\<close>

fun constantTimeContains :: "string list \<Rightarrow> string \<Rightarrow> bool" where
  "constantTimeContains [] candidate = False"
| "constantTimeContains (k # ks) candidate = ((k = candidate) \<or> constantTimeContains ks candidate)"

text \<open>A middleware hands on an authenticated subject (none under API keys) or answers itself.\<close>

definition AuthMiddleware ::
    "string list \<Rightarrow> (string option \<Rightarrow> http_request \<Rightarrow> 't \<Rightarrow> response \<times> 't) \<Rightarrow> http_request \<Rightarrow> 't \<Rightarrow> response \<times> 't" where
  "AuthMiddleware validKeys nxt r s =
     (if authBypass r then nxt None r s
      else case cut_prefix (rq_authorization r) bearerPrefix of
        None \<Rightarrow> (ErrorResponse 401 adtp_CodeDenied, s)
      | Some key \<Rightarrow>
          if key = [] \<or> \<not> constantTimeContains validKeys key then (ErrorResponse 401 adtp_CodeDenied, s)
          else nxt None r s)"

definition OIDCMiddleware ::
    "(string \<Rightarrow> string option) \<Rightarrow> (string option \<Rightarrow> http_request \<Rightarrow> 't \<Rightarrow> response \<times> 't) \<Rightarrow> http_request \<Rightarrow> 't
      \<Rightarrow> response \<times> 't" where
  "OIDCMiddleware verify_token nxt r s =
     (if authBypass r then nxt None r s
      else case cut_prefix (rq_authorization r) bearerPrefix of
        None \<Rightarrow> (ErrorResponse 401 adtp_CodeDenied, s)
      | Some token \<Rightarrow>
          (case verify_token token of
             None \<Rightarrow> (ErrorResponse 401 adtp_CodeDenied, s)
           | Some sub \<Rightarrow> nxt (Some sub) r s))"

record gate =
  gt_APIKeys :: "string list"
  gt_OIDC :: "(string \<Rightarrow> string option) option"
  gt_limited :: bool

definition authGate ::
    "gate \<Rightarrow> (string option \<Rightarrow> http_request \<Rightarrow> 't \<Rightarrow> response \<times> 't) \<Rightarrow> http_request \<Rightarrow> 't \<Rightarrow> response \<times> 't" where
  "authGate g = (case gt_OIDC g of Some v \<Rightarrow> OIDCMiddleware v | None \<Rightarrow> AuthMiddleware (gt_APIKeys g))"

subsection \<open>Rate limiting and the router\<close>

definition RateLimitMiddleware ::
    "('r \<Rightarrow> bool \<times> 'r) \<Rightarrow> (http_request \<Rightarrow> 't \<Rightarrow> response \<times> 't) \<Rightarrow> http_request \<Rightarrow> 'r \<times> 't \<Rightarrow> response \<times> 'r \<times> 't" where
  "RateLimitMiddleware allow nxt r st =
     (if authBypass r then (let (resp, s) = nxt r (snd st) in (resp, fst st, s))
      else case allow (fst st) of
        (False, bucket) \<Rightarrow> (ErrorResponse 429 adtp_CodeRateLimited, bucket, snd st)
      | (True, bucket) \<Rightarrow> (let (resp, s) = nxt r (snd st) in (resp, bucket, s)))"

definition NewRouter ::
    "crypto \<Rightarrow> ('s, 'l, 'k, 'x) service_env \<Rightarrow> gate \<Rightarrow> ('r \<Rightarrow> bool \<times> 'r) \<Rightarrow> inputs \<Rightarrow> http_request
      \<Rightarrow> 'r \<times> ('s, 'l, 'k, 'x) service_state \<Rightarrow> response \<times> 'r \<times> ('s, 'l, 'k, 'x) service_state" where
  "NewRouter C env g allow inp r st =
     (let h = authGate g (mux C env inp) in
      if gt_limited g then RateLimitMiddleware allow h r st
      else (let (resp, s) = h r (snd st) in (resp, fst st, s)))"

subsection \<open>What the gate lets through\<close>

lemma contains_iff [simp]: "constantTimeContains ks x \<longleftrightarrow> x \<in> set ks"
  by (induction ks) auto

text \<open>The paths that need no credential address the two public endpoints only, however the segments of
  the path are escaped.\<close>

lemma bypass_public:
  assumes "authBypass r" and "route (rq_method r) (rq_segments r) = Some ep"
  shows "ep = EpHealth \<or> ep = EpRevocationList"
proof -
  have three: "concat (map (\<lambda>seg. CHR ''/'' # seg) [''v1'', b, x]) \<noteq> ''/health''" for b x by simp
  have path: "b \<noteq> ''status'' \<and> b \<noteq> ''agents''"
    if "concat (map (\<lambda>seg. CHR ''/'' # seg) [''v1'', b, x]) = ''/v1/revocation/list''" for b x
    using that by auto
  show ?thesis
    using assms three path unfolding authBypass_def URL_Path_def route_def
    by (auto split: if_splits list.splits)
qed

definition authenticated :: "gate \<Rightarrow> http_request \<Rightarrow> bool" where
  "authenticated g r \<longleftrightarrow> (\<exists>cred. cut_prefix (rq_authorization r) bearerPrefix = Some cred
     \<and> (case gt_OIDC g of Some v \<Rightarrow> v cred \<noteq> None | None \<Rightarrow> cred \<noteq> [] \<and> cred \<in> set (gt_APIKeys g)))"

definition oidc_subject :: "gate \<Rightarrow> http_request \<Rightarrow> string option" where
  "oidc_subject g r = (if authBypass r then None else case gt_OIDC g of None \<Rightarrow> None
     | Some v \<Rightarrow> (case cut_prefix (rq_authorization r) bearerPrefix of None \<Rightarrow> None | Some tok \<Rightarrow> v tok))"

lemma authGate_cases:
  "authGate g h r s = (if authBypass r \<or> authenticated g r then h (oidc_subject g r) r s
     else (ErrorResponse 401 adtp_CodeDenied, s))"
  by (auto simp: authGate_def AuthMiddleware_def OIDCMiddleware_def authenticated_def oidc_subject_def
      split: option.splits)

lemma NewRouter_state:
  "snd (snd (NewRouter C env g allow inp r (bucket, s))) = s
   \<or> (\<exists>ep. route (rq_method r) (rq_segments r) = Some ep
      \<and> snd (snd (NewRouter C env g allow inp r (bucket, s))) = snd (dispatch C env inp (oidc_subject g r) ep r s)
      \<and> fst (NewRouter C env g allow inp r (bucket, s)) = fst (dispatch C env inp (oidc_subject g r) ep r s)
      \<and> (authBypass r \<or> authenticated g r))"
  by (auto simp: NewRouter_def RateLimitMiddleware_def authGate_cases mux_def Let_def split: prod.splits bool.splits option.splits)

end
