(* ===== verification/Memory_Store.thy ===== *)
theory Memory_Store
  imports Store
begin

text \<open>
  \<open>store/memory/store.go\<close>: the composed in-memory backend.  Its locks make every operation atomic, and
  agents and credentials are copied in and out, so a stored value is a value here.  The revocation and
  registration methods delegate to the cache and the index of \<open>internal/revocation\<close>.  The audit log, which
  \<open>Audit()\<close> hands out, is the separate object \<open>NewMemoryAuditLog\<close>.
\<close>

record mem_store =
  ms_agents :: "string \<rightharpoonup> agent"
  ms_credentials :: "string \<rightharpoonup> bytes"
  ms_credOrder :: "string list"
  ms_registrations :: reg_index
  ms_revocations :: rev_cache

definition New :: mem_store where
  "New = \<lparr>ms_agents = Map.empty, ms_credentials = Map.empty, ms_credOrder = [],
     ms_registrations = NewMemoryRegistrationIndex, ms_revocations = NewMemoryRevocationCache\<rparr>"

subsection \<open>Agents\<close>

definition PutAgent :: "mem_store \<Rightarrow> agent option \<Rightarrow> store_error + mem_store" where
  "PutAgent s a = (case a of
       None \<Rightarrow> Inl ErrInvalidAgent
     | Some agent \<Rightarrow>
         if ag_did agent = [] then Inl ErrInvalidAgent
         else Inr (s\<lparr>ms_agents := (ms_agents s)(ag_did agent \<mapsto> agent)\<rparr>))"

definition GetAgent :: "mem_store \<Rightarrow> string \<Rightarrow> store_error + agent" where
  "GetAgent s did = (case ms_agents s did of None \<Rightarrow> Inl ErrAgentNotFound | Some a \<Rightarrow> Inr a)"

subsection \<open>Credentials\<close>

definition PutCredential :: "crypto \<Rightarrow> mem_store \<Rightarrow> bytes \<Rightarrow> string \<times> mem_store" where
  "PutCredential C s raw =
     (let cid = ComputeCID C raw in
      (cid, s\<lparr>ms_credOrder := (if ms_credentials s cid = None then ms_credOrder s @ [cid] else ms_credOrder s),
              ms_credentials := (ms_credentials s)(cid \<mapsto> raw)\<rparr>))"

definition MemoryStore_Get :: "mem_store \<Rightarrow> string \<Rightarrow> store_error + bytes" where
  "MemoryStore_Get s cid = (case ms_credentials s cid of None \<Rightarrow> Inl ErrCredentialNotFound | Some raw \<Rightarrow> Inr raw)"

definition ListCredentials :: "mem_store \<Rightarrow> string list" where
  "ListCredentials s = ms_credOrder s"

subsection \<open>The delegating operations\<close>

definition MemoryStore_Register :: "mem_store \<Rightarrow> string \<Rightarrow> string list \<Rightarrow> mem_store" where
  "MemoryStore_Register s credentialCID chainCIDs =
     s\<lparr>ms_registrations := Register (ms_registrations s) credentialCID chainCIDs\<rparr>"

definition MemoryStore_FindDescendants :: "mem_store \<Rightarrow> string \<Rightarrow> string list" where
  "MemoryStore_FindDescendants s cid = FindDescendants (ms_registrations s) cid"

definition MemoryStore_Contains :: "mem_store \<Rightarrow> string \<Rightarrow> string \<Rightarrow> bool" where
  "MemoryStore_Contains s credentialCID chainCID = Contains (ms_registrations s) credentialCID chainCID"

definition MemoryStore_GetStatus :: "mem_store \<Rightarrow> string \<Rightarrow> rev_entry option" where
  "MemoryStore_GetStatus s subject = GetStatus (ms_revocations s) subject"

definition MemoryStore_Revoke :: "crypto \<Rightarrow> mem_store \<Rightarrow> rev_entry \<Rightarrow> rev_error + mem_store" where
  "MemoryStore_Revoke C s entry =
     bindE (Revoke C (ms_revocations s) entry) (\<lambda>c. Inr (s\<lparr>ms_revocations := c\<rparr>))"

definition MemoryStore_CurrentSeq :: "mem_store \<Rightarrow> string \<Rightarrow> i64" where
  "MemoryStore_CurrentSeq s subject = CurrentSeq (ms_revocations s) subject"

definition MemoryStore_UpdateFromList :: "crypto \<Rightarrow> mem_store \<Rightarrow> rev_list \<Rightarrow> bytes \<Rightarrow> rev_error + mem_store" where
  "MemoryStore_UpdateFromList C s l issuerPub =
     bindE (UpdateFromList C (ms_revocations s) l issuerPub) (\<lambda>c. Inr (s\<lparr>ms_revocations := c\<rparr>))"

definition RevocationEntries :: "(rev_entry set \<Rightarrow> rev_entry list) \<Rightarrow> mem_store \<Rightarrow> rev_entry list" where
  "RevocationEntries order s = order (Entries (ms_revocations s))"

subsection \<open>The interface value\<close>

definition memory_store :: "crypto \<Rightarrow> mem_store store" where
  "memory_store C =
     \<lparr>st_ListCredentials = (\<lambda>s. Inr (ListCredentials s)),
      st_Get = MemoryStore_Get,
      st_FindDescendants = (\<lambda>s x. Inr (MemoryStore_FindDescendants s x)),
      st_Register = (\<lambda>s c ch. Inr (MemoryStore_Register s c ch)),
      st_Contains = MemoryStore_Contains,
      st_Revoke = MemoryStore_Revoke C,
      st_CurrentSeq = (\<lambda>s k. Inr (MemoryStore_CurrentSeq s k)),
      st_PutAgent = PutAgent,
      st_GetAgent = GetAgent,
      st_PutCredential = (\<lambda>now s raw'. Inr (PutCredential C s raw')),
      st_GetStatus = (\<lambda>s k. Inr (MemoryStore_GetStatus s k)),
      st_RevocationEntries = (\<lambda>order s. Inr (RevocationEntries order s))\<rparr>"

lemmas memory_defs = PutAgent_def GetAgent_def PutCredential_def MemoryStore_Get_def ListCredentials_def
  MemoryStore_Register_def MemoryStore_FindDescendants_def MemoryStore_Contains_def MemoryStore_GetStatus_def
  MemoryStore_Revoke_def MemoryStore_CurrentSeq_def MemoryStore_UpdateFromList_def RevocationEntries_def

lemma memory_store_simps [simp]:
  "st_ListCredentials (memory_store C) s = Inr (ListCredentials s)"
  "st_Get (memory_store C) = MemoryStore_Get"
  "st_FindDescendants (memory_store C) s x = Inr (MemoryStore_FindDescendants s x)"
  "st_Register (memory_store C) s c ch = Inr (MemoryStore_Register s c ch)"
  "st_Contains (memory_store C) = MemoryStore_Contains"
  "st_Revoke (memory_store C) = MemoryStore_Revoke C"
  "st_CurrentSeq (memory_store C) s x = Inr (MemoryStore_CurrentSeq s x)"
  "st_PutAgent (memory_store C) = PutAgent"
  "st_GetAgent (memory_store C) = GetAgent"
  "st_PutCredential (memory_store C) now s raw' = Inr (PutCredential C s raw')"
  "st_GetStatus (memory_store C) s x = Inr (MemoryStore_GetStatus s x)"
  "st_RevocationEntries (memory_store C) order s = Inr (RevocationEntries order s)"
  by (simp_all add: memory_store_def)

subsection \<open>The invariant\<close>

text \<open>A map whose values are stored under a key of their own.\<close>

definition keyed :: "('v \<Rightarrow> string) \<Rightarrow> (string \<rightharpoonup> 'v) \<Rightarrow> bool" where
  "keyed f m \<longleftrightarrow> (\<forall>k v. m k = Some v \<longrightarrow> f v = k \<and> k \<noteq> [])"

lemma keyed_update: "keyed f m \<Longrightarrow> f v \<noteq> [] \<Longrightarrow> keyed f (m(f v \<mapsto> v))"
  unfolding keyed_def fun_upd_apply by (metis option.inject)

lemma content_addressed_update: "content_addressed C m \<Longrightarrow> content_addressed C (m(ComputeCID C r \<mapsto> r))"
  unfolding content_addressed_def fun_upd_apply by (metis option.inject)

definition store_inv :: "crypto \<Rightarrow> mem_store \<Rightarrow> bool" where
  "store_inv C s \<longleftrightarrow> content_addressed C (ms_credentials s)
     \<and> distinct (ms_credOrder s) \<and> set (ms_credOrder s) = dom (ms_credentials s)
     \<and> index_inv (ms_registrations s)
     \<and> keyed ag_did (ms_agents s) \<and> keyed (\<lambda>e. Key (re_subject e)) (rc_entries (ms_revocations s))"

lemma New_inv: "store_inv C New"
  by (simp add: store_inv_def New_def content_addressed_def NewMemoryRevocationCache_def index_inv_def
      NewMemoryRegistrationIndex_def index_set_def keyed_def)

lemma PutCredential_inv: "store_inv C s \<Longrightarrow> PutCredential C s r = (cid, s') \<Longrightarrow> store_inv C s'"
  by (auto simp: store_inv_def PutCredential_def Let_def content_addressed_update domIff split: if_splits)

lemma Register_store_inv: "store_inv C s \<Longrightarrow> store_inv C (MemoryStore_Register s c ch)"
  by (auto simp: store_inv_def MemoryStore_Register_def Register_inv)

lemma PutAgent_inv: "store_inv C s \<Longrightarrow> PutAgent s a = Inr s' \<Longrightarrow> store_inv C s'"
  by (auto simp: store_inv_def PutAgent_def keyed_update split: option.splits if_splits)

lemma Revoke_store_inv: "store_inv C s \<Longrightarrow> MemoryStore_Revoke C s e = Inr s' \<Longrightarrow> store_inv C s'"
  using keyed_update [of "\<lambda>e. Key (re_subject e)"]
  by (auto simp: store_inv_def MemoryStore_Revoke_def Revoke_def err_simps split: if_splits)

lemma UpdateFromList_store_inv:
  assumes "store_inv C s" and "MemoryStore_UpdateFromList C s l pub = Inr s'"
  shows "store_inv C s'"
proof -
  have keys: "keyed (\<lambda>e. Key (re_subject e)) (rc_entries (fold apply_entry es c))"
    if "keyed (\<lambda>e. Key (re_subject e)) (rc_entries c)" for es c
    using that by (induction es arbitrary: c)
      (auto simp: apply_entry_def keyed_update [where f = "\<lambda>e. Key (re_subject e)", simplified])
  show ?thesis using assms keys [of "ms_revocations s" "rl_entries l"]
    by (auto simp: store_inv_def MemoryStore_UpdateFromList_def UpdateFromList_def err_simps split: if_splits)
qed

interpretation mem: store_contract "memory_store C" C "store_inv C" "\<lambda>s. rc_entries (ms_revocations s)" "\<lambda>_. True" for C
proof
  fix s s' :: mem_store and now :: i64 and r cid :: string and c x k d :: string and ch ds and e :: rev_entry
    and a :: "agent option" and b :: agent and q :: i64 and st
  assume inv: "store_inv C s"
  show "st_PutCredential (memory_store C) now s r = Inr (cid, s') \<Longrightarrow> store_inv C s'"
    using inv by (auto intro: PutCredential_inv)
  show "st_Register (memory_store C) s c ch = Inr s' \<Longrightarrow> store_inv C s'" using inv by (auto intro: Register_store_inv)
  show "st_Revoke (memory_store C) s e = Inr s' \<Longrightarrow> store_inv C s'" using inv by (auto intro: Revoke_store_inv)
  show "st_PutAgent (memory_store C) s a = Inr s' \<Longrightarrow> store_inv C s'" using inv by (auto intro: PutAgent_inv)
  show "st_PutCredential (memory_store C) now s r = Inr (cid, s') \<Longrightarrow> cid = ComputeCID C r"
    by (auto simp: PutCredential_def Let_def)
  show "st_PutCredential (memory_store C) now s r = Inr (cid, s') \<Longrightarrow>
      (\<exists>r'. st_Get (memory_store C) s' cid = Inr r' \<and> (r' = r \<or> st_Get (memory_store C) s cid = Inr r'))
      \<and> (\<forall>c. c \<noteq> cid \<longrightarrow> st_Get (memory_store C) s' c = st_Get (memory_store C) s c)"
    by (auto simp: memory_defs Let_def)
  show "st_Get (memory_store C) s c = Inr r \<Longrightarrow> ComputeCID C r = c"
    using inv by (auto simp: memory_defs store_inv_def content_addressed_def split: option.splits)
  show "st_PutCredential (memory_store C) now s r = Inr (cid, s') \<Longrightarrow>
      st_Contains (memory_store C) s' = st_Contains (memory_store C) s
      \<and> rc_entries (ms_revocations s') = rc_entries (ms_revocations s)
      \<and> st_GetAgent (memory_store C) s' = st_GetAgent (memory_store C) s"
    by (auto simp: memory_defs fun_eq_iff Let_def)
  show "st_Register (memory_store C) s c ch = Inr s' \<Longrightarrow> st_Contains (memory_store C) s' d x
      \<longleftrightarrow> st_Contains (memory_store C) s d x \<or> (d = c \<and> x \<in> set ch)"
    by (auto simp: memory_defs memory_index.contains_register)
  show "st_Register (memory_store C) s c ch = Inr s' \<Longrightarrow> st_Get (memory_store C) s' = st_Get (memory_store C) s
      \<and> rc_entries (ms_revocations s') = rc_entries (ms_revocations s)
      \<and> st_GetAgent (memory_store C) s' = st_GetAgent (memory_store C) s"
    by (auto simp: memory_defs fun_eq_iff)
  show "st_FindDescendants (memory_store C) s x = Inr ds \<Longrightarrow> set ds = {d. st_Contains (memory_store C) s d x \<and> d \<noteq> x}"
    by (auto simp: memory_defs FindDescendants_set)
  show "st_Revoke (memory_store C) s e = Inr s' \<Longrightarrow>
      rc_entries (ms_revocations s') k = (if k = Key (re_subject e) then Some e else rc_entries (ms_revocations s) k)"
    by (auto simp: MemoryStore_Revoke_def Revoke_def err_simps split: if_splits)
  show "st_Revoke (memory_store C) s e = Inr s' \<Longrightarrow> Key (re_subject e) \<noteq> []"
    by (auto simp: MemoryStore_Revoke_def Revoke_def err_simps split: if_splits)
  show "st_Revoke (memory_store C) s e = Inr s' \<Longrightarrow> st_Get (memory_store C) s' = st_Get (memory_store C) s
      \<and> st_Contains (memory_store C) s' = st_Contains (memory_store C) s
      \<and> st_GetAgent (memory_store C) s' = st_GetAgent (memory_store C) s"
    by (auto simp: memory_defs fun_eq_iff err_simps)
  show "st_CurrentSeq (memory_store C) s k = Inr q \<Longrightarrow>
      q = (case rc_entries (ms_revocations s) k of None \<Rightarrow> 0 | Some e \<Rightarrow> re_seq e)"
    by (auto simp: memory_defs CurrentSeq_def)
  show "st_GetStatus (memory_store C) s k = Inr st \<Longrightarrow> st = (case rc_entries (ms_revocations s) k of None \<Rightarrow> None
      | Some e \<Rightarrow> if re_status e = StatusReinstated then None else Some e)"
    by (auto simp: memory_defs GetStatus_def)
  show "st_PutAgent (memory_store C) s (Some b) = Inr s' \<Longrightarrow> (\<exists>b'. st_GetAgent (memory_store C) s' (ag_did b) = Inr b'
        \<and> (agent_view b' = agent_view b \<or> (\<exists>c. st_GetAgent (memory_store C) s (ag_did b) = Inr c \<and> agent_view b' = agent_view (with_origin c b))))
        \<and> (\<forall>d. d \<noteq> ag_did b \<longrightarrow> st_GetAgent (memory_store C) s' d = st_GetAgent (memory_store C) s d)"
    by (auto simp: memory_defs split: if_splits)
  show "st_PutAgent (memory_store C) s a = Inr s' \<Longrightarrow> st_Get (memory_store C) s' = st_Get (memory_store C) s
      \<and> st_Contains (memory_store C) s' = st_Contains (memory_store C) s
      \<and> rc_entries (ms_revocations s') = rc_entries (ms_revocations s)"
    by (auto simp: memory_defs fun_eq_iff split: option.splits if_splits)
qed simp

end
