(* ===== verification/Service_Runs.thy ===== *)
theory Service_Runs
  imports Router Memory_Store
begin

text \<open>
  What requests do to the storage backend: every request is a sequence of the backend's own operations
  (\<open>store_run\<close>), so whatever those keep, the daemon keeps.  From it, for every backend that keeps its
  contract: the backend's invariant, and the persistence of a denying status until a request lifts it.
\<close>

subsection \<open>Sequences of store operations\<close>

text \<open>Revocations are posted with the subject's next sequence number; \<open>P\<close> says which.\<close>

inductive store_run :: "'s store \<Rightarrow> (rev_entry \<Rightarrow> bool) \<Rightarrow> 's \<Rightarrow> 's \<Rightarrow> bool" for S P where
  run_none: "store_run S P s s"
| run_put: "store_run S P s s1 \<Longrightarrow> st_PutCredential S now s1 r = Inr (cid, s2) \<Longrightarrow> store_run S P s s2"
| run_register: "store_run S P s s1 \<Longrightarrow> st_Register S s1 c ch = Inr s2 \<Longrightarrow> store_run S P s s2"
| run_revoke: "store_run S P s s1 \<Longrightarrow> st_CurrentSeq S s1 (Key (re_subject e)) = Inr q \<Longrightarrow> re_seq e = q + 1 \<Longrightarrow> P e
    \<Longrightarrow> st_Revoke S s1 e = Inr s2 \<Longrightarrow> store_run S P s s2"

lemma store_run_trans: "store_run S P s2 s3 \<Longrightarrow> store_run S P s1 s2 \<Longrightarrow> store_run S P s1 s3"
  by (induction rule: store_run.induct) (auto intro: store_run.intros)

lemma store_run_mono: "store_run S P s s' \<Longrightarrow> (\<And>e. P e \<Longrightarrow> Q e) \<Longrightarrow> store_run S Q s s'"
  by (induction rule: store_run.induct) (auto intro: store_run.intros)

lemma run_one_revoke:
  "st_CurrentSeq S s (Key (re_subject e)) = Inr q \<Longrightarrow> re_seq e = q + 1 \<Longrightarrow> P e \<Longrightarrow> st_Revoke S s e = Inr s' \<Longrightarrow> store_run S P s s'"
  by (rule run_revoke [OF run_none])

text \<open>The entries of a cascade name one credential each and deny.\<close>

definition cascade_entry :: "rev_entry \<Rightarrow> bool" where
  "cascade_entry e \<longleftrightarrow> (\<exists>d. re_subject e = \<lparr>sub_cid = d, sub_did = []\<rparr>) \<and> re_status e \<in> {StatusCompromised, StatusCascade}"

lemma cascadeEach_run:
  "cascadeEach C now (st_Revoke S) (st_CurrentSeq S) auth key s acc ds = (r, s')
    \<Longrightarrow> store_run S (\<lambda>e. cascade_entry e \<and> re_authority e = auth) s s'"
proof (induction ds arbitrary: s acc)
  case (Cons d ds)
  show ?case
  proof (cases "\<exists>q entry s1. st_CurrentSeq S s d = Inr q
      \<and> CreateRevocationEntry C now \<lparr>sub_cid = d, sub_did = []\<rparr> ScopeCredential StatusCascade auth (q + 1) [] key = Inr entry
      \<and> st_Revoke S s entry = Inr s1")
    case True
    then obtain q entry s1 where e: "st_CurrentSeq S s d = Inr q"
      "CreateRevocationEntry C now \<lparr>sub_cid = d, sub_did = []\<rparr> ScopeCredential StatusCascade auth (q + 1) [] key = Inr entry"
      "st_Revoke S s entry = Inr s1" by blast
    have "store_run S (\<lambda>e. cascade_entry e \<and> re_authority e = auth) s s1"
      using e CreateRevocationEntry_fields [OF e(2)] by (intro run_one_revoke [of S s entry q]) (auto simp: cascade_entry_def)
    moreover have "store_run S (\<lambda>e. cascade_entry e \<and> re_authority e = auth) s1 s'" using Cons e by auto
    ultimately show ?thesis by (rule store_run_trans [rotated])
  next
    case False
    with Cons.prems have "s' = s" by (auto split: sum.splits)
    then show ?thesis by (simp add: run_none)
  qed
qed (simp add: run_none)

lemma ExecuteCascade_run:
  assumes "ExecuteCascade C now cid findDesc (st_Revoke S) (st_CurrentSeq S) emergency alog key (s, m, l) = (r, s', m', l')"
  shows "store_run S (\<lambda>e. cascade_entry e \<and> re_authority e = cascade_auth C key cid) s s'"
proof -
  let ?auth = "cascade_auth C key cid" and ?P = "\<lambda>e. cascade_entry e \<and> re_authority e = cascade_auth C key cid"
  consider "s' = s" | q p s1 where "st_CurrentSeq S s cid = Inr q"
    "CreateRevocationEntry C now \<lparr>sub_cid = cid, sub_did = []\<rparr> ScopeSubtree StatusCompromised ?auth (q + 1) [] key = Inr p"
    "st_Revoke S s p = Inr s1"
    "s' = s1 \<or> (\<exists>ds r. cascadeEach C now (st_Revoke S) (st_CurrentSeq S) ?auth key s1 [] ds = (r, s'))"
    using assms by (fastforce simp: ExecuteCascade_def Let_def split: sum.splits prod.splits if_splits)
  then show ?thesis
  proof cases
    case (2 q p s1)
    have "store_run S ?P s s1"
      using 2 CreateRevocationEntry_fields [OF 2(2)] by (intro run_one_revoke [of S s p q]) (auto simp: cascade_entry_def)
    moreover from 2(4) have "store_run S ?P s1 s'" by (auto intro: run_none cascadeEach_run)
    ultimately show ?thesis by (rule store_run_trans [rotated])
  qed (simp add: run_none)
qed

lemma Reconcile_run:
  assumes "Reconcile C listed get contains (st_Register S) alog (s, l) = (r, s', l')"
  shows "store_run S (\<lambda>_. False) s s'"
proof -
  have chain: "store_run S (\<lambda>_. False) i (fst (reconcileChain contains (st_Register S) cid es (i, rep)))" for cid es i rep
  proof (induction es arbitrary: i rep)
    case (Cons e es)
    show ?case
      using store_run_trans [OF Cons.IH run_register [OF run_none]] by (simp add: Cons.IH split: sum.split)
  qed (simp add: run_none)
  have all: "store_run S (\<lambda>_. False) i (fst (reconcileAll C get contains (st_Register S) cids (i, rep)))" for cids i rep
  proof (induction cids arbitrary: i rep)
    case (Cons c cids)
    show ?case
    proof (cases "BuildChain C c get HardMaxDepth")
      case (Inr ch)
      let ?rep = "rep\<lparr>CredentialsWalked := CredentialsWalked rep + 1\<rparr>"
      obtain i1 rep1 where r: "reconcileChain contains (st_Register S) c (Elements ch) (i, ?rep) = (i1, rep1)" by fastforce
      with chain [of i c "Elements ch" ?rep] Cons.IH [of i1 rep1] Inr show ?thesis by (auto intro: store_run_trans)
    qed (use Cons.IH in simp)
  qed (simp add: run_none)
  show ?thesis
  proof (cases listed)
    case (Inr cids)
    with assms all [of s cids] show ?thesis
      by (auto simp: Reconcile_def Let_def split: prod.splits sum.splits) (metis fst_conv)+
  qed (use assms in \<open>auto simp: Reconcile_def run_none\<close>)
qed

subsection \<open>Requests\<close>

text \<open>The entries a request may post: the daemon speaks as the platform.\<close>

definition platform_entry :: "crypto \<Rightarrow> ('s, 'l, 'k, 'x) service_env \<Rightarrow> rev_entry \<Rightarrow> bool" where
  "platform_entry C env e \<longleftrightarrow> ra_basis (re_authority e) = AuthPlatform
     \<and> ra_did (re_authority e) \<in> {env_PlatformDID env, EncodeDID (ed_public C (env_PlatformKey env))}"

definition posts :: "endpoint \<Rightarrow> http_request \<Rightarrow> rev_entry \<Rightarrow> bool" where
  "posts ep r e \<longleftrightarrow> ep = EpRevoke \<and> (\<exists>req. rq_revoke r = Body req
     \<and> ((re_subject e = \<lparr>sub_cid = vk_SubjectCID req, sub_did = vk_SubjectDID req\<rparr> \<and> re_status e = vk_Status req)
        \<or> (vk_Status req = StatusCompromised \<and> cascade_entry e)))"

lemma append_audit_simps [simp]:
  "svc_Store (append_audit env now e s) = svc_Store s" "svc_Keys (append_audit env now e s) = svc_Keys s"
  "svc_NonceCache (append_audit env now e s) = svc_NonceCache s" "svc_listSeq (append_audit env now e s) = svc_listSeq s"
  by (simp_all add: append_audit_def split: prod.splits)

lemma readJSON_Inr [simp]: "readJSON b = Inr req \<longleftrightarrow> b = Body req"
  by (cases b) simp_all

lemma run_verifier_frame [simp]:
  "svc_Store (snd (run_verifier C env inp i s)) = svc_Store s" "svc_Keys (snd (run_verifier C env inp i s)) = svc_Keys s"
  "svc_listSeq (snd (run_verifier C env inp i s)) = svc_listSeq s"
  by (simp_all add: run_verifier_def Let_def split: prod.splits)

lemma storeAndRegister_run:
  "store_run (env_Store env) P (svc_Store s) (svc_Store (snd (storeAndRegister C env inp r s)))"
  by (auto simp: storeAndRegister_def Let_def split: sum.splits prod.splits
      intro: run_none run_put [OF run_none] run_register [OF run_put [OF run_none]])

lemma handleRevoke_run:
  "store_run (env_Store env) (\<lambda>e. posts EpRevoke r e \<and> platform_entry C env e) (svc_Store s)
     (svc_Store (snd (handleRevoke C env inp (rq_revoke r) s)))"
proof (cases "rq_revoke r")
  case (Body req)
  let ?P = "\<lambda>e. posts EpRevoke r e \<and> platform_entry C env e"
  let ?S = "env_Store env" and ?sub = "\<lparr>sub_cid = vk_SubjectCID req, sub_did = vk_SubjectDID req\<rparr>"
  let ?subject = "if vk_SubjectCID req = [] then vk_SubjectDID req else vk_SubjectCID req"
  have key: "Key ?sub = ?subject" by (simp add: Key_def)
  show ?thesis
  proof (cases "vk_Status req = StatusCompromised \<and> vk_SubjectCID req \<noteq> []")
    case True
    obtain x st m lx where x: "ExecuteCascade C (in_now inp) (vk_SubjectCID req) (st_FindDescendants ?S (svc_Store s))
        (st_Revoke ?S) (st_CurrentSeq ?S) (None :: (unit \<Rightarrow> rev_entry list \<Rightarrow> store_error + unit) option)
        (Some (auditLog env (in_log inp))) (env_PlatformKey env) (svc_Store s, (), (svc_Audit s, svc_SIEM s)) = (x, st, m, lx)"
      by (metis prod_cases4)
    have "store_run ?S ?P (svc_Store s) st"
      using ExecuteCascade_run [OF x] True Body by (auto simp: posts_def platform_entry_def cascade_auth_def elim!: store_run_mono)
    then show ?thesis
      using True Body x by (auto simp: handleRevoke_def Let_def run_none split: sum.splits)
  next
    case False
    have "store_run ?S ?P (svc_Store s) st"
      if "CreateRevocationEntry C (in_now inp) ?sub (vk_Scope req) (vk_Status req)
          \<lparr>ra_did = env_PlatformDID env, ra_basis = AuthPlatform, ra_proof = a\<rparr> (q + 1) [] (env_PlatformKey env) = Inr e"
        "st_CurrentSeq ?S (svc_Store s) ?subject = Inr q" "st_Revoke ?S (svc_Store s) e = Inr st" for a q e st
      using that CreateRevocationEntry_fields [OF that(1)] key Body
      by (intro run_one_revoke [of ?S _ e q]) (auto simp: posts_def platform_entry_def)
    then show ?thesis
      using False Body by (auto simp: handleRevoke_def Let_def run_none split: sum.splits if_splits)
  qed
qed (simp_all add: handleRevoke_def run_none)

lemma handleRegisterAgent_store:
  "svc_Store (snd (handleRegisterAgent C env inp sub b s)) = svc_Store s
   \<or> (\<exists>a. st_PutAgent (env_Store env) (svc_Store s) (Some a) = Inr (svc_Store (snd (handleRegisterAgent C env inp sub b s))))"
  by (auto simp: handleRegisterAgent_def Let_def split: sum.splits prod.splits option.splits)

lemma handleIssueCredential_run:
  "store_run (env_Store env) P (svc_Store s) (svc_Store (snd (handleIssueCredential C env inp b s)))"
  by (auto simp: handleIssueCredential_def Let_def split: sum.splits prod.splits
      intro: run_none run_put [OF run_none] run_register [OF run_put [OF run_none]])

lemma handleDelegate_run:
  "store_run (env_Store env) P (svc_Store s) (svc_Store (snd (handleDelegate C env inp b s)))"
proof -
  have "store_run (env_Store env) P (svc_Store s) (svc_Store (snd (delegateRestrict C env inp req r s)))" for req r
  proof -
    have "store_run (env_Store env) P (svc_Store s) (svc_Store s')" if "storeAndRegister C env inp blk s = (x, s')" for blk x s'
      using storeAndRegister_run [of env P s C inp blk] that by simp
    then show ?thesis by (auto simp: delegateRestrict_def run_none split: sum.splits prod.splits)
  qed
  then show ?thesis by (auto simp: handleDelegate_def run_none split: sum.splits)
qed

lemma handleVerify_frame [simp]:
  "svc_Store (snd (handleVerify C env inp b s)) = svc_Store s" "svc_Keys (snd (handleVerify C env inp b s)) = svc_Keys s"
proof -
  have "svc_Store s' = svc_Store s \<and> svc_Keys s' = svc_Keys s" if "run_verifier C env inp i s = (res, s')" for i res s'
    using run_verifier_frame [of C env inp i s] that by simp
  then show "svc_Store (snd (handleVerify C env inp b s)) = svc_Store s" "svc_Keys (snd (handleVerify C env inp b s)) = svc_Keys s"
    by (auto simp: handleVerify_def Let_def split: sum.splits prod.splits)
qed

lemma handleReconcile_run:
  "store_run (env_Store env) P (svc_Store s) (svc_Store (snd (handleReconcile C env inp s)))"
proof -
  obtain r st lx where x: "Reconcile C (st_ListCredentials (env_Store env) (svc_Store s)) (st_Get (env_Store env) (svc_Store s))
      (st_Contains (env_Store env)) (st_Register (env_Store env)) (Some (auditLog env (in_log inp)))
      (svc_Store s, (svc_Audit s, svc_SIEM s)) = (r, st, lx)" by (metis prod_cases3)
  have "store_run (env_Store env) P (svc_Store s) st" using Reconcile_run [OF x] by (rule store_run_mono) simp
  then show ?thesis using x by (auto simp: handleReconcile_def Let_def split: sum.splits)
qed

lemma handleList_frame [simp]:
  "svc_Store (snd (handleGetRevocationList C env inp s)) = svc_Store s"
  "svc_Keys (snd (handleGetRevocationList C env inp s)) = svc_Keys s"
  by (simp_all add: handleGetRevocationList_def Let_def split: sum.splits)

lemma dispatch_run:
  "store_run (env_Store env) (\<lambda>e. posts ep r e \<and> platform_entry C env e) (svc_Store s) (svc_Store (snd (dispatch C env inp sub ep r s)))
   \<or> (ep = EpRegisterAgent \<and> (\<exists>a. st_PutAgent (env_Store env) (svc_Store s) (Some a) = Inr (svc_Store (snd (dispatch C env inp sub ep r s)))))"
proof (cases "ep = EpRegisterAgent")
  case True
  then show ?thesis
    using handleRegisterAgent_store [of C env inp sub "rq_register r" s] by (auto simp: dispatch_def run_none)
next
  case False
  then show ?thesis
    unfolding dispatch_def
    by (cases ep) (simp_all add: run_none handleIssueCredential_run handleDelegate_run handleRevoke_run handleReconcile_run)
qed

subsection \<open>What the contract of a backend gives\<close>

context store_contract
begin

definition denied :: "'s \<Rightarrow> string \<Rightarrow> bool" where
  "denied s k \<longleftrightarrow> k \<noteq> [] \<and> (\<exists>e. latest s k = Some e \<and> denying (re_status e))"

lemma run_inv:
  "store_run S P s s' \<Longrightarrow> inv s \<Longrightarrow> (\<And>e. P e \<Longrightarrow> proper (re_subject e)) \<Longrightarrow> inv s'"
  by (induction rule: store_run.induct) (auto intro: put_inv register_inv revoke_inv)

text \<open>A denying status lasts through any operations that post nothing else about the subject.\<close>

lemma run_denied:
  assumes "store_run S P s s'" and "inv s" and "denied s k"
    and "\<And>e. P e \<Longrightarrow> proper (re_subject e) \<and> (Key (re_subject e) = k \<longrightarrow> denying (re_status e))"
  shows "denied s' k"
  using assms(1-3)
proof (induction rule: store_run.induct)
  case (run_put s s1 now r cid s2)
  have "inv s1" using run_inv [OF run_put.hyps(1)] run_put.prems(1) assms(4) by blast
  with put_frame [OF this run_put.hyps(2)] run_put show ?case by (simp add: denied_def)
next
  case (run_register s s1 c ch s2)
  have "inv s1" using run_inv [OF run_register.hyps(1)] run_register.prems(1) assms(4) by blast
  with register_frame [OF this run_register.hyps(2)] run_register show ?case by (simp add: denied_def)
next
  case (run_revoke s s1 e q s2)
  have "inv s1" using run_inv [OF run_revoke.hyps(1)] run_revoke.prems(1) assms(4) by blast
  moreover have "proper (re_subject e)" "Key (re_subject e) = k \<longrightarrow> denying (re_status e)"
    using assms(4) [OF run_revoke.hyps(4)] by blast+
  ultimately have "latest s2 k = (if k = Key (re_subject e) then Some e else latest s1 k)"
    using revoke_latest [of s1 e s2 q k] run_revoke by (auto simp: denied_def)
  with run_revoke.IH [OF run_revoke.prems] \<open>Key (re_subject e) = k \<longrightarrow> denying (re_status e)\<close> show ?case
    by (auto simp: denied_def)
qed simp

lemma one_revoke_denied:
  assumes "inv s" and "st_Revoke S s e = Inr s'" and "proper (re_subject e)"
    and "st_CurrentSeq S s (Key (re_subject e)) = Inr q" and "re_seq e = q + 1" and "denying (re_status e)"
  shows "denied s' (Key (re_subject e)) \<and> inv s'"
  using revoke_latest [OF assms(1-5)] revoke_subject [OF assms(1,2)] revoke_inv [OF assms(1-5)] assms(6)
  by (simp add: denied_def)

lemma cascade_entry_denies: "cascade_entry e \<Longrightarrow> proper (re_subject e) \<and> denying (re_status e)"
  using cid_proper by (auto simp: cascade_entry_def denying_def)

lemma cascadeEach_denied:
  "cascadeEach C now (st_Revoke S) (st_CurrentSeq S) auth key s acc ds = (Inr es, s') \<Longrightarrow> inv s
    \<Longrightarrow> inv s' \<and> (\<forall>d \<in> set ds. denied s' d)"
proof (induction ds arbitrary: s acc)
  case (Cons d ds)
  from Cons.prems(1) obtain q entry s1 where e: "st_CurrentSeq S s d = Inr q"
    "CreateRevocationEntry C now \<lparr>sub_cid = d, sub_did = []\<rparr> ScopeCredential StatusCascade auth (q + 1) [] key = Inr entry"
    "st_Revoke S s entry = Inr s1"
    "cascadeEach C now (st_Revoke S) (st_CurrentSeq S) auth key s1 (acc @ [entry]) ds = (Inr es, s')"
    by (auto split: sum.splits)
  note f = CreateRevocationEntry_fields [OF e(2)]
  from one_revoke_denied [OF Cons.prems(2) e(3)] e(1) f cid_proper have d: "denied s1 d" "inv s1"
    by (auto simp: denying_def)
  have "denied s' d"
    by (rule run_denied [OF cascadeEach_run [OF e(4)] d(2,1)]) (use cascade_entry_denies in blast)
  with Cons.IH [OF e(4) d(2)] show ?case by simp
qed simp

lemma ExecuteCascade_denied:
  assumes "ExecuteCascade C now cid findDesc (st_Revoke S) (st_CurrentSeq S) emergency alog key (s, m, l) = (Inr rep, s', m', l')"
    and "inv s"
  shows "denied s' cid \<and> (\<forall>ds. findDesc cid = Inr ds \<longrightarrow> (\<forall>d \<in> set ds. denied s' d))"
proof -
  let ?auth = "cascade_auth C key cid"
  from assms(1) obtain q p s1 ds es where x: "st_CurrentSeq S s cid = Inr q"
    "CreateRevocationEntry C now \<lparr>sub_cid = cid, sub_did = []\<rparr> ScopeSubtree StatusCompromised ?auth (q + 1) [] key = Inr p"
    "st_Revoke S s p = Inr s1" "findDesc cid = Inr ds"
    "cascadeEach C now (st_Revoke S) (st_CurrentSeq S) ?auth key s1 [] ds = (Inr es, s')"
    by (auto simp: ExecuteCascade_def Let_def split: sum.splits prod.splits if_splits)
  note f = CreateRevocationEntry_fields [OF x(2)]
  from one_revoke_denied [OF assms(2) x(3)] x(1) f cid_proper have d: "denied s1 cid" "inv s1"
    by (auto simp: denying_def)
  have "denied s' cid"
    by (rule run_denied [OF cascadeEach_run [OF x(5)] d(2,1)]) (use cascade_entry_denies in blast)
  with cascadeEach_denied [OF x(5) d(2)] x(4) show ?thesis by simp
qed

lemma handleRevoke_denied:
  assumes "env_Store env = S" and "inv (svc_Store s)" and "handleRevoke C env inp (Body req) s = (RevokeResponse q st n, s1)"
    and "denying (vk_Status req)" and "proper \<lparr>sub_cid = vk_SubjectCID req, sub_did = vk_SubjectDID req\<rparr>"
    and "k = Key \<lparr>sub_cid = vk_SubjectCID req, sub_did = vk_SubjectDID req\<rparr>
      \<or> (vk_Status req = StatusCompromised \<and> vk_SubjectCID req \<noteq> [] \<and> st_Contains S (svc_Store s) k (vk_SubjectCID req))"
  shows "denied (svc_Store s1) k"
proof (cases "vk_Status req = StatusCompromised \<and> vk_SubjectCID req \<noteq> []")
  case True
  obtain x stt m lx where x: "ExecuteCascade C (in_now inp) (vk_SubjectCID req) (st_FindDescendants S (svc_Store s))
      (st_Revoke S) (st_CurrentSeq S) (None :: (unit \<Rightarrow> rev_entry list \<Rightarrow> store_error + unit) option)
      (Some (auditLog env (in_log inp))) (env_PlatformKey env) (svc_Store s, (), (svc_Audit s, svc_SIEM s)) = (x, stt, m, lx)"
    by (metis prod_cases4)
  with True assms(1,3) obtain rep where rep: "x = Inr rep" "svc_Store s1 = stt"
    by (auto simp: handleRevoke_def Let_def split: sum.splits if_splits)
  from x rep obtain ds where ds: "st_FindDescendants S (svc_Store s) (vk_SubjectCID req) = Inr ds"
    by (auto simp: ExecuteCascade_def Let_def split: sum.splits prod.splits if_splits)
  have "k = vk_SubjectCID req \<or> st_Contains S (svc_Store s) k (vk_SubjectCID req)"
    using assms(6) True by (auto simp: Key_def)
  with ExecuteCascade_denied [OF x [unfolded rep(1)] assms(2)] ds find_contains [OF assms(2) ds] rep(2) show ?thesis
    by (cases "k = vk_SubjectCID req") auto
next
  case False
  let ?sub = "\<lparr>sub_cid = vk_SubjectCID req, sub_did = vk_SubjectDID req\<rparr>"
  from False assms(1,3) obtain sq e a where e: "st_CurrentSeq S (svc_Store s) (Key ?sub) = Inr sq"
    "CreateRevocationEntry C (in_now inp) ?sub (vk_Scope req) (vk_Status req) a (sq + 1) [] (env_PlatformKey env) = Inr e"
    "st_Revoke S (svc_Store s) e = Inr (svc_Store s1)"
    by (auto simp: handleRevoke_def Let_def Key_def split: sum.splits if_splits)
  note f = CreateRevocationEntry_fields [OF e(2)]
  from one_revoke_denied [OF assms(2) e(3)] e(1) f assms(4,5) have "denied (svc_Store s1) (Key ?sub)" by auto
  with assms(6) False show ?thesis by auto
qed

end

end
