(* ===== verification/Service_Safety.thy ===== *)
theory Service_Safety
  imports Service_Runs Verifier_Denial
begin

text \<open>
  What the daemon guarantees: its verification endpoint decides the verifier's specification with the
  platform as the only root, a revocation it has confirmed denies every later request until a request
  lifts it, and nothing protected happens without a credential.  Also what the verification endpoint
  leaves undecided: whether the invocation it was sent is for the action and resource of the request.
\<close>

subsection \<open>Histories of the daemon\<close>

inductive daemon_run ::
    "crypto \<Rightarrow> ('s, 'l, 'k, 'x) service_env \<Rightarrow> (http_request \<Rightarrow> bool)
      \<Rightarrow> ('s, 'l, 'k, 'x) service_state \<Rightarrow> ('s, 'l, 'k, 'x) service_state \<Rightarrow> bool"
  for C env Q where
  quiet: "daemon_run C env Q s s"
| served: "daemon_run C env Q s s1 \<Longrightarrow> Q r \<Longrightarrow> daemon_run C env Q s (snd (mux C env inp sub r s1))"

text \<open>A request that would give a subject a status that does not deny.\<close>

definition lifts :: "string \<Rightarrow> http_request \<Rightarrow> bool" where
  "lifts k r \<longleftrightarrow> (\<exists>req. route (rq_method r) (rq_segments r) = Some EpRevoke \<and> rq_revoke r = Body req
     \<and> Key \<lparr>sub_cid = vk_SubjectCID req, sub_did = vk_SubjectDID req\<rparr> = k \<and> \<not> denying (vk_Status req))"

definition proper_request :: "(rev_subject \<Rightarrow> bool) \<Rightarrow> http_request \<Rightarrow> bool" where
  "proper_request P r \<longleftrightarrow> (\<forall>req. rq_revoke r = Body req \<longrightarrow> P \<lparr>sub_cid = vk_SubjectCID req, sub_did = vk_SubjectDID req\<rparr>)"

lemma mux_run:
  "store_run (env_Store env) (\<lambda>e. (\<exists>ep. route (rq_method r) (rq_segments r) = Some ep \<and> posts ep r e) \<and> platform_entry C env e)
     (svc_Store s) (svc_Store (snd (mux C env inp sub r s)))
   \<or> (\<exists>a. st_PutAgent (env_Store env) (svc_Store s) (Some a) = Inr (svc_Store (snd (mux C env inp sub r s))))"
proof (cases "route (rq_method r) (rq_segments r)")
  case (Some ep)
  with dispatch_run [of env ep r C s inp sub] show ?thesis by (auto simp: mux_def elim!: store_run_mono)
qed (simp add: mux_def run_none)

context store_contract
begin

lemma posts_proper: "posts ep r e \<Longrightarrow> proper_request proper r \<Longrightarrow> proper (re_subject e)"
  using cascade_entry_denies by (auto simp: posts_def proper_request_def)

lemma posts_denying:
  assumes "route (rq_method r) (rq_segments r) = Some ep" and "posts ep r e" and "\<not> lifts k r" and "Key (re_subject e) = k"
  shows "denying (re_status e)"
  using assms cascade_entry_denies by (auto simp: posts_def lifts_def)

lemma daemon_run_denied:
  assumes "daemon_run C env (\<lambda>r. \<not> lifts k r \<and> proper_request proper r) s s'" and "env_Store env = S"
    and "inv (svc_Store s)" and "denied (svc_Store s) k"
  shows "inv (svc_Store s') \<and> denied (svc_Store s') k"
  using assms(1,3,4)
proof (induction rule: daemon_run.induct)
  case (served s s1 r inp sub)
  let ?P = "\<lambda>e. (\<exists>ep. route (rq_method r) (rq_segments r) = Some ep \<and> posts ep r e) \<and> platform_entry C env e"
  from mux_run [of env r C s1 inp sub] assms(2) consider
    (run) "store_run S ?P (svc_Store s1) (svc_Store (snd (mux C env inp sub r s1)))"
    | (agent) a where "st_PutAgent S (svc_Store s1) (Some a) = Inr (svc_Store (snd (mux C env inp sub r s1)))" by auto
  note r = this
  have P: "?P e \<Longrightarrow> proper (re_subject e) \<and> (Key (re_subject e) = k \<longrightarrow> denying (re_status e))" for e
    using posts_proper posts_denying served.hyps(2) by blast
  have "inv (svc_Store s1)" "denied (svc_Store s1) k" using served.IH served.prems by auto
  note now = this
  from r show ?case
  proof cases
    case run
    with run_inv [OF run] run_denied [OF run] P now show ?thesis by blast
  next
    case agent
    with agent_inv [OF now(1) agent] agent_frame [OF now(1) agent] now(2) show ?thesis by (simp add: denied_def)
  qed
qed simp

end

subsection \<open>The verification endpoint\<close>

lemma buildLoop_mapErr: "buildLoop C (\<lambda>c. mapErr f (get c)) d cid seen es w = buildLoop C get d cid seen es w"
proof (induction C get d cid seen es w rule: buildLoop.induct)
  case (1 C get d cid seen es w)
  let ?get = "\<lambda>c. mapErr f (get c)"
  note unfold = buildLoop.simps [of C ?get d cid seen es w] buildLoop.simps [of C get d cid seen es w]
  show ?case
  proof (cases "cid = [] \<or> List.member seen cid \<or> (\<forall>raw'. get cid \<noteq> Inr raw')")
    case True
    then show ?thesis unfolding unfold by (cases "get cid") (auto simp: mapErr_def)
  next
    case False
    then obtain raw' where r: "get cid = Inr raw'" "?get cid = Inr raw'" "cid \<noteq> []" "\<not> List.member seen cid"
      by (auto simp: mapErr_def)
    show ?thesis
    proof (cases "parseElement raw' cid")
      case (Inr t)
      obtain e p n where t: "t = (e, p, n)" by (metis prod_cases3)
      have "buildLoop C ?get d p (cid # seen) (es @ [e]) (w + n) = buildLoop C get d p (cid # seen) (es @ [e]) (w + n)"
        if "VerifyCID C raw' cid" "\<not> w + n > MaxChainCapsCaveats" "\<not> length (es @ [e]) - 1 > d" "\<not> el_root e"
        using that r Inr t by (intro 1) auto
      then show ?thesis unfolding unfold using r Inr t by simp
    qed (unfold unfold, use r in simp)
  qed
qed

lemma BuildChain_mapErr: "BuildChain C cid (\<lambda>c. mapErr f (get c)) m = BuildChain C cid get m"
  by (simp add: BuildChain_def buildLoop_mapErr)

lemma verifierConfig_simps [simp]:
  "VerifierDID (verifierConfig env st) = env_PlatformDID env" "MaxChainDepth (verifierConfig env st) = env_MaxChainDepth env"
  "RevocationSource (verifierConfig env st) = Some (st_GetStatus (env_Store env) st)"
  "RegistrationStore (verifierConfig env st) = Some (st_Contains (env_Store env) st)"
  "TrustPolicies (verifierConfig env st) = []" "StartTime (verifierConfig env st) = env_StartTime env"
  "TrustedRootDIDs (verifierConfig env st) d \<longleftrightarrow> d = env_PlatformDID env"
  "ExpectedChannelBinding (verifierConfig env st) = []" "MeteringEnabled (verifierConfig env st) = False"
  "tierFor (verifierConfig env st) r = parseTier (env_DefaultRiskTier env)"
  "effectiveStore C (verifierConfig env st) None = (\<lambda>cid. mapErr (\<lambda>_. ErrProofNotFound) (st_Get (env_Store env) st cid))"
  by (simp_all add: verifierConfig_def tierFor_def effectiveStore_def)

lemma run_verifier_result:
  "fst (run_verifier C env inp i s) = fst (Verify_request C (in_visit inp) (verifierConfig env (svc_Store s))
     (Some (auditLog env (in_log inp))) (in_readings inp) None (Some i)
     \<lparr>vs_nonces = svc_NonceCache s, vs_audit = (svc_Audit s, svc_SIEM s)\<rparr>)"
  by (simp add: run_verifier_def split: prod.splits)

text \<open>The specification: a request over the stored chain of its invocation, under the platform as root.\<close>

definition service_authorized ::
    "crypto \<Rightarrow> ('s, 'l, 'k, 'x) service_env \<Rightarrow> inputs \<Rightarrow> invocation \<Rightarrow> ('s, 'l, 'k, 'x) service_state \<Rightarrow> bool" where
  "service_authorized C env inp i s \<longleftrightarrow> (\<exists>ch cap.
     authorized C (verifierConfig env (svc_Store s)) (in_readings inp) None i ch cap
     \<and> nonce_unspent (at_pop (in_readings inp)) (svc_NonceCache s) (inv_nonce i))"

lemma run_verifier_ok:
  assumes "\<And>xs. set (in_visit inp xs) = set xs"
  shows "res_OK (fst (run_verifier C env inp i s)) \<longleftrightarrow> service_authorized C env inp i s"
  unfolding run_verifier_result Verify_ok_iff_authorized [of "in_visit inp", OF assms] service_authorized_def by auto

definition verify_guards :: "verify_request \<Rightarrow> bool" where
  "verify_guards req \<longleftrightarrow> (\<exists>leaf. vr_ChainCIDs req = [leaf]) \<and> vr_Action req \<noteq> [] \<and> vr_Resource req \<noteq> []
     \<and> \<not> rejectWildcardResource (vr_Resource req)"

lemma handleVerify_cases:
  "handleVerify C env inp (Body req) s
     = (if \<not> verify_guards req then (ErrorResponse 400 adtp_CodeMalformed, s)
        else case invocationFor C env inp req (hd (vr_ChainCIDs req)) s of
          Inl _ \<Rightarrow> (ErrorResponse 400 adtp_CodeMalformed, s)
        | Inr i \<Rightarrow> (verify_response (verifierConfig env (svc_Store s)) (vr_Resource req) (fst (run_verifier C env inp i s)),
                    snd (run_verifier C env inp i s)))"
proof -
  have g: "verify_guards req \<longleftrightarrow> \<not> (vr_ChainCIDs req = [] \<or> vr_Action req = [] \<or> vr_Resource req = [])
      \<and> \<not> length (vr_ChainCIDs req) > 1 \<and> \<not> rejectWildcardResource (vr_Resource req)"
    by (cases "vr_ChainCIDs req") (auto simp: verify_guards_def)
  show ?thesis
    unfolding g by (auto simp: handleVerify_def split: sum.splits prod.splits)
qed

definition says_authorized :: "response \<Rightarrow> bool" where
  "says_authorized r \<longleftrightarrow> (\<exists>n tier code. r = VerifyResponse True n tier code)"

lemma handleVerify_authorized:
  "says_authorized (fst (handleVerify C env inp (Body req) s)) \<longleftrightarrow> verify_guards req
     \<and> (\<exists>i. invocationFor C env inp req (hd (vr_ChainCIDs req)) s = Inr i \<and> res_OK (fst (run_verifier C env inp i s)))"
  by (auto simp: handleVerify_cases says_authorized_def verify_response_def split: sum.splits)

lemma handleVerify_decides:
  assumes "\<And>xs. set (in_visit inp xs) = set xs"
  shows "says_authorized (fst (handleVerify C env inp (Body req) s)) \<longleftrightarrow> verify_guards req
     \<and> (\<exists>i. invocationFor C env inp req (hd (vr_ChainCIDs req)) s = Inr i \<and> service_authorized C env inp i s)"
  by (simp add: handleVerify_authorized run_verifier_ok [OF assms])

context store_contract
begin

text \<open>A denied subject is reported as such, whenever the backend reports.\<close>

lemma denied_reported:
  assumes "inv s" and "denied s k" and "st_GetStatus S s k = Inr x"
  shows "\<exists>e. x = Some e \<and> denying (re_status e)"
proof -
  from assms(2) obtain e where e: "k \<noteq> []" "latest s k = Some e" "denying (re_status e)" by (auto simp: denied_def)
  with status_latest [OF assms(1) e(1) assms(3)] denying_active show ?thesis by auto
qed

lemma verify_denied:
  assumes "\<And>xs. set (in_visit inp xs) = set xs" and "env_Store env = S" and "inv (svc_Store s)" and "denied (svc_Store s) k"
    and "invocationFor C env inp req (hd (vr_ChainCIDs req)) s = Inr i"
    and "BuildChain C (run_delegation (inv_run i)) (st_Get S (svc_Store s)) (env_MaxChainDepth env) = Inr ch"
    and "k \<in> subjects (Elements ch)"
    and "parseTier (env_DefaultRiskTier env) = TierHigh \<or> is_ok (st_GetStatus S (svc_Store s) k)"
  shows "\<not> says_authorized (fst (handleVerify C env inp (Body req) s))"
proof -
  let ?cfg = "verifierConfig env (svc_Store s)"
  have "\<not> status_allows ?cfg (run_resource (inv_run i)) k"
  proof (cases "st_GetStatus S (svc_Store s) k")
    case (Inl x)
    with assms(2,8) show ?thesis by (simp add: status_allows_def is_ok_def)
  next
    case (Inr x)
    with denied_reported [OF assms(3,4) Inr] assms(2) denying_active show ?thesis by (auto simp: status_allows_def)
  qed
  moreover have "BuildChain C (run_delegation (inv_run i)) (effectiveStore C ?cfg None) (MaxChainDepth ?cfg) = Inr ch"
    using assms(2,6) by (simp add: BuildChain_mapErr)
  ultimately have "\<not> res_OK (fst (run_verifier C env inp i s))"
    unfolding run_verifier_result using denied_subject [of "in_visit inp", OF assms(1) _ assms(7)] by blast
  with assms(5) show ?thesis by (simp add: handleVerify_authorized)
qed

lemma handleRevoke_inv:
  assumes "env_Store env = S" and "inv (svc_Store s)" and "handleRevoke C env inp (Body req) s = (RevokeResponse q st n, s1)"
    and "proper \<lparr>sub_cid = vk_SubjectCID req, sub_did = vk_SubjectDID req\<rparr>"
  shows "inv (svc_Store s1)"
proof (rule run_inv)
  let ?r = "\<lparr>rq_method = [], rq_segments = [], rq_authorization = [], rq_register = BodyMalformed,
    rq_issue = BodyMalformed, rq_delegate = BodyMalformed, rq_verify = BodyMalformed, rq_revoke = Body req\<rparr>"
  show "store_run S (\<lambda>e. posts EpRevoke ?r e \<and> platform_entry C env e) (svc_Store s) (svc_Store s1)"
    using handleRevoke_run [of env ?r C s inp] assms(1,3) by simp
  show "posts EpRevoke ?r e \<and> platform_entry C env e \<Longrightarrow> proper (re_subject e)" for e
    by (erule conjE, erule posts_proper) (simp add: proper_request_def assms(4))
qed (rule assms(2))

lemma revocation_enforced:
  assumes "\<And>xs. set (in_visit inp' xs) = set xs" and "env_Store env = S" and "inv (svc_Store s)"
    and "handleRevoke C env inp (Body req) s = (RevokeResponse q st n, s1)" and "denying (vk_Status req)"
    and "proper \<lparr>sub_cid = vk_SubjectCID req, sub_did = vk_SubjectDID req\<rparr>"
    and "k = Key \<lparr>sub_cid = vk_SubjectCID req, sub_did = vk_SubjectDID req\<rparr>
      \<or> (vk_Status req = StatusCompromised \<and> vk_SubjectCID req \<noteq> [] \<and> st_Contains S (svc_Store s) k (vk_SubjectCID req))"
    and "daemon_run C env (\<lambda>r. \<not> lifts k r \<and> proper_request proper r) s1 s2"
    and "invocationFor C env inp' vreq (hd (vr_ChainCIDs vreq)) s2 = Inr i"
    and "BuildChain C (run_delegation (inv_run i)) (st_Get S (svc_Store s2)) (env_MaxChainDepth env) = Inr ch"
    and "k \<in> subjects (Elements ch)"
    and "parseTier (env_DefaultRiskTier env) = TierHigh \<or> is_ok (st_GetStatus S (svc_Store s2) k)"
  shows "\<not> says_authorized (fst (handleVerify C env inp' (Body vreq) s2))"
proof -
  have d: "denied (svc_Store s1) k" by (rule handleRevoke_denied [OF assms(2-7)])
  have "inv (svc_Store s1)" by (rule handleRevoke_inv [OF assms(2-4,6)])
  from daemon_run_denied [OF assms(8,2) this d] show ?thesis
    using verify_denied [OF assms(1,2) _ _ assms(9-12)] by blast
qed

end

end
