(* ===== verification/Daemon_Flows.thy ===== *)
theory Daemon_Flows
  imports Service_Safety
begin

text \<open>
  The daemon over its in-memory backend (\<open>cmd/adtpd\<close> wires \<open>memory.New\<close>, \<open>NewMemoryKeyStore\<close> and the
  platform key): what registering, issuing and delegating achieve, and that a registered agent's credential
  is accepted when the daemon presents it.
\<close>

definition memory_keystore :: "key_store keys" where
  "memory_keystore = \<lparr>ks_Store = Store, ks_Load = Load\<rparr>"

definition memory_daemon :: "crypto \<Rightarrow> (mem_store, audit_log, key_store, 'x) service_env \<Rightarrow> bool" where
  "memory_daemon C env \<longleftrightarrow> env_Store env = memory_store C \<and> env_Append env = Append C
     \<and> env_Keys env = memory_keystore \<and> length (env_PlatformKey env) = PrivateKeySize
     \<and> env_PlatformDID env = EncodeDID (ed_public C (env_PlatformKey env))"

lemma memory_daemonD:
  assumes "memory_daemon C env"
  shows "env_Store env = memory_store C" "env_Append env = Append C" "ks_Store (env_Keys env) = Store"
    "ks_Load (env_Keys env) = Load" "length (env_PlatformKey env) = PrivateKeySize"
    "env_PlatformDID env = EncodeDID (ed_public C (env_PlatformKey env))"
  using assms by (simp_all add: memory_daemon_def memory_keystore_def)

text \<open>The daemon at boot.\<close>

definition boot_state :: "bytes \<Rightarrow> 'x \<Rightarrow> (mem_store, audit_log, key_store, 'x) service_state" where
  "boot_state rnd x = \<lparr>svc_Store = New, svc_Audit = NewMemoryAuditLog, svc_Keys = NewMemoryKeyStore, svc_SIEM = x,
     svc_NonceCache = NewMemoryNonceCache rnd, svc_listSeq = 0\<rparr>"

subsection \<open>The invariant of the daemon\<close>

definition keys_inv :: "crypto \<Rightarrow> key_store \<Rightarrow> bool" where
  "keys_inv C ks \<longleftrightarrow> key_store_inv ks
     \<and> (\<forall>did k. Load ks did = Inr k \<longrightarrow> length k = PrivateKeySize \<and> did = EncodeDID (ed_public C k))"

definition agents_inv :: "mem_store \<Rightarrow> key_store \<Rightarrow> bool" where
  "agents_inv st ks \<longleftrightarrow> (\<forall>did a. ms_agents st did = Some a \<longrightarrow>
     is_ok (Load ks did) \<and> ag_state a = StateActive \<and> ag_sponsor a \<noteq> [])"

definition entries_inv :: "crypto \<Rightarrow> string \<Rightarrow> mem_store \<Rightarrow> bool" where
  "entries_inv C did st \<longleftrightarrow> (\<forall>k e. rc_entries (ms_revocations st) k = Some e \<longrightarrow>
     VerifyEntrySelfSignature C e = Inr () \<and> ra_did (re_authority e) = did \<and> ra_basis (re_authority e) = AuthPlatform)"

definition daemon_inv ::
    "crypto \<Rightarrow> string \<Rightarrow> (mem_store, audit_log, key_store, 'x) service_state \<Rightarrow> bool" where
  "daemon_inv C did s \<longleftrightarrow> store_inv C (svc_Store s) \<and> audit_inv C (svc_Audit s) \<and> keys_inv C (svc_Keys s)
     \<and> agents_inv (svc_Store s) (svc_Keys s) \<and> entries_inv C did (svc_Store s)"

lemma boot_inv: "daemon_inv C did (boot_state rnd x)"
proof -
  have "audit_inv C NewMemoryAuditLog" by (simp add: audit_inv_def NewMemoryAuditLog_def VerifyChain_def last_hash_def)
  then show ?thesis
    using New_inv by (simp add: daemon_inv_def boot_state_def keys_inv_def key_store_inv_def NewMemoryKeyStore_def Load_def)
      (simp add: agents_inv_def entries_inv_def New_def NewMemoryRevocationCache_def)
qed

subsection \<open>The audit log\<close>

text \<open>A request changes the log, and the exporter, by appends only.\<close>

inductive log_run :: "'m audit_append \<Rightarrow> 'm \<Rightarrow> 'm \<Rightarrow> bool" for ap where
  log_none: "log_run ap m m"
| log_more: "log_run ap m m1 \<Longrightarrow> log_run ap m (snd (ap m1 e))"

lemma log_one: "log_run ap m (snd (ap m e))"
  by (rule log_more [OF log_none])

lemma appendAudit_log:
  "appendAudit (Some ap) m t c pl = (r, m') \<Longrightarrow> log_run ap m m'"
  using log_one [of ap m "new_entry t [] c 0 (Some pl)"] by (auto simp: appendAudit_def split: prod.splits sum.splits)

lemma appendAudit_log2:
  "log_run ap m m1 \<Longrightarrow> appendAudit (Some ap) m1 t c pl = (r, m') \<Longrightarrow> log_run ap m m'"
  using log_more [of ap m m1 "new_entry t [] c 0 (Some pl)"] by (auto simp: appendAudit_def split: prod.splits sum.splits)

lemma ExecuteCascade_log:
  assumes "ExecuteCascade C now cid findDesc revoke currentSeq emergency (Some ap) key (s, m, l) = (r, s', m', l')"
  shows "log_run ap l l'"
proof -
  consider "l' = l" | r1 l1 t c pl where "appendAudit (Some ap) l t c pl = (r1, l1)" "l' = l1"
    | r1 l1 t c pl r2 t2 c2 pl2 where "appendAudit (Some ap) l t c pl = (r1, l1)" "appendAudit (Some ap) l1 t2 c2 pl2 = (r2, l')"
    using assms by (fastforce simp: ExecuteCascade_def Let_def split: sum.splits prod.splits if_splits)
  then show ?thesis
    by cases (auto intro: log_none appendAudit_log appendAudit_log2)
qed

lemma Reconcile_log:
  assumes "Reconcile C listed get contains register (Some ap) (s, l) = (r, s', l')"
  shows "log_run ap l l'"
  using assms by (auto simp: Reconcile_def Let_def log_none split: prod.splits sum.splits dest: appendAudit_log)

abbreviation log_of :: "('s, 'l, 'k, 'x) service_state \<Rightarrow> 'l \<times> 'x" where
  "log_of s \<equiv> (svc_Audit s, svc_SIEM s)"

lemma log_append_audit: "log_of (append_audit env now e s) = snd (auditLog env now (log_of s) e)"
  by (simp add: append_audit_def case_prod_beta)

lemma log_run_verifier:
  "log_of (snd (run_verifier C env inp i s)) = snd (auditLog env (in_log inp) (log_of s)
     (verdict_entry (in_readings inp) (fst (run_verifier C env inp i s))))"
  using Verify_audited [of C "in_visit inp" "verifierConfig env (svc_Store s)" "Some (auditLog env (in_log inp))"
      "in_readings inp" None "Some i" "\<lparr>vs_nonces = svc_NonceCache s, vs_audit = log_of s\<rparr>"]
  by (simp add: audit_with_def run_verifier_def case_prod_beta Let_def)

lemma append_audit_log:
  "log_of s1 = log_of s \<Longrightarrow> log_run (auditLog env now) (log_of s) (log_of (append_audit env now e s1))"
  unfolding log_append_audit using log_one [of "auditLog env now" "log_of s"] by simp

lemma run_verifier_log:
  "log_run (auditLog env (in_log inp)) (log_of s) (log_of (snd (run_verifier C env inp i s)))"
  unfolding log_run_verifier by (rule log_one)

lemma storeAndRegister_log:
  "log_run (auditLog env (in_log inp)) (log_of s) (log_of (snd (storeAndRegister C env inp r s)))"
  by (auto simp: storeAndRegister_def Let_def log_none split: sum.splits prod.splits intro!: append_audit_log)

lemma handlers_log:
  "log_run (auditLog env (in_log inp)) (log_of s) (log_of (snd (handleRegisterAgent C env inp sub b1 s)))"
  "log_run (auditLog env (in_log inp)) (log_of s) (log_of (snd (handleIssueCredential C env inp b2 s)))"
  "log_run (auditLog env (in_log inp)) (log_of s) (log_of (snd (handleDelegate C env inp b3 s)))"
  "log_run (auditLog env (in_log inp)) (log_of s) (log_of (snd (handleVerify C env inp b4 s)))"
  "log_run (auditLog env (in_log inp)) (log_of s) (log_of (snd (handleRevoke C env inp b5 s)))"
  "log_run (auditLog env (in_log inp)) (log_of s) (log_of (snd (handleGetRevocationList C env inp s)))"
  "log_run (auditLog env (in_log inp)) (log_of s) (log_of (snd (handleReconcile C env inp s)))"
proof -
  show "log_run (auditLog env (in_log inp)) (log_of s) (log_of (snd (handleRegisterAgent C env inp sub b1 s)))"
    by (auto simp: handleRegisterAgent_def Let_def log_none split: sum.splits prod.splits option.splits intro!: append_audit_log)
  show "log_run (auditLog env (in_log inp)) (log_of s) (log_of (snd (handleIssueCredential C env inp b2 s)))"
    by (auto simp: handleIssueCredential_def Let_def log_none split: sum.splits prod.splits intro!: append_audit_log)
  have "log_run (auditLog env (in_log inp)) (log_of s) (log_of s')" if "storeAndRegister C env inp r s = (x, s')" for r x s'
    using storeAndRegister_log [of env inp s C r] that by simp
  then show "log_run (auditLog env (in_log inp)) (log_of s) (log_of (snd (handleDelegate C env inp b3 s)))"
    by (auto simp: handleDelegate_def delegateRestrict_def log_none split: sum.splits prod.splits)
  show "log_run (auditLog env (in_log inp)) (log_of s) (log_of (snd (handleVerify C env inp b4 s)))"
  proof (cases b4)
    case (Body req)
    then show ?thesis by (simp add: handleVerify_cases log_none run_verifier_log split: sum.splits)
  qed (simp_all add: handleVerify_def log_none)
  show "log_run (auditLog env (in_log inp)) (log_of s) (log_of (snd (handleRevoke C env inp b5 s)))"
    by (auto simp: handleRevoke_def Let_def log_none split: sum.splits prod.splits intro!: append_audit_log
        dest: ExecuteCascade_log)
  show "log_run (auditLog env (in_log inp)) (log_of s) (log_of (snd (handleGetRevocationList C env inp s)))"
    by (auto simp: handleGetRevocationList_def Let_def log_none split: sum.splits)
  show "log_run (auditLog env (in_log inp)) (log_of s) (log_of (snd (handleReconcile C env inp s)))"
    by (auto simp: handleReconcile_def Let_def log_none split: sum.splits prod.splits dest: Reconcile_log)
qed

lemma mux_log: "log_run (auditLog env (in_log inp)) (log_of s) (log_of (snd (mux C env inp sub r s)))"
  by (auto simp: mux_def dispatch_def handlers_log log_none split: option.splits endpoint.splits)

lemma log_run_memory:
  assumes "log_run (auditLog env now) m m'" and "env_Append env = Append C" and "audit_inv C (fst m)"
  shows "audit_inv C (fst m') \<and> (\<exists>t. al_entries (fst m') = al_entries (fst m) @ t)"
  using assms(1,3)
proof (induction rule: log_run.induct)
  case (log_more m m1 e)
  have a: "fst (snd (auditLog env now m1 e)) = snd (Append C now (fst m1) e)"
    using assms(2) by (simp add: auditLog_def siem_Append_def case_prod_beta Let_def split: option.splits)
  from log_more obtain t where "audit_inv C (fst m1)" "al_entries (fst m1) = al_entries (fst m) @ t" by blast
  with memory_append_inv [of C "fst m1" now e] memory_append_extends [of C "fst m1" now e] show ?case
    by (auto simp: a)
qed simp

end
