(* ===== verification/Daemon_Invariant.thy ===== *)
theory Daemon_Invariant
  imports Daemon_Flows
begin

text \<open>
  The invariant of the daemon over its in-memory backend, kept by every request whatever its outcome.
\<close>

subsection \<open>What a request changes besides the log\<close>

lemma storeAndRegister_keys [simp]: "svc_Keys (snd (storeAndRegister C env inp r s)) = svc_Keys s"
  by (simp add: storeAndRegister_def Let_def split: sum.splits prod.splits)

lemma other_keys:
  "svc_Keys (snd (handleIssueCredential C env inp b1 s)) = svc_Keys s"
  "svc_Keys (snd (handleDelegate C env inp b2 s)) = svc_Keys s"
  "svc_Keys (snd (handleRevoke C env inp b3 s)) = svc_Keys s"
  "svc_Keys (snd (handleReconcile C env inp s)) = svc_Keys s"
proof -
  have "svc_Keys s' = svc_Keys s" if "storeAndRegister C env inp r s = (x, s')" for r x s'
    using storeAndRegister_keys [of C env inp r s] that by simp
  then show "svc_Keys (snd (handleDelegate C env inp b2 s)) = svc_Keys s"
    by (auto simp: handleDelegate_def delegateRestrict_def split: sum.splits prod.splits)
qed (auto simp: handleIssueCredential_def handleRevoke_def handleReconcile_def Let_def split: sum.splits prod.splits)

lemma memory_run_agents: "store_run (memory_store C) P st st' \<Longrightarrow> ms_agents st' = ms_agents st"
  by (induction rule: store_run.induct)
    (auto simp: PutCredential_def Let_def MemoryStore_Register_def MemoryStore_Revoke_def err_simps)

lemma memory_run_entries:
  "store_run (memory_store C) P st st' \<Longrightarrow> rc_entries (ms_revocations st') k = Some e
    \<Longrightarrow> rc_entries (ms_revocations st) k = Some e \<or> (P e \<and> VerifyEntrySelfSignature C e = Inr ())"
  by (induction arbitrary: e rule: store_run.induct)
    (auto simp: PutCredential_def Let_def MemoryStore_Register_def MemoryStore_Revoke_def Revoke_def err_simps split: if_splits)

text \<open>Registering is the only request that adds an agent or a key; every other one runs store operations.\<close>

definition registers ::
    "crypto \<Rightarrow> bytes \<Rightarrow> (mem_store, audit_log, key_store, 'x) service_state \<Rightarrow> (mem_store, audit_log, key_store, 'x) service_state \<Rightarrow> bool" where
  "registers C key s s' \<longleftrightarrow> Store (svc_Keys s) (EncodeDID (ed_public C key)) key = Inr (svc_Keys s')
     \<and> (svc_Store s' = svc_Store s \<or>
        (\<exists>a. ag_did a = EncodeDID (ed_public C key) \<and> ag_state a = StateActive \<and> ag_sponsor a \<noteq> []
           \<and> PutAgent (svc_Store s) (Some a) = Inr (svc_Store s')))"

lemma Transition_fresh:
  "Transition now (NewAgent t did sponsor) StateActive by why = Inr a
    \<Longrightarrow> ag_did a = did \<and> ag_state a = StateActive \<and> ag_sponsor a = sponsor"
  by (auto simp: Transition_def NewAgent_def split: option.splits if_splits)

lemma handleRegisterAgent_registers:
  assumes "memory_daemon C env"
  shows "(svc_Keys (snd (handleRegisterAgent C env inp sub b s)) = svc_Keys s
      \<and> svc_Store (snd (handleRegisterAgent C env inp sub b s)) = svc_Store s)
    \<or> (\<exists>key. in_key inp = Some key \<and> registers C key s (snd (handleRegisterAgent C env inp sub b s)))"
  using memory_daemonD [OF assms] by (auto simp: handleRegisterAgent_def Let_def registers_def GenerateDID_def
      split: sum.splits prod.splits option.splits if_splits dest!: Transition_fresh)

text \<open>The three shapes of a step.\<close>

lemma mux_shape:
  assumes "memory_daemon C env"
  obtains (same_keys) "svc_Keys (snd (mux C env inp sub r s)) = svc_Keys s"
      "store_run (memory_store C) (platform_entry C env) (svc_Store s) (svc_Store (snd (mux C env inp sub r s)))"
    | (new_agent) key where "route (rq_method r) (rq_segments r) = Some EpRegisterAgent" "registers C key s (snd (mux C env inp sub r s))"
proof (cases "route (rq_method r) (rq_segments r)")
  case None
  then show ?thesis using same_keys by (simp add: mux_def run_none)
next
  case (Some ep)
  show ?thesis
  proof (cases "ep = EpRegisterAgent")
    case True
    then show ?thesis
      using handleRegisterAgent_registers [OF assms, of inp sub "rq_register r" s] same_keys new_agent Some
      by (auto simp: mux_def dispatch_def run_none)
  next
    case False
    then have "svc_Keys (snd (mux C env inp sub r s)) = svc_Keys s"
      using Some by (cases ep) (simp_all add: mux_def dispatch_def other_keys)
    moreover have "store_run (memory_store C) (platform_entry C env) (svc_Store s) (svc_Store (snd (mux C env inp sub r s)))"
      using dispatch_run [of env ep r C s inp sub] False Some memory_daemonD(1) [OF assms]
      by (auto simp: mux_def elim!: store_run_mono)
    ultimately show ?thesis by (rule same_keys)
  qed
qed

subsection \<open>Every request keeps the invariant\<close>

lemma registers_load:
  assumes "key_store_inv (svc_Keys s)" and "registers C key s s'"
  shows "Load (svc_Keys s') d = (if d = EncodeDID (ed_public C key) then Inr key else Load (svc_Keys s) d)"
    and "key_store_inv (svc_Keys s')" and "length key = PrivateKeySize"
proof -
  have st: "Store (svc_Keys s) (EncodeDID (ed_public C key)) key = Inr (svc_Keys s')"
    using assms(2) by (simp add: registers_def)
  show "Load (svc_Keys s') d = (if d = EncodeDID (ed_public C key) then Inr key else Load (svc_Keys s) d)"
    by (rule memory_keys.load_store [OF assms(1) st])
  show "key_store_inv (svc_Keys s')" by (rule memory_keys.store_inv [OF assms(1) st])
  show "length key = PrivateKeySize" using st by (simp add: Store_def PrivateKeySize_def split: if_splits)
qed

lemma registers_keys_inv:
  assumes "keys_inv C (svc_Keys s)" and "registers C key s s'"
  shows "keys_inv C (svc_Keys s')"
proof -
  have "key_store_inv (svc_Keys s)" using assms(1) by (simp add: keys_inv_def)
  note l = registers_load [OF this assms(2)]
  show ?thesis using assms(1) l(2,3) by (simp add: keys_inv_def l(1))
qed

lemma PutAgent_fields:
  assumes "PutAgent st (Some a) = Inr st'"
  shows "ms_revocations st' = ms_revocations st" and "ms_agents st' = (ms_agents st)(ag_did a \<mapsto> a)"
proof -
  have "st' = st\<lparr>ms_agents := (ms_agents st)(ag_did a \<mapsto> a)\<rparr>"
    using assms by (simp add: PutAgent_def split: if_splits)
  then show "ms_revocations st' = ms_revocations st" "ms_agents st' = (ms_agents st)(ag_did a \<mapsto> a)" by simp_all
qed

lemma registersE:
  assumes "registers C key s s'"
  obtains "svc_Store s' = svc_Store s" | a where "ag_did a = EncodeDID (ed_public C key)" "ag_state a = StateActive"
    "ag_sponsor a \<noteq> []" "PutAgent (svc_Store s) (Some a) = Inr (svc_Store s')"
  using assms unfolding registers_def by blast

lemma registers_agents:
  assumes "registers C key s s'"
  shows "\<forall>did b. ms_agents (svc_Store s') did = Some b \<longrightarrow> ms_agents (svc_Store s) did = Some b
    \<or> (did = EncodeDID (ed_public C key) \<and> ag_state b = StateActive \<and> ag_sponsor b \<noteq> [])"
  using assms by (cases rule: registersE) (auto simp: PutAgent_fields)

lemma registers_agents_inv:
  assumes "agents_inv (svc_Store s) (svc_Keys s)" and "key_store_inv (svc_Keys s)" and "registers C key s s'"
  shows "agents_inv (svc_Store s') (svc_Keys s')"
  unfolding agents_inv_def registers_load(1) [OF assms(2,3)]
proof (intro allI impI)
  fix did b
  assume "ms_agents (svc_Store s') did = Some b"
  with registers_agents [OF assms(3)] have "ms_agents (svc_Store s) did = Some b
    \<or> (did = EncodeDID (ed_public C key) \<and> ag_state b = StateActive \<and> ag_sponsor b \<noteq> [])" by blast
  then show "is_ok (if did = EncodeDID (ed_public C key) then Inr key else Load (svc_Keys s) did)
      \<and> ag_state b = StateActive \<and> ag_sponsor b \<noteq> []"
    using assms(1) by (auto simp: agents_inv_def is_ok_def)
qed

lemma mux_daemon_inv:
  assumes D: "memory_daemon C env" and I: "daemon_inv C (env_PlatformDID env) s"
  shows "daemon_inv C (env_PlatformDID env) (snd (mux C env inp sub r s))"
proof -
  let ?s' = "snd (mux C env inp sub r s)"
  note d = memory_daemonD [OF D] and i = I [unfolded daemon_inv_def]
  have log: "audit_inv C (svc_Audit ?s')"
    using log_run_memory [OF mux_log [of env inp s C sub r] d(2)] i by simp
  from D have "store_inv C (svc_Store ?s') \<and> keys_inv C (svc_Keys ?s') \<and> agents_inv (svc_Store ?s') (svc_Keys ?s')
      \<and> entries_inv C (env_PlatformDID env) (svc_Store ?s')"
  proof (cases rule: mux_shape [of C env inp sub r s])
    case same_keys
    have "store_inv C (svc_Store ?s')" using mem.run_inv [OF same_keys(2)] i by simp
    moreover have "entries_inv C (env_PlatformDID env) (svc_Store ?s')"
      using memory_run_entries [OF same_keys(2)] i d(6) by (auto simp: entries_inv_def platform_entry_def)
    ultimately show ?thesis
      using i memory_run_agents [OF same_keys(2)] by (simp add: same_keys(1) agents_inv_def)
  next
    case (new_agent key)
    from new_agent(2) have "store_inv C (svc_Store ?s') \<and> ms_revocations (svc_Store ?s') = ms_revocations (svc_Store s)"
      by (cases rule: registersE) (use i PutAgent_inv PutAgent_fields(1) in auto)
    then show ?thesis
      using i registers_keys_inv [OF _ new_agent(2)] registers_agents_inv [OF _ _ new_agent(2)]
      by (simp add: entries_inv_def keys_inv_def)
  qed
  with log show ?thesis by (simp add: daemon_inv_def)
qed

lemma mux_audit_extends:
  assumes "memory_daemon C env" and "audit_inv C (svc_Audit s)"
  shows "\<exists>t. al_entries (svc_Audit (snd (mux C env inp sub r s))) = al_entries (svc_Audit s) @ t"
  using log_run_memory [OF mux_log [of env inp s C sub r] memory_daemonD(2) [OF assms(1)]] assms(2) by simp

end
