(* ===== verification/Daemon_Custody.thy ===== *)
theory Daemon_Custody
  imports Daemon_Invariant
begin

text \<open>
  The custodial flow: an agent is registered, a root credential is issued to it, and the daemon presents
  the credential itself with the agent's key.
\<close>

definition request_ctx :: "inputs \<Rightarrow> verify_request \<Rightarrow> invocation_context" where
  "request_ctx inp req = \<lparr>ctx_Action = vr_Action req, ctx_Resource = vr_Resource req, ctx_Parameters = vr_Parameters req,
     ctx_Now = at_context (in_readings inp), ctx_MeteringEnabled = False\<rparr>"

definition undenied :: "mem_store \<Rightarrow> string \<Rightarrow> bool" where
  "undenied st k \<longleftrightarrow> (case rc_entries (ms_revocations st) k of None \<Rightarrow> True | Some e \<Rightarrow> \<not> denying (re_status e))"

text \<open>The conditions on the request, the clocks and the random nonce under which the daemon presents a credential.\<close>

definition custodial_request :: "(mem_store, audit_log, key_store, 'x) service_env \<Rightarrow> inputs \<Rightarrow> verify_request \<Rightarrow> string \<Rightarrow> bool" where
  "custodial_request env inp req cid \<longleftrightarrow> env_AllowCustodialInvocation env \<and> vr_Invocation req = NoInvocation
     \<and> vr_ChainCIDs req = [cid] \<and> verify_guards req
     \<and> request_ok (env_PlatformDID env) [] \<lparr>run_delegation = cid, run_action = vr_Action req,
         run_resource = vr_Resource req, run_parameters = vr_Parameters req\<rparr>
     \<and> clock_ok (in_mint inp) \<and> clock_ok (at_pop (in_readings inp))
     \<and> \<bar>at_pop (in_readings inp) div second - in_mint inp div second\<bar> \<le> 60
     \<and> \<not> (slt 0 (env_StartTime env) \<and> slt (unix (in_mint inp)) (env_StartTime env))"

definition live_for :: "('s, 'l, 'k, 'x) service_env \<Rightarrow> inputs \<Rightarrow> ucan_payload \<Rightarrow> bool" where
  "live_for env inp p \<longleftrightarrow> (let skew = (if slt 0 (env_ClockSkewSeconds env) then env_ClockSkewSeconds env else 60) in
     sle (at_temporal (in_readings inp)) (pl_exp p + skew) \<and> sle (pl_nbf p - skew) (at_temporal (in_readings inp)))"

lemma wildcard_guard: "rejectWildcardResource = wildcard_request"
  by (simp add: fun_eq_iff rejectWildcardResource_def wildcard_request_def)

lemma issued_not_block:
  assumes "CreateUCAN C p priv = Inr tok" and "payload_ok p"
  shows "\<not> isBlock tok"
  using CreateUCAN_hd [OF assms] by (auto simp: is_space_rune_def byte_def split: if_splits)

lemma registered_agent_key:
  assumes "memory_daemon C env" and "daemon_inv C (env_PlatformDID env) s" and "GetAgent (svc_Store s) did = Inr a"
  obtains key where "ks_Load (env_Keys env) (svc_Keys s) did = Inr key" "length key = PrivateKeySize"
    "did = EncodeDID (ed_public C key)"
proof -
  from assms(3) have "ms_agents (svc_Store s) did = Some a" by (simp add: GetAgent_def split: option.splits)
  with assms(2) have "is_ok (Load (svc_Keys s) did)" unfolding daemon_inv_def agents_inv_def by blast
  then obtain key where "Load (svc_Keys s) did = Inr key" by (auto simp: is_ok_def split: sum.splits)
  moreover from this assms(2) have "length key = PrivateKeySize \<and> did = EncodeDID (ed_public C key)"
    unfolding daemon_inv_def keys_inv_def by blast
  ultimately show ?thesis using that memory_daemonD(4) [OF assms(1)] by simp
qed

lemma stored_root_authorized:
  assumes vis: "\<And>xs. set (in_visit inp xs) = set xs" and C: "ed25519_ok C"
    and D: "memory_daemon C env" and I: "daemon_inv C (env_PlatformDID env) s"
    and p: "payload_ok p" "CreateUCAN C p (env_PlatformKey env) = Inr tok" "pl_prf p = []" "pl_iss p = env_PlatformDID env"
      "length (pl_att p) + sum_list (map (\<lambda>c. length (Constraints c)) (pl_att p)) \<le> MaxChainCapsCaveats"
    and stored: "MemoryStore_Get (svc_Store s) (ComputeCID C tok) = Inr tok"
      "MemoryStore_Contains (svc_Store s) (ComputeCID C tok) (ComputeCID C tok)"
    and agent: "GetAgent (svc_Store s) (pl_aud p) = Inr a"
    and ok: "undenied (svc_Store s) (ComputeCID C tok)" "undenied (svc_Store s) (pl_aud p)"
    and live: "live_for env inp p" and req: "custodial_request env inp req (ComputeCID C tok)"
    and grant: "find (matches (request_ctx inp req)) (pl_att p) = Some cap"
      "\<forall>c \<in> set (Constraints cap). evaluateConstraint c (request_ctx inp req)"
    and fresh: "nc_m (svc_NonceCache s) (b64_encode (in_nonce inp)) = None"
  shows "says_authorized (fst (handleVerify C env inp (Body req) s))"
proof -
  let ?cid = "ComputeCID C tok" and ?cfg = "verifierConfig env (svc_Store s)"
  note d = memory_daemonD [OF D] and r = req [unfolded custodial_request_def]
  from CreateUCAN_parses [OF C p(1,2)] obtain u where u: "ParseUCAN tok = Inr u" "u_payload u = p" by blast
  from registered_agent_key [OF D I agent] obtain key where key: "ks_Load (env_Keys env) (svc_Keys s) (pl_aud p) = Inr key"
    "length key = PrivateKeySize" "pl_aud p = EncodeDID (ed_public C key)" .
  from CreateInvocation_signed [OF C key(2), of "env_PlatformDID env" "[]" ?cid "vr_Action req" "vr_Resource req"
      "vr_Parameters req" "in_mint inp" "in_nonce inp"] r obtain i where
    i: "CreateInvocation C (in_mint inp) (in_nonce inp) ?cid (vr_Action req) (vr_Resource req) (vr_Parameters req) key
      (env_PlatformDID env) [] = Inr i" "inv_nonce i = b64_encode (in_nonce inp)"
      "inv_run i = \<lparr>run_delegation = ?cid, run_action = vr_Action req, run_resource = vr_Resource req, run_parameters = vr_Parameters req\<rparr>"
    by blast
  have for_leaf: "invocationFor C env inp req (hd (vr_ChainCIDs req)) s = Inr i"
    using r d(1) stored(1) issued_not_block [OF p(2,1)] u key(1) i(1) by (simp add: invocationFor_def audienceOf_def mapErr_def)
  have ctx: "invocation_ctx ?cfg (at_context (in_readings inp)) i = request_ctx inp req"
    by (simp add: invocation_ctx_def request_ctx_def i(3))
  have status: "status_allows ?cfg res x" if "undenied (svc_Store s) x" for x res
    using that d(1) by (auto simp: status_allows_def undenied_def MemoryStore_GetStatus_def GetStatus_def split: option.splits)
  have iss: "pl_iss p = EncodeDID (ed_public C (env_PlatformKey env))" using p(4) d(6) by simp
  have skew: "clockSkew ?cfg = (if slt 0 (env_ClockSkewSeconds env) then env_ClockSkewSeconds env else 60)"
    by (simp add: clockSkew_def verifierConfig_def)
  have "res_OK (fst (Verify_request C (in_visit inp) ?cfg (Some (auditLog env (in_log inp))) (in_readings inp) None (Some i)
      \<lparr>vs_nonces = svc_NonceCache s, vs_audit = (svc_Audit s, svc_SIEM s)\<rparr>))"
  proof (rule root_accepted [OF vis C p(1,2,3) iss p(5) u(1) _ key(2,3), THEN conjunct1])
    show "effectiveStore C ?cfg None ?cid = Inr tok" using d(1) stored(1) by (simp add: mapErr_def)
    show "TrustedRootDIDs ?cfg (pl_iss p)" using p(4) by simp
    show "sle (at_temporal (in_readings inp)) (pl_exp p + clockSkew ?cfg)" "sle (pl_nbf p - clockSkew ?cfg) (at_temporal (in_readings inp))"
      using live by (simp_all add: live_for_def skew Let_def)
    show "CreateInvocation C (in_mint inp) (in_nonce inp) ?cid (vr_Action req) (vr_Resource req) (vr_Parameters req) key
      (VerifierDID ?cfg) [] = Inr i" using i(1) by simp
    show "\<not> wildcard_request (vr_Resource req)" using r by (simp add: verify_guards_def wildcard_guard)
    show "registered ?cfg (vr_Resource req) ?cid" using stored(2) d(1) by (simp add: registered_def)
    show "\<forall>x \<in> {?cid, pl_aud p}. status_allows ?cfg (vr_Resource req) x" using status ok by blast
    show "find (matches (invocation_ctx ?cfg (at_context (in_readings inp)) i)) (pl_att p) = Some cap"
      "\<forall>c \<in> set (Constraints cap). evaluateConstraint c (invocation_ctx ?cfg (at_context (in_readings inp)) i)"
      unfolding ctx by (rule grant)+
    show "nc_m (vs_nonces \<lparr>vs_nonces = svc_NonceCache s, vs_audit = (svc_Audit s, svc_SIEM s)\<rparr>) (inv_nonce i) = None"
      using fresh i(2) by simp
  qed (use r in simp_all)
  then show ?thesis
    using r for_leaf by (simp add: handleVerify_authorized run_verifier_result)
qed

subsection \<open>What issuing leaves\<close>

lemma issue_result:
  assumes "memory_daemon C env" and "handleIssueCredential C env inp (Body req) s = (IssueCredentialResponse cid tok, s1)"
  shows "CreateUCAN C (root_payload env (in_now inp) req) (env_PlatformKey env) = Inr tok" and "cid = ComputeCID C tok"
    and "\<exists>a. GetAgent (svc_Store s) (ir_AgentDID req) = Inr a"
    and "MemoryStore_Get (svc_Store s1) cid = Inr tok" and "MemoryStore_Contains (svc_Store s1) cid cid"
    and "ms_agents (svc_Store s1) = ms_agents (svc_Store s)" and "ms_revocations (svc_Store s1) = ms_revocations (svc_Store s)"
    and "svc_NonceCache s1 = svc_NonceCache s"
  using assms(2) memory_daemonD [OF assms(1)]
  by (auto simp: handleIssueCredential_def Let_def PutCredential_def MemoryStore_Get_def MemoryStore_Register_def
      MemoryStore_Contains_def memory_index.contains_register is_ok_def split: if_splits sum.splits prod.splits)

lemma issue_step:
  assumes "rq_method r = ''POST''" and "rq_segments r = [''v1'', ''credentials'']"
  shows "mux C env inp sub r s = handleIssueCredential C env inp (rq_issue r) s"
  by (simp add: mux_def route_def dispatch_def assms)

lemma issue_keeps_inv:
  assumes "memory_daemon C env" and "daemon_inv C (env_PlatformDID env) s"
  shows "daemon_inv C (env_PlatformDID env) (snd (handleIssueCredential C env inp b s))"
proof -
  let ?r = "\<lparr>rq_method = ''POST'', rq_segments = [''v1'', ''credentials''], rq_authorization = [], rq_register = BodyMalformed,
    rq_issue = b, rq_delegate = BodyMalformed, rq_verify = BodyMalformed, rq_revoke = BodyMalformed\<rparr>"
  show ?thesis using mux_daemon_inv [OF assms, of inp None ?r] issue_step [of ?r C env inp None s] by simp
qed

lemma issued_is_authorized:
  assumes vis: "\<And>xs. set (in_visit inp' xs) = set xs" and C: "ed25519_ok C"
    and D: "memory_daemon C env" and I: "daemon_inv C (env_PlatformDID env) s"
    and issued: "handleIssueCredential C env inp (Body req) s = (IssueCredentialResponse cid tok, s1)"
    and p: "payload_ok (root_payload env (in_now inp) req)"
      "length (ir_Capabilities req) + sum_list (map (\<lambda>c. length (Constraints c)) (ir_Capabilities req)) \<le> MaxChainCapsCaveats"
    and ok: "undenied (svc_Store s) cid" "undenied (svc_Store s) (ir_AgentDID req)"
    and live: "live_for env inp' (root_payload env (in_now inp) req)" and vreq: "custodial_request env inp' vreq cid"
    and grant: "find (matches (request_ctx inp' vreq)) (ir_Capabilities req) = Some cap"
      "\<forall>c \<in> set (Constraints cap). evaluateConstraint c (request_ctx inp' vreq)"
    and fresh: "nc_m (svc_NonceCache s) (b64_encode (in_nonce inp')) = None"
  shows "says_authorized (fst (handleVerify C env inp' (Body vreq) s1))"
proof -
  note i = issue_result [OF D issued]
  have I1: "daemon_inv C (env_PlatformDID env) s1" using issue_keeps_inv [OF D I, of inp "Body req"] issued by simp
  from i(3) obtain a where a: "GetAgent (svc_Store s1) (ir_AgentDID req) = Inr a" by (auto simp: GetAgent_def i(6))
  show ?thesis
    by (rule stored_root_authorized [where p = "root_payload env (in_now inp) req" and tok = tok and cap = cap, OF vis C D I1 p(1) i(1)])
      (use i p a ok live vreq grant fresh in \<open>simp_all add: root_payload_def undenied_def\<close>)
qed

subsection \<open>What delegating leaves\<close>

lemma Get_memory: "Get (ms_credentials st) = (\<lambda>c. mapErr (\<lambda>_. ErrProofNotFound) (MemoryStore_Get st c))"
  by (auto simp: Get_def MemoryStore_Get_def mapErr_def fun_eq_iff split: option.splits)

lemma BuildChain_memory: "BuildChain C cid (MemoryStore_Get st) m = BuildChain C cid (Get (ms_credentials st)) m"
  by (simp add: Get_memory BuildChain_mapErr)

lemma delegate_result:
  assumes "memory_daemon C env" and "handleDelegate C env inp (Body req) s = (DelegateResponse cid txt, s1)"
  obtains parentRaw parent delegator key b raw' ch where
    "MemoryStore_Get (svc_Store s) (dr_ParentCID req) = Inr parentRaw"
    "parentRef parentRaw (dr_ParentCID req) = Inr (parent, delegator)" "Load (svc_Keys s) delegator = Inr key"
    "CreateRestrictBlock C parent (dr_AudienceDID req) (dr_DepthLeft req) (dr_Caveats req) key = Inr (b, raw')"
    "cid = ComputeCID C raw'" "txt = b64_encode raw'"
    "ms_credentials (svc_Store s1) = (ms_credentials (svc_Store s))(cid \<mapsto> raw')"
    "BuildChain C cid (MemoryStore_Get (svc_Store s1)) (env_MaxChainDepth env) = Inr ch"
    "\<forall>x \<in> set (map el_cid (Elements ch)). MemoryStore_Contains (svc_Store s1) cid x"
  using assms(2) memory_daemonD [OF assms(1)] BuildChain_memory
  by (auto simp: handleDelegate_def delegateRestrict_def storeAndRegister_def Let_def PutCredential_def
      MemoryStore_Register_def MemoryStore_Contains_def memory_index.contains_register split: if_splits sum.splits prod.splits)

lemma parentRef_cid: "parentRef raw' cid = Inr (parent, d) \<Longrightarrow> par_cid parent = cid \<and> par_aud parent = d"
  by (auto simp: parentRef_def ParentFromBlock_def ParentFromUCAN_def err_simps split: if_splits option.splits)

lemma delegation_extends:
  assumes C: "ed25519_ok C" and D: "memory_daemon C env" and I: "daemon_inv C (env_PlatformDID env) s"
    and done': "handleDelegate C env inp (Body req) s = (DelegateResponse cid txt, s1)"
    and parent: "BuildChain C (dr_ParentCID req) (MemoryStore_Get (svc_Store s)) m = Inr c"
    and new: "ms_credentials (svc_Store s) cid = None"
    and u: "utf8_valid (dr_ParentCID req)" "utf8_valid (dr_AudienceDID req)" "\<forall>x \<in> set (dr_Caveats req). caveat_ok x"
  shows "\<exists>b key. BuildChain C cid (MemoryStore_Get (svc_Store s1)) (env_MaxChainDepth env) = Inr (chain_of
        (\<lparr>el_body = Block b, el_cid = cid, el_root = False, el_mode = ModeRestrict\<rparr> # Elements c))
    \<and> blk_aud b = dr_AudienceDID req \<and> blk_cav b = dr_Caveats req \<and> blk_dl b = dr_DepthLeft req
    \<and> Load (svc_Keys s) (blk_iss b) = Inr key \<and> Block_Verify C b (ed_public C key) = Inr ()
    \<and> (\<forall>x \<in> set (map el_cid (Elements c)). cid \<in> set (MemoryStore_FindDescendants (svc_Store s1) x))"
proof -
  from delegate_result [OF D done'] obtain parentRaw p delegator key b raw' ch where r:
    "MemoryStore_Get (svc_Store s) (dr_ParentCID req) = Inr parentRaw"
    "parentRef parentRaw (dr_ParentCID req) = Inr (p, delegator)" "Load (svc_Keys s) delegator = Inr key"
    "CreateRestrictBlock C p (dr_AudienceDID req) (dr_DepthLeft req) (dr_Caveats req) key = Inr (b, raw')"
    "cid = ComputeCID C raw'"
    "ms_credentials (svc_Store s1) = (ms_credentials (svc_Store s))(cid \<mapsto> raw')"
    "BuildChain C cid (MemoryStore_Get (svc_Store s1)) (env_MaxChainDepth env) = Inr ch"
    "\<forall>x \<in> set (map el_cid (Elements ch)). MemoryStore_Contains (svc_Store s1) cid x" .
  let ?creds = "ms_credentials (svc_Store s)"
  let ?e = "\<lparr>el_body = Block b, el_cid = cid, el_root = False, el_mode = ModeRestrict\<rparr>"
  from parentRef_cid [OF r(2)] have p: "par_cid p = dr_ParentCID req" "par_aud p = delegator" by auto
  from I r(3) have "delegator = EncodeDID (ed_public C key)" by (auto simp: daemon_inv_def keys_inv_def)
  then have du: "utf8_valid delegator" by (simp add: utf8_EncodeDID)
  have ca: "content_addressed C ?creds" using I by (simp add: daemon_inv_def store_inv_def)
  from parent obtain es where es: "proof_path C (Get ?creds) (par_cid p) es" "c = chain_of es"
    unfolding BuildChain_memory BuildChain_iff p(1) by blast
  from CreateRestrictBlock_result [OF r(4)] have dl: "slt (dr_DepthLeft req) (par_dl p)" "sle 0 (dr_DepthLeft req)" by blast+
  then have d: "DelegateRestrict C p (dr_AudienceDID req) (dr_Caveats req) (dr_DepthLeft req) key ?creds
      = Inr (b, cid, ms_credentials (svc_Store s1))"
    using r(4) r(5) r(6) by (simp add: DelegateRestrict_def mapErr_def Put_def Let_def word_sle_eq word_sless_alt)
  have path: "proof_path C (Get (ms_credentials (svc_Store s1))) cid (?e # es)"
    by (rule DelegateRestrict_path [OF C ca es(1) d new]) (use u du p in simp_all)
  from r(7) obtain es' where "proof_path C (Get (ms_credentials (svc_Store s1))) cid es'" "ch = chain_of es'"
    unfolding BuildChain_memory BuildChain_iff by blast
  with proof_path_unique [OF path] have ch: "ch = chain_of (?e # es)" by blast
  from CreateRestrictBlock_parses [OF C r(4)] u du p have b: "Block_Verify C b (ed_public C key) = Inr ()"
    "blk_aud b = dr_AudienceDID req" "blk_dl b = dr_DepthLeft req" "blk_cav b = dr_Caveats req" by auto
  from CreateRestrictBlock_result [OF r(4)] have iss: "blk_iss b = delegator" using p by auto
  have "cid \<notin> set (map el_cid es)"
  proof
    assume "cid \<in> set (map el_cid es)"
    then obtain e where "e \<in> set es" "el_cid e = cid" by auto
    with proof_path_elems [OF es(1)] have "resolves C (Get ?creds) cid e" by blast
    with new show False by (auto simp: resolves_def Get_def)
  qed
  then have "\<forall>x \<in> set (map el_cid es). cid \<in> set (MemoryStore_FindDescendants (svc_Store s1) x)"
    using r(8) ch by (auto simp: MemoryStore_FindDescendants_def FindDescendants_set MemoryStore_Contains_def chain_of_def)
  with r(3,7) ch es(2) b iss show ?thesis by (auto simp: chain_of_def)
qed

end
