(* ===== verification/Daemon_Samples.thy ===== *)
theory Daemon_Samples
  imports Daemon_Custody
begin

text \<open>A small daemon for evaluation: one agent is registered and holds a root credential.\<close>

definition sample_env :: "crypto \<Rightarrow> (mem_store, audit_log, key_store, unit) service_env" where
  "sample_env C = \<lparr>env_Store = memory_store C, env_Append = Append C, env_Keys = memory_keystore, env_SIEM = None,
     env_PlatformKey = sample_root_key, env_PlatformDID = EncodeDID (ed_public C sample_root_key), env_MaxChainDepth = 5,
     env_ClockSkewSeconds = 30, env_DefaultRiskTier = ''HIGH'', env_AllowCustodialInvocation = True, env_StartTime = 900\<rparr>"

definition sample_inputs :: inputs where
  "sample_inputs = \<lparr>in_now = 1000, in_later = 1000, in_log = 1000, in_mint = 1000 * second, in_readings = sample_readings,
     in_key = Some sample_key, in_nonce = ''n'', in_visit = (\<lambda>xs. xs), in_order = (\<lambda>_. [])\<rparr>"

definition sample_did :: "crypto \<Rightarrow> string" where
  "sample_did C = EncodeDID (ed_public C sample_key)"

definition sample_boot :: "(mem_store, audit_log, key_store, unit) service_state" where
  "sample_boot = boot_state [] ()"

definition sample_register :: "register_request body" where
  "sample_register = Body \<lparr>rr_SponsorDID = ''did:key:sponsor'', rr_Metadata = None\<rparr>"

definition sample_issue :: "crypto \<Rightarrow> issue_request" where
  "sample_issue C = \<lparr>ir_AgentDID = sample_did C, ir_Capabilities =
     [\<lparr>Can = CanToolInvoke, With = ''tool://acme/a'', Constraints = []\<rparr>,
      \<lparr>Can = CanAgentDelegate, With = ''tool://acme/a'', Constraints = [sample_caveat]\<rparr>], ir_ExpSeconds = 4000\<rparr>"

definition sample_registered :: "crypto \<Rightarrow> (mem_store, audit_log, key_store, unit) service_state" where
  "sample_registered C = snd (handleRegisterAgent C (sample_env C) sample_inputs None sample_register sample_boot)"

lemma sample_daemon: "memory_daemon C (sample_env C)"
  by (simp add: memory_daemon_def sample_env_def sample_root_key_def PrivateKeySize_def)

lemma sample_register_step:
  "handleRegisterAgent C (sample_env C) sample_inputs None sample_register sample_boot
     = (RegisterAgentResponse (sample_did C) ''did:key:sponsor'' ''ACTIVE'', sample_registered C)"
  "\<exists>a. GetAgent (svc_Store (sample_registered C)) (sample_did C) = Inr a"
  "svc_Keys (sample_registered C) = [(sample_did C, sample_key)]"
  "ms_credentials (svc_Store (sample_registered C)) = Map.empty"
  "ms_revocations (svc_Store (sample_registered C)) = NewMemoryRevocationCache"
  "svc_NonceCache (sample_registered C) = NewMemoryNonceCache []"
proof -
  have t: "Transition 1000 (NewAgent 1000 (sample_did C) ''did:key:sponsor'') StateActive by' why =
      Inr (NewAgent 1000 (sample_did C) ''did:key:sponsor''\<lparr>ag_history := [\<lparr>tr_from = StateRegistered, tr_to = StateActive,
        tr_at = 1000, tr_by = by', tr_reason = why\<rparr>], ag_activatedAt := 1000, ag_state := StateActive\<rparr>)" for by' why
    by (simp add: Transition_def NewAgent_def)
  have st: "Store [] (sample_did C) sample_key = Inr [(sample_did C, sample_key)]"
    by (simp add: Store_def sample_did_def sample_key_def)
  let ?st = "New\<lparr>ms_agents := [sample_did C \<mapsto> NewAgent 1000 (sample_did C) ''did:key:sponsor''\<lparr>ag_history :=
      [\<lparr>tr_from = StateRegistered, tr_to = StateActive, tr_at = 1000, tr_by = EncodeDID (ed_public C sample_root_key),
        tr_reason = ''agent registered''\<rparr>], ag_activatedAt := 1000, ag_state := StateActive\<rparr>]\<rparr>"
  have all: "handleRegisterAgent C (sample_env C) sample_inputs None sample_register sample_boot
     = (RegisterAgentResponse (sample_did C) ''did:key:sponsor'' ''ACTIVE'',
        append_audit (sample_env C) 1000 (new_entry EventAgentRegistered (sample_did C) [] 0 None)
          (sample_boot\<lparr>svc_Keys := [(sample_did C, sample_key)], svc_Store := ?st\<rparr>))"
    using t st by (simp add: handleRegisterAgent_def sample_register_def sample_inputs_def GenerateDID_def sample_env_def
        memory_keystore_def sample_boot_def boot_state_def NewMemoryKeyStore_def sample_did_def [symmetric] PutAgent_def New_def
        NewAgent_def)
      (simp add: sample_did_def Let_def)
  show "handleRegisterAgent C (sample_env C) sample_inputs None sample_register sample_boot
     = (RegisterAgentResponse (sample_did C) ''did:key:sponsor'' ''ACTIVE'', sample_registered C)"
    by (simp add: sample_registered_def all)
  show "\<exists>a. GetAgent (svc_Store (sample_registered C)) (sample_did C) = Inr a"
    "svc_Keys (sample_registered C) = [(sample_did C, sample_key)]"
    "ms_credentials (svc_Store (sample_registered C)) = Map.empty"
    "ms_revocations (svc_Store (sample_registered C)) = NewMemoryRevocationCache"
    "svc_NonceCache (sample_registered C) = NewMemoryNonceCache []"
    unfolding sample_registered_def all
    by (simp_all add: GetAgent_def New_def sample_boot_def boot_state_def)
qed

lemma sample_payload_facts:
  "payload_ok (root_payload (sample_env C) 1000 (sample_issue C))"
  "validateForIssuance (root_payload (sample_env C) 1000 (sample_issue C)) = Inr ()"
proof -
  have "utf8_valid CanToolInvoke \<and> utf8_valid ''tool://acme/a'' \<and> utf8_valid CanAgentDelegate" by code_simp
  then show "payload_ok (root_payload (sample_env C) 1000 (sample_issue C))"
    using sample_facts(1) by (simp add: payload_ok_def root_payload_def sample_env_def sample_issue_def sample_did_def
        utf8_EncodeDID capability_ok_def)
  have "Capability_Validate \<lparr>Can = CanToolInvoke, With = ''tool://acme/a'', Constraints = []\<rparr> = Inr ()"
    "Capability_Validate \<lparr>Can = CanAgentDelegate, With = ''tool://acme/a'', Constraints = [sample_caveat]\<rparr> = Inr ()" by code_simp+
  then show "validateForIssuance (root_payload (sample_env C) 1000 (sample_issue C)) = Inr ()"
    by (simp add: validateForIssuance_def root_payload_def sample_env_def sample_issue_def sample_did_def MaxCapabilities_def)
qed

lemma sample_issue_step:
  assumes "ed25519_ok C"
  obtains tok s where "handleIssueCredential C (sample_env C) sample_inputs (Body (sample_issue C)) (sample_registered C)
      = (IssueCredentialResponse (ComputeCID C tok) tok, s)"
    "CreateUCAN C (root_payload (sample_env C) 1000 (sample_issue C)) sample_root_key = Inr tok"
    "ms_credentials (svc_Store s) = [ComputeCID C tok \<mapsto> tok]" "svc_Keys s = [(sample_did C, sample_key)]"
proof -
  from CreateUCAN_succeeds [OF sample_payload_facts, of sample_root_key C C] obtain tok where
    tok: "CreateUCAN C (root_payload (sample_env C) 1000 (sample_issue C)) sample_root_key = Inr tok"
    by (auto simp: sample_root_key_def PrivateKeySize_def)
  note r = sample_register_step [of C]
  from r(2) obtain a where a: "GetAgent (svc_Store (sample_registered C)) (sample_did C) = Inr a" by blast
  have did: "is_ok (ParseDID (sample_did C))"
    using assms ParseDID_iff [of "sample_did C" "ed_public C sample_key"]
    by (simp add: ed25519_ok_def sample_did_def sample_key_def PrivateKeySize_def PublicKeySize_def didKeySize_def is_ok_def)
  let ?st = "MemoryStore_Register (snd (PutCredential C (svc_Store (sample_registered C)) tok)) (ComputeCID C tok) [ComputeCID C tok]"
  let ?s = "append_audit (sample_env C) 1000 (new_entry EventDelegationIssued (sample_did C) (ComputeCID C tok) 0 None)
     (sample_registered C\<lparr>svc_Store := ?st\<rparr>)"
  have "handleIssueCredential C (sample_env C) sample_inputs (Body (sample_issue C)) (sample_registered C)
      = (IssueCredentialResponse (ComputeCID C tok) tok, ?s)"
    using tok a did by (simp add: handleIssueCredential_def sample_inputs_def sample_issue_def sample_env_def is_ok_def
        PutCredential_def Let_def)
  moreover have "ms_credentials (svc_Store ?s) = [ComputeCID C tok \<mapsto> tok]" "svc_Keys ?s = [(sample_did C, sample_key)]"
    using r(3,4) by (simp_all add: MemoryStore_Register_def PutCredential_def Let_def)
  ultimately show ?thesis using that tok by blast
qed

lemma sample_inv: "daemon_inv C (env_PlatformDID (sample_env C)) (sample_registered C)"
proof -
  let ?r = "\<lparr>rq_method = ''POST'', rq_segments = [''v1'', ''agents''], rq_authorization = [], rq_register = sample_register,
    rq_issue = BodyMalformed, rq_delegate = BodyMalformed, rq_verify = BodyMalformed, rq_revoke = BodyMalformed\<rparr>"
  have "mux C (sample_env C) sample_inputs None ?r sample_boot
      = handleRegisterAgent C (sample_env C) sample_inputs None sample_register sample_boot"
    by (simp add: mux_def route_def dispatch_def)
  with mux_daemon_inv [OF sample_daemon boot_inv, of C sample_inputs None ?r "[]" "()"] show ?thesis
    by (simp add: sample_registered_def sample_boot_def)
qed

end
