(* ===== verification/Daemon_Properties.thy ===== *)
theory Daemon_Properties
  imports Daemon_Samples
begin

text \<open>
  The guarantees of the daemon, from its routes to its store: its invariant, what its verification endpoint
  decides, that a confirmed revocation denies, that nothing protected happens without a credential, and
  that issuing and delegating work.
\<close>

subsection \<open>Requests of the sample daemon\<close>

definition sample_verify :: "string \<Rightarrow> verify_request" where
  "sample_verify cid = \<lparr>vr_ChainCIDs = [cid], vr_Invocation = NoInvocation, vr_Action = CanToolInvoke,
     vr_Resource = ''tool://acme/a'', vr_Parameters = None\<rparr>"

definition sample_revoke :: "string \<Rightarrow> revoke_request" where
  "sample_revoke cid = \<lparr>vk_SubjectCID = cid, vk_SubjectDID = [], vk_Scope = ScopeCredential, vk_Status = StatusRevoked, vk_Reason = []\<rparr>"

lemma sample_custodial: "custodial_request (sample_env C) sample_inputs (sample_verify (ComputeCID C tok)) (ComputeCID C tok)"
proof -
  have "utf8_valid CanToolInvoke" "utf8_valid ''tool://acme/a''"
    "utf8_valid ''delegation'' \<and> utf8_valid ''action'' \<and> utf8_valid ''resource'' \<and> utf8_valid ''parameters''" by code_simp+
  then have "request_ok (env_PlatformDID (sample_env C)) [] \<lparr>run_delegation = ComputeCID C tok, run_action = CanToolInvoke,
      run_resource = ''tool://acme/a'', run_parameters = None\<rparr>"
    using utf8_ComputeCID by (simp add: request_ok_def run_json_def sample_env_def utf8_EncodeDID)
  moreover have "\<not> rejectWildcardResource ''tool://acme/a''" "CanToolInvoke \<noteq> []" by code_simp+
  ultimately show ?thesis
    by (simp add: custodial_request_def sample_verify_def verify_guards_def sample_inputs_def sample_env_def
        sample_readings_def clock_ok_def second_def unix_def)
qed

lemma sample_grants:
  "find (matches (request_ctx sample_inputs (sample_verify cid))) (ir_Capabilities (sample_issue C))
     = Some \<lparr>Can = CanToolInvoke, With = ''tool://acme/a'', Constraints = []\<rparr>"
proof -
  have "uriCovers ''tool://acme/a'' ''tool://acme/a''" by code_simp
  then show ?thesis by (simp add: sample_issue_def matches_def request_ctx_def sample_verify_def)
qed

lemma sample_live: "live_for (sample_env C) sample_inputs (root_payload (sample_env C) 1000 (sample_issue C))"
  by (simp add: live_for_def sample_env_def sample_inputs_def sample_readings_def root_payload_def sample_issue_def)

lemma sample_inputs_simps:
  "in_now sample_inputs = 1000" "in_visit sample_inputs xs = xs" "in_nonce sample_inputs = ''n''"
  "ir_AgentDID (sample_issue C) = sample_did C"
  "length (ir_Capabilities (sample_issue C)) + sum_list (map (\<lambda>c. length (Constraints c)) (ir_Capabilities (sample_issue C))) \<le> MaxChainCapsCaveats"
  by (simp_all add: sample_inputs_def sample_issue_def MaxChainCapsCaveats_def)

lemma sample_undenied: "undenied (svc_Store (sample_registered C)) x"
  by (simp add: undenied_def sample_register_step(5) NewMemoryRevocationCache_def)

lemma sample_authorized:
  assumes "ed25519_ok C" and "handleIssueCredential C (sample_env C) sample_inputs (Body (sample_issue C)) (sample_registered C)
      = (IssueCredentialResponse (ComputeCID C tok) tok, s)"
  shows "says_authorized (fst (handleVerify C (sample_env C) sample_inputs (Body (sample_verify (ComputeCID C tok))) s))"
  by (rule issued_is_authorized [OF sample_inputs_simps(2)[THEN arg_cong] assms(1) sample_daemon sample_inv assms(2) _ sample_inputs_simps(5)
        sample_undenied sample_undenied _ sample_custodial sample_grants])
    (simp_all add: sample_inputs_simps sample_payload_facts(1) sample_live sample_register_step(6) NewMemoryNonceCache_def)

lemma sample_revoke_step:
  assumes "ed25519_ok C" and "utf8_valid cid" and "cid \<noteq> []" and "rc_entries (ms_revocations (svc_Store s)) cid = None"
  obtains s1 where "handleRevoke C (sample_env C) sample_inputs (Body (sample_revoke cid)) s = (RevokeResponse 1 StatusRevoked 0, s1)"
    "ms_credentials (svc_Store s1) = ms_credentials (svc_Store s)" "svc_Keys s1 = svc_Keys s"
proof -
  let ?key = sample_root_key and ?c = "ms_revocations (svc_Store s)"
  have v: "ValidateAuthority AuthPlatform StatusRevoked ScopeCredential = Inr ()" "utf8_valid StatusRevoked"
    "utf8_valid ScopeCredential" by code_simp+
  have len: "length ?key = PrivateKeySize" by (simp add: sample_root_key_def PrivateKeySize_def)
  have sq: "CurrentSeq ?c cid = 0" using assms(4) by (simp add: CurrentSeq_def)
  then have "accepting_cache.seq_room ?c cid" by (simp add: accepting_cache.seq_room_def)
  have "\<exists>e c. CreateRevocationEntry C (in_now sample_inputs) \<lparr>sub_cid = cid, sub_did = []\<rparr> ScopeCredential StatusRevoked
      (cascade_auth C ?key cid) (CurrentSeq ?c cid + 1) [] ?key = Inr e \<and> Revoke C ?c e = Inr c"
    by (rule accepting_cache.post_next [OF assms(1) len _ v assms(2,2,3)]) (fact | assumption)+
  with sq obtain e c where
    e: "CreateRevocationEntry C (in_now sample_inputs) \<lparr>sub_cid = cid, sub_did = []\<rparr> ScopeCredential StatusRevoked
      (cascade_auth C ?key cid) 1 [] ?key = Inr e" "Revoke C ?c e = Inr c" by auto
  have "StatusRevoked \<noteq> StatusCompromised" by code_simp
  then have "\<exists>s1. handleRevoke C (sample_env C) sample_inputs (Body (sample_revoke cid)) s = (RevokeResponse 1 StatusRevoked 0, s1)
      \<and> ms_credentials (svc_Store s1) = ms_credentials (svc_Store s) \<and> svc_Keys s1 = svc_Keys s"
    using e v(1) sq assms(3) by (simp add: handleRevoke_def sample_revoke_def sample_env_def is_ok_def cascade_auth_def
        MemoryStore_CurrentSeq_def MemoryStore_Revoke_def err_simps)
  then show ?thesis using that by blast
qed

subsection \<open>Properties\<close>

text \<open>C5: The invariant of the daemon: along any requests, whatever their outcomes, its credentials stay
  content addressed and listed once, its registrations and revocations keep their invariants, every key it
  holds belongs to the identifier it is kept under, every agent is active, has a sponsor and a key, every
  revocation entry is the platform's and carries its signature, and its audit log verifies and only grows.\<close>

theorem Daemon_invariant:
  assumes "memory_daemon C env" and "daemon_run C env Q s s'" and "daemon_inv C (env_PlatformDID env) s"
  shows "daemon_inv C (env_PlatformDID env) s'
    \<and> (\<exists>t. al_entries (svc_Audit s') = al_entries (svc_Audit s) @ t)"
  using assms(2,3)
proof (induction rule: daemon_run.induct)
  case (served s s1 r inp sub)
  from served obtain t where "daemon_inv C (env_PlatformDID env) s1" "al_entries (svc_Audit s1) = al_entries (svc_Audit s) @ t" by blast
  with mux_daemon_inv [OF assms(1), of s1 inp sub r] mux_audit_extends [OF assms(1), of s1 inp sub r] show ?case
    by (auto simp: daemon_inv_def)
qed simp

theorem Daemon_invariant_witness:
  "\<exists>s. daemon_run demo_crypto (sample_env demo_crypto) (\<lambda>_. True) sample_boot s
    \<and> daemon_inv demo_crypto (env_PlatformDID (sample_env demo_crypto)) s
    \<and> (\<exists>a. GetAgent (svc_Store s) (sample_did demo_crypto) = Inr a)"
proof -
  let ?r = "\<lparr>rq_method = ''POST'', rq_segments = [''v1'', ''agents''], rq_authorization = [], rq_register = sample_register,
    rq_issue = BodyMalformed, rq_delegate = BodyMalformed, rq_verify = BodyMalformed, rq_revoke = BodyMalformed\<rparr>"
  have "daemon_run demo_crypto (sample_env demo_crypto) (\<lambda>_. True) sample_boot
      (snd (mux demo_crypto (sample_env demo_crypto) sample_inputs None ?r sample_boot))"
    by (rule served [OF quiet]) simp
  then have run: "daemon_run demo_crypto (sample_env demo_crypto) (\<lambda>_. True) sample_boot (sample_registered demo_crypto)"
    by (simp add: mux_def route_def dispatch_def sample_registered_def)
  have "daemon_inv demo_crypto (env_PlatformDID (sample_env demo_crypto)) sample_boot"
    by (simp add: sample_boot_def boot_inv)
  from Daemon_invariant [OF sample_daemon run this] sample_register_step(2) [of demo_crypto] run show ?thesis by blast
qed

text \<open>C3: The verification endpoint decides its specification over any backend: it answers that a request is
  authorized exactly when the request is well formed and carries, or the daemon may mint, an invocation that the
  verifier's specification authorizes under the platform as the only root, with an unspent nonce.\<close>

theorem Verify_endpoint_decides:
  assumes "\<And>xs. set (in_visit inp xs) = set xs"
  shows "says_authorized (fst (handleVerify C env inp (Body req) s)) \<longleftrightarrow> verify_guards req
     \<and> (\<exists>i. invocationFor C env inp req (hd (vr_ChainCIDs req)) s = Inr i
        \<and> (\<exists>ch cap. authorized C (verifierConfig env (svc_Store s)) (in_readings inp) None i ch cap
             \<and> nonce_unspent (at_pop (in_readings inp)) (svc_NonceCache s) (inv_nonce i)))"
  using handleVerify_decides [of inp, OF assms] by (simp add: service_authorized_def)

theorem Verify_endpoint_decides_witness:
  "\<exists>tok s i ch cap. CreateUCAN demo_crypto (root_payload (sample_env demo_crypto) 1000 (sample_issue demo_crypto)) sample_root_key = Inr tok
    \<and> authorized demo_crypto (verifierConfig (sample_env demo_crypto) s) (in_readings sample_inputs) None i ch cap"
proof -
  obtain tok s where s: "handleIssueCredential demo_crypto (sample_env demo_crypto) sample_inputs (Body (sample_issue demo_crypto))
      (sample_registered demo_crypto) = (IssueCredentialResponse (ComputeCID demo_crypto tok) tok, s)"
    "CreateUCAN demo_crypto (root_payload (sample_env demo_crypto) 1000 (sample_issue demo_crypto)) sample_root_key = Inr tok"
    using sample_issue_step [OF demo_crypto_ok(1)] by metis
  have "set (in_visit sample_inputs xs) = set xs" for xs by (simp add: sample_inputs_simps)
  from Verify_endpoint_decides [of sample_inputs, OF this, of demo_crypto "sample_env demo_crypto" "sample_verify (ComputeCID demo_crypto tok)" s]
    sample_authorized [OF demo_crypto_ok(1) s(1)] s(2) show ?thesis by blast
qed

text \<open>C2: A revocation the daemon has confirmed is enforced: after a denying status of a subject, or a
  compromise of a credential the subject is registered under, no verification over a chain with the subject
  is authorized, whatever requests come in between, until one gives the subject a status that does not deny.\<close>

theorem Daemon_revocation_enforced:
  assumes "\<And>xs. set (in_visit inp' xs) = set xs" and "memory_daemon C env" and "store_inv C (svc_Store s)"
    and "handleRevoke C env inp (Body req) s = (RevokeResponse q st n, s1)" and "denying (vk_Status req)"
    and "k = Key \<lparr>sub_cid = vk_SubjectCID req, sub_did = vk_SubjectDID req\<rparr>
      \<or> (vk_Status req = StatusCompromised \<and> vk_SubjectCID req \<noteq> [] \<and> MemoryStore_Contains (svc_Store s) k (vk_SubjectCID req))"
    and "daemon_run C env (\<lambda>r. \<not> lifts k r) s1 s2"
    and "invocationFor C env inp' vreq (hd (vr_ChainCIDs vreq)) s2 = Inr i"
    and "BuildChain C (run_delegation (inv_run i)) (MemoryStore_Get (svc_Store s2)) (env_MaxChainDepth env) = Inr ch"
    and "k \<in> subjects (Elements ch)"
  shows "\<not> says_authorized (fst (handleVerify C env inp' (Body vreq) s2))"
  by (rule mem.revocation_enforced [of inp', OF assms(1) memory_daemonD(1) [OF assms(2)] assms(3-5) TrueI _ _ assms(8) _ assms(10)])
    (use assms(6,7,9) in \<open>simp_all add: proper_request_def is_ok_def\<close>)

theorem Daemon_revocation_enforced_witness:
  "\<exists>tok s s1. handleRevoke demo_crypto (sample_env demo_crypto) sample_inputs (Body (sample_revoke (ComputeCID demo_crypto tok))) s
      = (RevokeResponse 1 StatusRevoked 0, s1)
    \<and> says_authorized (fst (handleVerify demo_crypto (sample_env demo_crypto) sample_inputs (Body (sample_verify (ComputeCID demo_crypto tok))) s))
    \<and> \<not> says_authorized (fst (handleVerify demo_crypto (sample_env demo_crypto) sample_inputs (Body (sample_verify (ComputeCID demo_crypto tok))) s1))"
proof -
  let ?C = demo_crypto and ?env = "sample_env demo_crypto"
  obtain tok s where s: "handleIssueCredential ?C ?env sample_inputs (Body (sample_issue ?C)) (sample_registered ?C)
      = (IssueCredentialResponse (ComputeCID ?C tok) tok, s)"
    "CreateUCAN ?C (root_payload ?env 1000 (sample_issue ?C)) sample_root_key = Inr tok"
    "ms_credentials (svc_Store s) = [ComputeCID ?C tok \<mapsto> tok]" "svc_Keys s = [(sample_did ?C, sample_key)]"
    by (rule sample_issue_step [OF demo_crypto_ok(1)])
  let ?cid = "ComputeCID ?C tok"
  have "rc_entries (ms_revocations (svc_Store s)) ?cid = None"
    using issue_result(7) [OF sample_daemon s(1)] by (simp add: sample_register_step(5) NewMemoryRevocationCache_def)
  then obtain s1 where r: "handleRevoke ?C ?env sample_inputs (Body (sample_revoke ?cid)) s = (RevokeResponse 1 StatusRevoked 0, s1)"
    "ms_credentials (svc_Store s1) = ms_credentials (svc_Store s)" "svc_Keys s1 = svc_Keys s"
    by (rule sample_revoke_step [OF demo_crypto_ok(1) utf8_ComputeCID ComputeCID_not_empty(1)])
  have get: "MemoryStore_Get (svc_Store s1) ?cid = Inr tok" by (simp add: MemoryStore_Get_def r(2) s(3))
  from CreateUCAN_parses [OF demo_crypto_ok(1) sample_payload_facts(1) s(2)] obtain u where u: "ParseUCAN tok = Inr u"
    "u_payload u = root_payload ?env 1000 (sample_issue ?C)" by blast
  have p: "pl_prf (root_payload ?env 1000 (sample_issue ?C)) = []"
    "pl_iss (root_payload ?env 1000 (sample_issue ?C)) = EncodeDID (ed_public ?C sample_root_key)"
    "pl_aud (root_payload ?env 1000 (sample_issue ?C)) = sample_did ?C"
    "length (pl_att (root_payload ?env 1000 (sample_issue ?C)))
       + sum_list (map (\<lambda>c. length (Constraints c)) (pl_att (root_payload ?env 1000 (sample_issue ?C)))) \<le> MaxChainCapsCaveats"
    by (simp_all add: root_payload_def sample_env_def sample_inputs_simps)
  note ch = root_chain(1) [where m = "env_MaxChainDepth ?env" and get = "MemoryStore_Get (svc_Store s1)", OF demo_crypto_ok(1) sample_payload_facts(1) s(2) p(1,2,4) u(1) get]
  note c = sample_custodial [of ?C tok, unfolded custodial_request_def]
  from CreateInvocation_signed [OF demo_crypto_ok(1) sample_lengths, of "env_PlatformDID ?env" "[]" ?cid CanToolInvoke "''tool://acme/a''" None
      "in_mint sample_inputs" "in_nonce sample_inputs"] c obtain i where
    i: "CreateInvocation ?C (in_mint sample_inputs) (in_nonce sample_inputs) ?cid CanToolInvoke ''tool://acme/a'' None sample_key
      (env_PlatformDID ?env) [] = Inr i" "run_delegation (inv_run i) = ?cid" by (auto simp: sample_verify_def)
  have inv: "invocationFor ?C ?env sample_inputs (sample_verify ?cid) (hd (vr_ChainCIDs (sample_verify ?cid))) s1 = Inr i"
    using get issued_not_block [OF s(2) sample_payload_facts(1)] u p(3) i(1) memory_daemonD [OF sample_daemon, of ?C]
    by (simp add: invocationFor_def sample_verify_def audienceOf_def r(3) s(4) Load_def mapErr_def)
      (simp add: sample_env_def)
  have "denying (vk_Status (sample_revoke ?cid))" by (simp add: sample_revoke_def denying_def)
  have inv_s: "store_inv ?C (svc_Store s)"
    using issue_keeps_inv [OF sample_daemon sample_inv, of ?C sample_inputs "Body (sample_issue ?C)"] s(1) by (simp add: daemon_inv_def)
  have "\<not> says_authorized (fst (handleVerify ?C ?env sample_inputs (Body (sample_verify ?cid)) s1))"
    by (rule Daemon_revocation_enforced [OF _ sample_daemon inv_s r(1) _ _ quiet inv ch [folded i(2)], where k = ?cid])
      (simp_all add: i(2) sample_inputs_simps sample_revoke_def denying_def Key_def subjects_def chain_of_def)
  with sample_authorized [OF demo_crypto_ok(1) s(1)] r(1) show ?thesis by blast
qed

text \<open>With an invocation of the client, the answer of the verification endpoint and everything it changes
  depend on the invocation alone: two well-formed requests that carry the same invocation are answered alike
  whatever chain, action, resource and parameters they name.\<close>

theorem Verify_endpoint_ignores_request:
  assumes "vr_Invocation req = Invocation i" and "vr_Invocation req' = Invocation i"
    and "verify_guards req" and "verify_guards req'"
  shows "handleVerify C env inp (Body req) s = handleVerify C env inp (Body req') s"
proof -
  have "invocationFor C env inp req c s = Inr i" "invocationFor C env inp req' c s = Inr i" for c
    using assms(1,2) by (simp_all add: invocationFor_def)
  then show ?thesis
    using assms(3,4) by (simp add: handleVerify_cases verify_response_def)
qed

definition confused_verify :: "invocation \<Rightarrow> verify_request" where
  "confused_verify i = \<lparr>vr_ChainCIDs = [''no such credential''], vr_Invocation = Invocation i, vr_Action = ''payments/transfer'',
     vr_Resource = ''bank://vault/main'', vr_Parameters = None\<rparr>"

theorem Verify_endpoint_ignores_request_witness:
  "\<exists>i s. run_action (inv_run i) = CanToolInvoke \<and> run_resource (inv_run i) = ''tool://acme/a''
    \<and> says_authorized (fst (handleVerify demo_crypto (sample_env demo_crypto) sample_inputs (Body (confused_verify i)) s))"
proof -
  let ?C = demo_crypto and ?env = "sample_env demo_crypto"
  obtain tok s where s: "handleIssueCredential ?C ?env sample_inputs (Body (sample_issue ?C)) (sample_registered ?C)
      = (IssueCredentialResponse (ComputeCID ?C tok) tok, s)"
    by (rule sample_issue_step [OF demo_crypto_ok(1)])
  let ?req = "sample_verify (ComputeCID ?C tok)"
  from sample_authorized [OF demo_crypto_ok(1) s] obtain i where
    i: "invocationFor ?C ?env sample_inputs ?req (hd (vr_ChainCIDs ?req)) s = Inr i"
      "res_OK (fst (run_verifier ?C ?env sample_inputs i s))" "verify_guards ?req" by (auto simp: handleVerify_authorized)
  from i(1) have run: "run_action (inv_run i) = CanToolInvoke \<and> run_resource (inv_run i) = ''tool://acme/a''"
    by (auto simp: invocationFor_def sample_verify_def mapErr_def CreateInvocation_def Let_def err_simps
        split: sum.splits if_splits prod.splits)
  let ?own = "?req\<lparr>vr_Invocation := Invocation i\<rparr>"
  have "\<not> rejectWildcardResource ''bank://vault/main''" by code_simp
  then have "verify_guards (confused_verify i)" "verify_guards ?own"
    using i(3) by (simp_all add: verify_guards_def confused_verify_def)
  from Verify_endpoint_ignores_request [OF _ _ this, of i ?C ?env sample_inputs s]
  have "handleVerify ?C ?env sample_inputs (Body (confused_verify i)) s = handleVerify ?C ?env sample_inputs (Body ?own) s"
    by (simp add: confused_verify_def)
  moreover have "says_authorized (fst (handleVerify ?C ?env sample_inputs (Body ?own) s))"
    using i(2,3) by (auto simp: handleVerify_authorized invocationFor_def verify_guards_def)
  ultimately show ?thesis using run by metis
qed

text \<open>C7: The router fails closed: whatever gate is configured, a request without a valid credential leaves the
  service as it is and is answered with an error, unless it addresses one of the two public endpoints.\<close>

theorem Router_fails_closed:
  assumes "\<not> authenticated g r" and "route (rq_method r) (rq_segments r) \<notin> {Some EpHealth, Some EpRevocationList}"
  shows "snd (snd (NewRouter C env g allow inp r (bucket, s))) = s
    \<and> fst (NewRouter C env g allow inp r (bucket, s)) \<in>
        {ErrorResponse 401 adtp_CodeDenied, ErrorResponse 404 [], ErrorResponse 405 [], ErrorResponse 429 adtp_CodeRateLimited}"
proof -
  have "authGate g (mux C env inp) r s \<in> {(ErrorResponse 401 adtp_CodeDenied, s), (ErrorResponse 404 [], s), (ErrorResponse 405 [], s)}"
    using assms bypass_public [of r] by (auto simp: authGate_cases mux_def split: option.splits)
  then show ?thesis
    by (auto simp: NewRouter_def RateLimitMiddleware_def Let_def split: prod.splits bool.splits)
qed

theorem Router_fails_closed_witness:
  "fst (NewRouter demo_crypto (sample_env demo_crypto) \<lparr>gt_APIKeys = [''secret''], gt_OIDC = None, gt_limited = True\<rparr>
     (\<lambda>n. (0 < n, n - 1)) sample_inputs
     \<lparr>rq_method = ''POST'', rq_segments = [''v1'', ''revoke''], rq_authorization = ''Bearer guess'', rq_register = BodyMalformed,
       rq_issue = BodyMalformed, rq_delegate = BodyMalformed, rq_verify = BodyMalformed,
       rq_revoke = Body (sample_revoke ''x'')\<rparr> (5 :: nat, sample_boot))
   \<noteq> RevokeResponse 1 StatusRevoked 0"
proof -
  let ?g = "\<lparr>gt_APIKeys = [''secret''], gt_OIDC = None, gt_limited = True\<rparr>"
  let ?r = "\<lparr>rq_method = ''POST'', rq_segments = [''v1'', ''revoke''], rq_authorization = ''Bearer guess'', rq_register = BodyMalformed,
       rq_issue = BodyMalformed, rq_delegate = BodyMalformed, rq_verify = BodyMalformed, rq_revoke = Body (sample_revoke ''x'')\<rparr>"
  have "cut_prefix ''Bearer guess'' bearerPrefix = Some ''guess''" by code_simp
  then have "\<not> authenticated ?g ?r" by (simp add: authenticated_def)
  moreover have "route (rq_method ?r) (rq_segments ?r) \<notin> {Some EpHealth, Some EpRevocationList}"
    by (simp add: route_def)
  ultimately show ?thesis
    using Router_fails_closed [of ?g ?r demo_crypto "sample_env demo_crypto" "\<lambda>n. (0 < n, n - 1)" sample_inputs "5 :: nat" sample_boot]
    by auto
qed

text \<open>C4: Registering, issuing and presenting go through: a credential that the daemon has issued to an agent it
  registered is authorized when the daemon presents it for a request it covers, as long as neither the
  credential nor the agent has a denying status, whatever the tier and with no wait after the boot.\<close>

theorem Issued_credential_authorized:
  assumes "\<And>xs. set (in_visit inp' xs) = set xs" and "ed25519_ok C"
    and "memory_daemon C env" and "daemon_inv C (env_PlatformDID env) s"
    and "handleIssueCredential C env inp (Body req) s = (IssueCredentialResponse cid tok, s1)"
    and "payload_ok (root_payload env (in_now inp) req)"
    and "length (ir_Capabilities req) + sum_list (map (\<lambda>c. length (Constraints c)) (ir_Capabilities req)) \<le> MaxChainCapsCaveats"
    and "undenied (svc_Store s) cid" and "undenied (svc_Store s) (ir_AgentDID req)"
    and "live_for env inp' (root_payload env (in_now inp) req)" and "custodial_request env inp' vreq cid"
    and "find (matches (request_ctx inp' vreq)) (ir_Capabilities req) = Some cap"
    and "\<forall>c \<in> set (Constraints cap). evaluateConstraint c (request_ctx inp' vreq)"
    and "nc_m (svc_NonceCache s) (b64_encode (in_nonce inp')) = None"
  shows "says_authorized (fst (handleVerify C env inp' (Body vreq) s1))"
  using assms by (rule issued_is_authorized)

theorem Issued_credential_authorized_witness:
  "\<exists>tok s. handleIssueCredential demo_crypto (sample_env demo_crypto) sample_inputs (Body (sample_issue demo_crypto))
      (sample_registered demo_crypto) = (IssueCredentialResponse (ComputeCID demo_crypto tok) tok, s)
    \<and> says_authorized (fst (handleVerify demo_crypto (sample_env demo_crypto) sample_inputs
        (Body (sample_verify (ComputeCID demo_crypto tok))) s))"
proof -
  obtain tok s where s: "handleIssueCredential demo_crypto (sample_env demo_crypto) sample_inputs (Body (sample_issue demo_crypto))
      (sample_registered demo_crypto) = (IssueCredentialResponse (ComputeCID demo_crypto tok) tok, s)"
    by (rule sample_issue_step [OF demo_crypto_ok(1)])
  have "says_authorized (fst (handleVerify demo_crypto (sample_env demo_crypto) sample_inputs
        (Body (sample_verify (ComputeCID demo_crypto tok))) s))"
    by (rule Issued_credential_authorized [OF sample_inputs_simps(2)[THEN arg_cong] demo_crypto_ok(1) sample_daemon sample_inv s _
        sample_inputs_simps(5) sample_undenied sample_undenied _ sample_custodial sample_grants])
      (simp_all add: sample_inputs_simps sample_payload_facts(1) sample_live sample_register_step(6) NewMemoryNonceCache_def)
  with s show ?thesis by blast
qed

text \<open>C12: Delegating extends the chain of the parent by exactly the new block, signed with the key the daemon holds
  for the parent's audience, and registers it under every credential of that chain, so that a compromise of
  any of them reaches it.\<close>

theorem Delegation_endpoint_extends:
  assumes "ed25519_ok C" and "memory_daemon C env" and "daemon_inv C (env_PlatformDID env) s"
    and "handleDelegate C env inp (Body req) s = (DelegateResponse cid txt, s1)"
    and "BuildChain C (dr_ParentCID req) (MemoryStore_Get (svc_Store s)) m = Inr c"
    and "ms_credentials (svc_Store s) cid = None"
    and "utf8_valid (dr_ParentCID req)" and "utf8_valid (dr_AudienceDID req)" and "\<forall>x \<in> set (dr_Caveats req). caveat_ok x"
  shows "\<exists>b key. BuildChain C cid (MemoryStore_Get (svc_Store s1)) (env_MaxChainDepth env) = Inr (chain_of
        (\<lparr>el_body = Block b, el_cid = cid, el_root = False, el_mode = ModeRestrict\<rparr> # Elements c))
    \<and> blk_aud b = dr_AudienceDID req \<and> blk_cav b = dr_Caveats req \<and> blk_dl b = dr_DepthLeft req
    \<and> Load (svc_Keys s) (blk_iss b) = Inr key \<and> Block_Verify C b (ed_public C key) = Inr ()
    \<and> (\<forall>x \<in> set (map el_cid (Elements c)). cid \<in> set (MemoryStore_FindDescendants (svc_Store s1) x))"
  using assms by (rule delegation_extends)

definition sample_delegate :: "string \<Rightarrow> delegate_request" where
  "sample_delegate cid = \<lparr>dr_ParentCID = cid, dr_AudienceDID = ''did:key:bob'', dr_Caveats = [sample_caveat],
     dr_DepthLeft = 0, dr_ExpSeconds = 60\<rparr>"

theorem Delegation_endpoint_extends_witness:
  "\<exists>cid raw' s s1 x. handleDelegate brace_crypto (sample_env brace_crypto) sample_inputs (Body (sample_delegate x)) s
      = (DelegateResponse cid (b64_encode raw'), s1)
    \<and> cid \<in> set (MemoryStore_FindDescendants (svc_Store s1) x)"
proof -
  let ?C = brace_crypto and ?env = "sample_env brace_crypto"
  obtain tok s where s: "handleIssueCredential ?C ?env sample_inputs (Body (sample_issue ?C)) (sample_registered ?C)
      = (IssueCredentialResponse (ComputeCID ?C tok) tok, s)"
    "CreateUCAN ?C (root_payload ?env 1000 (sample_issue ?C)) sample_root_key = Inr tok"
    "ms_credentials (svc_Store s) = [ComputeCID ?C tok \<mapsto> tok]" "svc_Keys s = [(sample_did ?C, sample_key)]"
    by (rule sample_issue_step [OF brace_crypto_ok(1)])
  let ?x = "ComputeCID ?C tok" and ?p = "root_payload ?env 1000 (sample_issue ?C)"
  let ?par = "\<lparr>par_cid = ?x, par_aud = sample_did ?C, par_exp = 5000, par_nbf = 1000, par_dl = 1\<rparr>"
  from CreateUCAN_hd [OF s(2) sample_payload_facts(1)] obtain h tl where "tok = h # tl" "h \<noteq> CHR 0x7B" by blast
  then have x: "?x = ComputeCID ?C ''x''" using brace_cids(2) by metis
  have get: "MemoryStore_Get (svc_Store s) ?x = Inr tok" by (simp add: MemoryStore_Get_def s(3))
  from issued_root_path [of ?C ?p sample_root_key tok "Get (ms_credentials (svc_Store s))" ?x,
      OF brace_crypto_ok(1) sample_payload_facts(1) s(2) _ _ refl] obtain u where
    u: "u_payload u = ?p" and path: "proof_path ?C (Get (ms_credentials (svc_Store s))) ?x
      [\<lparr>el_body = Token u, el_cid = ?x, el_root = True, el_mode = ModeRoot\<rparr>]" (is "proof_path _ _ _ [?e]")
    by (auto simp: root_payload_def Get_def s(3))
  have w: "elem_weight ?e = 3" by (simp add: elem_weight_def token_weight_def u root_payload_def sample_issue_def)
  have ch: "BuildChain ?C ?x (MemoryStore_Get (svc_Store s)) (env_MaxChainDepth ?env) = Inr (chain_of [?e])"
    unfolding BuildChain_memory BuildChain_iff using path w by (intro exI [of _ "[?e]"]) (simp add: MaxChainCapsCaveats_def)
  from CreateUCAN_parses [OF brace_crypto_ok(1) sample_payload_facts(1) s(2)] obtain v where v: "ParseUCAN tok = Inr v" "u_payload v = ?p" by blast
  have par: "parentRef tok ?x = Inr (?par, sample_did ?C)"
    using issued_not_block [OF s(2) sample_payload_facts(1)] v
    by (simp add: parentRef_def mapErr_def ParentFromUCAN_def delegableDepth_def root_payload_def sample_issue_def sample_caveat_def
        CanToolInvoke_def CanAgentDelegate_def)
  have utf: "utf8_valid ''did:key:bob''" "utf8_valid (sample_did ?C)" by code_simp (simp add: sample_did_def utf8_EncodeDID)
  have cav: "\<forall>c \<in> set [sample_caveat]. caveat_ok c" by (simp add: sample_facts)
  have "\<exists>b raw'. CreateRestrictBlock ?C ?par ''did:key:bob'' 0 [sample_caveat] sample_key = Inr (b, raw')"
    by (rule CreateRestrictBlock_succeeds) (use utf cav in \<open>simp_all add: MaxCaveatsPerBlock_def sample_did_def\<close>)
  then obtain b raw' where cr: "CreateRestrictBlock ?C ?par ''did:key:bob'' 0 [sample_caveat] sample_key = Inr (b, raw')" by blast
  have "utf8_valid (par_cid ?par)" "utf8_valid (par_aud ?par)" using utf(2) by simp_all
  note u3 = this utf(1) cav
  obtain t where "raw' = CHR 0x7B # t" using CreateRestrictBlock_brace [OF cr u3] by blast
  then have c: "ComputeCID ?C raw' = ComputeCID ?C ''{''" using brace_cids(1) by metis
  then have new: "ms_credentials (svc_Store s) (ComputeCID ?C raw') = None" using s(3) x brace_cids(3) by simp
  have inv_s: "daemon_inv ?C (env_PlatformDID ?env) s"
    using issue_keeps_inv [OF sample_daemon sample_inv, of ?C sample_inputs "Body (sample_issue ?C)"] s(1) by simp
  let ?st = "snd (PutCredential ?C (svc_Store s) raw')"
  have "BuildChain ?C (ComputeCID ?C raw') (MemoryStore_Get ?st) (env_MaxChainDepth ?env)
      = Inr (chain_of [\<lparr>el_body = Block b, el_cid = ComputeCID ?C raw', el_root = False, el_mode = ModeRestrict\<rparr>, ?e])"
    (is "_ = Inr (chain_of [?b, ?e])")
  proof -
    have dr: "DelegateRestrict ?C ?par ''did:key:bob'' [sample_caveat] 0 sample_key (ms_credentials (svc_Store s))
        = Inr (b, ComputeCID ?C raw', ms_credentials ?st)"
      using cr by (simp add: DelegateRestrict_def Put_def Let_def PutCredential_def)
    have "proof_path ?C (Get (ms_credentials ?st)) (ComputeCID ?C raw') [?b, ?e]"
      by (rule DelegateRestrict_path [OF brace_crypto_ok(1) _ _ dr new u3])
        (use inv_s path in \<open>simp_all add: daemon_inv_def store_inv_def\<close>)
    moreover have "elem_weight ?b = 1"
      using CreateRestrictBlock_result [OF cr] by (auto simp: elem_weight_def)
    moreover have "env_MaxChainDepth ?env = 5" by (simp add: sample_env_def)
    moreover have "1 \<le> depthCap 5" by code_simp
    ultimately show ?thesis
      unfolding BuildChain_memory BuildChain_iff using w by (intro exI [of _ "[?b, ?e]"]) (simp add: MaxChainCapsCaveats_def)
  qed
  then obtain s1 where d: "handleDelegate ?C ?env sample_inputs (Body (sample_delegate ?x)) s
      = (DelegateResponse (ComputeCID ?C raw') (b64_encode raw'), s1)"
    using get par cr s(4) memory_daemonD [OF sample_daemon, of ?C]
    by (simp add: handleDelegate_def delegateRestrict_def sample_delegate_def storeAndRegister_def Load_def Let_def PutCredential_def)
  have "ComputeCID ?C raw' \<in> set (MemoryStore_FindDescendants (svc_Store s1) ?x)"
    using Delegation_endpoint_extends [OF brace_crypto_ok(1) sample_daemon inv_s d _ new] ch utf(1) cav
    by (fastforce simp: sample_delegate_def chain_of_def)
  with d show ?thesis by blast
qed

end
