(* ===== verification/Config.thy ===== *)
theory Config
  imports Delegation
begin

text \<open>
  \<open>config/config.go\<close>: defaults, environment overrides and validation of the daemon's configuration.  The
  environment is a function; decoding a YAML document over a configuration (\<open>gopkg.in/yaml.v3\<close>) and
  \<open>url.Parse\<close>, of which the scheme and the host are used, are arguments.  A rate is a rational.
\<close>

subsection \<open>Configurations\<close>

record server_config =
  srv_Host :: string
  srv_Port :: i64
  srv_TLSCert :: string
  srv_TLSKey :: string
  srv_RateLimitRPS :: rat
  srv_RateLimitBurst :: i64
  srv_APIKeys :: "string list"

record store_config =
  sto_Backend :: string
  sto_Postgres :: string

record identity_config =
  idc_PlatformDID :: string
  idc_PlatformKeyPath :: string

record verify_config =
  vfc_MaxChainDepth :: i64
  vfc_ClockSkewSeconds :: i64
  vfc_DefaultRiskTier :: string
  vfc_ReconcileIntervalMinutes :: i64
  vfc_AllowCustodialInvocation :: bool

record oidc_config =
  oic_Issuer :: string
  oic_Audience :: string
  oic_JWKSURL :: string

record auth_config =
  auc_Mode :: string
  auc_OIDC :: oidc_config

record webhook_config =
  wh_URL :: string
  wh_Headers :: "(string \<times> string) list"
  wh_BatchSize :: i64
  wh_FlushInterval :: string

record config =
  cf_Server :: server_config
  cf_Store :: store_config
  cf_Identity :: identity_config
  cf_Verify :: verify_config
  cf_Auth :: auth_config
  cf_SIEMWebhook :: webhook_config

definition AuthModeAPIKey :: string where "AuthModeAPIKey = ''api_key''"
definition AuthModeOIDC :: string where "AuthModeOIDC = ''oidc''"

datatype config_error =
    ErrInvalidPort | ErrInvalidBackend | ErrMissingDSN | ErrInvalidAuthMode | ErrIncompleteOIDC
  | ErrInsecureJWKS | ErrInvalidRiskTier | ErrIncompleteTLS | ErrParseConfig | ErrReadConfig | ErrParseEnv

definition Default :: config where
  "Default =
     \<lparr>cf_Server = \<lparr>srv_Host = ''127.0.0.1'', srv_Port = 8080, srv_TLSCert = [], srv_TLSKey = [],
        srv_RateLimitRPS = 0, srv_RateLimitBurst = 0, srv_APIKeys = []\<rparr>,
      cf_Store = \<lparr>sto_Backend = ''memory'', sto_Postgres = []\<rparr>,
      cf_Identity = \<lparr>idc_PlatformDID = [], idc_PlatformKeyPath = ''platform.key''\<rparr>,
      cf_Verify = \<lparr>vfc_MaxChainDepth = 10, vfc_ClockSkewSeconds = 60, vfc_DefaultRiskTier = ''HIGH'',
        vfc_ReconcileIntervalMinutes = 0, vfc_AllowCustodialInvocation = False\<rparr>,
      cf_Auth = \<lparr>auc_Mode = AuthModeAPIKey, auc_OIDC = \<lparr>oic_Issuer = [], oic_Audience = [], oic_JWKSURL = []\<rparr>\<rparr>,
      cf_SIEMWebhook = \<lparr>wh_URL = [], wh_Headers = [], wh_BatchSize = 0, wh_FlushInterval = []\<rparr>\<rparr>"

subsection \<open>\<open>strings.TrimSpace\<close>\<close>

text \<open>The UTF-8 encodings of the white space characters; no two overlap at the end of a string.\<close>

definition space_encodings :: "string list" where
  "space_encodings = map (\<lambda>b. [char_of b]) [0x09, 0x0A, 0x0B, 0x0C, 0x0D, 0x20 :: nat]
     @ [[CHR 0xC2, CHR 0x85], [CHR 0xC2, CHR 0xA0], [CHR 0xE1, CHR 0x9A, CHR 0x80]]
     @ map (\<lambda>b. [CHR 0xE2, CHR 0x80, char_of b]) ([0x80..<0x8B] @ [0xA8, 0xA9, 0xAF :: nat])
     @ [[CHR 0xE2, CHR 0x81, CHR 0x9F], [CHR 0xE3, CHR 0x80, CHR 0x80]]"

definition ends_in_space :: "string \<Rightarrow> string option" where
  "ends_in_space s = find (\<lambda>sp. length sp \<le> length s \<and> drop (length s - length sp) s = sp) space_encodings"

lemma space_encodings_nonempty: "list_all (\<lambda>sp. sp \<noteq> []) space_encodings"
  by (simp add: space_encodings_def)

function trim_space_right :: "string \<Rightarrow> string" where
  "trim_space_right s = (case ends_in_space s of None \<Rightarrow> s | Some sp \<Rightarrow> trim_space_right (take (length s - length sp) s))"
  by pat_completeness auto
termination
proof (relation "measure length")
  fix s sp
  assume "ends_in_space s = Some sp"
  then have "sp \<in> set space_encodings" "length sp \<le> length s" by (auto simp: ends_in_space_def find_Some_iff)
  moreover from this space_encodings_nonempty have "0 < length sp" unfolding list_all_iff by blast
  ultimately have "length s - length sp < length s" by linarith
  then show "(take (length s - length sp) s, s) \<in> measure length" by simp
qed simp

declare trim_space_right.simps [simp del]

definition TrimSpace :: "string \<Rightarrow> string" where
  "TrimSpace s = trim_space_right (trim_space_left s)"

subsection \<open>Environment overrides\<close>

text \<open>One override: an unset or empty variable leaves the value alone.\<close>

definition override :: "(string \<Rightarrow> string) \<Rightarrow> string \<Rightarrow> string \<Rightarrow> string" where
  "override getenv name old = (if getenv name \<noteq> [] then getenv name else old)"

definition override_int :: "(string \<Rightarrow> string) \<Rightarrow> config_error \<Rightarrow> string \<Rightarrow> i64 \<Rightarrow> config_error + i64" where
  "override_int getenv err name old =
     (if getenv name \<noteq> [] then (case atoi (getenv name) of None \<Rightarrow> Inl err | Some n \<Rightarrow> Inr (word_of_int n)) else Inr old)"

definition env_keys :: "string \<Rightarrow> string list" where
  "env_keys v = filter (\<lambda>k. k \<noteq> []) (map TrimSpace (split_on (CHR '','') v))"

definition applyEnv :: "(string \<Rightarrow> string) \<Rightarrow> config \<Rightarrow> config_error + config" where
  "applyEnv getenv cfg =
     bindE (override_int getenv ErrInvalidPort ''ADTP_SERVER_PORT'' (srv_Port (cf_Server cfg))) (\<lambda>port.
     bindE (override_int getenv ErrParseEnv ''ADTP_VERIFY_MAX_CHAIN_DEPTH'' (vfc_MaxChainDepth (cf_Verify cfg))) (\<lambda>depth.
     bindE (override_int getenv ErrParseEnv ''ADTP_VERIFY_CLOCK_SKEW_SECONDS'' (vfc_ClockSkewSeconds (cf_Verify cfg))) (\<lambda>skew.
       Inr (cfg\<lparr>
         cf_Server := (cf_Server cfg)\<lparr>
           srv_Host := override getenv ''ADTP_SERVER_HOST'' (srv_Host (cf_Server cfg)),
           srv_Port := port,
           srv_APIKeys := (if getenv ''ADTP_SERVER_API_KEYS'' \<noteq> [] then env_keys (getenv ''ADTP_SERVER_API_KEYS'')
             else srv_APIKeys (cf_Server cfg)),
           srv_TLSCert := override getenv ''ADTP_SERVER_TLS_CERT'' (srv_TLSCert (cf_Server cfg)),
           srv_TLSKey := override getenv ''ADTP_SERVER_TLS_KEY'' (srv_TLSKey (cf_Server cfg))\<rparr>,
         cf_Store := (cf_Store cfg)\<lparr>
           sto_Backend := override getenv ''ADTP_STORE_BACKEND'' (sto_Backend (cf_Store cfg)),
           sto_Postgres := override getenv ''ADTP_STORE_POSTGRES'' (sto_Postgres (cf_Store cfg))\<rparr>,
         cf_Identity := (cf_Identity cfg)\<lparr>
           idc_PlatformDID := override getenv ''ADTP_IDENTITY_PLATFORM_DID'' (idc_PlatformDID (cf_Identity cfg)),
           idc_PlatformKeyPath := override getenv ''ADTP_IDENTITY_PLATFORM_KEY'' (idc_PlatformKeyPath (cf_Identity cfg))\<rparr>,
         cf_Verify := (cf_Verify cfg)\<lparr>
           vfc_MaxChainDepth := depth, vfc_ClockSkewSeconds := skew,
           vfc_DefaultRiskTier := override getenv ''ADTP_VERIFY_DEFAULT_RISK_TIER'' (vfc_DefaultRiskTier (cf_Verify cfg))\<rparr>\<rparr>))))"

subsection \<open>Validation\<close>

definition requireHTTPS :: "(string \<Rightarrow> (string \<times> string) option) \<Rightarrow> string \<Rightarrow> config_error + unit" where
  "requireHTTPS url_parse raw' = (case url_parse raw' of
       None \<Rightarrow> Inl ErrInsecureJWKS
     | Some (scheme, host) \<Rightarrow> if scheme \<noteq> ''https'' \<or> host = [] then Inl ErrInsecureJWKS else Inr ())"

definition validate_store :: "store_config \<Rightarrow> config_error + unit" where
  "validate_store s =
     (if sto_Backend s = ''memory'' then Inr ()
      else if sto_Backend s = ''postgres'' then (if sto_Postgres s = [] then Inl ErrMissingDSN else Inr ())
      else Inl ErrInvalidBackend)"

definition default_verify :: "verify_config \<Rightarrow> verify_config" where
  "default_verify v = v\<lparr>
     vfc_MaxChainDepth := (if sle (vfc_MaxChainDepth v) 0 then 10 else vfc_MaxChainDepth v),
     vfc_ClockSkewSeconds := (if sle (vfc_ClockSkewSeconds v) 0 then 60 else vfc_ClockSkewSeconds v),
     vfc_DefaultRiskTier := (if vfc_DefaultRiskTier v = [] then ''HIGH'' else vfc_DefaultRiskTier v)\<rparr>"

definition validate_auth :: "(string \<Rightarrow> (string \<times> string) option) \<Rightarrow> auth_config \<Rightarrow> config_error + auth_config" where
  "validate_auth url_parse a =
     (let a = (if auc_Mode a = [] then a\<lparr>auc_Mode := AuthModeAPIKey\<rparr> else a); o' = auc_OIDC a in
      if auc_Mode a = AuthModeAPIKey then Inr a
      else if auc_Mode a = AuthModeOIDC then
        (if oic_Issuer o' = [] \<or> oic_Audience o' = [] \<or> oic_JWKSURL o' = [] then Inl ErrIncompleteOIDC
         else bindE (requireHTTPS url_parse (oic_JWKSURL o')) (\<lambda>_. Inr a))
      else Inl ErrInvalidAuthMode)"

definition validate :: "(string \<Rightarrow> (string \<times> string) option) \<Rightarrow> config \<Rightarrow> config_error + config" where
  "validate url_parse c =
     (if sle (srv_Port (cf_Server c)) 0 \<or> slt 65535 (srv_Port (cf_Server c)) then Inl ErrInvalidPort
      else if (srv_TLSCert (cf_Server c) = []) \<noteq> (srv_TLSKey (cf_Server c) = []) then Inl ErrIncompleteTLS
      else bindE (validate_store (cf_Store c)) (\<lambda>_.
        let v = default_verify (cf_Verify c) in
        if vfc_DefaultRiskTier v \<notin> {''HIGH'', ''MEDIUM'', ''LOW'', ''ANALYTICS''} then Inl ErrInvalidRiskTier
        else bindE (validate_auth url_parse (cf_Auth c)) (\<lambda>a. Inr (c\<lparr>cf_Verify := v, cf_Auth := a\<rparr>))))"

definition Addr :: "config \<Rightarrow> string" where
  "Addr c = srv_Host (cf_Server c) @ '':'' @ itoa (sint (srv_Port (cf_Server c)))"

definition TLSEnabled :: "config \<Rightarrow> bool" where
  "TLSEnabled c \<longleftrightarrow> srv_TLSCert (cf_Server c) \<noteq> [] \<and> srv_TLSKey (cf_Server c) \<noteq> []"

text \<open>Reading a file: its bytes, no such file, or another failure.\<close>

datatype read_result = FileData bytes | FileMissing | FileUnreadable

definition LoadConfig ::
    "(bytes \<Rightarrow> config \<Rightarrow> config option) \<Rightarrow> (string \<Rightarrow> (string \<times> string) option) \<Rightarrow> (string \<Rightarrow> read_result) \<Rightarrow> (string \<Rightarrow> string)
      \<Rightarrow> string \<Rightarrow> config_error + config" where
  "LoadConfig yaml url_parse read getenv path =
     bindE (if path = [] then Inr Default
            else (case read path of
                FileData d \<Rightarrow> (case yaml d Default of None \<Rightarrow> Inl ErrParseConfig | Some cfg \<Rightarrow> Inr cfg)
              | FileMissing \<Rightarrow> Inr Default
              | FileUnreadable \<Rightarrow> Inl ErrReadConfig)) (\<lambda>cfg.
     bindE (applyEnv getenv cfg) (validate url_parse))"

subsection \<open>What a loaded configuration satisfies\<close>

definition config_ok :: "(string \<Rightarrow> (string \<times> string) option) \<Rightarrow> config \<Rightarrow> bool" where
  "config_ok url_parse c \<longleftrightarrow>
     1 \<le> sint (srv_Port (cf_Server c)) \<and> sint (srv_Port (cf_Server c)) \<le> 65535
   \<and> (TLSEnabled c \<or> srv_TLSCert (cf_Server c) = [] \<and> srv_TLSKey (cf_Server c) = [])
   \<and> (sto_Backend (cf_Store c) = ''memory'' \<or> sto_Backend (cf_Store c) = ''postgres'' \<and> sto_Postgres (cf_Store c) \<noteq> [])
   \<and> 0 < sint (vfc_MaxChainDepth (cf_Verify c)) \<and> 0 < sint (vfc_ClockSkewSeconds (cf_Verify c))
   \<and> vfc_DefaultRiskTier (cf_Verify c) \<in> {''HIGH'', ''MEDIUM'', ''LOW'', ''ANALYTICS''}
   \<and> (auc_Mode (cf_Auth c) = AuthModeAPIKey
      \<or> auc_Mode (cf_Auth c) = AuthModeOIDC \<and> oic_Issuer (auc_OIDC (cf_Auth c)) \<noteq> [] \<and> oic_Audience (auc_OIDC (cf_Auth c)) \<noteq> []
         \<and> (\<exists>host. host \<noteq> [] \<and> url_parse (oic_JWKSURL (auc_OIDC (cf_Auth c))) = Some (''https'', host)))"

lemma validate_store_ok: "validate_store s = Inr () \<longleftrightarrow>
    sto_Backend s = ''memory'' \<or> sto_Backend s = ''postgres'' \<and> sto_Postgres s \<noteq> []"
  by (simp add: validate_store_def)

lemma requireHTTPS_ok: "requireHTTPS url_parse r = Inr () \<longleftrightarrow> (\<exists>host. host \<noteq> [] \<and> url_parse r = Some (''https'', host))"
  by (cases "url_parse r") (auto simp: requireHTTPS_def split: if_splits)

lemma default_verify_ok:
  "0 < sint (vfc_MaxChainDepth (default_verify v))" "0 < sint (vfc_ClockSkewSeconds (default_verify v))"
  "default_verify (default_verify v) = default_verify v"
  by (simp_all add: default_verify_def word_sle_eq)

lemma validate_auth_ok:
  "validate_auth url_parse a = Inr a' \<longleftrightarrow> a' = (if auc_Mode a = [] then a\<lparr>auc_Mode := AuthModeAPIKey\<rparr> else a)
     \<and> (auc_Mode a' = AuthModeAPIKey \<or> auc_Mode a' = AuthModeOIDC \<and> oic_Issuer (auc_OIDC a') \<noteq> []
         \<and> oic_Audience (auc_OIDC a') \<noteq> [] \<and> oic_JWKSURL (auc_OIDC a') \<noteq> [] \<and> requireHTTPS url_parse (oic_JWKSURL (auc_OIDC a')) = Inr ())"
proof -
  have "AuthModeOIDC \<noteq> AuthModeAPIKey" "AuthModeOIDC \<noteq> []" by (simp_all add: AuthModeOIDC_def AuthModeAPIKey_def)
  then show ?thesis unfolding validate_auth_def Let_def
    by (cases "auc_Mode a = []") (auto simp: err_simps)
qed

lemma validate_cases:
  "validate url_parse c = Inr c' \<longleftrightarrow> (\<exists>a. 0 < sint (srv_Port (cf_Server c)) \<and> sint (srv_Port (cf_Server c)) \<le> 65535
     \<and> (srv_TLSCert (cf_Server c) = []) = (srv_TLSKey (cf_Server c) = []) \<and> validate_store (cf_Store c) = Inr ()
     \<and> vfc_DefaultRiskTier (default_verify (cf_Verify c)) \<in> {''HIGH'', ''MEDIUM'', ''LOW'', ''ANALYTICS''}
     \<and> validate_auth url_parse (cf_Auth c) = Inr a \<and> c' = c\<lparr>cf_Verify := default_verify (cf_Verify c), cf_Auth := a\<rparr>)"
proof -
  have p: "sle (srv_Port (cf_Server c)) 0 \<or> slt 65535 (srv_Port (cf_Server c))
      \<longleftrightarrow> \<not> (0 < sint (srv_Port (cf_Server c)) \<and> sint (srv_Port (cf_Server c)) \<le> 65535)"
    by (auto simp: word_sle_eq word_sless_alt)
  show ?thesis unfolding validate_def p Let_def
    by (simp only: err_simps if_Inl_Inr_iff sum.inject unit_all_eq1 ex_simps) auto
qed

lemma validate_ok:
  assumes "validate url_parse c = Inr c'"
  shows "config_ok url_parse c'"
proof -
  from assms obtain a where v: "0 < sint (srv_Port (cf_Server c))" "sint (srv_Port (cf_Server c)) \<le> 65535"
    "(srv_TLSCert (cf_Server c) = []) = (srv_TLSKey (cf_Server c) = [])" "validate_store (cf_Store c) = Inr ()"
    "vfc_DefaultRiskTier (default_verify (cf_Verify c)) \<in> {''HIGH'', ''MEDIUM'', ''LOW'', ''ANALYTICS''}"
    "validate_auth url_parse (cf_Auth c) = Inr a"
    and c': "c' = c\<lparr>cf_Verify := default_verify (cf_Verify c), cf_Auth := a\<rparr>"
    unfolding validate_cases by blast
  have f: "cf_Server c' = cf_Server c" "cf_Store c' = cf_Store c" "cf_Verify c' = default_verify (cf_Verify c)" "cf_Auth c' = a"
    by (simp_all add: c')
  show ?thesis
    unfolding config_ok_def TLSEnabled_def f
  proof (intro conjI)
    show "1 \<le> sint (srv_Port (cf_Server c))" using v(1) by simp
    show "srv_TLSCert (cf_Server c) \<noteq> [] \<and> srv_TLSKey (cf_Server c) \<noteq> []
        \<or> srv_TLSCert (cf_Server c) = [] \<and> srv_TLSKey (cf_Server c) = []" using v(3) by blast
    show "sto_Backend (cf_Store c) = ''memory'' \<or> sto_Backend (cf_Store c) = ''postgres'' \<and> sto_Postgres (cf_Store c) \<noteq> []"
      using v(4) by (simp only: validate_store_ok)
    show "auc_Mode a = AuthModeAPIKey \<or> auc_Mode a = AuthModeOIDC \<and> oic_Issuer (auc_OIDC a) \<noteq> []
        \<and> oic_Audience (auc_OIDC a) \<noteq> []
        \<and> (\<exists>host. host \<noteq> [] \<and> url_parse (oic_JWKSURL (auc_OIDC a)) = Some (''https'', host))"
      using v(6) unfolding validate_auth_ok requireHTTPS_ok by blast
  qed (use v default_verify_ok in blast)+
qed

text \<open>Validating again changes nothing: the defaults are filled in once.\<close>

lemma validate_idem: "validate url_parse c = Inr c' \<Longrightarrow> validate url_parse c' = Inr c'"
  unfolding validate_cases validate_auth_ok
  by (elim exE conjE) (simp add: default_verify_ok(3) AuthModeAPIKey_def)

lemma default_valid: "validate url_parse Default = Inr Default"
  by (simp add: validate_def Default_def validate_store_def validate_auth_def default_verify_def Let_def AuthModeAPIKey_def)

lemma load_without_file:
  assumes "\<forall>name. getenv name = []" and "path = [] \<or> read path = FileMissing"
  shows "LoadConfig yaml url_parse read getenv path = Inr Default"
  using assms default_valid by (auto simp: LoadConfig_def applyEnv_def override_def override_int_def)

subsection \<open>Properties\<close>

text \<open>C16: A configuration that loads is well formed, whatever the file and the environment hold: the port is a
  port, TLS is whole or off, the backend is one of the two and has its connection string, the caps of the verifier
  are positive, the risk tier is one of the four (so the tier an unknown string would get is never used), and OIDC
  is complete with its keys fetched over https; and loading it again as it stands changes nothing.\<close>

theorem LoadConfig_well_formed:
  assumes "LoadConfig yaml url_parse read getenv path = Inr cfg"
  shows "config_ok url_parse cfg \<and> validate url_parse cfg = Inr cfg"
proof -
  from assms obtain c where "validate url_parse c = Inr cfg" by (auto simp: LoadConfig_def err_simps)
  then show ?thesis using validate_ok validate_idem by blast
qed

theorem LoadConfig_well_formed_witness:
  "config_ok (\<lambda>_. None) Default"
proof -
  have "LoadConfig (\<lambda>_ c. Some c) (\<lambda>_. None) (\<lambda>_. FileMissing) (\<lambda>_. []) ''config.yaml'' = Inr Default"
    by (rule load_without_file) simp_all
  from LoadConfig_well_formed [OF this] show ?thesis by blast
qed

end
