(* ===== verification/Daemon_Boot.thy ===== *)
theory Daemon_Boot
  imports Config Daemon_Flows Siem_Export
begin

text \<open>
  \<open>cmd/adtpd/main.go\<close>: how the daemon is put together from its configuration and its files.  Files are a map
  from paths; every path may be unreadable or unwritable.  Fresh keys, API keys and instance identifiers are
  drawn from \<open>crypto/rand\<close> and are arguments, as are \<open>ed25519.NewKeyFromSeed\<close> and \<open>time.ParseDuration\<close>.
  A path is the text it is written as: two texts that name one file are two files here.  Signals, the listener and
  the ticker are the subject of \<open>Daemon_Process\<close>.
\<close>

subsection \<open>Files\<close>

record files =
  fl_content :: "string \<rightharpoonup> bytes"
  fl_unreadable :: "string \<Rightarrow> bool"
  fl_unwritable :: "string \<Rightarrow> bool"

definition ReadFile :: "files \<Rightarrow> string \<Rightarrow> read_result" where
  "ReadFile fs path = (if fl_unreadable fs path then FileUnreadable
     else case fl_content fs path of None \<Rightarrow> FileMissing | Some d \<Rightarrow> FileData d)"

definition WriteFile :: "files \<Rightarrow> string \<Rightarrow> bytes \<Rightarrow> files option" where
  "WriteFile fs path d = (if fl_unwritable fs path then None
     else Some (fs\<lparr>fl_content := (fl_content fs)(path \<mapsto> d)\<rparr>))"

subsection \<open>\<open>path/filepath\<close> on Unix\<close>

text \<open>\<open>filepath.Clean\<close>: the segments are pushed one by one.\<close>

definition push_segment :: "bool \<Rightarrow> string \<Rightarrow> string list \<Rightarrow> string list" where
  "push_segment rooted seg out =
     (if seg = [] \<or> seg = ''.'' then out
      else if seg = ''..'' then
        (if out \<noteq> [] \<and> last out \<noteq> ''..'' then butlast out else if rooted then out else out @ [seg])
      else out @ [seg])"

definition Clean :: "string \<Rightarrow> string" where
  "Clean path =
     (let rooted = (path \<noteq> [] \<and> hd path = CHR ''/'');
          segs = fold (push_segment rooted) (split_on (CHR ''/'') path) [];
          body = join_with (CHR ''/'') segs in
      if rooted then CHR ''/'' # body else if body = [] then ''.'' else body)"

definition Dir :: "string \<Rightarrow> string" where
  "Dir path = Clean (case last_index_byte path (CHR ''/'') of None \<Rightarrow> [] | Some i \<Rightarrow> take (Suc i) path)"

definition Join :: "string \<Rightarrow> string \<Rightarrow> string" where
  "Join a b = (if a = [] \<and> b = [] then [] else Clean (if a = [] then b else if b = [] then a else a @ CHR ''/'' # b))"

subsection \<open>The platform key\<close>

datatype boot_error =
    ErrBootConfig config_error | ErrBootStore store_error | ErrKeySize | ErrKeyFile | ErrGenerateKey
  | ErrWriteKey | ErrReadAPIKey | ErrGenerateAPIKey | ErrWriteAPIKey | ErrFlushInterval

definition SeedSize :: nat where "SeedSize = 32"

definition keyFromBytes :: "(bytes \<Rightarrow> bytes) \<Rightarrow> bytes \<Rightarrow> boot_error + bytes" where
  "keyFromBytes seed_key data =
     (if length data = PrivateKeySize then Inr data
      else if length data = SeedSize then Inr (seed_key data)
      else Inl ErrKeySize)"

definition loadOrCreatePlatformKey ::
    "crypto \<Rightarrow> (bytes \<Rightarrow> bytes) \<Rightarrow> bytes option \<Rightarrow> config \<Rightarrow> files \<Rightarrow> boot_error + (bytes \<times> string \<times> files)" where
  "loadOrCreatePlatformKey C seed_key drawn cfg fs =
     (let path = idc_PlatformKeyPath (cf_Identity cfg) in
      case ReadFile fs path of
        FileData data \<Rightarrow> bindE (keyFromBytes seed_key data) (\<lambda>key. Inr (key, EncodeDID (ed_public C key), fs))
      | FileMissing \<Rightarrow>
          (case GenerateDID C drawn of
             None \<Rightarrow> Inl ErrGenerateKey
           | Some (did, key) \<Rightarrow>
               (case WriteFile fs path key of None \<Rightarrow> Inl ErrWriteKey | Some fs' \<Rightarrow> Inr (key, did, fs')))
      | FileUnreadable \<Rightarrow> Inl ErrKeyFile)"

subsection \<open>API keys\<close>

definition apiKeyPath :: "config \<Rightarrow> string" where
  "apiKeyPath cfg = Join (Dir (idc_PlatformKeyPath (cf_Identity cfg))) ''api.key''"

text \<open>The set of accepted keys, as the list of its elements.\<close>

definition generateAPIKey :: "bytes option \<Rightarrow> config \<Rightarrow> files \<Rightarrow> boot_error + (string list \<times> files)" where
  "generateAPIKey drawn cfg fs =
     (case drawn of
        None \<Rightarrow> Inl ErrGenerateAPIKey
      | Some buf \<Rightarrow>
          (let k = b64_encode buf in
           case WriteFile fs (apiKeyPath cfg) k of None \<Rightarrow> Inl ErrWriteAPIKey | Some fs' \<Rightarrow> Inr ([k], fs')))"

definition loadOrCreateAPIKeys :: "bytes option \<Rightarrow> config \<Rightarrow> files \<Rightarrow> boot_error + (string list \<times> files)" where
  "loadOrCreateAPIKeys drawn cfg fs =
     (let keys = filter (\<lambda>k. k \<noteq> []) (map TrimSpace (srv_APIKeys (cf_Server cfg))) in
      if keys \<noteq> [] then Inr (keys, fs)
      else case ReadFile fs (apiKeyPath cfg) of
        FileData data \<Rightarrow> if TrimSpace data \<noteq> [] then Inr ([TrimSpace data], fs) else generateAPIKey drawn cfg fs
      | FileMissing \<Rightarrow> generateAPIKey drawn cfg fs
      | FileUnreadable \<Rightarrow> Inl ErrReadAPIKey)"

subsection \<open>The instance file\<close>

definition instancePath :: "config \<Rightarrow> string" where
  "instancePath cfg = Join (Dir (idc_PlatformKeyPath (cf_Identity cfg))) ''instance.id''"

definition persistInstance :: "config \<Rightarrow> string \<Rightarrow> i64 \<Rightarrow> files \<Rightarrow> files" where
  "persistInstance cfg instanceID startTime fs =
     (case WriteFile fs (instancePath cfg) (instanceID @ [CHR 0x0A] @ itoa (sint startTime) @ [CHR 0x0A]) of
        None \<Rightarrow> fs | Some fs' \<Rightarrow> fs')"

subsection \<open>The exporter and the rate limit\<close>

definition newSIEMExporter :: "(string \<Rightarrow> i64 option) \<Rightarrow> (string \<Rightarrow> string) \<Rightarrow> config \<Rightarrow> boot_error + exporter" where
  "newSIEMExporter parse_duration getenv cfg =
     (let wc = cf_SIEMWebhook cfg in
      bindE (if wh_FlushInterval wc \<noteq> [] then
               (case parse_duration (wh_FlushInterval wc) of None \<Rightarrow> Inl ErrFlushInterval | Some d \<Rightarrow> Inr d)
             else Inr 10000000000)
        (\<lambda>interval. Inr (NewExporter getenv \<lparr>cfg_URL = wh_URL wc, cfg_Headers = wh_Headers wc, cfg_BatchSize = wh_BatchSize wc, cfg_FlushInterval = interval\<rparr>)))"

text \<open>The arguments of \<open>rate.NewLimiter\<close>, where a limiter is installed.  The rate is a rational number, so \<open>NaN\<close>, the
  infinities and rates beyond the range of \<open>int\<close> are left out.\<close>

definition rate_limit :: "config \<Rightarrow> (rat \<times> i64) option" where
  "rate_limit cfg =
     (let rps = srv_RateLimitRPS (cf_Server cfg); burst = srv_RateLimitBurst (cf_Server cfg) in
      if 0 < rps then Some (rps, if sle burst 0 then word_of_int \<lfloor>rps\<rfloor> else burst) else None)"

subsection \<open>The backend\<close>

text \<open>A backend and the key store that goes with it.\<close>

record ('s, 'l, 'k) opened =
  op_Store :: "'s store"
  op_Append :: "i64 \<Rightarrow> 'l audit_append"
  op_Keys :: "'k keys"
  op_store :: 's
  op_log :: 'l
  op_keys :: 'k

definition newStore ::
    "('s, 'l, 'k) opened \<Rightarrow> (string \<Rightarrow> store_error + ('s, 'l, 'k) opened) \<Rightarrow> config \<Rightarrow> boot_error + ('s, 'l, 'k) opened" where
  "newStore memory postgres cfg =
     (if sto_Backend (cf_Store cfg) = ''postgres'' then mapErr ErrBootStore (postgres (sto_Postgres (cf_Store cfg)))
      else Inr memory)"

definition memory_backend :: "crypto \<Rightarrow> (mem_store, audit_log, key_store) opened" where
  "memory_backend C = \<lparr>op_Store = memory_store C, op_Append = Append C, op_Keys = memory_keystore,
     op_store = New, op_log = NewMemoryAuditLog, op_keys = NewMemoryKeyStore\<rparr>"

subsection \<open>The service\<close>

record boot_inputs =
  bt_platform :: "bytes option"
  bt_apikey :: "bytes option"
  bt_now :: i64
  bt_instance :: bytes

record ('s, 'l, 'k) booted =
  bo_env :: "('s, 'l, 'k, exporter option) service_env"
  bo_state :: "('s, 'l, 'k, exporter option) service_state"
  bo_gate :: gate
  bo_files :: files

text \<open>A batch size above \<open>2 ^ 59\<close> overflows the cap of the buffer and \<open>Enqueue\<close> panics with its lock held;
  that case is left out here, the exporter then stays as it is.\<close>

definition tee_enqueue :: "exporter option \<Rightarrow> audit_entry \<Rightarrow> exporter option" where
  "tee_enqueue x entry = (case x of None \<Rightarrow> None | Some e \<Rightarrow> (case Enqueue e entry of None \<Rightarrow> x | Some e' \<Rightarrow> Some e'))"

definition newService ::
    "crypto \<Rightarrow> (bytes \<Rightarrow> bytes) \<Rightarrow> (string \<Rightarrow> i64 option) \<Rightarrow> (string \<Rightarrow> string) \<Rightarrow> (oidc_config \<Rightarrow> string \<Rightarrow> string option)
      \<Rightarrow> ('s, 'l, 'k) opened \<Rightarrow> (string \<Rightarrow> store_error + ('s, 'l, 'k) opened) \<Rightarrow> boot_inputs \<Rightarrow> config \<Rightarrow> files
      \<Rightarrow> boot_error + ('s, 'l, 'k) booted" where
  "newService C seed_key parse_duration getenv oidc memory postgres bt cfg fs =
     bindE (newStore memory postgres cfg) (\<lambda>b.
     bindE (loadOrCreatePlatformKey C seed_key (bt_platform bt) cfg fs) (\<lambda>(key, did, fs).
     bindE (loadOrCreateAPIKeys (bt_apikey bt) cfg fs) (\<lambda>(apiKeys, fs).
       let nonces = NewMemoryNonceCache (bt_instance bt); fs = persistInstance cfg (InstanceID nonces) (bt_now bt) fs in
       bindE (if wh_URL (cf_SIEMWebhook cfg) \<noteq> [] then bindE (newSIEMExporter parse_duration getenv cfg) (\<lambda>e. Inr (Some e)) else Inr None)
         (\<lambda>exporter. Inr
           \<lparr>bo_env = \<lparr>env_Store = op_Store b, env_Append = op_Append b, env_Keys = op_Keys b,
              env_SIEM = (if exporter = None then None else Some tee_enqueue), env_PlatformKey = key, env_PlatformDID = did,
              env_MaxChainDepth = vfc_MaxChainDepth (cf_Verify cfg), env_ClockSkewSeconds = vfc_ClockSkewSeconds (cf_Verify cfg),
              env_DefaultRiskTier = vfc_DefaultRiskTier (cf_Verify cfg),
              env_AllowCustodialInvocation = vfc_AllowCustodialInvocation (cf_Verify cfg), env_StartTime = bt_now bt\<rparr>,
            bo_state = \<lparr>svc_Store = op_store b, svc_Audit = op_log b, svc_Keys = op_keys b, svc_SIEM = exporter,
              svc_NonceCache = nonces, svc_listSeq = 0\<rparr>,
            bo_gate = \<lparr>gt_APIKeys = apiKeys,
              gt_OIDC = (if auc_Mode (cf_Auth cfg) = AuthModeOIDC then Some (oidc (auc_OIDC (cf_Auth cfg))) else None),
              gt_limited = (rate_limit cfg \<noteq> None)\<rparr>,
            bo_files = fs\<rparr>))))"

text \<open>\<open>runServer\<close>: the service, after the reconciliation at startup, whose failure does not stop the boot.\<close>

definition runServer ::
    "crypto \<Rightarrow> (bytes \<Rightarrow> bytes) \<Rightarrow> (string \<Rightarrow> i64 option) \<Rightarrow> (string \<Rightarrow> string) \<Rightarrow> (oidc_config \<Rightarrow> string \<Rightarrow> string option)
      \<Rightarrow> ('s, 'l, 'k) opened \<Rightarrow> (string \<Rightarrow> store_error + ('s, 'l, 'k) opened) \<Rightarrow> boot_inputs \<Rightarrow> config \<Rightarrow> files
      \<Rightarrow> boot_error + ('s, 'l, 'k) booted" where
  "runServer C seed_key parse_duration getenv oidc memory postgres bt cfg fs =
     bindE (newService C seed_key parse_duration getenv oidc memory postgres bt cfg fs) (\<lambda>b.
       let S = env_Store (bo_env b);
           (r, st, l) = Reconcile C (st_ListCredentials S (svc_Store (bo_state b))) (st_Get S (svc_Store (bo_state b)))
             (st_Contains S) (st_Register S) (Some (env_Append (bo_env b) (bt_now bt)))
             (svc_Store (bo_state b), svc_Audit (bo_state b))
       in Inr (b\<lparr>bo_state := (bo_state b)\<lparr>svc_Store := st, svc_Audit := l\<rparr>\<rparr>))"

definition run ::
    "crypto \<Rightarrow> (bytes \<Rightarrow> bytes) \<Rightarrow> (string \<Rightarrow> i64 option) \<Rightarrow> (oidc_config \<Rightarrow> string \<Rightarrow> string option)
      \<Rightarrow> (bytes \<Rightarrow> config \<Rightarrow> config option) \<Rightarrow> (string \<Rightarrow> (string \<times> string) option) \<Rightarrow> (string \<Rightarrow> string)
      \<Rightarrow> ('s, 'l, 'k) opened \<Rightarrow> (string \<Rightarrow> store_error + ('s, 'l, 'k) opened) \<Rightarrow> boot_inputs \<Rightarrow> string \<Rightarrow> files
      \<Rightarrow> boot_error + ('s, 'l, 'k) booted" where
  "run C seed_key parse_duration oidc yaml url_parse getenv memory postgres bt configPath fs =
     bindE (mapErr ErrBootConfig (LoadConfig yaml url_parse (ReadFile fs) getenv configPath)) (\<lambda>cfg.
       runServer C seed_key parse_duration getenv oidc memory postgres bt cfg fs)"

subsection \<open>Trimming\<close>

lemma trim_plain:
  assumes "s \<noteq> []" and "\<forall>c \<in> set s. byte c < 0x80 \<and> \<not> is_space_rune (byte c)"
  shows "TrimSpace s = s"
proof -
  have left: "trim_space_left s = s"
    using assms by (cases s) (simp_all add: trim_space_left.simps decode_rune_def in_range_def)
  have all: "list_all (\<lambda>sp. \<not> (byte (last sp) < 0x80 \<and> \<not> is_space_rune (byte (last sp))) \<and> sp \<noteq> []) space_encodings"
    by code_simp
  have "ends_in_space s = None"
    unfolding ends_in_space_def find_None_iff
  proof
    assume "\<exists>sp. sp \<in> set space_encodings \<and> length sp \<le> length s \<and> drop (length s - length sp) s = sp"
    then obtain sp where sp: "sp \<in> set space_encodings" "drop (length s - length sp) s = sp" by blast
    with all have "sp \<noteq> []" "\<not> (byte (last sp) < 0x80 \<and> \<not> is_space_rune (byte (last sp)))" by (auto simp: list_all_iff)
    moreover from sp(2) this(1) have "last sp = last s" by (metis append_take_drop_id last_appendR)
    ultimately show False using assms by simp
  qed
  then show ?thesis using left by (simp add: TrimSpace_def trim_space_right.simps)
qed

lemma b64_not_space: "c \<in> set (b64_encode s) \<Longrightarrow> \<not> is_space_rune (byte c)"
proof -
  have all: "list_all (\<lambda>c. \<not> is_space_rune (byte c)) (map b64_char [0..63])" by code_simp
  then have "\<not> is_space_rune (byte (b64_char d))" if "0 \<le> d" "d < 64" for d
    using that by (auto simp: list_all_iff)
  then show "\<not> is_space_rune (byte c)" if "c \<in> set (b64_encode s)"
    using that by (induction s rule: b64_encode.induct) (auto simp: b64_range)
qed

lemma trim_b64:
  assumes "s \<noteq> []"
  shows "b64_encode s \<noteq> []" and "TrimSpace (b64_encode s) = b64_encode s"
proof -
  show e: "b64_encode s \<noteq> []" using b64_encode_hd [OF assms] by auto
  show "TrimSpace (b64_encode s) = b64_encode s"
    by (rule trim_plain [OF e]) (use b64_encode_chars b64_not_space in blast)
qed

subsection \<open>The pieces of a boot\<close>

text \<open>What the boot relies on: keys of the right length from the random source and from seeds.\<close>

definition draws_ok :: "boot_inputs \<Rightarrow> bool" where
  "draws_ok bt \<longleftrightarrow> (\<forall>k. bt_platform bt = Some k \<longrightarrow> length k = PrivateKeySize) \<and> bt_apikey bt \<noteq> Some []"

definition seeds_ok :: "(bytes \<Rightarrow> bytes) \<Rightarrow> bool" where
  "seeds_ok seed_key \<longleftrightarrow> (\<forall>s. length s = SeedSize \<longrightarrow> length (seed_key s) = PrivateKeySize)"

lemma ReadFile_WriteFile:
  "WriteFile fs p d = Some fs' \<Longrightarrow> ReadFile fs' q = (if q = p \<and> ReadFile fs p \<noteq> FileUnreadable then FileData d else ReadFile fs q)"
  by (auto simp: WriteFile_def ReadFile_def split: if_splits option.splits)

lemma ReadFile_persist: "q \<noteq> instancePath cfg \<Longrightarrow> ReadFile (persistInstance cfg i t fs) q = ReadFile fs q"
  by (auto simp: persistInstance_def ReadFile_WriteFile split: option.splits)

lemma platform_key_loaded:
  assumes "loadOrCreatePlatformKey C seed_key drawn cfg fs = Inr (key, did, fs')" and "seeds_ok seed_key"
    and "\<And>k. drawn = Some k \<Longrightarrow> length k = PrivateKeySize"
  shows "length key = PrivateKeySize" and "did = EncodeDID (ed_public C key)"
    and "\<exists>d. ReadFile fs' (idc_PlatformKeyPath (cf_Identity cfg)) = FileData d \<and> keyFromBytes seed_key d = Inr key"
    and "q \<noteq> idc_PlatformKeyPath (cf_Identity cfg) \<Longrightarrow> ReadFile fs' q = ReadFile fs q"
proof -
  let ?p = "idc_PlatformKeyPath (cf_Identity cfg)"
  have len: "keyFromBytes seed_key d = Inr k \<Longrightarrow> length k = PrivateKeySize" for d k
    using assms(2) by (auto simp: keyFromBytes_def seeds_ok_def split: if_splits)
  have all: "length key = PrivateKeySize \<and> did = EncodeDID (ed_public C key)
      \<and> (\<exists>d. ReadFile fs' ?p = FileData d \<and> keyFromBytes seed_key d = Inr key) \<and> (q \<noteq> ?p \<longrightarrow> ReadFile fs' q = ReadFile fs q)"
  proof (cases "ReadFile fs ?p")
    case (FileData d)
    with assms(1) len show ?thesis by (auto simp: loadOrCreatePlatformKey_def err_simps)
  next
    case FileMissing
    with assms(1) obtain fs1 where "drawn = Some key" "did = EncodeDID (ed_public C key)" "WriteFile fs ?p key = Some fs'"
      by (auto simp: loadOrCreatePlatformKey_def GenerateDID_def split: option.splits)
    with assms(3) FileMissing show ?thesis by (simp add: ReadFile_WriteFile keyFromBytes_def)
  next
    case FileUnreadable
    with assms(1) show ?thesis by (simp add: loadOrCreatePlatformKey_def)
  qed
  then show "length key = PrivateKeySize" "did = EncodeDID (ed_public C key)"
    "\<exists>d. ReadFile fs' ?p = FileData d \<and> keyFromBytes seed_key d = Inr key"
    "q \<noteq> ?p \<Longrightarrow> ReadFile fs' q = ReadFile fs q" by blast+
qed

lemma api_keys_loaded:
  assumes "loadOrCreateAPIKeys drawn cfg fs = Inr (ks, fs')" and "drawn \<noteq> Some []"
  shows "ks \<noteq> []" and "[] \<notin> set ks" and "q \<noteq> apiKeyPath cfg \<Longrightarrow> ReadFile fs' q = ReadFile fs q"
    and "ReadFile fs'' (apiKeyPath cfg) = ReadFile fs' (apiKeyPath cfg) \<Longrightarrow> loadOrCreateAPIKeys drawn' cfg fs'' = Inr (ks, fs'')"
proof -
  let ?conf = "filter (\<lambda>k. k \<noteq> []) (map TrimSpace (srv_APIKeys (cf_Server cfg)))"
  have gen: "\<exists>buf. buf \<noteq> [] \<and> ks = [b64_encode buf] \<and> WriteFile fs (apiKeyPath cfg) (b64_encode buf) = Some fs'"
    if "generateAPIKey drawn cfg fs = Inr (ks, fs')"
    using that assms(2) by (auto simp: generateAPIKey_def Let_def split: option.splits)
  consider (conf) "?conf \<noteq> []" "ks = ?conf" "fs' = fs"
    | (stored) d where "?conf = []" "ReadFile fs (apiKeyPath cfg) = FileData d" "TrimSpace d \<noteq> []" "ks = [TrimSpace d]" "fs' = fs"
    | (fresh) buf where "?conf = []" "buf \<noteq> []" "ks = [b64_encode buf]" "WriteFile fs (apiKeyPath cfg) (b64_encode buf) = Some fs'"
        "ReadFile fs (apiKeyPath cfg) \<noteq> FileUnreadable"
    using assms(1) gen by (auto simp: loadOrCreateAPIKeys_def Let_def split: if_splits read_result.splits)
  then have all: "ks \<noteq> [] \<and> [] \<notin> set ks \<and> (q \<noteq> apiKeyPath cfg \<longrightarrow> ReadFile fs' q = ReadFile fs q)
    \<and> (ReadFile fs'' (apiKeyPath cfg) = ReadFile fs' (apiKeyPath cfg) \<longrightarrow> loadOrCreateAPIKeys drawn' cfg fs'' = Inr (ks, fs''))"
  proof cases
    case conf
    then show ?thesis by (auto simp: loadOrCreateAPIKeys_def Let_def)
  next
    case (stored d)
    then show ?thesis by (simp add: loadOrCreateAPIKeys_def Let_def)
  next
    case (fresh buf)
    with trim_b64 [of buf] show ?thesis by (simp add: loadOrCreateAPIKeys_def Let_def ReadFile_WriteFile)
  qed
  then show "ks \<noteq> []" "[] \<notin> set ks" "q \<noteq> apiKeyPath cfg \<Longrightarrow> ReadFile fs' q = ReadFile fs q"
    "ReadFile fs'' (apiKeyPath cfg) = ReadFile fs' (apiKeyPath cfg) \<Longrightarrow> loadOrCreateAPIKeys drawn' cfg fs'' = Inr (ks, fs'')"
    by blast+
qed

end
