(* ===== verification/Boot_Properties.thy ===== *)
theory Boot_Properties
  imports Daemon_Boot Daemon_Invariant
begin

text \<open>
  What a boot of the daemon guarantees: it never serves without a credential, over the memory backend it
  starts in its invariant, and a restart finds the same identity and the same API keys.
\<close>

lemma newService_parts:
  assumes "newService C seed_key pd getenv oidc memory postgres bt cfg fs = Inr b"
  obtains o' key did fs1 ks fs2 exporter where "newStore memory postgres cfg = Inr o'"
    "loadOrCreatePlatformKey C seed_key (bt_platform bt) cfg fs = Inr (key, did, fs1)"
    "loadOrCreateAPIKeys (bt_apikey bt) cfg fs1 = Inr (ks, fs2)"
    "bo_files b = persistInstance cfg (InstanceID (NewMemoryNonceCache (bt_instance bt))) (bt_now bt) fs2"
    "env_Store (bo_env b) = op_Store o'" "env_Append (bo_env b) = op_Append o'" "env_Keys (bo_env b) = op_Keys o'"
    "env_PlatformKey (bo_env b) = key" "env_PlatformDID (bo_env b) = did" "env_StartTime (bo_env b) = bt_now bt"
    "svc_Store (bo_state b) = op_store o'" "svc_Audit (bo_state b) = op_log o'" "svc_Keys (bo_state b) = op_keys o'"
    "gt_APIKeys (bo_gate b) = ks"
    "gt_OIDC (bo_gate b) = (if auc_Mode (cf_Auth cfg) = AuthModeOIDC then Some (oidc (auc_OIDC (cf_Auth cfg))) else None)"
    "(if wh_URL (cf_SIEMWebhook cfg) \<noteq> [] then bindE (newSIEMExporter pd getenv cfg) (\<lambda>e. Inr (Some e)) else Inr None) = Inr exporter"
  using assms by (auto simp: newService_def err_simps Let_def)

text \<open>The reconciliation at startup keeps the invariant.\<close>

lemma log_run_append:
  "log_run (Append C now) l l' \<Longrightarrow> audit_inv C l \<Longrightarrow> audit_inv C l'"
  by (induction rule: log_run.induct) (auto intro: memory_append_inv)

lemma reconcile_inv:
  assumes "Reconcile C listed get contains (st_Register (memory_store C)) (Some (Append C now)) (svc_Store s, svc_Audit s) = (r, st, l)"
    and "daemon_inv C did s"
  shows "daemon_inv C did (s\<lparr>svc_Store := st, svc_Audit := l\<rparr>)"
proof -
  note i = assms(2) [unfolded daemon_inv_def]
  have run: "store_run (memory_store C) (\<lambda>_. False) (svc_Store s) st" by (rule Reconcile_run [OF assms(1)])
  have "store_inv C st" using mem.run_inv [OF run] i by simp
  moreover have "audit_inv C l" using log_run_append [OF Reconcile_log [OF assms(1)]] i by simp
  moreover have "entries_inv C did st" using memory_run_entries [OF run] i by (auto simp: entries_inv_def)
  ultimately show ?thesis
    using i memory_run_agents [OF run] by (simp add: daemon_inv_def agents_inv_def)
qed

lemma runServer_parts:
  assumes "runServer C seed_key pd getenv oidc memory postgres bt cfg fs = Inr b"
  obtains b0 r where "newService C seed_key pd getenv oidc memory postgres bt cfg fs = Inr b0"
    "bo_env b = bo_env b0" "bo_gate b = bo_gate b0" "bo_files b = bo_files b0" "svc_Keys (bo_state b) = svc_Keys (bo_state b0)"
    "bo_state b = (bo_state b0)\<lparr>svc_Store := svc_Store (bo_state b), svc_Audit := svc_Audit (bo_state b)\<rparr>"
    "Reconcile C (st_ListCredentials (env_Store (bo_env b0)) (svc_Store (bo_state b0))) (st_Get (env_Store (bo_env b0)) (svc_Store (bo_state b0)))
       (st_Contains (env_Store (bo_env b0))) (st_Register (env_Store (bo_env b0))) (Some (env_Append (bo_env b0) (bt_now bt)))
       (svc_Store (bo_state b0), svc_Audit (bo_state b0)) = (r, svc_Store (bo_state b), svc_Audit (bo_state b))"
proof -
  from assms obtain b0 where b0: "newService C seed_key pd getenv oidc memory postgres bt cfg fs = Inr b0"
    by (auto simp: runServer_def err_simps)
  obtain r st l where r: "Reconcile C (st_ListCredentials (env_Store (bo_env b0)) (svc_Store (bo_state b0)))
       (st_Get (env_Store (bo_env b0)) (svc_Store (bo_state b0))) (st_Contains (env_Store (bo_env b0)))
       (st_Register (env_Store (bo_env b0))) (Some (env_Append (bo_env b0) (bt_now bt)))
       (svc_Store (bo_state b0), svc_Audit (bo_state b0)) = (r, st, l)" by (metis prod_cases3)
  with assms b0 have "b = b0\<lparr>bo_state := (bo_state b0)\<lparr>svc_Store := st, svc_Audit := l\<rparr>\<rparr>"
    by (simp add: runServer_def Let_def)
  with b0 r show ?thesis by (intro that [of b0 r]) simp_all
qed

lemma boot_memory:
  assumes "runServer C seed_key pd getenv oidc (memory_backend C) (\<lambda>_. Inl ErrStoreBackend) bt cfg fs = Inr b"
    and "draws_ok bt" and "seeds_ok seed_key"
  shows "memory_daemon C (bo_env b) \<and> daemon_inv C (env_PlatformDID (bo_env b)) (bo_state b)"
proof -
  from runServer_parts [OF assms(1)] obtain b0 r where b0:
    "newService C seed_key pd getenv oidc (memory_backend C) (\<lambda>_. Inl ErrStoreBackend) bt cfg fs = Inr b0" "bo_env b = bo_env b0"
    "bo_state b = (bo_state b0)\<lparr>svc_Store := svc_Store (bo_state b), svc_Audit := svc_Audit (bo_state b)\<rparr>"
    "Reconcile C (st_ListCredentials (env_Store (bo_env b0)) (svc_Store (bo_state b0))) (st_Get (env_Store (bo_env b0)) (svc_Store (bo_state b0)))
       (st_Contains (env_Store (bo_env b0))) (st_Register (env_Store (bo_env b0))) (Some (env_Append (bo_env b0) (bt_now bt)))
       (svc_Store (bo_state b0), svc_Audit (bo_state b0)) = (r, svc_Store (bo_state b), svc_Audit (bo_state b))" by metis
  obtain o' key did fs1 ks fs2 where
    o': "newStore (memory_backend C) (\<lambda>_. Inl ErrStoreBackend) cfg = Inr o'"
    and key: "loadOrCreatePlatformKey C seed_key (bt_platform bt) cfg fs = Inr (key, did, fs1)"
    and env: "env_Store (bo_env b0) = op_Store o'" "env_Append (bo_env b0) = op_Append o'" "env_Keys (bo_env b0) = op_Keys o'"
      "env_PlatformKey (bo_env b0) = key" "env_PlatformDID (bo_env b0) = did"
    and st: "svc_Store (bo_state b0) = op_store o'" "svc_Audit (bo_state b0) = op_log o'" "svc_Keys (bo_state b0) = op_keys o'"
    by (rule newService_parts [OF b0(1)]) (rule that; assumption)
  have m: "o' = memory_backend C" using o' by (simp add: newStore_def mapErr_def split: if_splits)
  note k = platform_key_loaded(1,2) [OF key assms(3)]
  have "length key = PrivateKeySize" "did = EncodeDID (ed_public C key)" using k assms(2) by (auto simp: draws_ok_def)
  then have daemon: "memory_daemon C (bo_env b)" by (simp add: memory_daemon_def b0(2) env m memory_backend_def)
  have eq: "svc_Store (bo_state b0) = New" "svc_Audit (bo_state b0) = NewMemoryAuditLog" "svc_Keys (bo_state b0) = NewMemoryKeyStore"
    using st by (simp_all add: m memory_backend_def)
  have "daemon_inv C (env_PlatformDID (bo_env b)) (bo_state b0)"
    using boot_inv [of C "env_PlatformDID (bo_env b)" "[]" "()"] by (simp add: daemon_inv_def eq boot_state_def)
  from reconcile_inv [OF _ this] b0(2,4) env m have
    "daemon_inv C (env_PlatformDID (bo_env b)) ((bo_state b0)\<lparr>svc_Store := svc_Store (bo_state b), svc_Audit := svc_Audit (bo_state b)\<rparr>)"
    by (simp add: memory_backend_def)
  with daemon b0(3) show ?thesis by metis
qed

lemma boot_guarded:
  assumes "runServer C seed_key pd getenv oidc memory postgres bt cfg fs = Inr b" and "draws_ok bt"
  shows "gt_APIKeys (bo_gate b) \<noteq> [] \<and> [] \<notin> set (gt_APIKeys (bo_gate b))
    \<and> (gt_OIDC (bo_gate b) \<noteq> None \<longleftrightarrow> auc_Mode (cf_Auth cfg) = AuthModeOIDC)"
proof -
  from runServer_parts [OF assms(1)] obtain b0 where
    b0: "newService C seed_key pd getenv oidc memory postgres bt cfg fs = Inr b0" "bo_gate b = bo_gate b0" by metis
  from newService_parts [OF b0(1)] obtain fs1 ks fs2 where ks: "loadOrCreateAPIKeys (bt_apikey bt) cfg fs1 = Inr (ks, fs2)"
    "gt_APIKeys (bo_gate b0) = ks"
    "gt_OIDC (bo_gate b0) = (if auc_Mode (cf_Auth cfg) = AuthModeOIDC then Some (oidc (auc_OIDC (cf_Auth cfg))) else None)" by metis
  with api_keys_loaded(1,2) [OF ks(1)] assms(2) b0(2) show ?thesis by (auto simp: draws_ok_def)
qed

lemma restart_same:
  assumes "newService C seed_key pd getenv oidc memory postgres bt cfg fs = Inr b" and "draws_ok bt" and "seeds_ok seed_key"
    and "distinct [idc_PlatformKeyPath (cf_Identity cfg), apiKeyPath cfg, instancePath cfg]"
    and "newStore memory' postgres' cfg = Inr o2"
  obtains b' where "newService C seed_key pd getenv oidc memory' postgres' bt' cfg (bo_files b) = Inr b'"
    "env_PlatformKey (bo_env b') = env_PlatformKey (bo_env b)" "env_PlatformDID (bo_env b') = env_PlatformDID (bo_env b)"
    "gt_APIKeys (bo_gate b') = gt_APIKeys (bo_gate b)"
proof -
  let ?p = "idc_PlatformKeyPath (cf_Identity cfg)" and ?files = "bo_files b"
  from newService_parts [OF assms(1)] obtain o' key did fs1 ks fs2 exporter where
    key: "loadOrCreatePlatformKey C seed_key (bt_platform bt) cfg fs = Inr (key, did, fs1)"
    and ks: "loadOrCreateAPIKeys (bt_apikey bt) cfg fs1 = Inr (ks, fs2)"
    and files: "?files = persistInstance cfg (InstanceID (NewMemoryNonceCache (bt_instance bt))) (bt_now bt) fs2"
    and env: "env_PlatformKey (bo_env b) = key" "env_PlatformDID (bo_env b) = did" "gt_APIKeys (bo_gate b) = ks"
    and exporter: "(if wh_URL (cf_SIEMWebhook cfg) \<noteq> [] then bindE (newSIEMExporter pd getenv cfg) (\<lambda>e. Inr (Some e)) else Inr None) = Inr exporter"
    by metis
  have draws: "\<And>k. bt_platform bt = Some k \<Longrightarrow> length k = PrivateKeySize" "bt_apikey bt \<noteq> Some []"
    using assms(2) by (simp_all add: draws_ok_def)
  from assms(4) have ne: "?p \<noteq> apiKeyPath cfg" "?p \<noteq> instancePath cfg" "apiKeyPath cfg \<noteq> instancePath cfg" by auto
  note P = platform_key_loaded [OF key assms(3) draws(1)]
  note A = api_keys_loaded [OF ks draws(2)]
  from P(3) obtain d where d: "ReadFile fs1 ?p = FileData d" "keyFromBytes seed_key d = Inr key" by blast
  have "ReadFile ?files ?p = FileData d"
    unfolding files using ReadFile_persist [of ?p cfg] A(3) [of ?p] ne d(1) by simp
  then have key2: "loadOrCreatePlatformKey C seed_key drawn cfg ?files = Inr (key, did, ?files)" for drawn
    using d(2) P(2) by (simp add: loadOrCreatePlatformKey_def)
  have "ReadFile ?files (apiKeyPath cfg) = ReadFile fs2 (apiKeyPath cfg)"
    unfolding files by (rule ReadFile_persist) (use ne in simp)
  from A(4) [OF this] have ks2: "loadOrCreateAPIKeys drawn cfg ?files = Inr (ks, ?files)" for drawn .
  have "\<exists>b'. newService C seed_key pd getenv oidc memory' postgres' bt' cfg ?files = Inr b'
      \<and> env_PlatformKey (bo_env b') = key \<and> env_PlatformDID (bo_env b') = did \<and> gt_APIKeys (bo_gate b') = ks"
    using exporter by (simp add: newService_def assms(5) key2 ks2 Let_def)
  then show ?thesis using that env by metis
qed

text \<open>A rate below one request per second with no burst configured: the burst that is taken from the rate by
  truncation is zero, and a token bucket of size zero lets nothing through.\<close>

lemma default_burst_zero:
  assumes "0 < srv_RateLimitRPS (cf_Server cfg)" and "srv_RateLimitRPS (cf_Server cfg) < 1"
    and "sle (srv_RateLimitBurst (cf_Server cfg)) 0"
  shows "rate_limit cfg = Some (srv_RateLimitRPS (cf_Server cfg), 0)"
proof -
  have "\<lfloor>srv_RateLimitRPS (cf_Server cfg)\<rfloor> = 0" using assms(1,2) by (intro floor_unique) simp_all
  then show ?thesis using assms by (simp add: rate_limit_def Let_def)
qed

subsection \<open>A boot with nothing on disk\<close>

definition empty_disk :: files where
  "empty_disk = \<lparr>fl_content = Map.empty, fl_unreadable = (\<lambda>_. False), fl_unwritable = (\<lambda>_. False)\<rparr>"

definition sample_boot_inputs :: boot_inputs where
  "sample_boot_inputs = \<lparr>bt_platform = Some sample_root_key, bt_apikey = Some ''random'', bt_now = 900, bt_instance = ''i''\<rparr>"

lemma sample_draws: "draws_ok sample_boot_inputs" "seeds_ok (\<lambda>s. s @ s)"
  by (simp_all add: draws_ok_def sample_boot_inputs_def sample_root_key_def PrivateKeySize_def seeds_ok_def SeedSize_def)

lemma sample_paths: "apiKeyPath Default = ''api.key''" "instancePath Default = ''instance.id''"
  "idc_PlatformKeyPath (cf_Identity Default) = ''platform.key''"
  by code_simp+

lemma sample_new_service:
  "\<exists>b. newService demo_crypto (\<lambda>s. s @ s) (\<lambda>_. None) (\<lambda>_. []) (\<lambda>_ _. None) (memory_backend demo_crypto) (\<lambda>_. Inl ErrStoreBackend)
     sample_boot_inputs Default empty_disk = Inr b"
proof -
  have none: "wh_URL (cf_SIEMWebhook Default) = []" "srv_APIKeys (cf_Server Default) = []"
    "sto_Backend (cf_Store Default) = ''memory''" by (simp_all add: Default_def)
  have "\<exists>fs1. loadOrCreatePlatformKey demo_crypto (\<lambda>s. s @ s) (Some sample_root_key) Default empty_disk
      = Inr (sample_root_key, EncodeDID (ed_public demo_crypto sample_root_key), fs1)
      \<and> fs1 = empty_disk\<lparr>fl_content := [''platform.key'' \<mapsto> sample_root_key]\<rparr>"
    by (simp add: loadOrCreatePlatformKey_def sample_paths ReadFile_def WriteFile_def GenerateDID_def empty_disk_def)
  moreover have "\<exists>fs2. loadOrCreateAPIKeys (Some ''random'') Default (empty_disk\<lparr>fl_content := [''platform.key'' \<mapsto> sample_root_key]\<rparr>)
      = Inr ([b64_encode ''random''], fs2)"
    by (simp add: loadOrCreateAPIKeys_def sample_paths ReadFile_def WriteFile_def generateAPIKey_def empty_disk_def none Let_def)
  ultimately show ?thesis
    by (auto simp: newService_def newStore_def none sample_boot_inputs_def Let_def)
qed

lemma sample_run:
  "\<exists>b. run demo_crypto (\<lambda>s. s @ s) (\<lambda>_. None) (\<lambda>_ _. None) (\<lambda>_ c. Some c) (\<lambda>_. None) (\<lambda>_. []) (memory_backend demo_crypto)
     (\<lambda>_. Inl ErrStoreBackend) sample_boot_inputs ''config.yaml'' empty_disk = Inr b"
proof -
  have "LoadConfig (\<lambda>_ c. Some c) (\<lambda>_. None) (ReadFile empty_disk) (\<lambda>_. []) ''config.yaml'' = Inr Default"
    by (rule load_without_file) (simp_all add: ReadFile_def empty_disk_def)
  with sample_new_service show ?thesis by (auto simp: run_def runServer_def Let_def split: prod.splits)
qed

text \<open>Whatever the files and the environment hold, a daemon that boots over the memory backend starts in its
  invariant under a platform key of its own, and accepts at least one API key and never the empty one.\<close>

lemma boot_establishes:
  assumes "run C seed_key pd oidc yaml url_parse getenv (memory_backend C) (\<lambda>_. Inl ErrStoreBackend) bt path fs = Inr b"
    and "draws_ok bt" and "seeds_ok seed_key"
  shows "memory_daemon C (bo_env b) \<and> daemon_inv C (env_PlatformDID (bo_env b)) (bo_state b)
    \<and> gt_APIKeys (bo_gate b) \<noteq> [] \<and> [] \<notin> set (gt_APIKeys (bo_gate b))"
proof -
  from assms(1) obtain cfg where
    "runServer C seed_key pd getenv oidc (memory_backend C) (\<lambda>_. Inl ErrStoreBackend) bt cfg fs = Inr b"
    by (auto simp: run_def err_simps)
  from boot_memory [OF this assms(2,3)] boot_guarded [OF this assms(2)] show ?thesis by blast
qed

subsection \<open>Properties\<close>

text \<open>C17: A restart finds the same daemon: after a boot whose three files do not share a path, a second boot with
  the same configuration succeeds whatever it would draw, and has the same platform key, the same identity and
  the same API keys.\<close>

theorem Boot_restart_identity:
  assumes "newService C seed_key pd getenv oidc memory postgres bt cfg fs = Inr b" and "draws_ok bt" and "seeds_ok seed_key"
    and "distinct [idc_PlatformKeyPath (cf_Identity cfg), apiKeyPath cfg, instancePath cfg]"
    and "newStore memory' postgres' cfg = Inr o2"
  shows "\<exists>b'. newService C seed_key pd getenv oidc memory' postgres' bt' cfg (bo_files b) = Inr b'
    \<and> env_PlatformKey (bo_env b') = env_PlatformKey (bo_env b) \<and> env_PlatformDID (bo_env b') = env_PlatformDID (bo_env b)
    \<and> gt_APIKeys (bo_gate b') = gt_APIKeys (bo_gate b)"
  using restart_same [OF assms] by metis

theorem Boot_restart_identity_witness:
  "\<exists>b b'. newService demo_crypto (\<lambda>s. s @ s) (\<lambda>_. None) (\<lambda>_. []) (\<lambda>_ _. None) (memory_backend demo_crypto) (\<lambda>_. Inl ErrStoreBackend)
        sample_boot_inputs Default empty_disk = Inr b
    \<and> newService demo_crypto (\<lambda>s. s @ s) (\<lambda>_. None) (\<lambda>_. []) (\<lambda>_ _. None) (memory_backend demo_crypto) (\<lambda>_. Inl ErrStoreBackend)
        \<lparr>bt_platform = None, bt_apikey = None, bt_now = 950, bt_instance = ''j''\<rparr> Default (bo_files b) = Inr b'
    \<and> env_PlatformDID (bo_env b') = env_PlatformDID (bo_env b)"
proof -
  obtain b where b: "newService demo_crypto (\<lambda>s. s @ s) (\<lambda>_. None) (\<lambda>_. []) (\<lambda>_ _. None) (memory_backend demo_crypto) (\<lambda>_. Inl ErrStoreBackend)
        sample_boot_inputs Default empty_disk = Inr b" using sample_new_service by blast
  have "distinct [idc_PlatformKeyPath (cf_Identity Default), apiKeyPath Default, instancePath Default]"
    by (simp add: sample_paths)
  moreover have "newStore (memory_backend demo_crypto) (\<lambda>_. Inl ErrStoreBackend) Default = Inr (memory_backend demo_crypto)"
    by (simp add: newStore_def Default_def)
  ultimately show ?thesis using Boot_restart_identity [OF b sample_draws] b by blast
qed

end
