(* ===== verification/Daemon_Process.thy ===== *)
theory Daemon_Process
  imports Boot_Properties Siem_Loop
begin

text \<open>
  The running process of \<open>cmd/adtpd/main.go\<close>: the HTTP server of \<open>serve\<close>, the periodic reconciliation of
  \<open>runServer\<close> and the exporter's loop, side by side on the state of one service.  A handler, a reconciliation and
  a locked region of the exporter are one step each.  Listening, signals and timeouts are events that may happen
  at any time.
\<close>

subsection \<open>The listener\<close>

datatype serve_error = ErrListen | ErrShutdown

text \<open>\<open>serve\<close> waits for a listen error or the end of its context, then shuts the server down; requests that are
  being handled go on until it has returned.\<close>

datatype serve_phase = Serving | Draining | Exited "serve_error option"

inductive serve_step :: "bool \<Rightarrow> serve_phase \<Rightarrow> serve_phase \<Rightarrow> bool" for cancelled where
  serve_failed: "serve_step cancelled Serving (Exited (Some ErrListen))"
| serve_done: "cancelled \<Longrightarrow> serve_step cancelled Serving Draining"
| serve_drained: "serve_step cancelled Draining (Exited None)"
| serve_timeout: "serve_step cancelled Draining (Exited (Some ErrShutdown))"

subsection \<open>The periodic reconciliation\<close>

definition reconcile_store ::
    "crypto \<Rightarrow> ('s, 'l, 'k, 'x) service_env \<Rightarrow> i64 \<Rightarrow> ('s, 'l, 'k, 'x) service_state \<Rightarrow> ('s, 'l, 'k, 'x) service_state" where
  "reconcile_store C env now s =
     (case Reconcile C (st_ListCredentials (env_Store env) (svc_Store s)) (st_Get (env_Store env) (svc_Store s))
             (st_Contains (env_Store env)) (st_Register (env_Store env)) (Some (env_Append env now)) (svc_Store s, svc_Audit s) of
        (r, st, l) \<Rightarrow> s\<lparr>svc_Store := st, svc_Audit := l\<rparr>)"

subsection \<open>The process\<close>

record ('s, 'l, 'k, 'r) process =
  pr_service :: "('s, 'l, 'k, exporter option) service_state"
  pr_bucket :: 'r
  pr_serve :: serve_phase
  pr_cancelled :: bool
  pr_ticking :: bool
  pr_loop :: phase

text \<open>The ticker runs when an interval is configured.\<close>

definition start_process :: "i64 \<Rightarrow> 'r \<Rightarrow> ('s, 'l, 'k, exporter option) service_state \<Rightarrow> ('s, 'l, 'k, 'r) process" where
  "start_process mins bucket s = \<lparr>pr_service = s, pr_bucket = bucket, pr_serve = Serving, pr_cancelled = False,
     pr_ticking = slt 0 mins, pr_loop = Selecting\<rparr>"

text \<open>The exporter's loop as it stands in the process.\<close>

definition loop_view :: "exporter \<Rightarrow> ('s, 'l, 'k, 'r) process \<Rightarrow> loop_state" where
  "loop_view x p = \<lparr>lp_exporter = x, lp_phase = pr_loop p, lp_cancelled = pr_cancelled p, lp_enqueued = [], lp_accepted = [], lp_refused = False\<rparr>"

inductive process_step ::
    "crypto \<Rightarrow> ('s, 'l, 'k, exporter option) service_env \<Rightarrow> gate \<Rightarrow> ('r \<Rightarrow> bool \<times> 'r)
      \<Rightarrow> ('s, 'l, 'k, 'r) process \<Rightarrow> ('s, 'l, 'k, 'r) process \<Rightarrow> bool"
  for C env g allow where
  request: "pr_serve p \<in> {Serving, Draining} \<Longrightarrow> NewRouter C env g allow inp r (pr_bucket p, pr_service p) = (resp, bucket, s)
    \<Longrightarrow> process_step C env g allow p (p\<lparr>pr_service := s, pr_bucket := bucket\<rparr>)"
| tick: "pr_ticking p \<Longrightarrow> process_step C env g allow p (p\<lparr>pr_service := reconcile_store C env now (pr_service p)\<rparr>)"
| untick: "pr_cancelled p \<Longrightarrow> process_step C env g allow p (p\<lparr>pr_ticking := False\<rparr>)"
| export: "svc_SIEM (pr_service p) = Some x \<Longrightarrow> loop_step (loop_view x p) t \<Longrightarrow> lp_enqueued t = [] \<Longrightarrow> lp_cancelled t = pr_cancelled p
    \<Longrightarrow> process_step C env g allow p (p\<lparr>pr_service := (pr_service p)\<lparr>svc_SIEM := Some (lp_exporter t)\<rparr>, pr_loop := lp_phase t\<rparr>)"
| serve: "serve_step (pr_cancelled p) (pr_serve p) ph \<Longrightarrow> process_step C env g allow p (p\<lparr>pr_serve := ph\<rparr>)"
| cancel: "process_step C env g allow p (p\<lparr>pr_cancelled := True\<rparr>)"

inductive_cases process_stepE: "process_step C env g allow p p'"

subsection \<open>The invariant along a process\<close>

lemma append_only_log_run:
  "log_run (Append C now) l l' \<Longrightarrow> \<exists>t. al_entries l' = al_entries l @ t"
proof (induction rule: log_run.induct)
  case (log_more m m1 e)
  then obtain t where t: "al_entries m1 = al_entries m @ t" by blast
  have "al_entries (snd (Append C now m1 e)) = al_entries m1 \<or> (\<exists>x. al_entries (snd (Append C now m1 e)) = al_entries m1 @ [x])"
    by (auto simp: Append_def Let_def split: sum.splits)
  with t show ?case by auto
qed simp

lemma reconcile_store_inv:
  assumes "memory_daemon C env" and "daemon_inv C did s"
  shows "daemon_inv C did (reconcile_store C env now s) \<and> (\<exists>t. al_entries (svc_Audit (reconcile_store C env now s)) = al_entries (svc_Audit s) @ t)"
proof -
  note d = memory_daemonD [OF assms(1)]
  obtain r st l where r: "Reconcile C (st_ListCredentials (memory_store C) (svc_Store s)) (st_Get (memory_store C) (svc_Store s))
      (st_Contains (memory_store C)) (st_Register (memory_store C)) (Some (Append C now)) (svc_Store s, svc_Audit s) = (r, st, l)"
    by (metis prod_cases3)
  have "reconcile_store C env now s = s\<lparr>svc_Store := st, svc_Audit := l\<rparr>" by (simp only: reconcile_store_def d(1,2) r prod.case)
  with reconcile_inv [OF r assms(2)] append_only_log_run [OF Reconcile_log [OF r]] show ?thesis by simp
qed

lemma daemon_inv_siem [simp]: "daemon_inv C did (s\<lparr>svc_SIEM := x\<rparr>) = daemon_inv C did s"
  by (simp add: daemon_inv_def)

lemma router_inv:
  assumes "memory_daemon C env" and "daemon_inv C (env_PlatformDID env) s" and "NewRouter C env g allow inp r (bucket, s) = (resp, bucket', s')"
  shows "daemon_inv C (env_PlatformDID env) s' \<and> (\<exists>t. al_entries (svc_Audit s') = al_entries (svc_Audit s) @ t)"
proof -
  have audit: "audit_inv C (svc_Audit s)" using assms(2) by (simp add: daemon_inv_def)
  from NewRouter_state [of C env g allow inp r bucket s] assms(3) consider "s' = s"
    | ep where "route (rq_method r) (rq_segments r) = Some ep" "s' = snd (dispatch C env inp (oidc_subject g r) ep r s)" by auto
  then show ?thesis
  proof cases
    case 2
    then have "s' = snd (mux C env inp (oidc_subject g r) r s)" by (simp add: mux_def)
    with mux_daemon_inv [OF assms(1,2)] mux_audit_extends [OF assms(1) audit] show ?thesis by simp
  qed (use assms(2) in simp)
qed

lemma process_step_inv:
  assumes "memory_daemon C env" and "process_step C env g allow p p'" and "daemon_inv C (env_PlatformDID env) (pr_service p)"
  shows "daemon_inv C (env_PlatformDID env) (pr_service p')
    \<and> (\<exists>t. al_entries (svc_Audit (pr_service p')) = al_entries (svc_Audit (pr_service p)) @ t)"
  using assms(2)
proof cases
  case (request inp r resp bucket s)
  with router_inv [OF assms(1,3) request(3)] show ?thesis by simp
next
  case (tick now)
  with reconcile_store_inv [OF assms(1,3), of now] show ?thesis by simp
qed (use assms(3) in simp_all)

lemma process_inv:
  assumes "memory_daemon C env" and "(process_step C env g allow)\<^sup>*\<^sup>* p p'" and "daemon_inv C (env_PlatformDID env) (pr_service p)"
  shows "daemon_inv C (env_PlatformDID env) (pr_service p')
    \<and> (\<exists>t. al_entries (svc_Audit (pr_service p')) = al_entries (svc_Audit (pr_service p)) @ t)"
  using assms(2)
proof (induction rule: rtranclp_induct)
  case base
  with assms(3) show ?case by simp
next
  case (step q q')
  with process_step_inv [OF assms(1) step(2)] show ?case by auto
qed

text \<open>Once the process has exited, no handler runs.\<close>

lemma exited_silent:
  assumes "process_step C env g allow p p'" and "pr_serve p = Exited e"
  shows "pr_serve p' = Exited e"
  using assms by cases (auto elim: serve_step.cases)

subsection \<open>Properties\<close>

text \<open>C6: The daemon over its whole life: from any successful boot over the memory backend, whatever the files and the
  environment hold, and through any interleaving of requests, periodic reconciliations, exports, cancellation and
  shutdown, the invariant of the daemon holds, its audit log verifies and extends the one of the boot, and its
  gate accepts at least one API key and never the empty one, so it is at no time without authentication.\<close>

theorem Daemon_lifetime_invariant:
  assumes "run C seed_key pd oidc yaml url_parse getenv (memory_backend C) (\<lambda>_. Inl ErrStoreBackend) bt path fs = Inr b"
    and "draws_ok bt" and "seeds_ok seed_key"
    and "(process_step C (bo_env b) (bo_gate b) allow)\<^sup>*\<^sup>* (start_process mins bucket (bo_state b)) p"
  shows "daemon_inv C (env_PlatformDID (bo_env b)) (pr_service p) \<and> VerifyChain C (svc_Audit (pr_service p)) = Inr ()
    \<and> (\<exists>t. al_entries (svc_Audit (pr_service p)) = al_entries (svc_Audit (bo_state b)) @ t)
    \<and> gt_APIKeys (bo_gate b) \<noteq> [] \<and> [] \<notin> set (gt_APIKeys (bo_gate b))"
proof -
  note boot = boot_establishes [OF assms(1-3)]
  have "daemon_inv C (env_PlatformDID (bo_env b)) (pr_service (start_process mins bucket (bo_state b)))"
    using boot by (simp add: start_process_def)
  from process_inv [OF _ assms(4) this] boot show ?thesis
    by (simp add: start_process_def daemon_inv_def audit_inv_def)
qed

theorem Daemon_lifetime_invariant_witness:
  "\<exists>b p. run demo_crypto (\<lambda>s. s @ s) (\<lambda>_. None) (\<lambda>_ _. None) (\<lambda>_ c. Some c) (\<lambda>_. None) (\<lambda>_. []) (memory_backend demo_crypto)
      (\<lambda>_. Inl ErrStoreBackend) sample_boot_inputs ''config.yaml'' empty_disk = Inr b
    \<and> (process_step demo_crypto (bo_env b) (bo_gate b) (\<lambda>n. (True, n :: nat)))\<^sup>*\<^sup>* (start_process 5 0 (bo_state b)) p
    \<and> pr_serve p = Exited None \<and> VerifyChain demo_crypto (svc_Audit (pr_service p)) = Inr ()"
proof -
  from sample_run obtain b where b: "run demo_crypto (\<lambda>s. s @ s) (\<lambda>_. None) (\<lambda>_ _. None) (\<lambda>_ c. Some c) (\<lambda>_. None) (\<lambda>_. [])
      (memory_backend demo_crypto) (\<lambda>_. Inl ErrStoreBackend) sample_boot_inputs ''config.yaml'' empty_disk = Inr b" by blast
  let ?step = "process_step demo_crypto (bo_env b) (bo_gate b) (\<lambda>n. (True, n :: nat))"
  let ?p0 = "start_process 5 (0 :: nat) (bo_state b)"
  let ?p1 = "?p0\<lparr>pr_service := reconcile_store demo_crypto (bo_env b) 1200 (pr_service ?p0)\<rparr>"
  let ?p2 = "?p1\<lparr>pr_cancelled := True\<rparr>"
  let ?p3 = "?p2\<lparr>pr_serve := Draining\<rparr>" and ?p4 = "?p2\<lparr>pr_serve := Draining\<rparr>\<lparr>pr_serve := Exited None\<rparr>"
  have s1: "?step ?p0 ?p1" by (rule tick) (simp add: start_process_def)
  have s2: "?step ?p1 ?p2" by (rule cancel)
  have s3: "?step ?p2 ?p3" by (rule serve) (simp add: start_process_def serve_done)
  have s4: "?step ?p3 ?p4" by (rule serve) (simp add: serve_drained)
  have "?step\<^sup>*\<^sup>* ?p0 ?p1" using s1 by (rule r_into_rtranclp)
  note rtranclp.rtrancl_into_rtrancl [OF this s2]
  note rtranclp.rtrancl_into_rtrancl [OF this s3]
  note run = rtranclp.rtrancl_into_rtrancl [OF this s4]
  from Daemon_lifetime_invariant [OF b sample_draws run] b run show ?thesis
    by (intro exI [of _ b] exI [of _ ?p4]) simp
qed

end
