(* ===== verification/Oidc.thy ===== *)
theory Oidc
  imports Router
begin

text \<open>
  \<open>api/v1/oidc.go\<close>: validation of the bearer tokens of an OpenID Connect provider and the cache of its signing
  keys.  The provider of the keys is an interface value: its answer is an argument of the verifier, and
  \<open>httpJWKS\<close>, which answers from its cache or from one shared fetch, is a state machine whose steps are
  its critical sections.  RSA verification is a parameter; an HTTP exchange is its outcome.
\<close>

subsection \<open>\<open>time.Time\<close>\<close>

text \<open>A point in time: seconds since the year one, in 64 bits, and nanoseconds.  \<open>time.Unix\<close> adds the offset
  of the Unix epoch with wrap-around, \<open>Add\<close> of whole seconds saturates.\<close>

record instant =
  t_sec :: i64
  t_nsec :: nat

definition unixToInternal :: i64 where "unixToInternal = 62135596800"

definition time_Unix :: "i64 \<Rightarrow> instant" where
  "time_Unix sec = \<lparr>t_sec = sec + unixToInternal, t_nsec = 0\<rparr>"

definition addSec :: "instant \<Rightarrow> i64 \<Rightarrow> instant" where
  "addSec t d =
     (let s = t_sec t + d in
      t\<lparr>t_sec := (if slt (t_sec t) s = slt 0 d then s else if slt 0 d then word_of_int (2 ^ 63 - 1) else - word_of_int (2 ^ 63 - 1))\<rparr>)"

definition After :: "instant \<Rightarrow> instant \<Rightarrow> bool" where
  "After t u \<longleftrightarrow> slt (t_sec u) (t_sec t) \<or> t_sec t = t_sec u \<and> t_nsec u < t_nsec t"

definition Before :: "instant \<Rightarrow> instant \<Rightarrow> bool" where
  "Before t u \<longleftrightarrow> slt (t_sec t) (t_sec u) \<or> t_sec t = t_sec u \<and> t_nsec t < t_nsec u"

subsection \<open>Keys\<close>

datatype oidc_error = ErrOIDCToken

datatype jwks_error =
    ErrJWKSGet | ErrJWKSStatus | ErrJWKSDecode | ErrJWKModulus | ErrJWKExponent | ErrJWKZeroExponent
  | ErrJWKShortModulus | ErrJWKSEmpty

record rsa_key =
  rsa_N :: int
  rsa_E :: i64

text \<open>\<open>map[string]*rsa.PublicKey\<close>, as the list of its entries.\<close>

type_synonym key_set = "(string \<times> rsa_key) list"

record jwk =
  jwk_kty :: string
  jwk_kid :: string
  jwk_n :: string
  jwk_e :: string

definition minRSAModulusBits :: nat where "minRSAModulusBits = 2048"

fun bit_len :: "nat \<Rightarrow> nat" where
  "bit_len n = (if n = 0 then 0 else Suc (bit_len (n div 2)))"

declare bit_len.simps [simp del]

text \<open>\<open>Int64\<close> of a larger integer keeps its low 64 bits.\<close>

definition rsaPublicKeyFromJWK :: "string \<Rightarrow> string \<Rightarrow> jwks_error + rsa_key" where
  "rsaPublicKeyFromJWK nB64 eB64 =
     (case b64_decode nB64 of
        None \<Rightarrow> Inl ErrJWKModulus
      | Some nBytes \<Rightarrow>
          (case b64_decode eB64 of
             None \<Rightarrow> Inl ErrJWKExponent
           | Some eBytes \<Rightarrow>
               (let e = word_of_int (int_of_bytes eBytes); n = int_of_bytes nBytes in
                if e = 0 then Inl ErrJWKZeroExponent
                else if bit_len (nat n) < minRSAModulusBits then Inl ErrJWKShortModulus
                else Inr \<lparr>rsa_N = n, rsa_E = e\<rparr>)))"

subsection \<open>The key document\<close>

definition jwk_fields :: "string list" where
  "jwk_fields = [''kty'', ''kid'', ''n'', ''e'']"

definition dec_jwk :: "json \<Rightarrow> jwk \<Rightarrow> jwk option" where
  "dec_jwk v old =
     Option.bind (struct_members v) (\<lambda>ms.
     Option.bind (field dec_string (jwk_kty old) jwk_fields ms ''kty'') (\<lambda>kty.
     Option.bind (field dec_string (jwk_kid old) jwk_fields ms ''kid'') (\<lambda>kid.
     Option.bind (field dec_string (jwk_n old) jwk_fields ms ''n'') (\<lambda>n.
     Option.bind (field dec_string (jwk_e old) jwk_fields ms ''e'') (\<lambda>e.
       Some \<lparr>jwk_kty = kty, jwk_kid = kid, jwk_n = n, jwk_e = e\<rparr>)))))"

text \<open>Decoding an array into a slice: an element is decoded over what the backing array holds at its index,
  which is zero unless the member occurs more than once.  The state is the length and the backing array.\<close>

fun dec_elements :: "('a \<Rightarrow> json \<Rightarrow> 'b option) \<Rightarrow> 'a \<Rightarrow> json list \<Rightarrow> 'a list \<Rightarrow> 'b list option" where
  "dec_elements dec zero [] back = Some []"
| "dec_elements dec zero (v # vs) back =
     (case dec (case back of [] \<Rightarrow> zero | b # _ \<Rightarrow> b) v of
        None \<Rightarrow> None
      | Some x \<Rightarrow> map_option ((#) x) (dec_elements dec zero vs (tl back)))"

definition dec_slice :: "(json \<Rightarrow> 'a \<Rightarrow> 'a option) \<Rightarrow> 'a \<Rightarrow> json \<Rightarrow> nat \<times> 'a list \<Rightarrow> (nat \<times> 'a list) option" where
  "dec_slice dec zero v sl =
     (case v of
        JNull \<Rightarrow> Some (0, [])
      | JArr vs \<Rightarrow> map_option (\<lambda>xs. (length xs, if xs = [] then [] else xs @ drop (length xs) (snd sl)))
          (dec_elements (\<lambda>x v. dec v x) zero vs (snd sl))
      | _ \<Rightarrow> None)"

definition zero_jwk :: jwk where
  "zero_jwk = \<lparr>jwk_kty = [], jwk_kid = [], jwk_n = [], jwk_e = []\<rparr>"

text \<open>\<open>json.NewDecoder(r).Decode\<close> reads the first value and ignores what follows it.\<close>

definition decode_first :: "bytes \<Rightarrow> json option" where
  "decode_first s = (case tree_value (3 * length s + 1) (new_decoder s) of Some (Inr (v, _)) \<Rightarrow> Some v | _ \<Rightarrow> None)"

definition decode_jwks :: "bytes \<Rightarrow> jwk list option" where
  "decode_jwks body =
     Option.bind (decode_first body) (\<lambda>v.
     Option.bind (struct_members v) (\<lambda>ms.
     Option.bind (field (dec_slice dec_jwk zero_jwk) (0, []) [''keys''] ms ''keys'') (\<lambda>(n, xs). Some (take n xs))))"

fun collect_keys :: "jwk list \<Rightarrow> key_set \<Rightarrow> jwks_error + key_set" where
  "collect_keys [] out = Inr out"
| "collect_keys (k # ks) out =
     (if jwk_kty k \<noteq> ''RSA'' then collect_keys ks out
      else bindE (rsaPublicKeyFromJWK (jwk_n k) (jwk_e k)) (\<lambda>pub. collect_keys ks (AList.update (jwk_kid k) pub out)))"

definition parseJWKS :: "bytes \<Rightarrow> jwks_error + key_set" where
  "parseJWKS body =
     (case decode_jwks body of
        None \<Rightarrow> Inl ErrJWKSDecode
      | Some ks \<Rightarrow> bindE (collect_keys ks []) (\<lambda>out. if out = [] then Inl ErrJWKSEmpty else Inr out))"

text \<open>The outcome of the request for the document: no response, or a status and a body.\<close>

datatype http_outcome = NoResponse | HttpResponse int bytes

definition fetch :: "http_outcome \<Rightarrow> jwks_error + key_set" where
  "fetch r = (case r of NoResponse \<Rightarrow> Inl ErrJWKSGet
     | HttpResponse status body \<Rightarrow> if status \<noteq> 200 then Inl ErrJWKSStatus else parseJWKS body)"

subsection \<open>Tokens\<close>

record oidc_verifier =
  ov_issuer :: string
  ov_audience :: string
  ov_leeway :: i64

definition NewOIDCVerifier :: "string \<Rightarrow> string \<Rightarrow> oidc_verifier" where
  "NewOIDCVerifier issuer audience = \<lparr>ov_issuer = issuer, ov_audience = audience, ov_leeway = 60\<rparr>"

record jose_header =
  jh_alg :: string
  jh_kid :: string

definition unmarshal_jose :: "json \<Rightarrow> jose_header option" where
  "unmarshal_jose v =
     Option.bind (struct_members v) (\<lambda>ms.
     Option.bind (field dec_string [] [''alg'', ''kid''] ms ''alg'') (\<lambda>alg.
     Option.bind (field dec_string [] [''alg'', ''kid''] ms ''kid'') (\<lambda>kid.
       Some \<lparr>jh_alg = alg, jh_kid = kid\<rparr>)))"

text \<open>The audience is a \<open>json.RawMessage\<close>: the value, or nothing when the member is absent.\<close>

record oidc_claims =
  oc_iss :: string
  oc_sub :: string
  oc_aud :: "json option"
  oc_exp :: i64
  oc_nbf :: i64

definition claim_fields :: "string list" where
  "claim_fields = [''iss'', ''sub'', ''aud'', ''exp'', ''nbf'']"

definition dec_raw :: "json \<Rightarrow> json option \<Rightarrow> json option option" where
  "dec_raw v old = Some (Some v)"

definition unmarshal_claims :: "json \<Rightarrow> oidc_claims option" where
  "unmarshal_claims v =
     Option.bind (struct_members v) (\<lambda>ms.
     Option.bind (field dec_string [] claim_fields ms ''iss'') (\<lambda>iss.
     Option.bind (field dec_string [] claim_fields ms ''sub'') (\<lambda>sub.
     Option.bind (field dec_raw None claim_fields ms ''aud'') (\<lambda>aud.
     Option.bind (field dec_int64 0 claim_fields ms ''exp'') (\<lambda>exp.
     Option.bind (field dec_int64 0 claim_fields ms ''nbf'') (\<lambda>nbf.
       Some \<lparr>oc_iss = iss, oc_sub = sub, oc_aud = aud, oc_exp = exp, oc_nbf = nbf\<rparr>))))))"

definition audienceContains :: "json option \<Rightarrow> string \<Rightarrow> bool" where
  "audienceContains raw' want =
     (case raw' of
        None \<Rightarrow> False
      | Some v \<Rightarrow>
          (case dec_string v [] of
             Some one \<Rightarrow> one = want
           | None \<Rightarrow> (case dec_strings v [] of Some many \<Rightarrow> want \<in> set many | None \<Rightarrow> False)))"

text \<open>The key a header selects: the one of its identifier, or the only one when it names none.\<close>

definition select_key :: "key_set \<Rightarrow> string \<Rightarrow> rsa_key option" where
  "select_key keys kid =
     (case map_of keys kid of
        Some pub \<Rightarrow> Some pub
      | None \<Rightarrow> if kid = [] \<and> length keys = 1 then Some (snd (hd keys)) else None)"

definition check_claims :: "oidc_verifier \<Rightarrow> instant \<Rightarrow> oidc_claims \<Rightarrow> oidc_error + string" where
  "check_claims v now c =
     (if oc_iss c \<noteq> ov_issuer v then Inl ErrOIDCToken
      else if \<not> audienceContains (oc_aud c) (ov_audience v) then Inl ErrOIDCToken
      else if oc_exp c = 0 \<or> After now (addSec (time_Unix (oc_exp c)) (ov_leeway v)) then Inl ErrOIDCToken
      else if oc_nbf c \<noteq> 0 \<and> Before now (addSec (time_Unix (oc_nbf c)) (- ov_leeway v)) then Inl ErrOIDCToken
      else if oc_sub c = [] then Inl ErrOIDCToken
      else Inr (oc_sub c))"

text \<open>Every failure wraps \<open>ErrOIDCToken\<close>.\<close>

definition or_token_error :: "'a option \<Rightarrow> oidc_error + 'a" where
  "or_token_error r = (case r of None \<Rightarrow> Inl ErrOIDCToken | Some x \<Rightarrow> Inr x)"

definition OIDC_Verify ::
    "crypto \<Rightarrow> (rsa_key \<Rightarrow> bytes \<Rightarrow> bytes \<Rightarrow> bool) \<Rightarrow> oidc_verifier \<Rightarrow> ('e + key_set) \<Rightarrow> instant \<Rightarrow> string \<Rightarrow> oidc_error + string" where
  "OIDC_Verify C rsa_verify v provider now token =
     (case split_on (CHR ''.'') token of
        [p0, p1, p2] \<Rightarrow>
          bindE (or_token_error (b64_decode p0)) (\<lambda>hb.
          bindE (or_token_error (Option.bind (json_decode hb) unmarshal_jose)) (\<lambda>hdr.
          if jh_alg hdr \<noteq> ''RS256'' then Inl ErrOIDCToken
          else bindE (mapErr (\<lambda>_. ErrOIDCToken) provider) (\<lambda>keys.
          bindE (or_token_error (select_key keys (jh_kid hdr))) (\<lambda>pub.
          bindE (or_token_error (b64_decode p2)) (\<lambda>sig.
          if \<not> rsa_verify pub (sha256 C (p0 @ ''.'' @ p1)) sig then Inl ErrOIDCToken
          else bindE (or_token_error (b64_decode p1)) (\<lambda>pb.
          bindE (or_token_error (Option.bind (json_decode pb) unmarshal_claims)) (\<lambda>claims.
            check_claims v now claims)))))))
      | _ \<Rightarrow> Inl ErrOIDCToken)"

subsection \<open>Keys of the document\<close>

definition strong_key :: "rsa_key \<Rightarrow> bool" where
  "strong_key k \<longleftrightarrow> 2 ^ 2047 \<le> rsa_N k \<and> rsa_E k \<noteq> 0"

lemma bit_len_le: "bit_len n \<le> k \<longleftrightarrow> n < 2 ^ k"
proof (induction n arbitrary: k rule: bit_len.induct)
  case (1 n)
  show ?case
  proof (cases "n = 0")
    case True
    then show ?thesis by (simp add: bit_len.simps)
  next
    case False
    then have rec: "bit_len n = Suc (bit_len (n div 2))" by (simp add: bit_len.simps)
    show ?thesis
    proof (cases k)
      case 0
      with False rec show ?thesis by simp
    next
      case (Suc j)
      have "bit_len (n div 2) \<le> j \<longleftrightarrow> n div 2 < 2 ^ j" by (rule 1 [OF False])
      then show ?thesis by (simp add: rec Suc div_less_iff_less_mult mult.commute)
    qed
  qed
qed

lemma rsaPublicKeyFromJWK_strong:
  assumes "rsaPublicKeyFromJWK n e = Inr k"
  shows "strong_key k"
proof -
  from assms obtain nb where nb: "rsa_N k = int_of_bytes nb" "rsa_E k \<noteq> 0" "\<not> bit_len (nat (int_of_bytes nb)) \<le> 2047"
    by (auto simp: rsaPublicKeyFromJWK_def Let_def minRSAModulusBits_def split: option.splits if_splits)
  then have "(2::nat) ^ 2047 \<le> nat (int_of_bytes nb)" unfolding bit_len_le by simp
  then have "(2::int) ^ 2047 \<le> int_of_bytes nb" by (simp add: le_nat_iff nat_le_iff del: power_numeral)
  with nb show ?thesis by (simp add: strong_key_def)
qed

lemma collect_keys_strong:
  "collect_keys ks out = Inr out' \<Longrightarrow> (\<And>k. k \<in> snd ` set out \<Longrightarrow> strong_key k) \<Longrightarrow> k \<in> snd ` set out' \<Longrightarrow> strong_key k"
proof (induction ks out rule: collect_keys.induct)
  case (2 j ks out)
  show ?case
  proof (cases "jwk_kty j = ''RSA''")
    case True
    with "2.prems"(1) obtain pub where pub: "rsaPublicKeyFromJWK (jwk_n j) (jwk_e j) = Inr pub"
      "collect_keys ks (AList.update (jwk_kid j) pub out) = Inr out'"
      by (auto simp: err_simps)
    have "snd ` set (AList.update (jwk_kid j) pub out) \<subseteq> insert pub (snd ` set out)"
      by (induction out) auto
    with "2.prems"(2) rsaPublicKeyFromJWK_strong [OF pub(1)]
    have "k \<in> snd ` set (AList.update (jwk_kid j) pub out) \<Longrightarrow> strong_key k" for k by blast
    from "2.IH"(2) [OF _ pub(2) this "2.prems"(3)] True show ?thesis by simp
  qed (use 2 in auto)
qed simp

lemma parseJWKS_strong:
  assumes "parseJWKS body = Inr keys"
  shows "keys \<noteq> []" and "k \<in> snd ` set keys \<Longrightarrow> strong_key k"
  using assms collect_keys_strong [of _ "[]" keys k]
  by (auto simp: parseJWKS_def err_simps split: option.splits)

lemma fetch_strong: "fetch r = Inr keys \<Longrightarrow> keys \<noteq> [] \<and> (\<forall>k \<in> snd ` set keys. strong_key k)"
  using parseJWKS_strong by (auto simp: fetch_def split: http_outcome.splits if_splits)

lemma select_key_member: "select_key keys kid = Some k \<Longrightarrow> k \<in> snd ` set keys"
proof (cases "map_of keys kid")
  case None
  assume "select_key keys kid = Some k"
  with None show ?thesis by (cases keys) (auto simp: select_key_def split: if_splits)
next
  case (Some k')
  assume "select_key keys kid = Some k"
  with Some have "(kid, k) \<in> set keys" by (simp add: select_key_def map_of_SomeD)
  then show ?thesis by force
qed

subsection \<open>Expiry in true integers\<close>

lemma addSec_forward: "sint (t_sec (addSec t 60)) = min (sint (t_sec t) + 60) (2 ^ 63 - 1)"
  using i64_add [of "t_sec t" 60] i64_range [of "t_sec t"]
  by (auto simp: addSec_def Let_def i64_of_int split: if_splits)

lemma addSec_back: "sint (t_sec (addSec t (- 60))) =
    (if sint (t_sec t) - 60 < - (2 ^ 63) then - (2 ^ 63 - 1) else sint (t_sec t) - 60)"
proof -
  have "sint (- word_of_int (2 ^ 63 - 1) :: i64) = - (2 ^ 63 - 1)" "sint (- 60 :: i64) = - 60" by simp_all
  then show ?thesis using i64_add [of "t_sec t" "- 60"] i64_range [of "t_sec t"]
    by (auto simp: addSec_def Let_def split: if_splits)
qed

lemma time_Unix_sec:
  "sint (t_sec (time_Unix e)) = (if sint e + 62135596800 < 2 ^ 63 then sint e + 62135596800 else sint e + 62135596800 - 2 ^ 64)"
  using i64_add [of e unixToInternal] i64_range [of e]
  by (simp add: time_Unix_def unixToInternal_def Let_def)

text \<open>The validity of claims in true integers.  An offset that overflows makes \<open>time.Unix\<close> wrap around into
  the distant past: such an expiry has passed, and such a start of validity is no bound.\<close>

definition in_force :: "instant \<Rightarrow> int \<Rightarrow> oidc_claims \<Rightarrow> bool" where
  "in_force now leeway c \<longleftrightarrow>
     oc_exp c \<noteq> 0 \<and> sint (oc_exp c) + 62135596800 < 2 ^ 63
   \<and> (sint (t_sec now) < sint (oc_exp c) + 62135596800 + leeway
      \<or> sint (t_sec now) = sint (oc_exp c) + 62135596800 + leeway \<and> t_nsec now = 0)
   \<and> (oc_nbf c = 0 \<or> 2 ^ 63 \<le> sint (oc_nbf c) + 62135596800
      \<or> sint (oc_nbf c) + 62135596800 - leeway \<le> sint (t_sec now))"

definition plausible_clock :: "instant \<Rightarrow> bool" where
  "plausible_clock now \<longleftrightarrow> 0 \<le> sint (t_sec now) \<and> sint (t_sec now) < 2 ^ 62"

lemma sec_unique: "t_sec a = t_sec b \<longleftrightarrow> sint (t_sec a) = sint (t_sec b)"
  by (rule word_eq_iff_signed)

lemma nsec_simps [simp]: "t_nsec (addSec t d) = t_nsec t" "t_nsec (time_Unix e) = 0"
  by (simp_all add: addSec_def time_Unix_def Let_def)

lemma expiry_iff:
  assumes "plausible_clock now"
  shows "\<not> After now (addSec (time_Unix e) 60) \<longleftrightarrow> sint e + 62135596800 < 2 ^ 63
    \<and> (sint (t_sec now) < sint e + 62135596800 + 60 \<or> sint (t_sec now) = sint e + 62135596800 + 60 \<and> t_nsec now = 0)"
  using assms i64_range [of e]
  unfolding After_def sec_unique addSec_forward time_Unix_sec plausible_clock_def nsec_simps by auto

lemma start_iff:
  assumes "plausible_clock now"
  shows "\<not> Before now (addSec (time_Unix e) (- 60)) \<longleftrightarrow> 2 ^ 63 \<le> sint e + 62135596800
    \<or> sint e + 62135596800 - 60 \<le> sint (t_sec now)"
  using assms i64_range [of e]
  unfolding Before_def sec_unique addSec_back time_Unix_sec plausible_clock_def nsec_simps by auto

lemma check_claims_iff:
  assumes "plausible_clock now"
  shows "check_claims (NewOIDCVerifier iss aud) now c = Inr sub \<longleftrightarrow>
     oc_iss c = iss \<and> audienceContains (oc_aud c) aud \<and> in_force now 60 c \<and> sub = oc_sub c \<and> sub \<noteq> []"
  using expiry_iff [OF assms, of "oc_exp c"] start_iff [OF assms, of "oc_nbf c"]
  unfolding check_claims_def in_force_def NewOIDCVerifier_def oidc_verifier.simps
  by (simp only: if_Inl_Inr_iff sum.inject) blast

text \<open>A token that carries the claims and the signature of a key of the set.\<close>

definition signed_token :: "crypto \<Rightarrow> (rsa_key \<Rightarrow> bytes \<Rightarrow> bytes \<Rightarrow> bool) \<Rightarrow> key_set \<Rightarrow> string \<Rightarrow> oidc_claims \<Rightarrow> bool" where
  "signed_token C rsa_verify keys token c \<longleftrightarrow>
     (\<exists>p0 p1 p2 hb hv hdr pub sig pb pv. split_on (CHR ''.'') token = [p0, p1, p2]
        \<and> b64_decode p0 = Some hb \<and> json_decode hb = Some hv \<and> unmarshal_jose hv = Some hdr \<and> jh_alg hdr = ''RS256''
        \<and> select_key keys (jh_kid hdr) = Some pub \<and> b64_decode p2 = Some sig
        \<and> rsa_verify pub (sha256 C (p0 @ ''.'' @ p1)) sig
        \<and> b64_decode p1 = Some pb \<and> json_decode pb = Some pv \<and> unmarshal_claims pv = Some c)"

lemma or_token_error_ok [err_simps]: "or_token_error r = Inr x \<longleftrightarrow> r = Some x"
  by (simp add: or_token_error_def split: option.splits)

lemma OIDC_Verify_iff:
  "OIDC_Verify C rsa_verify v provider now token = Inr sub \<longleftrightarrow>
     (\<exists>keys c. provider = Inr keys \<and> signed_token C rsa_verify keys token c \<and> check_claims v now c = Inr sub)"
  (is "?l \<longleftrightarrow> ?r")
proof (cases "\<exists>p0 p1 p2. split_on (CHR ''.'') token = [p0, p1, p2]")
  case True
  then obtain p0 p1 p2 where p: "split_on (CHR ''.'') token = [p0, p1, p2]" by blast
  show ?thesis
  proof
    assume ?l
    then obtain hb hv hdr keys pub sig pb pv c where
      "b64_decode p0 = Some hb" "json_decode hb = Some hv" "unmarshal_jose hv = Some hdr" "jh_alg hdr = ''RS256''"
      "provider = Inr keys" "select_key keys (jh_kid hdr) = Some pub" "b64_decode p2 = Some sig"
      "rsa_verify pub (sha256 C (p0 @ ''.'' @ p1)) sig"
      "b64_decode p1 = Some pb" "json_decode pb = Some pv" "unmarshal_claims pv = Some c" "check_claims v now c = Inr sub"
      unfolding OIDC_Verify_def p list.case err_simps bind_eq_Some_conv not_not by metis
    with p show ?r unfolding signed_token_def by metis
  next
    assume ?r
    then show ?l by (auto simp: OIDC_Verify_def signed_token_def or_token_error_def p)
  qed
next
  case False
  then have "OIDC_Verify C rsa_verify v provider now token = Inl ErrOIDCToken"
    by (auto simp: OIDC_Verify_def split: list.splits)
  with False show ?thesis by (auto simp: signed_token_def)
qed

subsection \<open>Properties\<close>

text \<open>C8: The verifier returns a subject exactly when the provider answers with keys under one of which the token is
  an RS256 signature over claims that name the expected issuer, contain the expected audience, are in force
  within a minute of the clock, and carry that non-empty subject.  In particular no other algorithm is ever
  accepted, and without an answer of the provider no token is.\<close>

theorem OIDC_Verify_exact:
  assumes "plausible_clock now"
  shows "OIDC_Verify C rsa_verify (NewOIDCVerifier iss aud) provider now token = Inr sub \<longleftrightarrow>
    (\<exists>keys c. provider = Inr keys \<and> signed_token C rsa_verify keys token c \<and> oc_iss c = iss
       \<and> audienceContains (oc_aud c) aud \<and> in_force now 60 c \<and> sub = oc_sub c \<and> sub \<noteq> [])"
  unfolding OIDC_Verify_iff check_claims_iff [OF assms] by blast

definition sample_jwt :: string where
  "sample_jwt = b64_encode ''{\"alg\":\"RS256\"}'' @ ''.''
     @ b64_encode ''{\"iss\":\"i\",\"sub\":\"s\",\"aud\":[\"x\",\"a\"],\"exp\":100}'' @ ''.'' @ b64_encode ''sig''"

definition sample_rsa :: "rsa_key \<Rightarrow> bytes \<Rightarrow> bytes \<Rightarrow> bool" where
  "sample_rsa k digest sig \<longleftrightarrow> sig = ''sig''"

lemma sample_jwt_accepted:
  "OIDC_Verify brace_crypto sample_rsa (NewOIDCVerifier ''i'' ''a'') (Inr [(''k'', \<lparr>rsa_N = 5, rsa_E = 3\<rparr>)] :: jwks_error + key_set)
     \<lparr>t_sec = 62135596860, t_nsec = 7\<rparr> sample_jwt = Inr ''s''"
  by code_simp

theorem OIDC_Verify_exact_witness:
  "\<exists>c. signed_token brace_crypto sample_rsa [(''k'', \<lparr>rsa_N = 5, rsa_E = 3\<rparr>)] sample_jwt c \<and> oc_sub c = ''s''
    \<and> in_force \<lparr>t_sec = 62135596860, t_nsec = 7\<rparr> 60 c"
proof -
  have "plausible_clock \<lparr>t_sec = 62135596860, t_nsec = 7\<rparr>" by (simp add: plausible_clock_def)
  from OIDC_Verify_exact [OF this, THEN iffD1, OF sample_jwt_accepted] show ?thesis by auto
qed

end
