(* ===== verification/Jwks_Cache.thy ===== *)
theory Jwks_Cache
  imports Oidc
begin

text \<open>
  \<open>httpJWKS.keys()\<close> of \<open>api/v1/oidc.go\<close> as a state machine over any number of concurrent callers.  Its two
  critical sections are \<open>keys_enter\<close> and \<open>keys_leave\<close>; a \<open>jwksFetch\<close> is an address whose channel is closed when it
  has an outcome.  The clock is in nanoseconds and may read anything.
\<close>

type_synonym outcome = "jwks_error + key_set"

record jwks_cache =
  jc_cached :: "key_set option"
  jc_fetchedAt :: int
  jc_inflight :: "nat option"

definition jwks_ttl :: int where "jwks_ttl = 5 * 60 * 1000000000"

definition empty_cache :: jwks_cache where
  "empty_cache = \<lparr>jc_cached = None, jc_fetchedAt = 0, jc_inflight = None\<rparr>"

text \<open>What a caller does next: serve the cached keys, wait for the fetch in flight, or fetch itself.\<close>

datatype entry = Serve key_set | Wait nat | Start

definition keys_enter :: "int \<Rightarrow> nat \<Rightarrow> jwks_cache \<Rightarrow> entry \<times> jwks_cache" where
  "keys_enter now f h =
     (case (case jc_cached h of Some keys \<Rightarrow> if now - jc_fetchedAt h < jwks_ttl then Some keys else None | None \<Rightarrow> None) of
        Some keys \<Rightarrow> (Serve keys, h)
      | None \<Rightarrow>
          (case jc_inflight h of
             Some g \<Rightarrow> (Wait g, h)
           | None \<Rightarrow> (Start, h\<lparr>jc_inflight := Some f\<rparr>)))"

definition keys_leave :: "int \<Rightarrow> outcome \<Rightarrow> jwks_cache \<Rightarrow> jwks_cache" where
  "keys_leave now r h =
     (case r of
        Inl _ \<Rightarrow> h\<lparr>jc_inflight := None\<rparr>
      | Inr keys \<Rightarrow> h\<lparr>jc_cached := Some keys, jc_fetchedAt := now, jc_inflight := None\<rparr>)"

subsection \<open>Concurrent callers\<close>

datatype caller = Outside | Waiting nat | Fetching nat | Closing nat outcome | Returned outcome

record jwks_system =
  js_cache :: jwks_cache
  js_done :: "nat \<Rightarrow> outcome option"
  js_next :: nat
  js_callers :: "nat \<Rightarrow> caller"

definition jwks_init :: jwks_system where
  "jwks_init = \<lparr>js_cache = empty_cache, js_done = (\<lambda>_. None), js_next = 0, js_callers = (\<lambda>_. Outside)\<rparr>"

definition set_caller :: "nat \<Rightarrow> caller \<Rightarrow> jwks_system \<Rightarrow> jwks_system" where
  "set_caller c p s = s\<lparr>js_callers := (js_callers s)(c := p)\<rparr>"

definition entered :: "nat \<Rightarrow> entry \<times> jwks_cache \<Rightarrow> jwks_system \<Rightarrow> jwks_system" where
  "entered c e s =
     (case e of
        (Serve keys, h) \<Rightarrow> set_caller c (Returned (Inr keys)) s
      | (Wait g, h) \<Rightarrow> set_caller c (Waiting g) s
      | (Start, h) \<Rightarrow> set_caller c (Fetching (js_next s)) (s\<lparr>js_cache := h, js_next := Suc (js_next s)\<rparr>))"

text \<open>A caller enters, its fetch returns and it leaves the second critical section, it closes the channel,
  a waiter reads the outcome, and a caller that has its answer goes away.\<close>

inductive jwks_step :: "jwks_system \<Rightarrow> jwks_system \<Rightarrow> bool" where
  enter: "js_callers s c = Outside \<Longrightarrow> jwks_step s (entered c (keys_enter now (js_next s) (js_cache s)) s)"
| leave: "js_callers s c = Fetching f \<Longrightarrow> r = fetch response \<Longrightarrow>
    jwks_step s (set_caller c (Closing f r) (s\<lparr>js_cache := keys_leave now r (js_cache s)\<rparr>))"
| close: "js_callers s c = Closing f r \<Longrightarrow>
    jwks_step s (set_caller c (Returned r) (s\<lparr>js_done := (js_done s)(f := Some r)\<rparr>))"
| wake: "js_callers s c = Waiting f \<Longrightarrow> js_done s f = Some r \<Longrightarrow> jwks_step s (set_caller c (Returned r) s)"
| again: "js_callers s c = Returned r \<Longrightarrow> jwks_step s (set_caller c Outside s)"

abbreviation jwks_reachable :: "jwks_system \<Rightarrow> bool" where
  "jwks_reachable \<equiv> jwks_step\<^sup>*\<^sup>* jwks_init"

subsection \<open>The invariant\<close>

text \<open>The fetch a caller is responsible for, until its channel is closed.\<close>

fun serves :: "caller \<Rightarrow> nat option" where
  "serves (Fetching f) = Some f"
| "serves (Closing f r) = Some f"
| "serves _ = None"

definition good_keys :: "key_set \<Rightarrow> bool" where
  "good_keys keys \<longleftrightarrow> keys \<noteq> [] \<and> (\<forall>k \<in> snd ` set keys. strong_key k)"

definition good :: "outcome \<Rightarrow> bool" where
  "good r = (case r of Inl _ \<Rightarrow> True | Inr keys \<Rightarrow> good_keys keys)"

fun answers :: "caller \<Rightarrow> outcome option" where
  "answers (Closing f r) = Some r"
| "answers (Returned r) = Some r"
| "answers _ = None"

definition flight_inv :: "jwks_system \<Rightarrow> bool" where
  "flight_inv s \<longleftrightarrow>
     (\<forall>c f. js_callers s c = Fetching f \<longrightarrow> jc_inflight (js_cache s) = Some f)
   \<and> (\<forall>f. jc_inflight (js_cache s) = Some f \<longrightarrow> (\<exists>c. js_callers s c = Fetching f))
   \<and> (\<forall>c d f. serves (js_callers s c) = Some f \<and> serves (js_callers s d) = Some f \<longrightarrow> c = d)
   \<and> (\<forall>c f. serves (js_callers s c) = Some f \<longrightarrow> f < js_next s \<and> js_done s f = None)
   \<and> (\<forall>c f. js_callers s c = Waiting f \<longrightarrow> js_done s f \<noteq> None \<or> (\<exists>d. serves (js_callers s d) = Some f))
   \<and> (\<forall>f. js_next s \<le> f \<longrightarrow> js_done s f = None)"

definition keys_inv :: "jwks_system \<Rightarrow> bool" where
  "keys_inv s \<longleftrightarrow> (\<forall>keys. jc_cached (js_cache s) = Some keys \<longrightarrow> good_keys keys)
     \<and> (\<forall>c r. answers (js_callers s c) = Some r \<longrightarrow> good r) \<and> (\<forall>f r. js_done s f = Some r \<longrightarrow> good r)"

lemma set_caller_simps [simp]:
  "js_cache (set_caller c p s) = js_cache s" "js_done (set_caller c p s) = js_done s" "js_next (set_caller c p s) = js_next s"
  "js_callers (set_caller c p s) d = (if d = c then p else js_callers s d)"
  by (simp_all add: set_caller_def)

lemma serves_iff: "serves p = Some f \<longleftrightarrow> p = Fetching f \<or> (\<exists>r. p = Closing f r)"
  by (cases p) auto

lemma keys_enter_cases:
  obtains (fresh) keys where "jc_cached h = Some keys" "keys_enter now f h = (Serve keys, h)"
  | (shared) g where "jc_inflight h = Some g" "keys_enter now f h = (Wait g, h)"
  | (first) "jc_inflight h = None" "keys_enter now f h = (Start, h\<lparr>jc_inflight := Some f\<rparr>)"
  by (cases "jc_cached h"; cases "jc_inflight h"; cases "now - jc_fetchedAt h < jwks_ttl") (auto simp: keys_enter_def)

lemma keys_leave_inflight [simp]: "jc_inflight (keys_leave now r h) = None"
  by (cases r) (simp_all add: keys_leave_def)

lemma keys_leave_cached:
  "jc_cached (keys_leave now r h) = (case r of Inl _ \<Rightarrow> jc_cached h | Inr keys \<Rightarrow> Some keys)"
  by (cases r) (simp_all add: keys_leave_def)

lemma fetch_good: "good (fetch response)"
  using fetch_strong [of response] by (auto simp: good_def good_keys_def split: sum.splits)

lemma keys_inv_step: "jwks_step s s' \<Longrightarrow> keys_inv s \<Longrightarrow> keys_inv s'"
proof (induction rule: jwks_step.induct)
  case (enter s c now)
  show ?case
    by (rule keys_enter_cases [of "js_cache s" now "js_next s"])
      (use enter in \<open>auto simp: keys_inv_def entered_def good_def\<close>)
next
  case (leave s c f r response now)
  then show ?case using fetch_good [of response]
    by (auto simp: keys_inv_def keys_leave_cached good_def split: sum.splits)
next
  case (close s c f r)
  then have "good r" unfolding keys_inv_def by (metis answers.simps(1))
  with close show ?case unfolding keys_inv_def by (auto split: if_splits)
next
  case (wake s c f r)
  then show ?case by (auto simp: keys_inv_def split: if_splits)
qed (auto simp: keys_inv_def split: if_splits)

lemma keys_invD:
  "keys_inv s \<Longrightarrow> js_callers s c = Returned (Inr keys) \<Longrightarrow> good_keys keys"
  unfolding keys_inv_def by (metis answers.simps(2) good_def sum.case(2))

lemma flight_invD:
  assumes "flight_inv s"
  shows "js_callers s c = Fetching f \<Longrightarrow> jc_inflight (js_cache s) = Some f"
    and "jc_inflight (js_cache s) = Some f \<Longrightarrow> \<exists>c. js_callers s c = Fetching f"
    and "serves (js_callers s c) = Some f \<Longrightarrow> serves (js_callers s d) = Some f \<Longrightarrow> c = d"
    and "serves (js_callers s c) = Some f \<Longrightarrow> f < js_next s \<and> js_done s f = None"
    and "js_callers s c = Waiting f \<Longrightarrow> js_done s f = None \<Longrightarrow> \<exists>d. serves (js_callers s d) = Some f"
    and "js_next s \<le> f \<Longrightarrow> js_done s f = None"
  using assms unfolding flight_inv_def by blast+

lemma flight_invI:
  assumes "\<And>c f. js_callers s c = Fetching f \<Longrightarrow> jc_inflight (js_cache s) = Some f"
    and "\<And>f. jc_inflight (js_cache s) = Some f \<Longrightarrow> \<exists>c. js_callers s c = Fetching f"
    and "\<And>c d f. serves (js_callers s c) = Some f \<Longrightarrow> serves (js_callers s d) = Some f \<Longrightarrow> c = d"
    and "\<And>c f. serves (js_callers s c) = Some f \<Longrightarrow> f < js_next s \<and> js_done s f = None"
    and "\<And>c f. js_callers s c = Waiting f \<Longrightarrow> js_done s f = None \<Longrightarrow> \<exists>d. serves (js_callers s d) = Some f"
    and "\<And>f. js_next s \<le> f \<Longrightarrow> js_done s f = None"
  shows "flight_inv s"
  unfolding flight_inv_def using assms by blast

text \<open>A caller that serves no fetch moves to a place that serves none: only a new waiter needs a server.\<close>

lemma flight_inv_idle:
  assumes "flight_inv s" and "serves (js_callers s c) = None" and "serves p = None"
    and "\<And>f. p = Waiting f \<Longrightarrow> \<exists>d. serves (js_callers s d) = Some f"
  shows "flight_inv (set_caller c p s)"
proof (rule flight_invI, goal_cases)
  case (1 d f)
  then show ?case using flight_invD(1) [OF assms(1)] assms(3) by (auto split: if_splits)
next
  case (2 f)
  then obtain d where d: "js_callers s d = Fetching f" using flight_invD(2) [OF assms(1)] by auto
  with assms(2) have "d \<noteq> c" by auto
  with d show ?case by auto
next
  case (3 d e f)
  then show ?case using flight_invD(3) [OF assms(1), of d f e] assms(3) by (simp split: if_splits)
next
  case (4 d f)
  then show ?case using flight_invD(4) [OF assms(1), of d f] assms(3) by (simp split: if_splits)
next
  case (5 d f)
  then obtain e where e: "serves (js_callers s e) = Some f"
    using flight_invD(5) [OF assms(1), of d f] assms(4) [of f] by (auto split: if_splits)
  with assms(2) have "e \<noteq> c" by auto
  with e show ?case by auto
next
  case (6 f)
  then show ?case using flight_invD(6) [OF assms(1)] by simp
qed

lemma flight_inv_start:
  assumes "flight_inv s" and "js_callers s c = Outside" and "jc_inflight (js_cache s) = None"
  shows "flight_inv (set_caller c (Fetching (js_next s))
    (s\<lparr>js_cache := (js_cache s)\<lparr>jc_inflight := Some (js_next s)\<rparr>, js_next := Suc (js_next s)\<rparr>))"
proof (rule flight_invI, goal_cases)
  case (1 d f)
  then show ?case using flight_invD(1) [OF assms(1), of d f] assms(3) by (auto split: if_splits)
next
  case (2 f)
  then show ?case by (intro exI [of _ c]) simp
next
  case (3 d e f)
  then show ?case using flight_invD(3) [OF assms(1), of d f e] flight_invD(4) [OF assms(1), of d f] flight_invD(4) [OF assms(1), of e f]
    by (auto split: if_splits)
next
  case (4 d f)
  then show ?case using flight_invD(4) [OF assms(1), of d f] flight_invD(6) [OF assms(1), of f] by (auto split: if_splits)
next
  case (5 d f)
  then obtain e where "serves (js_callers s e) = Some f"
    using flight_invD(5) [OF assms(1), of d f] by (auto split: if_splits)
  with assms(2) show ?case by (intro exI [of _ e]) auto
next
  case (6 f)
  then show ?case using flight_invD(6) [OF assms(1)] by simp
qed

lemma flight_inv_enter:
  assumes "flight_inv s" and "js_callers s c = Outside"
  shows "flight_inv (entered c (keys_enter now (js_next s) (js_cache s)) s)"
proof (rule keys_enter_cases [of "js_cache s" now "js_next s"])
  fix keys
  assume "keys_enter now (js_next s) (js_cache s) = (Serve keys, js_cache s)"
  then show ?thesis using flight_inv_idle [OF assms(1), of c "Returned (Inr keys)"] assms(2) by (simp add: entered_def)
next
  fix g
  assume g: "jc_inflight (js_cache s) = Some g" and e: "keys_enter now (js_next s) (js_cache s) = (Wait g, js_cache s)"
  from flight_invD(2) [OF assms(1) g] obtain d where "serves (js_callers s d) = Some g" by (metis serves.simps(1))
  with flight_inv_idle [OF assms(1), of c "Waiting g"] assms(2) show ?thesis by (auto simp: entered_def e)
next
  assume "jc_inflight (js_cache s) = None"
    and "keys_enter now (js_next s) (js_cache s) = (Start, (js_cache s)\<lparr>jc_inflight := Some (js_next s)\<rparr>)"
  with flight_inv_start [OF assms] show ?thesis by (simp add: entered_def)
qed

lemma flight_inv_leave:
  assumes "flight_inv s" and "js_callers s c = Fetching f"
  shows "flight_inv (set_caller c (Closing f r) (s\<lparr>js_cache := keys_leave now r (js_cache s)\<rparr>))"
proof -
  note I = flight_invD [OF assms(1)]
  have only: "js_callers s d \<noteq> Fetching g" if "d \<noteq> c" for d g
    using I(1) [of d g] I(1) [OF assms(2)] I(3) [of d g c] assms(2) that by auto
  have same: "serves (js_callers (set_caller c (Closing f r) (s\<lparr>js_cache := keys_leave now r (js_cache s)\<rparr>)) d)
      = serves (js_callers s d)" for d using assms(2) by simp
  show ?thesis
  proof (rule flight_invI, goal_cases)
    case (3 d e g)
    show ?case by (rule I(3)) (use 3 in \<open>simp_all only: same\<close>)
  next
    case (4 d g)
    then show ?case using I(4) [of d g] I(4) [of c f] assms(2) by (simp split: if_splits)
  next
    case (5 d g)
    then obtain e where "serves (js_callers s e) = Some g" using I(5) [of d g] by (auto split: if_splits)
    with assms(2) show ?case by (intro exI [of _ e]) auto
  next
    case (1 d g)
    then show ?case using only [of d g] by (simp split: if_splits)
  next
    case (6 g)
    then show ?case using I(6) [of g] by simp
  qed simp
qed

lemma flight_inv_close:
  assumes "flight_inv s" and "js_callers s c = Closing f r"
  shows "flight_inv (set_caller c (Returned r) (s\<lparr>js_done := (js_done s)(f := Some r)\<rparr>))"
proof -
  note I = flight_invD [OF assms(1)]
  have c: "serves (js_callers s c) = Some f" using assms(2) by simp
  show ?thesis
  proof (rule flight_invI, goal_cases)
    case (2 g)
    then obtain d where "js_callers s d = Fetching g" using I(2) by auto
    with assms(2) show ?case by (intro exI [of _ d]) auto
  next
    case (3 d e g)
    then show ?case using I(3) [of d g e] by (simp split: if_splits)
  next
    case (4 d g)
    then show ?case using I(4) [of d g] I(3) [OF c, of d] by (auto split: if_splits)
  next
    case (5 d g)
    then obtain e where e: "serves (js_callers s e) = Some g" using I(5) [of d g] by (auto split: if_splits)
    from 5 c e have "e \<noteq> c" by auto
    with e show ?case by (intro exI [of _ e]) simp
  next
    case (6 g)
    then show ?case using I(6) [of g] I(4) [OF c] by auto
  qed (use I(1) in \<open>auto split: if_splits\<close>)
qed

lemma flight_inv_step: "jwks_step s s' \<Longrightarrow> flight_inv s \<Longrightarrow> flight_inv s'"
proof (induction rule: jwks_step.induct)
  case (enter s c now)
  then show ?case by (rule flight_inv_enter [rotated])
next
  case (leave s c f r response now)
  then show ?case by (intro flight_inv_leave)
next
  case (close s c f r)
  then show ?case by (intro flight_inv_close)
next
  case (wake s c f r)
  then show ?case by (intro flight_inv_idle) auto
next
  case (again s c r)
  then show ?case by (intro flight_inv_idle) auto
qed

lemma reachable_inv: "jwks_reachable s \<Longrightarrow> flight_inv s \<and> keys_inv s"
proof (induction rule: rtranclp_induct)
  case base
  show ?case by (simp add: flight_inv_def keys_inv_def jwks_init_def empty_cache_def)
qed (use flight_inv_step keys_inv_step in blast)

lemma waiter_served:
  assumes "flight_inv s" and "js_callers s c = Waiting f"
  shows "\<exists>s' r. jwks_step\<^sup>*\<^sup>* s s' \<and> js_callers s' c = Returned r \<and> js_done s' f = Some r"
proof -
  have woken: "\<exists>s' r. jwks_step\<^sup>*\<^sup>* t s' \<and> js_callers s' c = Returned r \<and> js_done s' f = Some r"
    if "js_callers t c = Waiting f" "js_done t f = Some r" for t r
    using wake [OF that] that(2) by (intro exI [of _ "set_caller c (Returned r) t"] exI [of _ r]) auto
  have closed: "\<exists>s' r. jwks_step\<^sup>*\<^sup>* t s' \<and> js_callers s' c = Returned r \<and> js_done s' f = Some r"
    if "js_callers t c = Waiting f" "js_callers t d = Closing f r" for t d r
  proof -
    let ?t = "set_caller d (Returned r) (t\<lparr>js_done := (js_done t)(f := Some r)\<rparr>)"
    have "js_callers ?t c = Waiting f" "js_done ?t f = Some r" using that by auto
    from woken [OF this] jwks_step.close [OF that(2)] show ?thesis by (metis converse_rtranclp_into_rtranclp)
  qed
  show ?thesis
  proof (cases "js_done s f")
    case (Some r)
    with assms(2) woken show ?thesis by blast
  next
    case None
    from flight_invD(5) [OF assms None] obtain d where "serves (js_callers s d) = Some f" by blast
    then consider "js_callers s d = Fetching f" | r where "js_callers s d = Closing f r" by (auto simp: serves_iff)
    then show ?thesis
    proof cases
      case 1
      let ?r = "fetch NoResponse"
      let ?t = "set_caller d (Closing f ?r) (s\<lparr>js_cache := keys_leave 0 ?r (js_cache s)\<rparr>)"
      have "js_callers ?t c = Waiting f" "js_callers ?t d = Closing f ?r" using 1 assms(2) by auto
      from closed [OF this] leave [OF 1, of ?r NoResponse 0, OF refl] show ?thesis by (metis converse_rtranclp_into_rtranclp)
    qed (use assms(2) closed in blast)
  qed
qed

subsection \<open>Properties\<close>

text \<open>C13: However callers interleave, at most one of them is fetching the key document; and whoever is answered with
  keys has a non-empty set of RSA keys of at least 2048 bits with a non-zero exponent.\<close>

theorem Jwks_single_flight:
  assumes "jwks_reachable s" and "js_callers s c = Fetching f" and "js_callers s d = Fetching g"
  shows "c = d \<and> f = g \<and> (\<forall>e keys. js_callers s e = Returned (Inr keys) \<longrightarrow> good_keys keys)"
proof -
  note I = reachable_inv [OF assms(1)]
  have "f = g" using flight_invD(1) [OF I [THEN conjunct1]] assms(2,3) by (metis option.inject)
  moreover from this have "c = d" using flight_invD(3) [OF I [THEN conjunct1], of c f d] assms(2,3) by simp
  ultimately show ?thesis using keys_invD I by blast
qed

definition two_callers :: jwks_system where
  "two_callers = entered 1 (keys_enter 0 1 (empty_cache\<lparr>jc_inflight := Some 0\<rparr>)) (entered 0 (keys_enter 0 0 empty_cache) jwks_init)"

lemma two_callers_reachable: "jwks_reachable two_callers" "js_callers two_callers 0 = Fetching 0" "js_callers two_callers 1 = Waiting 0"
proof -
  let ?t = "entered 0 (keys_enter 0 0 empty_cache) jwks_init"
  have t: "js_cache ?t = empty_cache\<lparr>jc_inflight := Some 0\<rparr>" "js_next ?t = 1" "js_callers ?t 1 = Outside"
    by (simp_all add: entered_def keys_enter_def empty_cache_def jwks_init_def)
  have "jwks_step jwks_init ?t" using enter [of jwks_init 0 0] by (simp add: jwks_init_def)
  moreover have "jwks_step ?t two_callers" using enter [OF t(3), of 0] by (simp add: t two_callers_def)
  ultimately show "jwks_reachable two_callers" by simp
  show "js_callers two_callers 0 = Fetching 0" "js_callers two_callers 1 = Waiting 0"
    by (simp_all add: two_callers_def entered_def keys_enter_def empty_cache_def jwks_init_def)
qed

theorem Jwks_single_flight_witness:
  "jwks_reachable two_callers \<and> js_callers two_callers 1 = Waiting 0
    \<and> {c. \<exists>f. js_callers two_callers c = Fetching f} = {0}"
  using two_callers_reachable Jwks_single_flight [OF two_callers_reachable(1) _ two_callers_reachable(2)] by blast

text \<open>C14: A caller that waits for somebody else's fetch is never left behind: from every reachable state the callers
  can go on until it has the outcome of that fetch, which is the one all its waiters share.\<close>

theorem Jwks_waiter_served:
  assumes "jwks_reachable s" and "js_callers s c = Waiting f"
  shows "\<exists>s' r. jwks_step\<^sup>*\<^sup>* s s' \<and> js_callers s' c = Returned r \<and> js_done s' f = Some r"
  using waiter_served reachable_inv assms by blast

theorem Jwks_waiter_served_witness:
  "\<exists>s' r. jwks_step\<^sup>*\<^sup>* two_callers s' \<and> js_callers s' 1 = Returned r \<and> js_done s' 0 = Some r"
  by (rule Jwks_waiter_served [OF two_callers_reachable(1,3)])

end
