(* ===== verification/Oidc_Gate.thy ===== *)
theory Oidc_Gate
  imports Oidc Daemon_Samples
begin

text \<open>
  The gate with OpenID Connect as the code composes it: the token verifier of \<open>Oidc\<close> behind the middleware of
  \<open>Router\<close>, in front of the handlers of \<open>Service\<close>.
\<close>

text \<open>\<open>OIDCVerifier.Verify\<close> as the middleware uses it, for one request: with what the provider answers and the clock
  reads while it is handled.\<close>

definition oidc_token ::
    "crypto \<Rightarrow> (rsa_key \<Rightarrow> bytes \<Rightarrow> bytes \<Rightarrow> bool) \<Rightarrow> oidc_verifier \<Rightarrow> (jwks_error + key_set) \<Rightarrow> instant \<Rightarrow> string \<Rightarrow> string option" where
  "oidc_token C rsa_verify v provider now token =
     (case OIDC_Verify C rsa_verify v provider now token of Inl _ \<Rightarrow> None | Inr sub \<Rightarrow> Some sub)"

lemma oidc_token_Some:
  "oidc_token C rsa_verify v provider now token = Some sub \<longleftrightarrow> OIDC_Verify C rsa_verify v provider now token = Inr sub"
  by (simp add: oidc_token_def split: sum.splits)

text \<open>What the router answers on a route that is not public.\<close>

lemma NewRouter_answer:
  assumes "route (rq_method r) (rq_segments r) = Some ep" and "ep \<noteq> EpHealth" "ep \<noteq> EpRevocationList"
    and "NewRouter C env g allow inp r (bucket, s) = (resp, bucket', s')" and "\<forall>st code. resp \<noteq> ErrorResponse st code"
  shows "authenticated g r \<and> \<not> authBypass r \<and> dispatch C env inp (oidc_subject g r) ep r s = (resp, s')"
proof -
  have "\<not> authBypass r" using bypass_public [OF _ assms(1)] assms(2,3) by blast
  with assms(1,4,5) show ?thesis
    by (cases "authenticated g r")
      (auto simp: NewRouter_def RateLimitMiddleware_def authGate_cases mux_def Let_def split: prod.splits bool.splits if_splits)
qed

lemma registered_sponsor:
  assumes "handleRegisterAgent C env inp (Some sub) rbody s = (RegisterAgentResponse did sponsor st, s')" and "sub \<noteq> []"
  shows "sponsor = sub"
  using assms by (cases rbody) (auto simp: handleRegisterAgent_def Let_def split: sum.splits option.splits if_splits prod.splits)

lemma authenticated_subject:
  assumes "gt_OIDC g = Some v" and "authenticated g r" and "\<not> authBypass r"
  obtains token sub where "cut_prefix (rq_authorization r) bearerPrefix = Some token" "v token = Some sub" "oidc_subject g r = Some sub"
  using assms that by (auto simp: authenticated_def oidc_subject_def)

subsection \<open>A request under OpenID Connect\<close>

definition sample_bearer :: http_request where
  "sample_bearer = \<lparr>rq_method = ''POST'', rq_segments = [''v1'', ''agents''], rq_authorization = bearerPrefix @ sample_jwt,
     rq_register = sample_register, rq_issue = BodyMalformed, rq_delegate = BodyMalformed, rq_verify = BodyMalformed,
     rq_revoke = BodyMalformed\<rparr>"

definition sample_gate :: gate where
  "sample_gate = \<lparr>gt_APIKeys = [''k''], gt_OIDC = Some (oidc_token brace_crypto sample_rsa (NewOIDCVerifier ''i'' ''a'')
     (Inr [(''k'', \<lparr>rsa_N = 5, rsa_E = 3\<rparr>)]) \<lparr>t_sec = 62135596860, t_nsec = 7\<rparr>), gt_limited = False\<rparr>"

lemma sample_sponsored:
  "fst (handleRegisterAgent C (sample_env C) sample_inputs (Some ''s'') sample_register sample_boot)
     = RegisterAgentResponse (sample_did C) ''s'' ''ACTIVE''"
proof -
  have t: "Transition 1000 (NewAgent 1000 (sample_did C) ''s'') StateActive by' why =
      Inr (NewAgent 1000 (sample_did C) ''s''\<lparr>ag_history := [\<lparr>tr_from = StateRegistered, tr_to = StateActive,
        tr_at = 1000, tr_by = by', tr_reason = why\<rparr>], ag_activatedAt := 1000, ag_state := StateActive\<rparr>)" for by' why
    by (simp add: Transition_def NewAgent_def)
  have "Store [] (sample_did C) sample_key = Inr [(sample_did C, sample_key)]" by (simp add: Store_def sample_did_def sample_key_def)
  with t show ?thesis
    by (simp add: handleRegisterAgent_def sample_register_def sample_inputs_def GenerateDID_def sample_env_def memory_keystore_def
        sample_boot_def boot_state_def NewMemoryKeyStore_def sample_did_def [symmetric] PutAgent_def New_def NewAgent_def)
      (simp add: sample_did_def Let_def)
qed

lemma sample_gate_passes:
  "\<exists>s. NewRouter brace_crypto (sample_env brace_crypto) sample_gate (\<lambda>n. (True, n)) sample_inputs sample_bearer (0 :: nat, sample_boot)
     = (RegisterAgentResponse (sample_did brace_crypto) ''s'' ''ACTIVE'', 0, s)"
proof -
  have b: "\<not> authBypass sample_bearer" by (simp add: authBypass_def URL_Path_def sample_bearer_def)
  have tok: "cut_prefix (rq_authorization sample_bearer) bearerPrefix = Some sample_jwt"
    by (simp add: sample_bearer_def cut_prefix_def bearerPrefix_def has_prefix_append)
  have "gt_OIDC sample_gate = Some (oidc_token brace_crypto sample_rsa (NewOIDCVerifier ''i'' ''a'')
     (Inr [(''k'', \<lparr>rsa_N = 5, rsa_E = 3\<rparr>)]) \<lparr>t_sec = 62135596860, t_nsec = 7\<rparr>)" by (simp add: sample_gate_def)
  with tok b sample_jwt_accepted have "authenticated sample_gate sample_bearer" "oidc_subject sample_gate sample_bearer = Some ''s''"
    by (simp_all add: authenticated_def oidc_subject_def oidc_token_def)
  moreover have "mux brace_crypto (sample_env brace_crypto) sample_inputs (Some ''s'') sample_bearer sample_boot
      = handleRegisterAgent brace_crypto (sample_env brace_crypto) sample_inputs (Some ''s'') sample_register sample_boot"
    by (simp add: mux_def route_def dispatch_def sample_bearer_def)
  ultimately show ?thesis
    using sample_sponsored [of brace_crypto] by (simp add: NewRouter_def authGate_cases sample_gate_def split_beta)
qed

subsection \<open>Properties\<close>



end
