(* ===== verification/Postgres_Store.thy ===== *)
theory Postgres_Store
  imports Service
begin

text \<open>
  \<open>store/postgres/store.go\<close>: the storage backend over PostgreSQL.  A table is the list of its rows, a method is
  what its statements do to the tables according to the SQL text of the source and the constraints of
  \<open>schema.sql\<close>; a failed statement rolls its transaction back, so a failing operation leaves the tables alone.
  Which statements the server refuses (connection lost, permissions) is part of the state; no operation changes it,
  so a failure that comes and goes during a history is not covered.
  The database is in the encoding UTF8: a text parameter that is not valid UTF-8 or contains a zero byte is
  refused by the server.  Among rows with equal sort keys, which SQL leaves in any order, the model keeps
  the order of insertion; the invariant below excludes such ties where a result could depend on them.
\<close>

subsection \<open>Tables\<close>

datatype statement =
    QPutAgent | QGetAgent | QPutCredential | QGet | QListCredentials | QRegister | QFindDescendants | QContains
  | QRevokeLock | QRevokeInsert | QGetStatus | QCurrentSeq | QRevocationEntries

record agent_row =
  ar_sponsor :: string
  ar_state :: agent_state
  ar_registered :: i64
  ar_activated :: "i64 option"

record credential_row =
  cr_cid :: string
  cr_raw :: bytes
  cr_iss :: string
  cr_aud :: string
  cr_exp :: i64
  cr_created :: i64

record rev_row =
  rr_cid :: string
  rr_did :: string
  rr_scope :: string
  rr_status :: string
  rr_seq :: i64
  rr_authority_did :: string
  rr_authority_basis :: string
  rr_authority_proof :: string
  rr_iat :: i64
  rr_prev :: string
  rr_hash :: string
  rr_sig :: string

record pg_store =
  pg_fault :: "statement \<Rightarrow> bool"
  pg_agents :: "(string \<times> agent_row) list"
  pg_credentials :: "credential_row list"
  pg_index :: "(string \<times> string) list"
  pg_revocations :: "rev_row list"

definition pg_text :: "string \<Rightarrow> bool" where
  "pg_text s \<longleftrightarrow> utf8_valid s \<and> CHR 0x00 \<notin> set s"

definition pg_texts :: "string list \<Rightarrow> bool" where
  "pg_texts ss \<longleftrightarrow> list_all pg_text ss"

text \<open>A statement goes through when the server takes it and its text parameters.\<close>

definition accepts :: "pg_store \<Rightarrow> statement \<Rightarrow> string list \<Rightarrow> bool" where
  "accepts s q params \<longleftrightarrow> \<not> pg_fault s q \<and> pg_texts params"

subsection \<open>Agents\<close>

definition PostgresStore_PutAgent :: "pg_store \<Rightarrow> agent option \<Rightarrow> store_error + pg_store" where
  "PostgresStore_PutAgent s oa = (case oa of
       None \<Rightarrow> Inl ErrInvalidAgent
     | Some a \<Rightarrow>
         if ag_did a = [] then Inl ErrInvalidAgent
         else if \<not> accepts s QPutAgent [ag_did a, ag_sponsor a, state_string (ag_state a)] then Inl ErrStoreBackend
         else Inr (s\<lparr>pg_agents := AList.update (ag_did a)
           (case map_of (pg_agents s) (ag_did a) of
              None \<Rightarrow> \<lparr>ar_sponsor = ag_sponsor a, ar_state = ag_state a, ar_registered = ag_registeredAt a,
                ar_activated = Some (ag_activatedAt a)\<rparr>
            | Some r \<Rightarrow> r\<lparr>ar_state := ag_state a, ar_activated := Some (ag_activatedAt a)\<rparr>)
           (pg_agents s)\<rparr>))"

definition PostgresStore_GetAgent :: "pg_store \<Rightarrow> string \<Rightarrow> store_error + agent" where
  "PostgresStore_GetAgent s did =
     (if \<not> accepts s QGetAgent [did] then Inl ErrStoreBackend
      else case map_of (pg_agents s) did of
        None \<Rightarrow> Inl ErrAgentNotFound
      | Some r \<Rightarrow> Inr \<lparr>ag_did = did, ag_sponsor = ar_sponsor r, ag_state = ar_state r, ag_registeredAt = ar_registered r,
          ag_activatedAt = (case ar_activated r of None \<Rightarrow> 0 | Some t \<Rightarrow> t), ag_history = []\<rparr>)"

subsection \<open>Credentials\<close>

definition credentialMeta :: "bytes \<Rightarrow> cred_error + (string \<times> string \<times> i64)" where
  "credentialMeta raw' =
     (if looks_like_object raw' then bindE (ParseRestrictBlock raw') (\<lambda>b. Inr (blk_iss b, blk_aud b, blk_exp b))
      else bindE (ParseUCAN raw') (\<lambda>u. Inr (pl_iss (u_payload u), pl_aud (u_payload u), pl_exp (u_payload u))))"

definition find_credential :: "pg_store \<Rightarrow> string \<Rightarrow> credential_row option" where
  "find_credential s cid = find (\<lambda>r. cr_cid r = cid) (pg_credentials s)"

definition PostgresStore_PutCredential :: "crypto \<Rightarrow> i64 \<Rightarrow> pg_store \<Rightarrow> bytes \<Rightarrow> store_error + (string \<times> pg_store)" where
  "PostgresStore_PutCredential C now s raw' =
     (let cid = ComputeCID C raw' in
      bindE (mapErr ErrParseCredential (credentialMeta raw')) (\<lambda>(iss, aud, exp).
        if \<not> accepts s QPutCredential [cid, iss, aud] then Inl ErrStoreBackend
        else Inr (cid, if find_credential s cid \<noteq> None then s
          else s\<lparr>pg_credentials := pg_credentials s @
            [\<lparr>cr_cid = cid, cr_raw = raw', cr_iss = iss, cr_aud = aud, cr_exp = exp, cr_created = now\<rparr>]\<rparr>)))"

definition PostgresStore_Get :: "pg_store \<Rightarrow> string \<Rightarrow> store_error + bytes" where
  "PostgresStore_Get s cid =
     (if \<not> accepts s QGet [cid] then Inl ErrStoreBackend
      else case find_credential s cid of None \<Rightarrow> Inl ErrCredentialNotFound | Some r \<Rightarrow> Inr (cr_raw r))"

definition PostgresStore_ListCredentials :: "pg_store \<Rightarrow> store_error + string list" where
  "PostgresStore_ListCredentials s =
     (if \<not> accepts s QListCredentials [] then Inl ErrStoreBackend
      else Inr (map cr_cid (sort_by (\<lambda>a b. slt (cr_created a) (cr_created b)) (pg_credentials s))))"

subsection \<open>The registration index\<close>

fun insert_pairs :: "string \<Rightarrow> string list \<Rightarrow> (string \<times> string) list \<Rightarrow> (string \<times> string) list" where
  "insert_pairs c [] rows = rows"
| "insert_pairs c (x # xs) rows = insert_pairs c xs (if (c, x) \<in> set rows then rows else rows @ [(c, x)])"

definition PostgresStore_Register :: "pg_store \<Rightarrow> string \<Rightarrow> string list \<Rightarrow> store_error + pg_store" where
  "PostgresStore_Register s credentialCID chainCIDs =
     (if \<not> accepts s QRegister (if chainCIDs = [] then [] else credentialCID # chainCIDs) then Inl ErrStoreBackend
      else Inr (s\<lparr>pg_index := insert_pairs credentialCID chainCIDs (pg_index s)\<rparr>))"

definition PostgresStore_FindDescendants :: "pg_store \<Rightarrow> string \<Rightarrow> store_error + string list" where
  "PostgresStore_FindDescendants s cid =
     (if \<not> accepts s QFindDescendants [cid] then Inl ErrStoreBackend
      else Inr (sort_by (\<lambda>a b. lex_less (map byte a) (map byte b))
        (map fst (filter (\<lambda>(c, x). x = cid \<and> c \<noteq> cid) (pg_index s)))))"

definition PostgresStore_Contains :: "pg_store \<Rightarrow> string \<Rightarrow> string \<Rightarrow> bool" where
  "PostgresStore_Contains s credentialCID chainCID \<longleftrightarrow>
     accepts s QContains [credentialCID, chainCID] \<and> (credentialCID, chainCID) \<in> set (pg_index s)"

subsection \<open>Revocation\<close>

definition row_of :: "rev_entry \<Rightarrow> string \<Rightarrow> rev_row" where
  "row_of e hash =
     \<lparr>rr_cid = sub_cid (re_subject e), rr_did = sub_did (re_subject e), rr_scope = re_scope e, rr_status = re_status e,
      rr_seq = re_seq e, rr_authority_did = ra_did (re_authority e), rr_authority_basis = ra_basis (re_authority e),
      rr_authority_proof = ra_proof (re_authority e), rr_iat = re_iat e, rr_prev = re_prev e, rr_hash = hash, rr_sig = re_sig e\<rparr>"

definition scanRevocation :: "rev_row \<Rightarrow> rev_entry" where
  "scanRevocation r =
     \<lparr>re_typ = RevocationEntryTyp, re_seq = rr_seq r, re_subject = \<lparr>sub_cid = rr_cid r, sub_did = rr_did r\<rparr>,
      re_scope = rr_scope r, re_status = rr_status r,
      re_authority = \<lparr>ra_did = rr_authority_did r, ra_basis = rr_authority_basis r, ra_proof = rr_authority_proof r\<rparr>,
      re_iat = rr_iat r, re_prev = rr_prev r, re_sig = rr_sig r\<rparr>"

definition row_texts :: "rev_row \<Rightarrow> string list" where
  "row_texts r = [rr_cid r, rr_did r, rr_scope r, rr_status r, rr_authority_did r, rr_authority_basis r,
     rr_authority_proof r, rr_prev r, rr_hash r, rr_sig r]"

text \<open>\<open>COALESCE(MAX(seq), 0)\<close>, and \<open>ORDER BY seq DESC LIMIT 1\<close>.\<close>

fun newest :: "rev_row list \<Rightarrow> rev_row option" where
  "newest [] = None"
| "newest (r # rs) = (case newest rs of None \<Rightarrow> Some r | Some q \<Rightarrow> if slt (rr_seq r) (rr_seq q) then Some q else Some r)"

definition max_seq :: "rev_row list \<Rightarrow> i64" where
  "max_seq rows = (case newest rows of None \<Rightarrow> 0 | Some r \<Rightarrow> rr_seq r)"

text \<open>The rows of a subject: \<open>subject_cid = $1\<close>, then \<open>UNION ALL\<close> those with \<open>subject_did = $1\<close>.\<close>

definition rows_for :: "pg_store \<Rightarrow> string \<Rightarrow> rev_row list" where
  "rows_for s subject = filter (\<lambda>r. rr_cid r = subject) (pg_revocations s) @ filter (\<lambda>r. rr_did r = subject) (pg_revocations s)"

definition PostgresStore_Revoke :: "crypto \<Rightarrow> pg_store \<Rightarrow> rev_entry \<Rightarrow> rev_error + pg_store" where
  "PostgresStore_Revoke C s e =
     (let cid = sub_cid (re_subject e); did = sub_did (re_subject e) in
      if cid = [] \<and> did = [] then Inl ErrMissingSubject
      else bindE (VerifyEntrySelfSignature C e) (\<lambda>_.
        if \<not> accepts s QRevokeLock [cid @ [CHR 0x0A] @ did, cid, did] then Inl ErrRevBackend
        else if sle (re_seq e) (max_seq (filter (\<lambda>r. rr_cid r = cid \<and> rr_did r = did) (pg_revocations s))) then Inl ErrSequenceRollback
        else bindE (Entry_Hash C e) (\<lambda>hash.
          if \<not> accepts s QRevokeInsert (row_texts (row_of e hash)) then Inl ErrRevBackend
          else Inr (s\<lparr>pg_revocations := pg_revocations s @ [row_of e hash]\<rparr>))))"

definition PostgresStore_GetStatus :: "pg_store \<Rightarrow> string \<Rightarrow> rev_error + rev_entry option" where
  "PostgresStore_GetStatus s subject =
     (if \<not> accepts s QGetStatus [subject] then Inl ErrRevBackend
      else case newest (rows_for s subject) of
        None \<Rightarrow> Inr None
      | Some r \<Rightarrow> Inr (if rr_status r = StatusReinstated then None else Some (scanRevocation r)))"

definition PostgresStore_CurrentSeq :: "pg_store \<Rightarrow> string \<Rightarrow> store_error + i64" where
  "PostgresStore_CurrentSeq s subject =
     (if \<not> accepts s QCurrentSeq [subject] then Inl ErrStoreBackend else Inr (max_seq (rows_for s subject)))"

text \<open>\<open>COALESCE(NULLIF(subject_cid, ''), subject_did)\<close>, and one row for each of its values; the rows come in the
  order of the database's collation, which is the argument.\<close>

definition row_key :: "rev_row \<Rightarrow> string" where
  "row_key r = (if rr_cid r = [] then rr_did r else rr_cid r)"

definition PostgresStore_RevocationEntries :: "(rev_entry set \<Rightarrow> rev_entry list) \<Rightarrow> pg_store \<Rightarrow> store_error + rev_entry list" where
  "PostgresStore_RevocationEntries order s =
     (if \<not> accepts s QRevocationEntries [] then Inl ErrStoreBackend
      else Inr (order (set (map scanRevocation
        (filter (\<lambda>r. newest (filter (\<lambda>q. row_key q = row_key r) (pg_revocations s)) = Some r) (pg_revocations s))))))"

definition postgres_store :: "crypto \<Rightarrow> pg_store store" where
  "postgres_store C =
     \<lparr>st_ListCredentials = PostgresStore_ListCredentials,
      st_Get = PostgresStore_Get,
      st_FindDescendants = PostgresStore_FindDescendants,
      st_Register = PostgresStore_Register,
      st_Contains = PostgresStore_Contains,
      st_Revoke = PostgresStore_Revoke C,
      st_CurrentSeq = PostgresStore_CurrentSeq,
      st_PutAgent = PostgresStore_PutAgent,
      st_GetAgent = PostgresStore_GetAgent,
      st_PutCredential = PostgresStore_PutCredential C,
      st_GetStatus = PostgresStore_GetStatus,
      st_RevocationEntries = PostgresStore_RevocationEntries\<rparr>"

end
