(* ===== verification/Postgres_Contract.thy ===== *)
theory Postgres_Contract
  imports Postgres_Store Service_Safety
begin

text \<open>
  The PostgreSQL backend keeps the contract of \<open>store.Store\<close>: its invariant, and the interpretation of
  \<open>store_contract\<close> on its operations.
\<close>

lemma postgres_store_simps [simp]:
  "st_ListCredentials (postgres_store C) = PostgresStore_ListCredentials"
  "st_Get (postgres_store C) = PostgresStore_Get"
  "st_FindDescendants (postgres_store C) = PostgresStore_FindDescendants"
  "st_Register (postgres_store C) = PostgresStore_Register"
  "st_Contains (postgres_store C) = PostgresStore_Contains"
  "st_Revoke (postgres_store C) = PostgresStore_Revoke C"
  "st_CurrentSeq (postgres_store C) = PostgresStore_CurrentSeq"
  "st_PutAgent (postgres_store C) = PostgresStore_PutAgent"
  "st_GetAgent (postgres_store C) = PostgresStore_GetAgent"
  "st_PutCredential (postgres_store C) = PostgresStore_PutCredential C"
  "st_GetStatus (postgres_store C) = PostgresStore_GetStatus"
  "st_RevocationEntries (postgres_store C) = PostgresStore_RevocationEntries"
  by (simp_all add: postgres_store_def)

lemmas pg_reads = PostgresStore_Get_def PostgresStore_Contains_def PostgresStore_GetAgent_def PostgresStore_GetStatus_def
  PostgresStore_CurrentSeq_def PostgresStore_FindDescendants_def find_credential_def accepts_def pg_texts_def

subsection \<open>Sequence numbers\<close>

lemma newest_None [simp]: "newest rows = None \<longleftrightarrow> rows = []"
  by (cases rows) (auto split: option.splits)

lemma newest_in: "newest rows = Some r \<Longrightarrow> r \<in> set rows"
  by (induction rows arbitrary: r) (auto split: option.splits if_splits)

lemma newest_ge: "newest rows = Some r \<Longrightarrow> q \<in> set rows \<Longrightarrow> sle (rr_seq q) (rr_seq r)"
proof (induction rows arbitrary: r)
  case (Cons x rows)
  show ?case
  proof (cases "newest rows")
    case None
    with Cons.prems show ?thesis by auto
  next
    case (Some p)
    with Cons.IH [OF Some] Cons.prems show ?thesis by (auto split: if_splits)
  qed
qed simp

lemma newest_unique:
  assumes "r \<in> set rows" and "\<And>q. q \<in> set rows \<Longrightarrow> q \<noteq> r \<Longrightarrow> slt (rr_seq q) (rr_seq r)"
  shows "newest rows = Some r"
proof (cases "newest rows")
  case None
  with assms(1) show ?thesis by simp
next
  case (Some p)
  from newest_in [OF this] newest_ge [OF this assms(1)] assms(2) [of p] Some show ?thesis by fastforce
qed

lemma max_seq_ge: "q \<in> set rows \<Longrightarrow> sle (rr_seq q) (max_seq rows)"
  using newest_ge by (cases "newest rows") (auto simp: max_seq_def)

lemma max_seq_nonneg: "(\<And>q. q \<in> set rows \<Longrightarrow> slt 0 (rr_seq q)) \<Longrightarrow> sle 0 (max_seq rows)"
  using newest_in by (cases "newest rows") (auto simp: max_seq_def less_le)

text \<open>The successor of the largest sequence number: an overflow would fail the comparison with a non-negative one.\<close>

lemma successor_greater:
  assumes "sle 0 m" and "sle m q" and "slt m (q + 1)"
  shows "slt q (q + 1)"
  using assms i64_add [of q 1] i64_range [of q] by (auto simp: Let_def split: if_splits)

subsection \<open>The invariant\<close>

definition proper_subject :: "rev_subject \<Rightarrow> bool" where
  "proper_subject s \<longleftrightarrow> sub_cid s = [] \<or> sub_did s = []"

definition pg_latest :: "pg_store \<Rightarrow> string \<Rightarrow> rev_entry option" where
  "pg_latest s k = map_option scanRevocation (newest (rows_for s k))"

text \<open>Reads go through; a credential is stored under its identifier; the index holds texts; sequence numbers are positive.\<close>

definition pg_inv :: "crypto \<Rightarrow> pg_store \<Rightarrow> bool" where
  "pg_inv C s \<longleftrightarrow> \<not> pg_fault s QGet \<and> \<not> pg_fault s QGetAgent \<and> \<not> pg_fault s QContains
     \<and> (\<forall>r \<in> set (pg_credentials s). cr_cid r = ComputeCID C (cr_raw r)) \<and> distinct (map cr_cid (pg_credentials s))
     \<and> (\<forall>(c, x) \<in> set (pg_index s). pg_text c \<and> pg_text x) \<and> distinct (pg_index s)
     \<and> (\<forall>r \<in> set (pg_revocations s). slt 0 (rr_seq r))"

lemma set_insert_pairs: "set (insert_pairs c xs rows) = set rows \<union> {c} \<times> set xs"
  by (induction c xs rows rule: insert_pairs.induct) auto

lemma distinct_insert_pairs: "distinct rows \<Longrightarrow> distinct (insert_pairs c xs rows)"
  by (induction c xs rows rule: insert_pairs.induct) auto

lemma put_cases:
  assumes "PostgresStore_PutCredential C now s raw' = Inr (cid, s')"
  shows "cid = ComputeCID C raw'" and "pg_text cid"
    and "(find_credential s cid \<noteq> None \<and> s' = s)
      \<or> (\<exists>r. find_credential s cid = None \<and> cr_cid r = cid \<and> cr_raw r = raw'
          \<and> s' = s\<lparr>pg_credentials := pg_credentials s @ [r]\<rparr>)"
proof -
  from assms show "cid = ComputeCID C raw'" "pg_text cid"
    by (auto simp: PostgresStore_PutCredential_def Let_def err_simps accepts_def pg_texts_def split: if_splits)
  then show "(find_credential s cid \<noteq> None \<and> s' = s)
      \<or> (\<exists>r. find_credential s cid = None \<and> cr_cid r = cid \<and> cr_raw r = raw'
          \<and> s' = s\<lparr>pg_credentials := pg_credentials s @ [r]\<rparr>)"
  proof (cases "find_credential s cid = None")
    case True
    with assms \<open>cid = ComputeCID C raw'\<close> obtain iss aud ex where
      "s' = s\<lparr>pg_credentials := pg_credentials s @
        [\<lparr>cr_cid = cid, cr_raw = raw', cr_iss = iss, cr_aud = aud, cr_exp = ex, cr_created = now\<rparr>]\<rparr>"
      by (auto simp: PostgresStore_PutCredential_def Let_def err_simps split: if_splits)
    with True show ?thesis
      by (intro disjI2 exI [of _ "\<lparr>cr_cid = cid, cr_raw = raw', cr_iss = iss, cr_aud = aud, cr_exp = ex, cr_created = now\<rparr>"]) simp
  next
    case False
    with assms \<open>cid = ComputeCID C raw'\<close> show ?thesis
      by (auto simp: PostgresStore_PutCredential_def Let_def err_simps split: if_splits)
  qed
qed

lemma find_append:
  "find P (xs @ ys) = (case find P xs of None \<Rightarrow> find P ys | Some x \<Rightarrow> Some x)"
  by (induction xs) auto

lemma PutCredential_pg_inv:
  assumes "pg_inv C s" and "PostgresStore_PutCredential C now s raw' = Inr (cid, s')"
  shows "pg_inv C s'"
proof -
  note P = put_cases [OF assms(2)]
  from P(3) show ?thesis
  proof
    assume "\<exists>r. find_credential s cid = None \<and> cr_cid r = cid \<and> cr_raw r = raw'
        \<and> s' = s\<lparr>pg_credentials := pg_credentials s @ [r]\<rparr>"
    then obtain r where r: "find_credential s cid = None" "cr_cid r = cid" "cr_raw r = raw'"
      "s' = s\<lparr>pg_credentials := pg_credentials s @ [r]\<rparr>" by blast
    have "cid \<notin> cr_cid ` set (pg_credentials s)"
      using r(1) unfolding find_credential_def find_None_iff by blast
    moreover have "cr_cid r = ComputeCID C (cr_raw r)" using r(2,3) P(1) by simp
    ultimately show ?thesis using assms(1) r(2) by (simp add: pg_inv_def r(4))
  qed (use assms(1) in simp)
qed

lemma find_credential_in: "find_credential s c = Some r \<Longrightarrow> r \<in> set (pg_credentials s) \<and> cr_cid r = c"
  by (auto simp: find_credential_def find_Some_iff)

lemma put_get_pg:
  assumes "pg_inv C s" and "PostgresStore_PutCredential C now s raw' = Inr (cid, s')"
  shows "(\<exists>r. PostgresStore_Get s' cid = Inr r \<and> (r = raw' \<or> PostgresStore_Get s cid = Inr r))
    \<and> (\<forall>c. c \<noteq> cid \<longrightarrow> PostgresStore_Get s' c = PostgresStore_Get s c)"
proof -
  note P = put_cases [OF assms(2)]
  have q: "\<not> pg_fault s QGet" using assms(1) by (simp add: pg_inv_def)
  from P(3) show ?thesis
  proof
    assume *: "find_credential s cid \<noteq> None \<and> s' = s"
    then obtain r where "find_credential s cid = Some r" by blast
    with * q P(2) show ?thesis by (simp add: PostgresStore_Get_def accepts_def pg_texts_def)
  next
    assume "\<exists>r. find_credential s cid = None \<and> cr_cid r = cid \<and> cr_raw r = raw'
        \<and> s' = s\<lparr>pg_credentials := pg_credentials s @ [r]\<rparr>"
    then show ?thesis using q P(2)
      by (auto simp: PostgresStore_Get_def accepts_def pg_texts_def find_credential_def find_append split: option.splits if_splits)
  qed
qed

lemma Register_pg_inv: "pg_inv C s \<Longrightarrow> PostgresStore_Register s c ch = Inr s' \<Longrightarrow> pg_inv C s'"
  by (auto simp: pg_inv_def PostgresStore_Register_def accepts_def pg_texts_def list_all_iff set_insert_pairs
      distinct_insert_pairs split: if_splits)

lemma Register_pg_contains:
  "pg_inv C s \<Longrightarrow> PostgresStore_Register s c ch = Inr s' \<Longrightarrow>
    PostgresStore_Contains s' d y \<longleftrightarrow> PostgresStore_Contains s d y \<or> (d = c \<and> y \<in> set ch)"
  by (auto simp: pg_inv_def PostgresStore_Register_def PostgresStore_Contains_def accepts_def pg_texts_def list_all_iff
      set_insert_pairs split: if_splits)

lemma FindDescendants_pg_set:
  assumes "pg_inv C s" and "PostgresStore_FindDescendants s y = Inr ds"
  shows "set ds = {d. PostgresStore_Contains s d y \<and> d \<noteq> y}"
proof -
  from assms(2) have y: "pg_text y" and ds: "ds = sort_by (\<lambda>a b. lex_less (map byte a) (map byte b))
      (map fst (filter (\<lambda>(c, x). x = y \<and> c \<noteq> y) (pg_index s)))"
    by (simp_all add: PostgresStore_FindDescendants_def accepts_def pg_texts_def split: if_splits)
  have "PostgresStore_Contains s d y \<longleftrightarrow> (d, y) \<in> set (pg_index s)" for d
    using assms(1) y by (auto simp: pg_inv_def PostgresStore_Contains_def accepts_def pg_texts_def)
  then show ?thesis unfolding ds set_sort_by set_map set_filter by force
qed

subsection \<open>Revocations\<close>

lemma revoke_cases:
  assumes "PostgresStore_Revoke C s e = Inr s'"
  obtains hash where "sub_cid (re_subject e) \<noteq> [] \<or> sub_did (re_subject e) \<noteq> []" "re_typ e = RevocationEntryTyp"
    "slt (max_seq (filter (\<lambda>r. rr_cid r = sub_cid (re_subject e) \<and> rr_did r = sub_did (re_subject e)) (pg_revocations s))) (re_seq e)"
    "s' = s\<lparr>pg_revocations := pg_revocations s @ [row_of e hash]\<rparr>"
proof -
  from assms obtain hash where h: "\<not> (sub_cid (re_subject e) = [] \<and> sub_did (re_subject e) = [])"
    "VerifyEntrySelfSignature C e = Inr ()"
    "\<not> sle (re_seq e) (max_seq (filter (\<lambda>r. rr_cid r = sub_cid (re_subject e) \<and> rr_did r = sub_did (re_subject e)) (pg_revocations s)))"
    "s' = s\<lparr>pg_revocations := pg_revocations s @ [row_of e hash]\<rparr>"
    unfolding PostgresStore_Revoke_def Let_def by (auto simp: err_simps split: if_splits)
  from h(2) have "re_typ e = RevocationEntryTyp"
    by (auto simp: VerifyEntrySelfSignature_def VerifyRevocationEntry_def err_simps split: if_splits)
  with h show ?thesis by (intro that [of hash]) auto
qed

lemma scan_row_of: "re_typ e = RevocationEntryTyp \<Longrightarrow> scanRevocation (row_of e hash) = e"
  by (cases e; cases "re_subject e"; cases "re_authority e") (simp add: scanRevocation_def row_of_def)

lemma row_of_simps [simp]: "rr_cid (row_of e h) = sub_cid (re_subject e)" "rr_did (row_of e h) = sub_did (re_subject e)"
  "rr_seq (row_of e h) = re_seq e" "rr_status (row_of e h) = re_status e"
  by (simp_all add: row_of_def)

lemma Revoke_pg_inv:
  assumes "pg_inv C s" and "PostgresStore_Revoke C s e = Inr s'"
  shows "pg_inv C s'"
proof -
  from revoke_cases [OF assms(2)] obtain hash where r:
    "slt (max_seq (filter (\<lambda>r. rr_cid r = sub_cid (re_subject e) \<and> rr_did r = sub_did (re_subject e)) (pg_revocations s))) (re_seq e)"
    "s' = s\<lparr>pg_revocations := pg_revocations s @ [row_of e hash]\<rparr>" by metis
  have "sle 0 (max_seq (filter (\<lambda>r. rr_cid r = sub_cid (re_subject e) \<and> rr_did r = sub_did (re_subject e)) (pg_revocations s)))"
    by (rule max_seq_nonneg) (use assms(1) in \<open>auto simp: pg_inv_def\<close>)
  with r assms(1) show ?thesis by (simp add: pg_inv_def)
qed

text \<open>A revocation that is accepted with the sequence number after the current one is newer than every row.\<close>

lemma next_seq_greater:
  assumes inv: "pg_inv C s"
    and low: "slt (max_seq (filter (\<lambda>r. rr_cid r = sub_cid (re_subject e) \<and> rr_did r = sub_did (re_subject e)) (pg_revocations s))) (re_seq e)"
    and rows: "max_seq (rows_for s (Key (re_subject e))) = re_seq e - 1"
  shows "slt (re_seq e - 1) (re_seq e)"
proof -
  let ?pair = "filter (\<lambda>r. rr_cid r = sub_cid (re_subject e) \<and> rr_did r = sub_did (re_subject e)) (pg_revocations s)"
  let ?q = "max_seq (rows_for s (Key (re_subject e)))"
  have pair: "set ?pair \<subseteq> set (rows_for s (Key (re_subject e)))" by (auto simp: rows_for_def Key_def)
  have nn: "sle 0 (max_seq ?pair)" by (rule max_seq_nonneg) (use inv in \<open>auto simp: pg_inv_def\<close>)
  have "sle (max_seq ?pair) ?q"
  proof (cases "newest ?pair")
    case None
    have "sle 0 ?q" by (rule max_seq_nonneg) (use inv in \<open>auto simp: pg_inv_def rows_for_def\<close>)
    with None show ?thesis by (simp add: max_seq_def)
  next
    case (Some p)
    from newest_in [OF Some] pair have "p \<in> set (rows_for s (Key (re_subject e)))" by blast
    from max_seq_ge [OF this] Some show ?thesis by (simp add: max_seq_def)
  qed
  from successor_greater [OF nn this] low rows show ?thesis by simp
qed

lemma Revoke_pg_latest:
  assumes inv: "pg_inv C s" and rv: "PostgresStore_Revoke C s e = Inr s'" and proper: "proper_subject (re_subject e)"
    and sq: "PostgresStore_CurrentSeq s (Key (re_subject e)) = Inr q" "re_seq e = q + 1" and k: "k \<noteq> []"
  shows "pg_latest s' k = (if k = Key (re_subject e) then Some e else pg_latest s k)"
proof -
  let ?pair = "filter (\<lambda>r. rr_cid r = sub_cid (re_subject e) \<and> rr_did r = sub_did (re_subject e)) (pg_revocations s)"
  from revoke_cases [OF rv] obtain hash where r: "re_typ e = RevocationEntryTyp" "slt (max_seq ?pair) (re_seq e)"
    "s' = s\<lparr>pg_revocations := pg_revocations s @ [row_of e hash]\<rparr>"
    "sub_cid (re_subject e) \<noteq> [] \<or> sub_did (re_subject e) \<noteq> []" by metis
  have q: "q = max_seq (rows_for s (Key (re_subject e)))" using sq(1) by (simp add: PostgresStore_CurrentSeq_def split: if_splits)
  have q1: "slt q (re_seq e)" using next_seq_greater [OF inv r(2)] q sq(2) by simp
  show ?thesis
  proof (cases "k = Key (re_subject e)")
    case True
    have "newest (rows_for s' k) = Some (row_of e hash)"
    proof (rule newest_unique)
      show "row_of e hash \<in> set (rows_for s' k)" using True by (auto simp: rows_for_def r(3) Key_def)
      fix p assume "p \<in> set (rows_for s' k)" "p \<noteq> row_of e hash"
      then have "p \<in> set (rows_for s k)" by (auto simp: rows_for_def r(3) split: if_splits)
      with max_seq_ge [of p "rows_for s k"] q q1 True show "slt (rr_seq p) (rr_seq (row_of e hash))" by simp
    qed
    with True show ?thesis by (simp add: pg_latest_def scan_row_of r(1))
  next
    case False
    with k proper r(4) have "rows_for s' k = rows_for s k"
      by (auto simp: rows_for_def r(3) Key_def proper_subject_def split: if_splits)
    with False show ?thesis by (simp add: pg_latest_def)
  qed
qed

lemma PutAgent_pg:
  assumes "PostgresStore_PutAgent s oa = Inr s'"
  obtains a row where "oa = Some a" "pg_text (ag_did a)" "ar_state row = ag_state a" "ar_activated row = Some (ag_activatedAt a)"
    "(ar_sponsor row, ar_registered row) = (case map_of (pg_agents s) (ag_did a) of
       None \<Rightarrow> (ag_sponsor a, ag_registeredAt a) | Some r \<Rightarrow> (ar_sponsor r, ar_registered r))"
    "s' = s\<lparr>pg_agents := AList.update (ag_did a) row (pg_agents s)\<rparr>"
proof -
  from assms obtain a where a: "oa = Some a" by (cases oa) (auto simp: PostgresStore_PutAgent_def)
  with assms show ?thesis
    by (intro that [of a "case map_of (pg_agents s) (ag_did a) of
              None \<Rightarrow> \<lparr>ar_sponsor = ag_sponsor a, ar_state = ag_state a, ar_registered = ag_registeredAt a,
                ar_activated = Some (ag_activatedAt a)\<rparr>
            | Some r \<Rightarrow> r\<lparr>ar_state := ag_state a, ar_activated := Some (ag_activatedAt a)\<rparr>"])
      (auto simp: PostgresStore_PutAgent_def accepts_def pg_texts_def split: if_splits option.splits)
qed

lemma PutAgent_pg_inv: "pg_inv C s \<Longrightarrow> PostgresStore_PutAgent s oa = Inr s' \<Longrightarrow> pg_inv C s'"
  by (erule PutAgent_pg) (simp add: pg_inv_def)

lemma PutAgent_pg_get:
  assumes "pg_inv C s" and "PostgresStore_PutAgent s (Some a) = Inr s'"
  shows "(\<exists>b. PostgresStore_GetAgent s' (ag_did a) = Inr b
      \<and> (agent_view b = agent_view a
        \<or> (\<exists>c. PostgresStore_GetAgent s (ag_did a) = Inr c \<and> agent_view b = agent_view (with_origin c a))))
    \<and> (\<forall>d. d \<noteq> ag_did a \<longrightarrow> PostgresStore_GetAgent s' d = PostgresStore_GetAgent s d)"
proof (rule PutAgent_pg [OF assms(2)])
  fix a' row
  assume "Some a = Some a'" "pg_text (ag_did a')" "ar_state row = ag_state a'" "ar_activated row = Some (ag_activatedAt a')"
    "(ar_sponsor row, ar_registered row) = (case map_of (pg_agents s) (ag_did a') of
       None \<Rightarrow> (ag_sponsor a', ag_registeredAt a') | Some r \<Rightarrow> (ar_sponsor r, ar_registered r))"
    "s' = s\<lparr>pg_agents := AList.update (ag_did a') row (pg_agents s)\<rparr>"
  with assms(1) show ?thesis
    by (cases "map_of (pg_agents s) (ag_did a')")
      (simp_all add: PostgresStore_GetAgent_def accepts_def pg_texts_def pg_inv_def update_conv agent_view_def with_origin_def)
qed

text \<open>An operation leaves the tables of the others alone.\<close>

lemma pg_frames:
  "pg_credentials t = pg_credentials s \<Longrightarrow> pg_fault t = pg_fault s \<Longrightarrow> PostgresStore_Get t = PostgresStore_Get s"
  "pg_index t = pg_index s \<Longrightarrow> pg_fault t = pg_fault s \<Longrightarrow> PostgresStore_Contains t = PostgresStore_Contains s"
  "pg_agents t = pg_agents s \<Longrightarrow> pg_fault t = pg_fault s \<Longrightarrow> PostgresStore_GetAgent t = PostgresStore_GetAgent s"
  "pg_revocations t = pg_revocations s \<Longrightarrow> pg_latest t = pg_latest s"
  by (simp_all add: fun_eq_iff PostgresStore_Get_def find_credential_def PostgresStore_Contains_def PostgresStore_GetAgent_def
      accepts_def pg_latest_def rows_for_def)

interpretation pg: store_contract "postgres_store C" C "pg_inv C" pg_latest proper_subject for C
proof
  fix s s' :: pg_store and now q :: i64 and r cid c d y k :: string and ch ds and e :: rev_entry and oa a x
  assume inv: "pg_inv C s"
  show "st_PutCredential (postgres_store C) now s r = Inr (cid, s') \<Longrightarrow> pg_inv C s'"
    using inv by (auto intro: PutCredential_pg_inv)
  show "st_Register (postgres_store C) s c ch = Inr s' \<Longrightarrow> pg_inv C s'" using inv by (auto intro: Register_pg_inv)
  show "st_Revoke (postgres_store C) s e = Inr s' \<Longrightarrow> pg_inv C s'" using inv by (auto intro: Revoke_pg_inv)
  show "st_PutAgent (postgres_store C) s oa = Inr s' \<Longrightarrow> pg_inv C s'" using inv by (auto intro: PutAgent_pg_inv)
  show "st_PutCredential (postgres_store C) now s r = Inr (cid, s') \<Longrightarrow> cid = ComputeCID C r"
    by (auto dest: put_cases(1))
  show "st_PutCredential (postgres_store C) now s r = Inr (cid, s') \<Longrightarrow>
      (\<exists>r'. st_Get (postgres_store C) s' cid = Inr r' \<and> (r' = r \<or> st_Get (postgres_store C) s cid = Inr r'))
      \<and> (\<forall>c. c \<noteq> cid \<longrightarrow> st_Get (postgres_store C) s' c = st_Get (postgres_store C) s c)"
    using put_get_pg [OF inv] by simp
  show "st_Get (postgres_store C) s c = Inr r \<Longrightarrow> ComputeCID C r = c"
    using inv find_credential_in [of s c] by (auto simp: PostgresStore_Get_def pg_inv_def split: if_splits option.splits)
  show "st_PutCredential (postgres_store C) now s r = Inr (cid, s') \<Longrightarrow>
      st_Contains (postgres_store C) s' = st_Contains (postgres_store C) s \<and> pg_latest s' = pg_latest s
      \<and> st_GetAgent (postgres_store C) s' = st_GetAgent (postgres_store C) s"
    using put_cases(3) [of C now s r cid s'] by (auto intro: pg_frames)
  show "st_Register (postgres_store C) s c ch = Inr s' \<Longrightarrow> st_Contains (postgres_store C) s' d y
      \<longleftrightarrow> st_Contains (postgres_store C) s d y \<or> (d = c \<and> y \<in> set ch)"
    using Register_pg_contains [OF inv] by simp
  show "st_Register (postgres_store C) s c ch = Inr s' \<Longrightarrow> st_Get (postgres_store C) s' = st_Get (postgres_store C) s
      \<and> pg_latest s' = pg_latest s \<and> st_GetAgent (postgres_store C) s' = st_GetAgent (postgres_store C) s"
    by (auto simp: PostgresStore_Register_def intro: pg_frames split: if_splits)
  show "st_FindDescendants (postgres_store C) s y = Inr ds \<Longrightarrow> set ds = {d. st_Contains (postgres_store C) s d y \<and> d \<noteq> y}"
    using FindDescendants_pg_set [OF inv] by simp
  show "st_Revoke (postgres_store C) s e = Inr s' \<Longrightarrow> proper_subject (re_subject e) \<Longrightarrow>
      st_CurrentSeq (postgres_store C) s (Key (re_subject e)) = Inr q \<Longrightarrow> re_seq e = q + 1 \<Longrightarrow> k \<noteq> [] \<Longrightarrow>
      pg_latest s' k = (if k = Key (re_subject e) then Some e else pg_latest s k)"
    using Revoke_pg_latest [OF inv] by simp
  show "st_Revoke (postgres_store C) s e = Inr s' \<Longrightarrow> Key (re_subject e) \<noteq> []"
    by (auto elim!: revoke_cases simp: Key_def)
  show "st_Revoke (postgres_store C) s e = Inr s' \<Longrightarrow> st_Get (postgres_store C) s' = st_Get (postgres_store C) s
      \<and> st_Contains (postgres_store C) s' = st_Contains (postgres_store C) s
      \<and> st_GetAgent (postgres_store C) s' = st_GetAgent (postgres_store C) s"
    by (auto elim!: revoke_cases intro: pg_frames)
  show "st_CurrentSeq (postgres_store C) s k = Inr q \<Longrightarrow> q = (case pg_latest s k of None \<Rightarrow> 0 | Some e \<Rightarrow> re_seq e)"
    by (auto simp: PostgresStore_CurrentSeq_def pg_latest_def max_seq_def scanRevocation_def split: if_splits option.splits)
  show "st_GetStatus (postgres_store C) s k = Inr x \<Longrightarrow> x = (case pg_latest s k of None \<Rightarrow> None
      | Some e \<Rightarrow> if re_status e = StatusReinstated then None else Some e)"
    by (auto simp: PostgresStore_GetStatus_def pg_latest_def scanRevocation_def split: if_splits option.splits)
  show "st_PutAgent (postgres_store C) s (Some a) = Inr s' \<Longrightarrow> (\<exists>b'. st_GetAgent (postgres_store C) s' (ag_did a) = Inr b'
        \<and> (agent_view b' = agent_view a \<or> (\<exists>c. st_GetAgent (postgres_store C) s (ag_did a) = Inr c \<and> agent_view b' = agent_view (with_origin c a))))
        \<and> (\<forall>d. d \<noteq> ag_did a \<longrightarrow> st_GetAgent (postgres_store C) s' d = st_GetAgent (postgres_store C) s d)"
    using PutAgent_pg_get [OF inv] by simp
  show "st_PutAgent (postgres_store C) s oa = Inr s' \<Longrightarrow> st_Get (postgres_store C) s' = st_Get (postgres_store C) s
      \<and> st_Contains (postgres_store C) s' = st_Contains (postgres_store C) s \<and> pg_latest s' = pg_latest s"
    by (auto elim!: PutAgent_pg intro: pg_frames)
qed (simp add: proper_subject_def)

end
