(* ===== verification/Postgres_Keys.thy ===== *)
theory Postgres_Keys
  imports Postgres_Store
begin

text \<open>
  \<open>store/postgres/keystore.go\<close>: the custodial key store over PostgreSQL, with the conventions of
  \<open>Postgres_Store\<close>.  The column \<open>created_at\<close> is written and never read and is left out.
\<close>

datatype key_statement = QStoreKey | QLoadKey | QDeleteKey | QListKeys

record pg_keys =
  pk_fault :: "key_statement \<Rightarrow> bool"
  pk_rows :: "(string \<times> bytes) list"

definition key_accepts :: "pg_keys \<Rightarrow> key_statement \<Rightarrow> string list \<Rightarrow> bool" where
  "key_accepts k q params \<longleftrightarrow> \<not> pk_fault k q \<and> pg_texts params"

definition KeyStore_Store :: "pg_keys \<Rightarrow> string \<Rightarrow> bytes \<Rightarrow> id_error + pg_keys" where
  "KeyStore_Store k did priv =
     (if did = [] then Inl ErrEmptyDID
      else if length priv \<noteq> PrivateKeySize then Inl ErrInvalidKeySize
      else if \<not> key_accepts k QStoreKey [did] then Inl ErrKeyBackend
      else Inr (k\<lparr>pk_rows := AList.update did priv (pk_rows k)\<rparr>))"

definition KeyStore_Load :: "pg_keys \<Rightarrow> string \<Rightarrow> id_error + bytes" where
  "KeyStore_Load k did =
     (if \<not> key_accepts k QLoadKey [did] then Inl ErrKeyBackend
      else case map_of (pk_rows k) did of
        None \<Rightarrow> Inl ErrKeyNotFound
      | Some raw' \<Rightarrow> if length raw' \<noteq> PrivateKeySize then Inl ErrInvalidKeySize else Inr raw')"

text \<open>\<open>RowsAffected\<close> is the number of deleted rows.\<close>

definition KeyStore_Delete :: "pg_keys \<Rightarrow> string \<Rightarrow> id_error + pg_keys" where
  "KeyStore_Delete k did =
     (if \<not> key_accepts k QDeleteKey [did] then Inl ErrKeyBackend
      else let rows = filter (\<lambda>r. fst r \<noteq> did) (pk_rows k) in
        if length (pk_rows k) - length rows = 0 then Inl ErrKeyNotFound else Inr (k\<lparr>pk_rows := rows\<rparr>))"

definition KeyStore_List :: "pg_keys \<Rightarrow> string list" where
  "KeyStore_List k =
     (if \<not> key_accepts k QListKeys [] then []
      else sort_by (\<lambda>a b. lex_less (map byte a) (map byte b)) (map fst (pk_rows k)))"

definition postgres_keystore :: "pg_keys keys" where
  "postgres_keystore = \<lparr>ks_Store = KeyStore_Store, ks_Load = KeyStore_Load\<rparr>"

subsection \<open>The contract of the key store\<close>

definition pg_keys_inv :: "pg_keys \<Rightarrow> bool" where
  "pg_keys_inv k \<longleftrightarrow> (\<forall>q. \<not> pk_fault k q) \<and> distinct (map fst (pk_rows k))
     \<and> (\<forall>(did, key) \<in> set (pk_rows k). did \<noteq> [] \<and> pg_text did \<and> length key = PrivateKeySize)"

lemmas key_defs = key_accepts_def pg_texts_def pg_keys_inv_def

lemma keys_row:
  assumes "pg_keys_inv k" and "map_of (pk_rows k) did = Some key"
  shows "pg_text did" and "length key = PrivateKeySize"
  using assms map_of_SomeD [OF assms(2)] by (auto simp: pg_keys_inv_def)

lemma Store_keys_inv:
  assumes "pg_keys_inv k" and "KeyStore_Store k did key = Inr k'"
  shows "pg_keys_inv k'"
proof -
  have sub: "set (AList.update did key rows) \<subseteq> insert (did, key) (set rows)" for rows
    by (induction rows) auto
  from assms show ?thesis using subsetD [OF sub]
    by (fastforce simp: KeyStore_Store_def key_defs distinct_fst_update split: if_splits)
qed

lemma Delete_rows:
  "KeyStore_Delete k did = Inr k' \<longleftrightarrow> key_accepts k QDeleteKey [did] \<and> did \<in> fst ` set (pk_rows k)
    \<and> k' = k\<lparr>pk_rows := filter (\<lambda>r. fst r \<noteq> did) (pk_rows k)\<rparr>"
proof -
  have "length (pk_rows k) - length (filter (\<lambda>r. fst r \<noteq> did) (pk_rows k)) = 0 \<longleftrightarrow> did \<notin> fst ` set (pk_rows k)"
  proof (cases "did \<in> fst ` set (pk_rows k)")
    case True
    then obtain r where "r \<in> set (pk_rows k)" "\<not> fst r \<noteq> did" by auto
    from length_filter_less [where P = "\<lambda>r. fst r \<noteq> did", OF this] True show ?thesis by linarith
  next
    case False
    then have "filter (\<lambda>r. fst r \<noteq> did) (pk_rows k) = pk_rows k" by (auto simp: filter_id_conv)
    with False show ?thesis by simp
  qed
  then show ?thesis by (auto simp: KeyStore_Delete_def Let_def)
qed

lemma map_of_filter_key: "map_of (filter (\<lambda>r. fst r \<noteq> did) rows) d = (if d = did then None else map_of rows d)"
  by (induction rows) auto

interpretation postgres_keys: key_store_interface KeyStore_Store KeyStore_Load KeyStore_Delete KeyStore_List pg_keys_inv
proof
  fix s s' :: pg_keys and did d :: string and k :: bytes
  assume inv: "pg_keys_inv s"
  show "KeyStore_Store s did k = Inr s' \<Longrightarrow> pg_keys_inv s'" using inv by (rule Store_keys_inv)
  show "KeyStore_Delete s did = Inr s' \<Longrightarrow> pg_keys_inv s'"
    using inv by (auto simp: Delete_rows key_defs distinct_map_filter)
  show "KeyStore_Store s did k = Inr s' \<Longrightarrow> KeyStore_Load s' d = (if d = did then Inr k else KeyStore_Load s d)"
    using inv by (auto simp: KeyStore_Store_def KeyStore_Load_def key_defs update_conv split: if_splits)
  show "KeyStore_Delete s did = Inr s' \<Longrightarrow> KeyStore_Load s' d = (if d = did then Inl ErrKeyNotFound else KeyStore_Load s d)"
    using inv by (auto simp: Delete_rows KeyStore_Load_def key_defs map_of_filter_key)
  show "KeyStore_Load s did = Inl ErrKeyNotFound \<Longrightarrow> KeyStore_Delete s did = Inl ErrKeyNotFound"
    using inv Delete_rows [of s did] by (cases "KeyStore_Delete s did")
      (auto simp: KeyStore_Load_def KeyStore_Delete_def Let_def key_defs map_of_eq_None_iff split: if_splits option.splits)
  show "set (KeyStore_List s) = {d. is_ok (KeyStore_Load s d)}"
  proof -
    have "is_ok (KeyStore_Load s d) \<longleftrightarrow> d \<in> fst ` set (pk_rows s)" for d
    proof (cases "map_of (pk_rows s) d")
      case None
      moreover from this have "d \<notin> fst ` set (pk_rows s)" by (simp add: map_of_eq_None_iff)
      ultimately show ?thesis by (simp add: KeyStore_Load_def)
    next
      case (Some k)
      from keys_row [OF inv Some] map_of_SomeD [OF Some] inv Some show ?thesis
        by (force simp: KeyStore_Load_def key_defs)
    qed
    moreover have "set (KeyStore_List s) = fst ` set (pk_rows s)" using inv by (simp add: KeyStore_List_def key_defs)
    ultimately show ?thesis by auto
  qed
qed

end
