(* ===== verification/Postgres_Audit.thy ===== *)
theory Postgres_Audit
  imports Postgres_Store
begin

text \<open>
  \<open>store/postgres/audit.go\<close>: the hash-linked audit log over PostgreSQL, with the conventions of
  \<open>Postgres_Store\<close>.  The payload is kept in a \<open>jsonb\<close> column, whose input and output the server defines and
  which is therefore part of the state; reading it back goes through \<open>map[string]any\<close>, so its numbers through
  \<open>float64\<close>: what a number literal becomes on that way (nothing when it is out of range) is an argument.
  Rows are in the order of the primary key.  A table cannot hold more rows than fit its
  4,294,967,295 pages of at most 32 kilobytes.  Failures of the server and payloads that cannot be read
  back share a constructor.
\<close>

datatype audit_statement = QAuditLock | QAuditInsert | QAuditQuery | QAuditVerify

record audit_row =
  aw_seq :: i64
  aw_id :: string
  aw_ts :: i64
  aw_type :: string
  aw_agent :: string
  aw_cred :: string
  aw_chain :: string
  aw_payload :: bytes
  aw_prev :: string
  aw_hash :: string

record pg_audit =
  pa_fault :: "audit_statement \<Rightarrow> bool"
  pa_jsonb :: "bytes \<Rightarrow> bytes option"
  pa_rows :: "audit_row list"

definition pg_max_rows :: nat where "pg_max_rows = 4294967295 * 2048"

subsection \<open>Payloads\<close>

fun json_numbers :: "json \<Rightarrow> string list" where
  "json_numbers (JNum n) = [n]"
| "json_numbers (JArr vs) = concat (map json_numbers vs)"
| "json_numbers (JObj ms) = concat (map (\<lambda>(k, v). json_numbers v) ms)"
| "json_numbers v = []"

fun map_numbers :: "(string \<Rightarrow> string) \<Rightarrow> json \<Rightarrow> json" where
  "map_numbers f (JNum n) = JNum (f n)"
| "map_numbers f (JArr vs) = JArr (map (map_numbers f) vs)"
| "map_numbers f (JObj ms) = JObj (map (\<lambda>(k, v). (k, map_numbers f v)) ms)"
| "map_numbers f v = v"

definition unmarshal_any :: "(string \<Rightarrow> string option) \<Rightarrow> bytes \<Rightarrow> json option" where
  "unmarshal_any fl s =
     (case json_decode s of
        None \<Rightarrow> None
      | Some v \<Rightarrow> if list_all (\<lambda>n. fl n \<noteq> None) (json_numbers v) then Some (map_numbers (\<lambda>n. the (fl n)) v) else None)"

definition unmarshal_payload :: "(string \<Rightarrow> string option) \<Rightarrow> bytes \<Rightarrow> audit_error + payload" where
  "unmarshal_payload fl s =
     (case unmarshal_any fl s of
        Some (JObj ms) \<Rightarrow> Inr (Some ms)
      | Some JNull \<Rightarrow> Inr None
      | _ \<Rightarrow> Inl ErrAuditBackend)"

subsection \<open>Operations\<close>

definition audit_row_of :: "audit_entry \<Rightarrow> bytes \<Rightarrow> audit_row" where
  "audit_row_of e pl =
     \<lparr>aw_seq = ae_seq e, aw_id = ae_id e, aw_ts = ae_ts e, aw_type = ae_type e, aw_agent = ae_agent e,
      aw_cred = ae_cred e, aw_chain = ae_chain e, aw_payload = pl, aw_prev = ae_prev e, aw_hash = ae_hash e\<rparr>"

text \<open>The insert: the server refuses what is not text or not \<open>jsonb\<close>, a duplicate key, and a full table.\<close>

definition insert_row :: "pg_audit \<Rightarrow> audit_entry \<Rightarrow> bytes \<Rightarrow> pg_audit option" where
  "insert_row l e payloadJSON =
     (case pa_jsonb l payloadJSON of
        None \<Rightarrow> None
      | Some pl \<Rightarrow>
          if pa_fault l QAuditInsert \<or> \<not> pg_texts [ae_id e, ae_type e, ae_agent e, ae_cred e, ae_chain e, ae_prev e, ae_hash e]
             \<or> ae_seq e \<in> aw_seq ` set (pa_rows l) \<or> ae_id e \<in> aw_id ` set (pa_rows l) \<or> pg_max_rows \<le> length (pa_rows l)
          then None
          else Some (l\<lparr>pa_rows := insort_by (\<lambda>a b. slt (aw_seq a) (aw_seq b)) (audit_row_of e pl) (pa_rows l)\<rparr>))"

definition pg_stamped :: "i64 \<Rightarrow> pg_audit \<Rightarrow> audit_entry \<Rightarrow> string \<Rightarrow> audit_entry" where
  "pg_stamped now l entry hash =
     (let sq = (if pa_rows l = [] then 0 else aw_seq (last (pa_rows l))) + 1 in
      entry\<lparr>ae_seq := sq, ae_ts := (if ae_ts entry = 0 then now else ae_ts entry),
        ae_payload := Some (payload_members (ae_payload entry)),
        ae_prev := (if pa_rows l = [] then [] else aw_hash (last (pa_rows l))), ae_hash := hash,
        ae_id := ''ae_'' @ itoa (sint sq) @ ''_'' @ take 12 hash\<rparr>)"

definition PostgresLog_Append :: "crypto \<Rightarrow> i64 \<Rightarrow> pg_audit \<Rightarrow> audit_entry \<Rightarrow> (audit_error + unit) \<times> pg_audit" where
  "PostgresLog_Append C now l entry =
     (if pa_fault l QAuditLock then (Inl ErrAuditBackend, l)
      else case stored_hash C (pg_stamped now l entry []) of
        Inl e \<Rightarrow> (Inl (ErrHashEntry e), l)
      | Inr hash \<Rightarrow>
          (case insert_row l (pg_stamped now l entry hash) (json_marshal (JObj (payload_members (ae_payload entry)))) of
             None \<Rightarrow> (Inl ErrAuditBackend, l)
           | Some l' \<Rightarrow> (Inr (), l')))"

definition entry_of_row :: "(string \<Rightarrow> string option) \<Rightarrow> audit_row \<Rightarrow> audit_error + audit_entry" where
  "entry_of_row fl r =
     bindE (unmarshal_payload fl (aw_payload r)) (\<lambda>pl.
       Inr \<lparr>ae_id = aw_id r, ae_seq = aw_seq r, ae_ts = aw_ts r, ae_type = aw_type r, ae_agent = aw_agent r,
         ae_cred = aw_cred r, ae_chain = aw_chain r, ae_payload = pl, ae_prev = aw_prev r, ae_hash = aw_hash r\<rparr>)"

definition row_matches :: "audit_filter \<Rightarrow> audit_row \<Rightarrow> bool" where
  "row_matches f r \<longleftrightarrow> (f_type f \<noteq> [] \<longrightarrow> aw_type r = f_type f) \<and> (f_agent f \<noteq> [] \<longrightarrow> aw_agent r = f_agent f)
     \<and> (f_since f \<noteq> 0 \<longrightarrow> sle (f_since f) (aw_ts r))"

fun mapE :: "('a \<Rightarrow> 'e + 'b) \<Rightarrow> 'a list \<Rightarrow> 'e + 'b list" where
  "mapE f [] = Inr []"
| "mapE f (x # xs) = bindE (f x) (\<lambda>y. bindE (mapE f xs) (\<lambda>ys. Inr (y # ys)))"

definition PostgresLog_Query :: "(string \<Rightarrow> string option) \<Rightarrow> pg_audit \<Rightarrow> audit_filter \<Rightarrow> audit_error + audit_entry list" where
  "PostgresLog_Query fl l f =
     (if pa_fault l QAuditQuery \<or> \<not> pg_texts [f_type f, f_agent f] then Inl ErrAuditBackend
      else mapE (entry_of_row fl) (filter (row_matches f) (pa_rows l)))"

fun verifyRows :: "(string \<Rightarrow> string option) \<Rightarrow> crypto \<Rightarrow> string \<Rightarrow> audit_row list \<Rightarrow> audit_error + unit" where
  "verifyRows fl C prev [] = Inr ()"
| "verifyRows fl C prev (r # rs) =
     (if aw_prev r \<noteq> prev then Inl ErrChainTampered
      else bindE (unmarshal_payload fl (aw_payload r)) (\<lambda>pl.
        case ComputeEntryHash C (aw_seq r) (aw_ts r) (aw_prev r) (aw_type r) (aw_agent r) (aw_cred r) (aw_chain r) pl of
          Inl x \<Rightarrow> Inl (ErrHashEntry x)
        | Inr hash \<Rightarrow> if hash \<noteq> aw_hash r then Inl ErrChainTampered else verifyRows fl C (aw_hash r) rs))"

definition PostgresLog_VerifyChain :: "(string \<Rightarrow> string option) \<Rightarrow> crypto \<Rightarrow> pg_audit \<Rightarrow> audit_error + unit" where
  "PostgresLog_VerifyChain fl C l =
     (if pa_fault l QAuditVerify then Inl ErrAuditBackend else verifyRows fl C [] (pa_rows l))"

end
