(* ===== verification/Postgres_Chain.thy ===== *)
theory Postgres_Chain
  imports Postgres_Audit
begin

text \<open>
  The audit log over PostgreSQL verifies although the server rewrites every payload: what the \<open>jsonb\<close> column
  and the numbers of Go are documented to keep, the invariant of the log, and the interpretation of
  \<open>audit_log_interface\<close>.
\<close>

subsection \<open>What the representations keep\<close>

text \<open>\<open>jsonb\<close> keeps the document up to white space, key order and duplicate keys; integers keep their digits,
  negative zero becomes zero.\<close>

definition documented_jsonb :: "(bytes \<Rightarrow> bytes option) \<Rightarrow> bool" where
  "documented_jsonb j \<longleftrightarrow> (\<forall>s t v. j s = Some t \<and> json_decode s = Some v \<and> wf_json v \<and> canonical_ok v \<longrightarrow>
     (\<exists>w. json_decode t = Some w \<and> wf_json w \<and> canonical_ok w \<and> normal w = normal v))"

text \<open>The integers a \<open>float64\<close> holds exactly and \<open>encoding/json\<close> writes back with the same digits.\<close>

definition exact_number :: "string \<Rightarrow> bool" where
  "exact_number n \<longleftrightarrow> n = ''-0'' \<or> (case atoi n of None \<Rightarrow> False | Some i \<Rightarrow> \<bar>i\<bar> \<le> 2 ^ 53 \<and> itoa i = n)"

definition exact_floats :: "(string \<Rightarrow> string option) \<Rightarrow> bool" where
  "exact_floats fl \<longleftrightarrow> (\<forall>n. exact_number n \<longrightarrow> fl n = Some n)"

definition exact_payload :: "audit_entry \<Rightarrow> bool" where
  "exact_payload e \<longleftrightarrow> wf_json (JObj (payload_members (ae_payload e)))
     \<and> list_all exact_number (json_numbers (JObj (payload_members (ae_payload e))))"

definition fold_zero :: "string \<Rightarrow> string" where
  "fold_zero n = (if n = ''-0'' then ''0'' else n)"

lemma numbers_of_normal: "set (json_numbers (normal v)) = fold_zero ` set (json_numbers v)"
proof (induction v rule: json_tree_induct)
  case (JObj ms)
  have img: "set (json_numbers (JObj xs)) = (\<Union>m \<in> set xs. set (json_numbers (snd m)))" for xs
    by (simp add: split_def)
  have "set (json_numbers (normal (JObj ms))) = (\<Union>m \<in> set ms. set (json_numbers (normal (snd m))))"
    unfolding normal.simps img set_sort_by by (simp add: split_def)
  also have "\<dots> = (\<Union>m \<in> set ms. fold_zero ` set (json_numbers (snd m)))"
  proof (rule SUP_cong [OF refl])
    fix m assume "m \<in> set ms"
    then show "set (json_numbers (normal (snd m))) = fold_zero ` set (json_numbers (snd m))"
      by (intro JObj [of "fst m"]) simp
  qed
  also have "\<dots> = fold_zero ` set (json_numbers (JObj ms))"
    unfolding img by (rule image_UN [symmetric])
  finally show ?case .
next
  case (JArr vs)
  then show ?case by (simp add: image_UN)
qed (simp_all add: fold_zero_def)

lemma exact_zero: "exact_number ''0''"
  by code_simp

lemma exact_fold: "exact_number (fold_zero n) \<longleftrightarrow> exact_number n"
  using exact_zero by (simp add: fold_zero_def exact_number_def)

lemma exact_normal:
  assumes "normal w = normal v"
  shows "list_all exact_number (json_numbers w) \<longleftrightarrow> list_all exact_number (json_numbers v)"
proof -
  have e: "list_all exact_number (json_numbers u) \<longleftrightarrow> (\<forall>n \<in> set (json_numbers (normal u)). exact_number n)" for u
    unfolding numbers_of_normal list_all_iff ball_simps exact_fold ..
  show ?thesis unfolding e assms ..
qed

lemma map_numbers_id: "(\<And>n. n \<in> set (json_numbers v) \<Longrightarrow> f n = n) \<Longrightarrow> map_numbers f v = v"
proof (induction v rule: json_tree_induct)
  case (JArr vs)
  then have "map (map_numbers f) vs = map id vs" by (intro map_cong) auto
  then show ?case by simp
next
  case (JObj ms)
  have "map_numbers f v = v" if m: "(k, v) \<in> set ms" for k v
    by (rule JObj.IH [OF m], rule JObj.prems) (use m in force)
  then have "map (\<lambda>(k, v). (k, map_numbers f v)) ms = map id ms" by (intro map_cong) auto
  then show ?case by simp
qed auto

lemma unmarshal_exact:
  assumes "exact_floats fl" and "json_decode s = Some v" and "list_all exact_number (json_numbers v)"
  shows "unmarshal_any fl s = Some v"
  using assms map_numbers_id [of v "\<lambda>n. the (fl n)"]
  by (auto simp: unmarshal_any_def exact_floats_def list_all_iff)

text \<open>A stored payload reads back as one with the same canonical form.\<close>

lemma stored_payload:
  assumes "documented_jsonb j" and "exact_floats fl" and "j (json_marshal (JObj ms)) = Some t"
    and "wf_json (JObj ms)" and "canonical_ok (JObj ms)" and "list_all exact_number (json_numbers (JObj ms))"
  obtains ws where "unmarshal_payload fl t = Inr (Some ws)" "wf_json (JObj ws)" "canonical_ok (JObj ws)"
    "normal (JObj ws) = normal (JObj ms)"
proof -
  from assms(1,3-5) json_decode_marshal [OF assms(4)] obtain w where
    w: "json_decode t = Some w" "wf_json w" "canonical_ok w" "normal w = normal (JObj ms)"
    unfolding documented_jsonb_def by blast
  then obtain ws where ws: "w = JObj ws" by (cases w) auto
  have "list_all exact_number (json_numbers w)" using exact_normal [OF w(4)] assms(6) by blast
  from unmarshal_exact [OF assms(2) w(1) this] have "unmarshal_payload fl t = Inr (Some ws)"
    by (simp add: unmarshal_payload_def ws)
  with w ws that show ?thesis by blast
qed

subsection \<open>The hash of a row\<close>

lemma entry_json_wf:
  assumes "utf8_valid prv" "utf8_valid ty" "utf8_valid ag" "utf8_valid cr" "utf8_valid ch" and "wf_json (JObj ms)"
  shows "wf_json (entry_json sq ts prv ty ag cr ch (Some ms))"
proof -
  have "list_all utf8_valid [''agent_id'', ''chain_hash'', ''cred_cid'', ''event_type'', ''payload'', ''prev_hash'', ''seq'', ''ts'']"
    by code_simp
  with assms show ?thesis by (simp add: entry_json_def payload_members_def)
qed

lemma entry_hash_normal:
  assumes "entryHash C sq ts prv ty ag cr ch (Some ms) = Inr h" and "utf8_valid prv" "utf8_valid ty" "utf8_valid ag" "utf8_valid cr" "utf8_valid ch"
    and "wf_json (JObj ms)" and "wf_json (JObj ws)" and "canonical_ok (JObj ws)" and "normal (JObj ws) = normal (JObj ms)"
  shows "entryHash C sq ts prv ty ag cr ch (Some ws) = Inr h"
proof -
  let ?v = "\<lambda>xs. entry_json sq ts prv ty ag cr ch (Some xs)"
  note wf = entry_json_wf [OF assms(2-6,7), of sq ts] entry_json_wf [OF assms(2-6,8), of sq ts]
  from assms(1) obtain c where c: "CanonicalizeValue (?v ms) = Inr c" "h = hex_encode (sha256 C c)"
    by (auto simp: entryHash_def err_simps)
  from c(1) have "canonical_ok (?v ms)" "c = write_tree (normal (?v ms))" unfolding CanonicalizeValue_eq [OF wf(1)] by auto
  moreover have "canonical_ok (?v ws)" using calculation(1) assms(9) by (simp add: entry_json_def payload_members_def)
  moreover have "normal (?v ws) = normal (?v ms)" using assms(10) by (simp add: entry_json_def payload_members_def)
  ultimately have "CanonicalizeValue (?v ws) = Inr c" unfolding CanonicalizeValue_eq [OF wf(2)] by simp
  with c(2) show ?thesis by (simp add: entryHash_def)
qed

lemma hashed_canonical:
  assumes "entryHash C sq ts prv ty ag cr ch (Some ms) = Inr h" and "utf8_valid prv" "utf8_valid ty" "utf8_valid ag" "utf8_valid cr" "utf8_valid ch"
    and "wf_json (JObj ms)"
  shows "canonical_ok (JObj ms)"
proof -
  note wf = entry_json_wf [OF assms(2-7), of sq ts]
  from assms(1) obtain c where "CanonicalizeValue (entry_json sq ts prv ty ag cr ch (Some ms)) = Inr c"
    by (auto simp: entryHash_def err_simps)
  then show ?thesis unfolding CanonicalizeValue_eq [OF wf] by (simp add: entry_json_def payload_members_def)
qed

subsection \<open>The invariant\<close>

definition numbered :: "audit_row list \<Rightarrow> bool" where
  "numbered rows \<longleftrightarrow> map aw_seq rows = map (\<lambda>i. word_of_nat (Suc i)) [0..<length rows]"

definition pg_audit_inv :: "(string \<Rightarrow> string option) \<Rightarrow> crypto \<Rightarrow> pg_audit \<Rightarrow> bool" where
  "pg_audit_inv fl C l \<longleftrightarrow> \<not> pa_fault l QAuditVerify \<and> documented_jsonb (pa_jsonb l) \<and> exact_floats fl
     \<and> numbered (pa_rows l) \<and> length (pa_rows l) \<le> pg_max_rows \<and> verifyRows fl C [] (pa_rows l) = Inr ()"

definition last_row_hash :: "string \<Rightarrow> audit_row list \<Rightarrow> string" where
  "last_row_hash prv rows = (if rows = [] then prv else aw_hash (last rows))"

lemma verifyRows_append:
  "verifyRows fl C prv (rs @ qs) = bindE (verifyRows fl C prv rs) (\<lambda>_. verifyRows fl C (last_row_hash prv rs) qs)"
proof (induction rs arbitrary: prv)
  case (Cons r rs)
  have "last_row_hash prv (r # rs) = last_row_hash (aw_hash r) rs" by (simp add: last_row_hash_def)
  with Cons.IH [of "aw_hash r"] show ?case
    by (cases "unmarshal_payload fl (aw_payload r)") (auto split: sum.splits)
qed (simp add: last_row_hash_def)

lemma sint_row_number:
  assumes "n \<le> Suc pg_max_rows" shows "sint (word_of_nat n :: i64) = int n"
proof -
  have "int n < 2 ^ 63" using assms by (simp add: pg_max_rows_def)
  then show ?thesis using i64_of_int [of "int n"] by simp
qed

lemma numbered_last:
  assumes "numbered rows"
  shows "(if rows = [] then 0 else aw_seq (last rows)) = word_of_nat (length rows)"
proof (cases "rows = []")
  case False
  then have "aw_seq (last rows) = map aw_seq rows ! (length rows - 1)" by (simp add: last_conv_nth)
  also have "\<dots> = word_of_nat (Suc (length rows - 1))" using assms False by (simp add: numbered_def del: of_nat_Suc)
  also have "Suc (length rows - 1) = length rows" using False by simp
  finally show ?thesis using False by simp
qed simp

lemma numbered_below:
  assumes "numbered rows" and "length rows \<le> pg_max_rows" and "r \<in> set rows"
  shows "slt (aw_seq r) (word_of_nat (Suc (length rows)))"
proof -
  from assms(3) obtain i where i: "i < length rows" "r = rows ! i" by (auto simp: in_set_conv_nth)
  then have "aw_seq r = map aw_seq rows ! i" by simp
  also have "\<dots> = word_of_nat (Suc i)" using assms(1) i(1) by (simp add: numbered_def)
  finally show ?thesis using sint_row_number [of "Suc i"] sint_row_number [of "Suc (length rows)"] i(1) assms(2) by simp
qed

lemma numbered_snoc:
  "numbered rows \<Longrightarrow> aw_seq r = word_of_nat (Suc (length rows)) \<Longrightarrow> numbered (rows @ [r])"
  by (simp add: numbered_def)

lemma insort_last: "(\<And>y. y \<in> set ys \<Longrightarrow> \<not> lt x y) \<Longrightarrow> insort_by lt x ys = ys @ [x]"
  by (induction ys) auto

lemma pg_append_cases:
  assumes "PostgresLog_Append C now l e = (r, l')" and "numbered (pa_rows l)" and "length (pa_rows l) \<le> pg_max_rows"
  obtains (failed) x where "r = Inl x" "l' = l"
  | (posted) h pl where "r = Inr ()" "stored_hash C (pg_stamped now l e h) = Inr h"
      "pa_jsonb l (json_marshal (JObj (payload_members (ae_payload e)))) = Some pl"
      "pg_texts [ae_id (pg_stamped now l e h), ae_type e, ae_agent e, ae_cred e, ae_chain e, ae_prev (pg_stamped now l e h), h]"
      "length (pa_rows l) < pg_max_rows" "l' = l\<lparr>pa_rows := pa_rows l @ [audit_row_of (pg_stamped now l e h) pl]\<rparr>"
      "ae_seq (pg_stamped now l e h) = word_of_nat (Suc (length (pa_rows l)))"
proof (cases "pa_fault l QAuditLock \<or> (\<exists>x. stored_hash C (pg_stamped now l e []) = Inl x)")
  case True
  with assms(1) have "l' = l \<and> (\<exists>x. r = Inl x)" by (auto simp: PostgresLog_Append_def split: if_splits)
  with failed show ?thesis by blast
next
  case False
  then obtain h where h: "stored_hash C (pg_stamped now l e []) = Inr h" by (cases "stored_hash C (pg_stamped now l e [])") auto
  let ?e = "pg_stamped now l e h"
  have "stored_hash C ?e = Inr h" using h by (simp add: stored_hash_def pg_stamped_def Let_def)
  have sq: "ae_seq ?e = word_of_nat (Suc (length (pa_rows l)))"
    using numbered_last [OF assms(2)] by (simp add: pg_stamped_def Let_def add.commute)
  have fin: "insort_by (\<lambda>a b. slt (aw_seq a) (aw_seq b)) (audit_row_of ?e pl) (pa_rows l) = pa_rows l @ [audit_row_of ?e pl]" for pl
    by (rule insort_last) (use numbered_below [OF assms(2,3)] in \<open>force simp: audit_row_of_def sq\<close>)
  show ?thesis
  proof (cases "insert_row l ?e (json_marshal (JObj (payload_members (ae_payload e))))")
    case None
    with assms(1) h False show ?thesis by (intro failed) (auto simp: PostgresLog_Append_def)
  next
    case (Some l1)
    with assms(1) h False have "r = Inr ()" "l' = l1" by (auto simp: PostgresLog_Append_def)
    from Some obtain pl where pl: "pa_jsonb l (json_marshal (JObj (payload_members (ae_payload e)))) = Some pl"
      and t: "pg_texts [ae_id ?e, ae_type ?e, ae_agent ?e, ae_cred ?e, ae_chain ?e, ae_prev ?e, ae_hash ?e]"
      and n: "length (pa_rows l) < pg_max_rows" and l1: "l1 = l\<lparr>pa_rows := pa_rows l @ [audit_row_of ?e pl]\<rparr>"
      unfolding insert_row_def fin by (auto split: option.splits if_splits)
    have "ae_type ?e = ae_type e" "ae_agent ?e = ae_agent e" "ae_cred ?e = ae_cred e" "ae_chain ?e = ae_chain e" "ae_hash ?e = h"
      by (simp_all add: pg_stamped_def Let_def)
    with t have "pg_texts [ae_id ?e, ae_type e, ae_agent e, ae_cred e, ae_chain e, ae_prev ?e, h]" by simp
    from posted [OF \<open>r = Inr ()\<close> \<open>stored_hash C ?e = Inr h\<close> pl this n _ sq] l1 \<open>l' = l1\<close> show ?thesis by simp
  qed
qed

subsection \<open>The log stays verifiable\<close>

lemma pg_stamped_simps [simp]:
  "ae_hash (pg_stamped now l e h) = h" "ae_type (pg_stamped now l e h) = ae_type e"
  "ae_agent (pg_stamped now l e h) = ae_agent e" "ae_cred (pg_stamped now l e h) = ae_cred e"
  "ae_chain (pg_stamped now l e h) = ae_chain e"
  "ae_ts (pg_stamped now l e h) = (if ae_ts e = 0 then now else ae_ts e)"
  "ae_payload (pg_stamped now l e h) = Some (payload_members (ae_payload e))"
  "ae_prev (pg_stamped now l e h) = last_row_hash [] (pa_rows l)"
  by (simp_all add: pg_stamped_def Let_def last_row_hash_def)

text \<open>The row of an accepted entry reads back as an entry with the stored hash.\<close>

lemma posted_row:
  assumes "documented_jsonb (pa_jsonb l)" and "exact_floats fl" and "exact_payload e"
    and h: "stored_hash C (pg_stamped now l e h) = Inr h"
    and pl: "pa_jsonb l (json_marshal (JObj (payload_members (ae_payload e)))) = Some pl"
    and t: "pg_texts [ae_id (pg_stamped now l e h), ae_type e, ae_agent e, ae_cred e, ae_chain e, ae_prev (pg_stamped now l e h), h]"
  obtains ws where "unmarshal_payload fl pl = Inr (Some ws)"
    "normal (JObj ws) = normal (JObj (payload_members (ae_payload e)))"
    "verifyRows fl C (last_row_hash [] (pa_rows l)) [audit_row_of (pg_stamped now l e h) pl] = Inr ()"
proof -
  let ?e = "pg_stamped now l e h" and ?ms = "payload_members (ae_payload e)"
  have u: "utf8_valid (ae_prev ?e)" "utf8_valid (ae_type e)" "utf8_valid (ae_agent e)" "utf8_valid (ae_cred e)" "utf8_valid (ae_chain e)"
    using t by (simp_all add: pg_texts_def pg_text_def)
  have wf: "wf_json (JObj ?ms)" "list_all exact_number (json_numbers (JObj ?ms))" using assms(3) unfolding exact_payload_def by blast+
  have h': "entryHash C (ae_seq ?e) (ae_ts ?e) (ae_prev ?e) (ae_type e) (ae_agent e) (ae_cred e) (ae_chain e) (Some ?ms) = Inr h"
    using h by (simp add: stored_hash_def del: pg_stamped_simps(6,8))
  have c: "canonical_ok (JObj ?ms)" by (rule hashed_canonical [OF h' u wf(1)])
  from stored_payload [OF assms(1,2) pl wf(1) c wf(2)] obtain ws where
    ws: "unmarshal_payload fl pl = Inr (Some ws)" "wf_json (JObj ws)" "canonical_ok (JObj ws)" "normal (JObj ws) = normal (JObj ?ms)" by metis
  have "entryHash C (ae_seq ?e) (ae_ts ?e) (ae_prev ?e) (ae_type e) (ae_agent e) (ae_cred e) (ae_chain e) (Some ws) = Inr h"
    by (rule entry_hash_normal [OF h' u wf(1) ws(2-4)])
  then have "verifyRows fl C (last_row_hash [] (pa_rows l)) [audit_row_of ?e pl] = Inr ()"
    by (simp add: audit_row_of_def ws(1) ComputeEntryHash_def)
  with ws(1,4) that show ?thesis by blast
qed

lemma pg_append_inv:
  assumes "pg_audit_inv fl C l" and "exact_payload e" and "PostgresLog_Append C now l e = (r, l')"
  shows "pg_audit_inv fl C l'"
proof -
  note I = assms(1) [unfolded pg_audit_inv_def]
  from I have n: "numbered (pa_rows l)" "length (pa_rows l) \<le> pg_max_rows" by blast+
  show ?thesis
  proof (rule pg_append_cases [OF assms(3) n])
    fix x assume "l' = l"
    with assms(1) show ?thesis by simp
  next
    fix h pl
    let ?r = "audit_row_of (pg_stamped now l e h) pl"
    assume h: "stored_hash C (pg_stamped now l e h) = Inr h"
      and pl: "pa_jsonb l (json_marshal (JObj (payload_members (ae_payload e)))) = Some pl"
      and t: "pg_texts [ae_id (pg_stamped now l e h), ae_type e, ae_agent e, ae_cred e, ae_chain e, ae_prev (pg_stamped now l e h), h]"
      and len: "length (pa_rows l) < pg_max_rows" and l': "l' = l\<lparr>pa_rows := pa_rows l @ [?r]\<rparr>"
      and sq: "ae_seq (pg_stamped now l e h) = word_of_nat (Suc (length (pa_rows l)))"
    from posted_row [OF _ _ assms(2) h pl t] I have "verifyRows fl C (last_row_hash [] (pa_rows l)) [?r] = Inr ()" by metis
    with I have "verifyRows fl C [] (pa_rows l @ [?r]) = Inr ()" by (simp add: verifyRows_append)
    moreover have "aw_seq ?r = word_of_nat (Suc (length (pa_rows l)))" using sq by (simp add: audit_row_of_def)
    from numbered_snoc [OF n(1) this] have "numbered (pa_rows l @ [?r])" .
    ultimately show ?thesis using I len by (simp add: l' pg_audit_inv_def)
  qed
qed

definition pg_entries :: "(string \<Rightarrow> string option) \<Rightarrow> pg_audit \<Rightarrow> audit_entry list" where
  "pg_entries fl l = (case mapE (entry_of_row fl) (pa_rows l) of Inl _ \<Rightarrow> [] | Inr es \<Rightarrow> es)"

lemma mapE_append: "mapE f (xs @ ys) = bindE (mapE f xs) (\<lambda>as. bindE (mapE f ys) (\<lambda>bs. Inr (as @ bs)))"
proof (induction xs)
  case (Cons x xs)
  then show ?case by (cases "f x"; cases "mapE f xs"; cases "mapE f ys") auto
qed (cases "mapE f ys"; simp)

lemma verified_readable: "verifyRows fl C prv rows = Inr () \<Longrightarrow> \<exists>es. mapE (entry_of_row fl) rows = Inr es"
proof (induction rows arbitrary: prv)
  case (Cons r rows)
  then obtain pl where "unmarshal_payload fl (aw_payload r) = Inr pl" "verifyRows fl C (aw_hash r) rows = Inr ()"
    by (cases "unmarshal_payload fl (aw_payload r)") (auto split: if_splits sum.splits)
  with Cons.IH [of "aw_hash r"] show ?case by (auto simp: entry_of_row_def)
qed simp

lemma pg_append_ok:
  assumes "pg_audit_inv fl C l" and "exact_payload e" and "PostgresLog_Append C now l e = (Inr (), l')"
  shows "\<exists>x. pg_entries fl l' = pg_entries fl l @ [x]
      \<and> ae_type x = ae_type e \<and> ae_agent x = ae_agent e \<and> ae_cred x = ae_cred e
      \<and> ae_ts x = (if ae_ts e = 0 then now else ae_ts e)
      \<and> normal (JObj (payload_members (ae_payload x))) = normal (JObj (payload_members (ae_payload e)))"
proof -
  note I = assms(1) [unfolded pg_audit_inv_def]
  from I have n: "numbered (pa_rows l)" "length (pa_rows l) \<le> pg_max_rows" by blast+
  from I verified_readable obtain es where es: "mapE (entry_of_row fl) (pa_rows l) = Inr es" by blast
  show ?thesis
  proof (rule pg_append_cases [OF assms(3) n])
    fix h pl
    let ?r = "audit_row_of (pg_stamped now l e h) pl"
    assume h: "stored_hash C (pg_stamped now l e h) = Inr h"
      and pl: "pa_jsonb l (json_marshal (JObj (payload_members (ae_payload e)))) = Some pl"
      and t: "pg_texts [ae_id (pg_stamped now l e h), ae_type e, ae_agent e, ae_cred e, ae_chain e, ae_prev (pg_stamped now l e h), h]"
      and l': "l' = l\<lparr>pa_rows := pa_rows l @ [?r]\<rparr>"
    from posted_row [OF _ _ assms(2) h pl t] I obtain ws where ws: "unmarshal_payload fl pl = Inr (Some ws)"
      "normal (JObj ws) = normal (JObj (payload_members (ae_payload e)))" by metis
    let ?x = "(pg_stamped now l e h)\<lparr>ae_payload := Some ws\<rparr>"
    have "entry_of_row fl ?r = Inr ?x"
      by (cases "pg_stamped now l e h") (simp add: entry_of_row_def audit_row_of_def ws(1))
    then have "pg_entries fl l' = pg_entries fl l @ [?x]" by (simp add: pg_entries_def l' mapE_append es)
    moreover have "ae_type ?x = ae_type e \<and> ae_agent ?x = ae_agent e \<and> ae_cred ?x = ae_cred e
      \<and> ae_ts ?x = (if ae_ts e = 0 then now else ae_ts e)
      \<and> normal (JObj (payload_members (ae_payload ?x))) = normal (JObj (payload_members (ae_payload e)))"
      using ws(2) by (simp add: payload_members_def)
    ultimately show ?thesis by blast
  qed simp
qed

lemma pg_append_fail: "PostgresLog_Append C now l e = (Inl x, l') \<Longrightarrow> l' = l"
  by (auto simp: PostgresLog_Append_def split: if_splits sum.splits option.splits)

interpretation postgres_audit: audit_log_interface "PostgresLog_Append C" "pg_entries fl" "PostgresLog_VerifyChain fl C"
    "pg_audit_inv fl C" exact_payload for fl C
proof
  fix now :: i64 and s s' :: pg_audit and e :: audit_entry and r x
  assume inv: "pg_audit_inv fl C s"
  show "exact_payload e \<Longrightarrow> PostgresLog_Append C now s e = (r, s') \<Longrightarrow> pg_audit_inv fl C s'" by (rule pg_append_inv [OF inv])
  show "exact_payload e \<Longrightarrow> PostgresLog_Append C now s e = (Inr (), s') \<Longrightarrow> \<exists>x. pg_entries fl s' = pg_entries fl s @ [x]
      \<and> ae_type x = ae_type e \<and> ae_agent x = ae_agent e \<and> ae_cred x = ae_cred e
      \<and> ae_ts x = (if ae_ts e = 0 then now else ae_ts e)
      \<and> normal (JObj (payload_members (ae_payload x))) = normal (JObj (payload_members (ae_payload e)))"
    by (rule pg_append_ok [OF inv])
  show "PostgresLog_Append C now s e = (Inl x, s') \<Longrightarrow> pg_entries fl s' = pg_entries fl s"
    using pg_append_fail [of C now s e x s'] by simp
  show "PostgresLog_VerifyChain fl C s = Inr ()" using inv by (simp add: PostgresLog_VerifyChain_def pg_audit_inv_def)
qed

end
