(* ===== verification/Two_Stores.thy ===== *)
theory Two_Stores
  imports Store
begin

text \<open>
  Two backends under the contract of \<open>store.Store\<close> that agree on what they hold go on agreeing:
  the simulation by which one backend refines another.
\<close>

subsection \<open>Changes of a backend\<close>

datatype store_op = OpPut i64 bytes | OpRegister string "string list" | OpRevoke rev_entry | OpAgent "agent option"

fun apply_op :: "'s store \<Rightarrow> store_op \<Rightarrow> 's \<Rightarrow> 's option" where
  "apply_op S (OpPut now r) s = (case st_PutCredential S now s r of Inl _ \<Rightarrow> None | Inr (_, s') \<Rightarrow> Some s')"
| "apply_op S (OpRegister c ch) s = (case st_Register S s c ch of Inl _ \<Rightarrow> None | Inr s' \<Rightarrow> Some s')"
| "apply_op S (OpRevoke e) s = (case st_Revoke S s e of Inl _ \<Rightarrow> None | Inr s' \<Rightarrow> Some s')"
| "apply_op S (OpAgent a) s = (case st_PutAgent S s a of Inl _ \<Rightarrow> None | Inr s' \<Rightarrow> Some s')"

text \<open>Changes as the daemon makes them.  A revocation is of a proper subject, with the sequence number that follows.
  An agent is put under an identifier that is not taken, or with the sponsor and the registration time it was
  registered with.\<close>

fun daemon_op :: "'s store \<Rightarrow> (rev_subject \<Rightarrow> bool) \<Rightarrow> store_op \<Rightarrow> 's \<Rightarrow> bool" where
  "daemon_op S P (OpRevoke e) s = (P (re_subject e) \<and> st_CurrentSeq S s (Key (re_subject e)) = Inr (re_seq e - 1))"
| "daemon_op S P (OpAgent (Some a)) s = (\<forall>c. st_GetAgent S s (ag_did a) = Inr c \<longrightarrow> with_origin c a = a)"
| "daemon_op S P _ s = True"

fun apply_ops :: "'s store \<Rightarrow> (rev_subject \<Rightarrow> bool) \<Rightarrow> store_op list \<Rightarrow> 's \<Rightarrow> 's option" where
  "apply_ops S P [] s = Some s"
| "apply_ops S P (op # ops) s = (if daemon_op S P op s then Option.bind (apply_op S op s) (apply_ops S P ops) else None)"

fun put_bytes :: "store_op \<Rightarrow> bytes set" where
  "put_bytes (OpPut now r) = {r}"
| "put_bytes _ = {}"

definition stored_bytes :: "'s store \<Rightarrow> 's \<Rightarrow> bytes set" where
  "stored_bytes S s = {r. \<exists>c. st_Get S s c = Inr r}"

subsection \<open>What the daemon observes\<close>

text \<open>Backends agree when they hold the same credentials, registrations and latest revocation entries and answer
  alike for every agent; with which error a lookup fails is left open.\<close>

definition agent_answer :: "'s store \<Rightarrow> 's \<Rightarrow> string \<Rightarrow> (string \<times> string \<times> agent_state \<times> i64 \<times> i64) option" where
  "agent_answer S s d = (case st_GetAgent S s d of Inl _ \<Rightarrow> None | Inr a \<Rightarrow> Some (agent_view a))"

definition agree :: "'s store \<Rightarrow> ('s \<Rightarrow> string \<Rightarrow> rev_entry option) \<Rightarrow> 't store \<Rightarrow> ('t \<Rightarrow> string \<Rightarrow> rev_entry option)
    \<Rightarrow> 's \<Rightarrow> 't \<Rightarrow> bool" where
  "agree S ls T lt s t \<longleftrightarrow> (\<forall>c r. st_Get S s c = Inr r \<longleftrightarrow> st_Get T t c = Inr r)
     \<and> st_Contains S s = st_Contains T t \<and> (\<forall>k. k \<noteq> [] \<longrightarrow> ls s k = lt t k)
     \<and> agent_answer S s = agent_answer T t"

lemma agent_answer_eq: "agent_answer S s = (\<lambda>d. case st_GetAgent S s d of Inl _ \<Rightarrow> None | Inr a \<Rightarrow> Some (agent_view a))"
  by (simp add: agent_answer_def fun_eq_iff)

lemma agent_answer_Some: "agent_answer S s d = Some v \<longleftrightarrow> (\<exists>a. st_GetAgent S s d = Inr a \<and> v = agent_view a)"
  by (auto simp: agent_answer_def split: sum.splits)

locale two_stores =
  A: store_contract S C inv latest proper + B: store_contract T C inv' latest' proper'
  for S :: "'s store" and C inv latest proper and T :: "'t store" and inv' latest' proper' +
  assumes proper_weaker: "proper x \<Longrightarrow> proper' x"
    and put_total: "\<exists>t'. apply_op T (OpPut now r) t = Some t'"
    and register_total: "\<exists>t'. apply_op T (OpRegister c ch) t = Some t'"
    and revoke_total: "inv s \<Longrightarrow> inv' t \<Longrightarrow> agree S latest T latest' s t \<Longrightarrow> daemon_op S proper (OpRevoke e) s \<Longrightarrow>
      st_Revoke S s e = Inr s' \<Longrightarrow> \<exists>t'. st_Revoke T t e = Inr t' \<and> st_CurrentSeq T t (Key (re_subject e)) = Inr (re_seq e - 1)"
    and agent_total: "st_PutAgent S s a = Inr s' \<Longrightarrow> \<exists>b t'. a = Some b \<and> st_PutAgent T t a = Inr t'"
begin

abbreviation sim :: "'s \<Rightarrow> 't \<Rightarrow> bool" where
  "sim s t \<equiv> inv s \<and> inv' t \<and> agree S latest T latest' s t"

lemma sim_put:
  assumes "sim s t" and "apply_op S (OpPut now r) s = Some s'" and inj: "inj_on (ComputeCID C) (stored_bytes S s \<union> {r})"
  shows "\<exists>t'. apply_op T (OpPut now r) t = Some t' \<and> sim s' t' \<and> stored_bytes S s' \<subseteq> stored_bytes S s \<union> {r}"
proof -
  from assms(2) obtain cid where s': "st_PutCredential S now s r = Inr (cid, s')" by (auto split: sum.splits)
  from put_total [of now r t] obtain cid' t' where t': "st_PutCredential T now t r = Inr (cid', t')" "apply_op T (OpPut now r) t = Some t'"
    by (auto split: sum.splits)
  have i: "inv s" "inv' t" and g: "\<And>c r. st_Get S s c = Inr r \<longleftrightarrow> st_Get T t c = Inr r" using assms(1) by (auto simp: agree_def)
  have cid: "cid = ComputeCID C r" "cid' = cid" using A.put_cid [OF i(1) s'] B.put_cid [OF i(2) t'(1)] by simp_all
  have same: "x = r" if "st_Get S s cid = Inr x" for x
    using inj_onD [OF inj, of x r] A.get_content [OF i(1) that] that cid(1) by (auto simp: stored_bytes_def)
  have gs: "st_Get S s' cid = Inr r" using A.put_get [OF i(1) s'] same by auto
  have gt: "st_Get T t' cid = Inr r" using B.put_get [OF i(2) t'(1)] same g cid(2) by auto
  have other: "st_Get S s' c = st_Get S s c" "st_Get T t' c = st_Get T t c" if "c \<noteq> cid" for c
    using A.put_get [OF i(1) s'] B.put_get [OF i(2) t'(1)] that cid(2) by auto
  have "st_Get S s' c = Inr x \<longleftrightarrow> st_Get T t' c = Inr x" for c x
    using gs gt other [of c] g by (cases "c = cid") auto
  moreover have "stored_bytes S s' \<subseteq> stored_bytes S s \<union> {r}"
  proof
    fix x assume "x \<in> stored_bytes S s'"
    then obtain c where "st_Get S s' c = Inr x" by (auto simp: stored_bytes_def)
    with gs other(1) [of c] show "x \<in> stored_bytes S s \<union> {r}" by (cases "c = cid") (auto simp: stored_bytes_def)
  qed
  ultimately show ?thesis
    using assms(1) A.put_frame [OF i(1) s'] B.put_frame [OF i(2) t'(1)] A.put_inv [OF i(1) s'] B.put_inv [OF i(2) t'(1)] t'(2)
    by (auto simp: agree_def agent_answer_eq)
qed

lemma sim_register:
  assumes "sim s t" and "apply_op S (OpRegister c ch) s = Some s'"
  shows "\<exists>t'. apply_op T (OpRegister c ch) t = Some t' \<and> sim s' t' \<and> stored_bytes S s' = stored_bytes S s"
proof -
  from assms(2) have s': "st_Register S s c ch = Inr s'" by (auto split: sum.splits)
  from register_total [of c ch t] obtain t' where t': "st_Register T t c ch = Inr t'" by (auto split: sum.splits)
  have i: "inv s" "inv' t" using assms(1) by auto
  have "st_Contains S s' d x \<longleftrightarrow> st_Contains T t' d x" for d x
    using A.register_contains [OF i(1) s'] B.register_contains [OF i(2) t'] assms(1) by (simp add: agree_def)
  then have "st_Contains S s' = st_Contains T t'" by (simp add: fun_eq_iff)
  then show ?thesis
    using assms(1) A.register_frame [OF i(1) s'] B.register_frame [OF i(2) t'] A.register_inv [OF i(1) s'] B.register_inv [OF i(2) t'] t'
    by (auto simp: agree_def stored_bytes_def agent_answer_eq)
qed

lemma sim_revoke:
  assumes "sim s t" and "apply_op S (OpRevoke e) s = Some s'" and "daemon_op S proper (OpRevoke e) s"
  shows "\<exists>t'. apply_op T (OpRevoke e) t = Some t' \<and> sim s' t' \<and> stored_bytes S s' = stored_bytes S s
    \<and> daemon_op T proper' (OpRevoke e) t"
proof -
  from assms(2) have s': "st_Revoke S s e = Inr s'" by (auto split: sum.splits)
  from revoke_total [OF _ _ _ assms(3) s'] assms(1) obtain t' where
    t': "st_Revoke T t e = Inr t'" "st_CurrentSeq T t (Key (re_subject e)) = Inr (re_seq e - 1)" by blast
  have i: "inv s" "inv' t" using assms(1) by auto
  have p: "proper (re_subject e)" "proper' (re_subject e)" using assms(3) proper_weaker by simp_all
  have sq: "st_CurrentSeq S s (Key (re_subject e)) = Inr (re_seq e - 1)" "re_seq e = re_seq e - 1 + 1" using assms(3) by simp_all
  have "latest s' k = latest' t' k" if "k \<noteq> []" for k
    using A.revoke_latest [OF i(1) s' p(1) sq that] B.revoke_latest [OF i(2) t'(1) p(2) t'(2) sq(2) that] assms(1) that
    by (auto simp: agree_def)
  then show ?thesis
    using assms(1) A.revoke_frame [OF i(1) s'] B.revoke_frame [OF i(2) t'(1)] A.revoke_inv [OF i(1) s' p(1) sq]
      B.revoke_inv [OF i(2) t'(1) p(2) t'(2) sq(2)] t' p(2)
    by (auto simp: agree_def stored_bytes_def agent_answer_eq)
qed

lemma sim_agent:
  assumes "sim s t" and "apply_op S (OpAgent oa) s = Some s'" and "daemon_op S proper (OpAgent oa) s"
  shows "\<exists>t'. apply_op T (OpAgent oa) t = Some t' \<and> sim s' t' \<and> stored_bytes S s' = stored_bytes S s
    \<and> daemon_op T proper' (OpAgent oa) t"
proof -
  from assms(2) have s': "st_PutAgent S s oa = Inr s'" by (auto split: sum.splits)
  from agent_total [OF this, of t] obtain b t' where b: "oa = Some b" and t': "st_PutAgent T t oa = Inr t'" by blast
  have i: "inv s" "inv' t" using assms(1) by auto
  have a: "agent_answer S s = agent_answer T t" using assms(1) by (simp add: agree_def)
  have ds: "with_origin c b = b" if "st_GetAgent S s (ag_did b) = Inr c" for c using assms(3) that by (simp add: b)
  have dt: "with_origin c b = b" if c: "st_GetAgent T t (ag_did b) = Inr c" for c
  proof -
    have "agent_answer S s (ag_did b) = Some (agent_view c)" using c a by (simp add: agent_answer_Some)
    then obtain c' where "st_GetAgent S s (ag_did b) = Inr c'" "agent_view c' = agent_view c" by (auto simp: agent_answer_Some)
    with ds show ?thesis by (auto simp: agent_view_def with_origin_def)
  qed
  note gs = A.agent_get [OF i(1) s' [unfolded b]] and gt = B.agent_get [OF i(2) t' [unfolded b]]
  have "agent_answer S s' d = agent_answer T t' d" for d
  proof (cases "d = ag_did b")
    case True
    have "agent_answer S s' d = Some (agent_view b)" "agent_answer T t' d = Some (agent_view b)"
      using gs gt ds dt by (auto simp: agent_answer_Some True)
    then show ?thesis by simp
  next
    case False
    with gs gt fun_cong [OF a, of d] show ?thesis by (simp add: agent_answer_def)
  qed
  then have "agent_answer S s' = agent_answer T t'" by (simp add: fun_eq_iff)
  then show ?thesis
    using assms(1) A.agent_frame [OF i(1) s'] B.agent_frame [OF i(2) t'] A.agent_inv [OF i(1) s'] B.agent_inv [OF i(2) t'] t' dt
    by (auto simp: agree_def stored_bytes_def b)
qed

text \<open>Any successful history of the one backend is a history of the other.\<close>

lemma sim_ops:
  "sim s t \<Longrightarrow> apply_ops S proper ops s = Some s' \<Longrightarrow> inj_on (ComputeCID C) (stored_bytes S s \<union> (\<Union>op \<in> set ops. put_bytes op)) \<Longrightarrow>
    \<exists>t'. apply_ops T proper' ops t = Some t' \<and> sim s' t'"
proof (induction ops arbitrary: s t)
  case (Cons op ops)
  from Cons.prems(2) obtain s1 where s1: "daemon_op S proper op s" "apply_op S op s = Some s1" "apply_ops S proper ops s1 = Some s'"
    by (auto split: if_splits bind_splits)
  have one: "\<exists>t1. apply_op T op t = Some t1 \<and> sim s1 t1 \<and> stored_bytes S s1 \<subseteq> stored_bytes S s \<union> put_bytes op \<and> daemon_op T proper' op t"
  proof (cases op)
    case (OpPut now r)
    from inj_on_subset [OF Cons.prems(3)] have "inj_on (ComputeCID C) (stored_bytes S s \<union> {r})" by (rule) (auto simp: OpPut)
    from sim_put [OF Cons.prems(1) s1(2) [unfolded OpPut] this] show ?thesis by (auto simp: OpPut)
  next
    case (OpRegister c ch)
    from sim_register [OF Cons.prems(1) s1(2) [unfolded OpRegister]] show ?thesis by (auto simp: OpRegister)
  next
    case (OpRevoke e)
    from sim_revoke [OF Cons.prems(1) s1(2,1) [unfolded OpRevoke]] show ?thesis by (auto simp: OpRevoke)
  next
    case (OpAgent a)
    from sim_agent [OF Cons.prems(1) s1(2,1) [unfolded OpAgent]] show ?thesis by (auto simp: OpAgent)
  qed
  then obtain t1 where t1: "apply_op T op t = Some t1" "sim s1 t1" "stored_bytes S s1 \<subseteq> stored_bytes S s \<union> put_bytes op" "daemon_op T proper' op t"
    by blast
  have "inj_on (ComputeCID C) (stored_bytes S s1 \<union> (\<Union>op \<in> set ops. put_bytes op))"
    by (rule inj_on_subset [OF Cons.prems(3)]) (use t1(3) in auto)
  from Cons.IH [OF t1(2) s1(3) this] t1(1,4) show ?case by auto
qed simp

end

end
