(* ===== verification/Postgres.thy ===== *)
theory Postgres
  imports Postgres_Contract Postgres_Keys Postgres_Chain Two_Stores Memory_Store Daemon_Boot
begin

text \<open>
  The PostgreSQL backend as a whole: opening it with its schema check, the backend the daemon boots over, and
  the theorem that it refines the in-memory backend.
\<close>

subsection \<open>Opening the database\<close>

definition expectedSchemaVersion :: int where "expectedSchemaVersion = 2"

record pg_database =
  db_reachable :: bool
  db_migrates :: bool
  db_versions :: "int list"
  db_store :: pg_store
  db_keys :: pg_keys
  db_audit :: pg_audit

text \<open>The two statements of \<open>schema.sql\<close> on the table of versions.\<close>

definition migrate_versions :: "int list \<Rightarrow> int list" where
  "migrate_versions vs = (let vs = (if vs = [] then [1] else vs) in if 2 \<in> set vs then vs else vs @ [2])"

definition NewPostgresStore :: "pg_database \<Rightarrow> store_error + pg_database" where
  "NewPostgresStore db =
     (if \<not> db_reachable db then Inl ErrStoreBackend
      else if \<not> db_migrates db then Inl ErrStoreBackend
      else let vs = migrate_versions (db_versions db) in
        if Max (set vs) > expectedSchemaVersion then Inl ErrSchemaVersion
        else Inr (db\<lparr>db_versions := vs\<rparr>))"

definition postgres_backend :: "crypto \<Rightarrow> pg_database \<Rightarrow> (pg_store, pg_audit, pg_keys) opened" where
  "postgres_backend C db = \<lparr>op_Store = postgres_store C, op_Append = PostgresLog_Append C, op_Keys = postgres_keystore,
     op_store = db_store db, op_log = db_audit db, op_keys = db_keys db\<rparr>"

lemma migrate_nonempty: "migrate_versions vs \<noteq> []" and migrate_two: "2 \<in> set (migrate_versions vs)"
  by (auto simp: migrate_versions_def Let_def)

lemma migrate_idem: "migrate_versions (migrate_versions vs) = migrate_versions vs"
  using migrate_nonempty [of vs] migrate_two [of vs] by (simp add: migrate_versions_def [of "migrate_versions vs"])

lemma NewPostgresStore_ok:
  assumes "NewPostgresStore db = Inr db'"
  shows "Max (set (db_versions db')) = 2" and "NewPostgresStore db' = Inr db'"
proof -
  from assms have d: "db_reachable db" "db_migrates db" "\<not> Max (set (migrate_versions (db_versions db))) > 2"
    "db' = db\<lparr>db_versions := migrate_versions (db_versions db)\<rparr>"
    by (auto simp: NewPostgresStore_def expectedSchemaVersion_def Let_def split: if_splits)
  have "2 \<le> Max (set (migrate_versions (db_versions db)))" by (rule Max_ge) (simp_all add: migrate_two)
  with d(3,4) show "Max (set (db_versions db')) = 2" by simp
  show "NewPostgresStore db' = Inr db'"
    using d by (simp add: NewPostgresStore_def expectedSchemaVersion_def Let_def migrate_idem)
qed

subsection \<open>Refinement of the memory backend\<close>

lemma memory_revokes:
  assumes "agree (postgres_store C) pg_latest (memory_store C) (\<lambda>s. rc_entries (ms_revocations s)) s m" and "pg_inv C s"
    and "daemon_op (postgres_store C) proper_subject (OpRevoke e) s" and "st_Revoke (postgres_store C) s e = Inr s'"
  shows "\<exists>m'. st_Revoke (memory_store C) m e = Inr m' \<and> st_CurrentSeq (memory_store C) m (Key (re_subject e)) = Inr (re_seq e - 1)"
proof -
  let ?k = "Key (re_subject e)"
  from assms(3) have q: "PostgresStore_CurrentSeq s ?k = Inr (re_seq e - 1)" by simp
  have k: "?k \<noteq> []" using pg.revoke_subject [OF assms(2,4)] .
  have self: "VerifyEntrySelfSignature C e = Inr ()"
    using assms(4) by (auto simp: PostgresStore_Revoke_def Let_def err_simps split: if_splits)
  have ent: "rc_entries (ms_revocations m) ?k = pg_latest s ?k" using assms(1) k by (simp add: agree_def)
  have sq: "re_seq e - 1 = (case pg_latest s ?k of None \<Rightarrow> 0 | Some x \<Rightarrow> re_seq x)"
    using pg.seq_latest [OF assms(2) k] q by simp
  obtain hash where low:
    "slt (max_seq (filter (\<lambda>r. rr_cid r = sub_cid (re_subject e) \<and> rr_did r = sub_did (re_subject e)) (pg_revocations s))) (re_seq e)"
    using assms(4) by (auto elim: revoke_cases)
  have rows: "max_seq (rows_for s ?k) = re_seq e - 1" using q by (simp add: PostgresStore_CurrentSeq_def split: if_splits)
  have "slt (re_seq e - 1) (re_seq e)" by (rule next_seq_greater [OF assms(2) low rows])
  then have "\<not> stale (ms_revocations m) e" using sq by (auto simp: stale_def ent split: option.splits)
  with self k show ?thesis
    using sq by (simp add: MemoryStore_Revoke_def Revoke_def MemoryStore_CurrentSeq_def CurrentSeq_def ent)
qed

interpretation pg_over_memory: two_stores "postgres_store C" C "pg_inv C" pg_latest proper_subject
    "memory_store C" "store_inv C" "\<lambda>s. rc_entries (ms_revocations s)" "\<lambda>_. True" for C
proof
  fix s s' :: pg_store and t :: mem_store and e :: rev_entry and a :: "agent option"
  show "\<exists>t'. apply_op (memory_store C) (OpPut now r) t = Some t'" for now r
    by (cases "PutCredential C t r") simp
  show "\<exists>t'. apply_op (memory_store C) (OpRegister c ch) t = Some t'" for c ch by simp
  show "pg_inv C s \<Longrightarrow> agree (postgres_store C) pg_latest (memory_store C) (\<lambda>s. rc_entries (ms_revocations s)) s t \<Longrightarrow>
      daemon_op (postgres_store C) proper_subject (OpRevoke e) s \<Longrightarrow> st_Revoke (postgres_store C) s e = Inr s' \<Longrightarrow>
      \<exists>t'. st_Revoke (memory_store C) t e = Inr t' \<and> st_CurrentSeq (memory_store C) t (Key (re_subject e)) = Inr (re_seq e - 1)"
    by (rule memory_revokes)
  show "st_PutAgent (postgres_store C) s a = Inr s' \<Longrightarrow> \<exists>b t'. a = Some b \<and> st_PutAgent (memory_store C) t a = Inr t'"
    by (cases a) (auto simp: PostgresStore_PutAgent_def PutAgent_def split: if_splits)
qed simp_all

end
