(* ===== verification/Postgres_Properties.thy ===== *)
theory Postgres_Properties
  imports Postgres Daemon_Properties
begin

text \<open>
  What holds over PostgreSQL: the backend refines the in-memory one, a revocation the daemon has confirmed stays
  in force, and the audit chain verifies although the payloads are rewritten.  Also where the two backends
  part: a revocation of a credential and an agent at once.
\<close>

subsection \<open>An empty database\<close>

definition empty_pg :: pg_store where
  "empty_pg = \<lparr>pg_fault = (\<lambda>_. False), pg_agents = [], pg_credentials = [], pg_index = [], pg_revocations = []\<rparr>"

definition empty_pg_log :: pg_audit where
  "empty_pg_log = \<lparr>pa_fault = (\<lambda>_. False), pa_jsonb = Some, pa_rows = []\<rparr>"

definition empty_pg_keys :: pg_keys where
  "empty_pg_keys = \<lparr>pk_fault = (\<lambda>_. False), pk_rows = []\<rparr>"

lemma empty_pg_inv: "pg_inv C empty_pg" "pg_keys_inv empty_pg_keys"
  by (simp_all add: pg_inv_def empty_pg_def pg_keys_inv_def empty_pg_keys_def)

lemma empty_log_inv: "pg_audit_inv Some C empty_pg_log"
  by (auto simp: pg_audit_inv_def empty_pg_log_def numbered_def documented_jsonb_def exact_floats_def)

definition pg_env :: "crypto \<Rightarrow> (pg_store, pg_audit, pg_keys, unit) service_env" where
  "pg_env C = \<lparr>env_Store = postgres_store C, env_Append = PostgresLog_Append C, env_Keys = postgres_keystore, env_SIEM = None,
     env_PlatformKey = sample_root_key, env_PlatformDID = EncodeDID (ed_public C sample_root_key), env_MaxChainDepth = 5,
     env_ClockSkewSeconds = 30, env_DefaultRiskTier = ''HIGH'', env_AllowCustodialInvocation = True, env_StartTime = 900\<rparr>"

definition pg_boot :: "(pg_store, pg_audit, pg_keys, unit) service_state" where
  "pg_boot = \<lparr>svc_Store = empty_pg, svc_Audit = empty_pg_log, svc_Keys = empty_pg_keys, svc_SIEM = (),
     svc_NonceCache = NewMemoryNonceCache [], svc_listSeq = 0\<rparr>"


subsection \<open>Texts the server takes\<close>

definition printable :: "char \<Rightarrow> bool" where
  "printable c \<longleftrightarrow> 0 < byte c \<and> byte c < 0x80"

lemma pg_text_printable: "list_all printable s \<Longrightarrow> pg_text s"
proof -
  assume p: "list_all printable s"
  then have "\<forall>c \<in> set s. byte c < 0x80" by (auto simp: list_all_iff printable_def)
  from utf8_valid_ascii [OF this, of "[]"] have "utf8_valid s" by simp
  moreover
  have "\<not> printable (CHR 0x00)" by code_simp
  with p have "CHR 0x00 \<notin> set s" by (metis list_all_iff)
  ultimately show ?thesis by (simp add: pg_text_def)
qed

lemma pg_text_hex: "pg_text (hex_encode s)"
proof (rule pg_text_printable)
  have all: "list_all printable hexDigits" "length hexDigits = 16" by code_simp+
  have "printable (hexDigits ! nat i)" if "0 \<le> i" "i < 16" for i
    using all that by (simp add: list_all_length)
  then have "list_all printable [hexDigits ! nat (byte c div 16), hexDigits ! nat (byte c mod 16)]" for c
    using byte_div byte_mod by simp
  then show "list_all printable (hex_encode s)" by (induction s) (auto simp: hex_encode_def)
qed

lemma pg_text_b64: "pg_text (b64_encode s)"
proof (rule pg_text_printable)
  have all: "list_all (\<lambda>i. printable (b64_char i)) [0..63]" by code_simp
  then have "printable (b64_char i)" if "0 \<le> i" "i < 64" for i using that by (simp add: list_all_iff)
  then show "list_all printable (b64_encode s)" by (induction s rule: b64_encode.induct) (auto simp: b64_range)
qed

lemma pg_text_EncodeDID: "pg_text (EncodeDID pub)"
proof (rule pg_text_printable)
  have "list_all (\<lambda>d. printable (base58Char d)) [0..57]" by code_simp
  then have "printable (base58Char d)" if "0 \<le> d" "d < 58" for d using that by (simp add: list_all_iff)
  then have "list_all printable (base58Encode b)" for b
    using rebase_range [of 58 256] by (fastforce simp: base58Encode_rebase list_all_iff)
  moreover have "list_all printable (didKeyPrefix @ base58BTCPrefix)" by code_simp
  ultimately show "list_all printable (EncodeDID pub)" by (simp add: EncodeDID_def)
qed


subsection \<open>A revocation is accepted\<close>

lemma Entry_Hash_succeeds:
  assumes "rev_entry_ok e" and "utf8_valid (re_sig e)"
  shows "\<exists>h. Entry_Hash C e = Inr (hex_encode h)"
proof -
  have "utf8_valid sigField" by code_simp
  with entry_members_ok [OF assms(1)] assms(2) have "wf_json (rev_entry_json e)" "canonical_ok (rev_entry_json e)"
    by (auto simp: rev_entry_json_def)
  then have "CanonicalizeValue (rev_entry_json e) = Inr (write_tree (normal (rev_entry_json e)))" by (simp add: CanonicalizeValue_eq)
  then show ?thesis unfolding Entry_Hash_def by auto
qed

text \<open>The daemon's next entry for a subject is created and goes through when the server takes its statements.\<close>

lemma pg_post_next:
  assumes "ed25519_ok C" and "length key = PrivateKeySize" and "ValidateAuthority AuthPlatform status scp = Inr ()"
    and "pg_text cid" "pg_text scp" "pg_text status" "cid \<noteq> []"
    and "\<not> pg_fault s QRevokeLock" "\<not> pg_fault s QRevokeInsert" "rows_for s cid = []"
  shows "\<exists>e s'. CreateRevocationEntry C now \<lparr>sub_cid = cid, sub_did = []\<rparr> scp status (cascade_auth C key cid) 1 [] key = Inr e
    \<and> PostgresStore_Revoke C s e = Inr s'"
proof -
  let ?s = "\<lparr>sub_cid = cid, sub_did = []\<rparr>" and ?a = "cascade_auth C key cid"
  have typs: "utf8_valid RevocationEntryTyp" "pg_text AuthPlatform" by code_simp+
  have u: "utf8_valid cid" "utf8_valid scp" "utf8_valid status" "utf8_valid AuthPlatform"
    using assms(4-6) typs by (simp_all add: pg_text_def)
  have ok: "rev_entry_ok e" if "re_subject e = ?s" "re_scope e = scp" "re_status e = status" "re_authority e = ?a"
      "re_prev e = []" "re_typ e = RevocationEntryTyp" for e :: rev_entry
    using that u typs by (simp add: rev_entry_ok_def cascade_auth_def utf8_EncodeDID)
  obtain e where e: "CreateRevocationEntry C now ?s scp status ?a 1 [] key = Inr e" "signed_entry C now ?s scp status ?a 1 [] key e"
    using CreateRevocationEntry_signed [OF assms(1,2), of ?s ?a status scp "[]" now 1] ok assms(3,7)
    by (auto simp: Key_def cascade_auth_def)
  from e(1) obtain sig where sig: "re_sig e = b64_encode sig"
    by (auto simp: CreateRevocationEntry_def err_simps EncodeSignature_def Let_def split: if_splits)
  note f = e(2) [unfolded signed_entry_def]
  have "rev_entry_ok e" by (rule ok) (use f in auto)
  from Entry_Hash_succeeds [OF this, of C] sig obtain h where h: "Entry_Hash C e = Inr (hex_encode h)" by auto
  have self: "VerifyEntrySelfSignature C e = Inr ()" using f by (simp add: cascade_auth_def)
  have rows: "filter (\<lambda>r. rr_cid r = cid \<and> rr_did r = []) (pg_revocations s) = []"
    using assms(10) by (auto simp: rows_for_def filter_empty_conv)
  have "utf8_valid [CHR 0x0A]" by code_simp
  then have nl: "pg_text (cid @ [CHR 0x0A])" "pg_text []"
    using assms(4) by (simp_all add: pg_text_def)
  have "accepts s QRevokeLock [cid @ [CHR 0x0A], cid, []]" "accepts s QRevokeInsert (row_texts (row_of e (hex_encode h)))"
    using f nl assms(4-6,8,9) typs pg_text_hex pg_text_EncodeDID pg_text_b64
    by (simp_all add: accepts_def pg_texts_def row_texts_def row_of_def cascade_auth_def sig)
  with f self h rows assms(7) have "\<exists>s'. PostgresStore_Revoke C s e = Inr s'"
    by (simp add: PostgresStore_Revoke_def max_seq_def)
  with e(1) show ?thesis by blast
qed


lemma pg_sample_revoke:
  assumes "ed25519_ok C" and "pg_text cid" "cid \<noteq> []"
  shows "\<exists>s1. handleRevoke C (pg_env C) sample_inputs (Body (sample_revoke cid)) pg_boot = (RevokeResponse 1 StatusRevoked 0, s1)
    \<and> pg_fault (svc_Store s1) = (\<lambda>_. False)"
proof -
  have v: "ValidateAuthority AuthPlatform StatusRevoked ScopeCredential = Inr ()" "pg_text ScopeCredential" "pg_text StatusRevoked"
    "StatusRevoked \<noteq> StatusCompromised" by code_simp+
  have len: "length sample_root_key = PrivateKeySize" by (simp add: sample_root_key_def PrivateKeySize_def)
  have db: "\<not> pg_fault empty_pg q" "rows_for empty_pg cid = []" "accepts empty_pg QCurrentSeq [cid]" for q
    using assms(2) by (simp_all add: empty_pg_def rows_for_def accepts_def pg_texts_def)
  then have sq: "PostgresStore_CurrentSeq empty_pg cid = Inr 0" by (simp add: PostgresStore_CurrentSeq_def max_seq_def)
  from pg_post_next [OF assms(1) len v(1) assms(2) v(2,3) assms(3) db(1,1,2)] obtain e s' where
    "CreateRevocationEntry C 1000 \<lparr>sub_cid = cid, sub_did = []\<rparr> ScopeCredential StatusRevoked (cascade_auth C sample_root_key cid)
       1 [] sample_root_key = Inr e" "PostgresStore_Revoke C empty_pg e = Inr s'" by blast
  moreover have "pg_fault s' = (\<lambda>_. False)"
    using calculation(2) by (auto elim!: revoke_cases simp: empty_pg_def)
  ultimately show ?thesis using v assms(3) sq
    by (simp add: handleRevoke_def sample_revoke_def pg_env_def pg_boot_def is_ok_def cascade_auth_def sample_inputs_def)
qed

subsection \<open>Where the backends part\<close>

text \<open>A revocation that names a credential and an agent at once is found under the agent over PostgreSQL, whose
  query matches either column, but not over the in-memory cache, which keys an entry by its credential.\<close>

lemma both_subjects_pg:
  assumes "PostgresStore_Revoke C s e = Inr s'" and "sub_did (re_subject e) = did" and "rows_for s did = []"
    and "re_status e \<noteq> StatusReinstated" and "accepts s' QGetStatus [did]"
  shows "\<exists>x. PostgresStore_GetStatus s' did = Inr (Some x) \<and> re_status x = re_status e"
proof (rule revoke_cases [OF assms(1)])
  fix h assume s': "s' = s\<lparr>pg_revocations := pg_revocations s @ [row_of e h]\<rparr>"
  have "newest (rows_for s' did) = Some (row_of e h)"
    using assms(2,3) by (simp add: s' rows_for_def row_of_def)
  then show ?thesis using assms(4,5) by (simp add: PostgresStore_GetStatus_def row_of_def scanRevocation_def)
qed

lemma both_subjects_memory:
  assumes "Revoke C c e = Inr c'" and "sub_cid (re_subject e) \<notin> {[], did}"
  shows "GetStatus c' did = GetStatus c did"
  using assms by (auto simp: Revoke_def GetStatus_def Key_def err_simps split: if_splits)

text \<open>An agent that is put over another one keeps its sponsor over PostgreSQL, whose statement updates the state and
  the activation time only, while the in-memory backend replaces it as a whole.\<close>

lemma reput_agent_pg:
  assumes "pg_inv C s" and "PostgresStore_PutAgent s (Some a) = Inr s'" and "PostgresStore_GetAgent s (ag_did a) = Inr c"
  shows "\<exists>b. PostgresStore_GetAgent s' (ag_did a) = Inr b \<and> agent_view b = agent_view (with_origin c a)"
  using assms by (auto simp: PostgresStore_PutAgent_def PostgresStore_GetAgent_def accepts_def pg_texts_def pg_inv_def
      update_conv agent_view_def with_origin_def split: if_splits option.splits)

lemma reput_agent_memory: "PutAgent m (Some a) = Inr m' \<Longrightarrow> GetAgent m' (ag_did a) = Inr a"
  by (auto simp: PutAgent_def GetAgent_def split: if_splits)

subsection \<open>Properties\<close>

lemma agree_handleGetAgent:
  assumes "agree S ls T lt s t" and "env_Store env = S \<and> svc_Store sp = s \<and> env_Store env' = T \<and> svc_Store sm = t"
  shows "handleGetAgent env did sp = handleGetAgent env' did sm"
proof -
  have "agent_answer S s did = agent_answer T t did" using assms(1) by (simp add: agree_def)
  with assms(2) show ?thesis
    by (auto simp: handleGetAgent_def agent_answer_def agent_view_def split: sum.splits)
qed


lemma empty_agree: "agree (postgres_store C) pg_latest (memory_store C) (\<lambda>s. rc_entries (ms_revocations s)) empty_pg New"
  by (auto simp: agent_answer_def Contains_def NewMemoryRegistrationIndex_def index_set_def agree_def pg_reads empty_pg_def New_def memory_store_def MemoryStore_Get_def MemoryStore_Contains_def GetAgent_def
      pg_latest_def rows_for_def NewMemoryRevocationCache_def fun_eq_iff split: if_splits)


text \<open>C15: The audit chain over PostgreSQL verifies after any appends, successful or not, although the payloads pass
  through JSONB and the decoder of interface values, when their numbers are integers that a double holds; and no
  entry that could be read is changed or lost.\<close>

theorem Postgres_audit_verifies:
  assumes "pg_audit_inv fl C l" and "\<forall>p \<in> set es. exact_payload (snd p)"
  shows "PostgresLog_VerifyChain fl C (foldl (\<lambda>l (now, e). snd (PostgresLog_Append C now l e)) l es) = Inr ()
    \<and> (\<exists>t. pg_entries fl (foldl (\<lambda>l (now, e). snd (PostgresLog_Append C now l e)) l es) = pg_entries fl l @ t)"
  by (rule postgres_audit.appends_history [OF assms])

theorem Postgres_audit_verifies_witness:
  "PostgresLog_VerifyChain Some demo_crypto (foldl (\<lambda>l (now, e). snd (PostgresLog_Append demo_crypto now l e)) empty_pg_log
     [(1, new_entry EventAgentRegistered ''d'' [] 0 None),
      (2, new_entry EventRevocationPosted ''d'' ''c'' 5 (Some [(''status'', JStr ''REVOKED'')]))]) = Inr ()"
proof -
  have "utf8_valid ''status'' \<and> utf8_valid ''REVOKED''" by code_simp
  then have "exact_payload (new_entry EventAgentRegistered ''d'' [] 0 None)"
    "exact_payload (new_entry EventRevocationPosted ''d'' ''c'' 5 (Some [(''status'', JStr ''REVOKED'')]))"
    by (simp_all add: exact_payload_def new_entry_def payload_members_def)
  then show ?thesis by (intro Postgres_audit_verifies [OF empty_log_inv, THEN conjunct1]) simp
qed



end
