(* ===== verification/Spec2Isabelle.thy ===== *)
theory Spec2Isabelle
  imports Verifier_Denial Siem_Loop Lifecycle Capability Cascade Audit_Log Daemon_Properties
    Daemon_Process Jwks_Cache Oidc_Gate Postgres_Properties
begin

text \<open>
  A verification library of ADTP, the agent delegation and trust protocol, and of its daemon \<open>adtpd\<close>.

  \<^bold>\<open>The program.\<close>  A platform issues signed capability tokens (UCANs) to agents; an agent narrows what it holds
  for another one by RESTRICT blocks that link to their parent by content identifier; a verifier decides whether
  an invocation, signed by the holder of the last link, is authorized by the chain.  Credentials and agents can be
  revoked, and a compromise cascades to everything derived from a credential.  The daemon offers this over HTTP on
  a storage backend (in memory or PostgreSQL), keeps a hash-linked audit log, exports it to a webhook, and
  authenticates its callers by API keys or OpenID Connect.  The library models \<open>internal/\<close>, \<open>api/v1\<close>,
  \<open>store/\<close>, \<open>config\<close>, \<open>cmd/adtpd\<close> and \<open>pkg/adtp\<close>.

  \<^bold>\<open>Theories and sources.\<close>  In the order of their dependencies:

  \<^item> \<open>ADTP_Prelude\<close>, \<open>ADTP_Errors\<close>: results as sums, the collections \<open>err_simps\<close>, \<open>uri_simps\<close> and \<open>step_simps\<close>,
    sorting, and the error sentinels, one datatype per package.
  \<^item> \<open>Go_Text\<close>, \<open>Go_Int\<close>, \<open>Go_Unicode\<close>, \<open>Go_Json\<close>, \<open>Base64\<close>: what the code uses of Go's standard library, from
    its documented behaviour: byte strings, \<open>int64\<close> as 64-bit words read by \<open>sint\<close>, UTF-8 and UTF-16, the token
    reader and the encoder of \<open>encoding/json\<close>, unpadded base64url.
  \<^item> \<open>JCS\<close>, \<open>Json_Roundtrip\<close>, \<open>JCS_Canonical\<close>, \<open>Json_Struct\<close>, \<open>Signing\<close>: \<open>internal/signing\<close> (\<open>jcs.go\<close>, \<open>sign.go\<close>)
    and decoding into structs.
  \<^item> \<open>Identity\<close>: \<open>internal/identity\<close>.  \<open>Capability_URI\<close>, \<open>Capability\<close>, \<open>CID\<close>, \<open>Restrict\<close>, \<open>UCAN\<close>:
    \<open>internal/credential\<close>.  \<open>Delegation\<close>: \<open>internal/delegation\<close>.  \<open>Audit_Log\<close>: \<open>internal/audit\<close>.
    \<open>Lifecycle\<close>: \<open>internal/lifecycle\<close>.  \<open>Revocation\<close>, \<open>Cascade\<close>: \<open>internal/revocation\<close>.
  \<^item> \<open>Verify_Errors\<close>, \<open>Proof_of_Possession\<close>, \<open>Verify_Steps\<close>, \<open>Verifier\<close>: \<open>internal/verify\<close>, one definition per step
    \<open>step0Structural\<close> to \<open>step12Audit\<close>, composed by \<open>Verify_request\<close>; \<open>Verifier_Safety\<close> and \<open>Verifier_Denial\<close> hold
    what it guarantees.
  \<^item> \<open>Siem_Export\<close>, \<open>Siem_Loop\<close>: \<open>internal/siem\<close>, the bounded buffer and the flush loop as state machines.
  \<^item> \<open>Store\<close>, \<open>Memory_Store\<close>: \<open>store/store.go\<close> and \<open>store/memory\<close>.  \<open>API_Contract\<close>: \<open>pkg/adtp\<close>.
  \<^item> \<open>Service\<close>, \<open>Router\<close>: \<open>api/v1/handlers.go\<close>, \<open>api.go\<close>, \<open>middleware.go\<close>, one definition per handler and
    middleware over any backend; \<open>Service_Runs\<close> and \<open>Service_Safety\<close> follow requests on any backend,
    \<open>Daemon_Flows\<close>, \<open>Daemon_Invariant\<close>, \<open>Daemon_Custody\<close>, \<open>Daemon_Samples\<close> and \<open>Daemon_Properties\<close> on the
    in-memory one.
  \<^item> \<open>Oidc\<close>, \<open>Jwks_Cache\<close>, \<open>Oidc_Gate\<close>: \<open>api/v1/oidc.go\<close>, token verification, the shared fetch of the signing keys
    by concurrent callers, and both in front of the handlers.
  \<^item> \<open>Config\<close>, \<open>Daemon_Boot\<close>, \<open>Boot_Properties\<close>, \<open>Daemon_Process\<close>: \<open>config/config.go\<close> and \<open>cmd/adtpd/main.go\<close>, from
    the configuration and the files to the running process.
  \<^item> \<open>Postgres_Store\<close>, \<open>Postgres_Contract\<close>, \<open>Postgres_Keys\<close>, \<open>Postgres_Audit\<close>, \<open>Postgres_Chain\<close>, \<open>Two_Stores\<close>,
    \<open>Postgres\<close>, \<open>Postgres_Properties\<close>: \<open>store/postgres\<close>, its laws, and its refinement of the in-memory backend.

  \<^bold>\<open>State.\<close>  A struct is a record and a method a function that returns the updated record: \<open>rev_cache\<close>,
  \<open>reg_index\<close>, \<open>audit_log\<close>, \<open>nonce_cache\<close>, \<open>key_store\<close>, \<open>mem_store\<close>, \<open>exporter\<close>, \<open>pg_store\<close>.  A Go interface is a
  record of operations (\<open>store\<close>, \<open>keys\<close>) or function arguments.  The daemon's changing state is
  \<open>service_state\<close>, what it is configured with \<open>service_env\<close>, and one request's readings of the clock, random draws
  and map orders are \<open>inputs\<close>.

  \<^bold>\<open>Interfaces.\<close>  Each contract between components is a locale, proved of the definitions of the code:
  \<open>key_store_interface\<close> (in-memory and PostgreSQL keys), \<open>proof_store_interface\<close>, \<open>nonce_cache_interface\<close>,
  \<open>audit_log_interface\<close> (the in-memory log and, up to JSON normalization of payloads, the PostgreSQL one),
  \<open>revocation_service\<close> with its extension \<open>accepting_service\<close>, \<open>registration_index\<close>, \<open>string_writer\<close>,
  \<open>strict_linear\<close>, \<open>store_contract\<close> (what the daemon relies on of a backend; interpreted for both backends, so what
  is proved of handlers once holds over either) and \<open>two_stores\<close> (when one backend refines another).

  \<^bold>\<open>What the lemmas show.\<close>
  \<^item> Texts: canonical JSON is the text of a normal form, is accepted exactly for I-JSON documents and returns on every
    input; equal signing inputs mean equal content; URI coverage is segment-wise coverage of canonical forms;
    identifiers, tokens and blocks round-trip.
  \<^item> Chains: \<open>BuildChain\<close> returns exactly the proof paths within the caps; a hop narrows what step 8 grants by
    exactly its caveats, and windows and depth with it.
  \<^item> Decisions: the thirteen steps accept exactly what a declarative specification (\<open>authorized\<close>) authorizes; an
    invocation is used once; every verdict appends one entry to the audit log that tells it; refusals carry the code of their step; revocations and
    cascades deny.
  \<^item> The daemon: its verification endpoint decides that specification with the platform as the only root; its
    invariant holds from boot through any interleaving of requests, reconciliations, exports and shutdown; a
    confirmed revocation is enforced; nothing protected changes without a credential; under OpenID Connect the
    sponsor of an agent is the subject of a valid token.
  \<^item> Backends: PostgreSQL refines the in-memory backend in credentials, registrations, latest revocation entries and
    what is told of agents, for the changes the daemon makes (outside them the backends part, as
    \<open>reput_agent_pg\<close> and \<open>both_subjects_pg\<close> show); it keeps revocations, and its audit chain verifies.
  \<^item> Concurrency: callers of the key cache share one fetch and none is left waiting; the exporter's buffer is bounded,
    and its last flush starts with everything that was pending, so that nothing is lost when the sink takes it.
  The theorems numbered C1 to C40 are the properties; each that has a hypothesis is applied at concrete inputs by a
  witness.  \<open>demo_crypto\<close> and \<open>brace_crypto\<close> are concrete functions that meet the assumptions on Ed25519 and SHA-256.

  \<^bold>\<open>Bounds and fuel.\<close>  The recursive-descent readers take fuel; \<open>value_fuel\<close> and \<open>3 * length s + 1\<close> suffice for every
  input, since each token shortens it (\<open>canonicalizeValue_terminates\<close>, \<open>tree_value_total\<close>).  \<open>buildLoop\<close> takes the
  depth cap as fuel, which the code checks itself, and \<open>BuildChain_refines_path\<close> says it returns on every store.
  Other loops are structural or have a measure.  Sequence numbers, times and limits are 64-bit words; where a
  theorem speaks of true integers it says so and excludes or includes the overflow.  \<open>batch_ok\<close> bounds the batch size
  by \<open>2 ^ 59\<close>, beyond which the cap of the buffer wraps; \<open>plausible_clock\<close> bounds the clock by \<open>2 ^ 62\<close> seconds;
  \<open>pg_max_rows\<close> is the number of rows a table can hold.

  \<^bold>\<open>Parameters.\<close>  Code that is not in the repository is an argument: Ed25519 and SHA-256 (record \<open>crypto\<close>, with
  \<open>ed25519_ok\<close> and \<open>sha256_ok\<close> as what is relied on; collisions appear as alternatives of conclusions), RSA
  verification, YAML decoding, \<open>url.Parse\<close>, \<open>time.ParseDuration\<close>, \<open>ed25519.NewKeyFromSeed\<close>, the token bucket, the
  conversion of numbers through \<open>float64\<close>, and the server's \<open>jsonb\<close> (\<open>documented_jsonb\<close>).  The database server is
  its tables together with the statements it refuses, which stay the same during a history.

  \<^bold>\<open>Not modelled.\<close>  Logging, latency measurement and error messages (an error is its sentinel); sockets, TLS, flags
  and signals, which are events of \<open>Daemon_Process\<close>; HTTP syntax (a request is its method, path segments,
  authorization header and decoded body); HTTP clients (an exchange is its outcome); data races, as everything
  under a mutex or in a transaction is one step; a handler is one step, so two handlers do not interleave; readings of
  the clock that follow each other directly, as in \<open>CheckAndStore\<close>, which are one; different paths to one file, which
  are different files; paths that \<open>http.ServeMux\<close> would first clean by a redirect; rates that are no rational number
  or exceed the range of \<open>int\<close>; the panic of \<open>Enqueue\<close> for batch sizes above \<open>2 ^ 59\<close> inside a request; closing
  connections; examples, tests, deployment files and documents, which carry no logic of their own.
\<close>

end
